(* ===== verification/Prelude.thy ===== *)
theory Prelude
  imports Main "HOL-Library.Sublist" "HOL-Library.AList" "HOL-Library.Word"
begin

text \<open>
  The prelude of the development: the theorem collections the component theories fill, generic
  lemmas on lists and association lists, and the names of the types the components share.

  A Go map is an association list (\<open>gomap\<close>) with distinct keys. Its order stands for the order
  in which one execution of \<^verbatim>\<open>range\<close> visits the map: Go leaves that order open, so a
  theorem about all association lists covers every order. Updates and deletions are those of
  \<^verbatim>\<open>HOL-Library.AList\<close>.

  A Go error is the left side of a sum (\<open>error + value\<close>); a pair \<open>(v, false)\<close> or a nil is
  \<open>None\<close>. Times and durations are integers counting nanoseconds, as \<^verbatim>\<open>time.Duration\<close>
  does.
\<close>

named_theorems go_unfold \<open>definitions of small checks, for unfolding in evaluation proofs\<close>
named_theorems inv_intro \<open>preservation of component invariants\<close>

type_synonym ('k, 'v) gomap = "('k \<times> 'v) list"
type_synonym nanos = int

abbreviation second :: nanos where "second \<equiv> 1000000000"
abbreviation minute :: nanos where "minute \<equiv> 60 * second"
abbreviation hour :: nanos where "hour \<equiv> 60 * minute"

subsection \<open>Results\<close>

fun is_ok :: "'e + 'a \<Rightarrow> bool" where
  "is_ok (Inl e) = False"
| "is_ok (Inr a) = True"

lemma is_ok_iff: "is_ok r \<longleftrightarrow> (\<exists>a. r = Inr a)"
  by (cases r) auto

fun bind_res :: "'e + 'a \<Rightarrow> ('a \<Rightarrow> 'e + 'b) \<Rightarrow> 'e + 'b" where
  "bind_res (Inl e) f = Inl e"
| "bind_res (Inr a) f = f a"

lemma bind_res_Inr: "bind_res r f = Inr b \<longleftrightarrow> (\<exists>a. r = Inr a \<and> f a = Inr b)"
  by (cases r) auto

subsection \<open>Association lists as Go maps\<close>

definition wf_map :: "('k, 'v) gomap \<Rightarrow> bool" where
  "wf_map m \<longleftrightarrow> distinct (map fst m)"

lemma wf_map_Nil [simp]: "wf_map []"
  by (simp add: wf_map_def)

lemma wf_map_update [simp, inv_intro]: "wf_map m \<Longrightarrow> wf_map (AList.update k v m)"
  by (simp add: wf_map_def distinct_update)

lemma wf_map_delete [simp, inv_intro]: "wf_map m \<Longrightarrow> wf_map (AList.delete k m)"
  by (simp add: wf_map_def distinct_delete)

lemma wf_map_filter [simp, inv_intro]: "wf_map m \<Longrightarrow> wf_map (filter P m)"
  unfolding wf_map_def by (induction m) auto

lemma wf_map_length: "wf_map m \<Longrightarrow> length m = card (dom (map_of m))"
  by (metis distinct_card dom_map_of_conv_image_fst length_map list.set_map wf_map_def)

lemma map_of_filter_fst:
  "wf_map m \<Longrightarrow>
   map_of (filter P m) k =
     (case map_of m k of None \<Rightarrow> None | Some v \<Rightarrow> if P (k, v) then Some v else None)"
proof (induction m)
  case Nil
  then show ?case by simp
next
  case (Cons p m)
  obtain a b where p: "p = (a, b)" by (cases p)
  have wf: "wf_map m" and fresh: "a \<notin> fst ` set m"
    using Cons.prems p by (auto simp: wf_map_def)
  then have none: "map_of m a = None"
    by (simp add: map_of_eq_None_iff)
  show ?case
    using Cons.IH [OF wf] none p by auto
qed

lemma length_update_new: "map_of m k = None \<Longrightarrow> length (AList.update k v m) = Suc (length m)"
  by (induction m) (auto split: if_splits)

lemma length_update_old: "map_of m k = Some w \<Longrightarrow> length (AList.update k v m) = length m"
  by (induction m) (auto split: if_splits)

lemma length_delete_le [simp]: "length (AList.delete k m) \<le> length m"
  by (rule length_delete_le)

lemma length_delete_less: "k \<in> fst ` set m \<Longrightarrow> length (AList.delete k m) < length m"
proof (induction m)
  case Nil
  then show ?case by simp
next
  case (Cons p m)
  then show ?case
    by (cases "fst p = k") (auto simp: AList.delete_eq less_Suc_eq_le)
qed

lemma set_delete_subset: "set (AList.delete k m) \<subseteq> set m"
  by (auto simp: AList.delete_eq)

lemma set_update_subset: "set (AList.update k v m) \<subseteq> insert (k, v) (set m)"
  by (induction m) auto

lemma map_of_mem: "wf_map m \<Longrightarrow> (k, v) \<in> set m \<longleftrightarrow> map_of m k = Some v"
  by (auto simp: wf_map_def intro: map_of_SomeD)

subsection \<open>Lists\<close>

lemma list_all_mem: "list_all P xs \<longleftrightarrow> (\<forall>x \<in> set xs. P x)"
  by (rule list_all_iff)

lemma filter_take_drop: "filter P (take n xs) @ filter P (drop n xs) = filter P xs"
  by (metis append_take_drop_id filter_append)

end
