(* ===== verification/GoStrings.thy ===== *)
theory GoStrings
  imports Prelude
begin

text \<open>
  The parts of Go's standard library \<^verbatim>\<open>strings\<close>, \<^verbatim>\<open>strconv\<close> and \<^verbatim>\<open>unicode\<close> that the
  sources use, on byte strings: a Go string is a sequence of bytes, as an Isabelle \<open>string\<close> is a
  list of 8-bit characters, and \<open>len\<close> counts bytes.

  A loop \<^verbatim>\<open>for _, r := range s\<close> runs over runes. Where the body only accepts ASCII runes, it
  accepts exactly the strings all of whose bytes it accepts, because a byte of 128 or more always
  becomes a rune of 128 or more (or U+FFFD): such loops are modelled over bytes.

  What the library takes from the Unicode tables (case mapping and folding of strings with
  non-ASCII bytes) and what lies outside the repository (the IDNA profile of
  \<^verbatim>\<open>golang.org/x/net/idna\<close>, the RE2 engine behind \<^verbatim>\<open>regexp\<close>) are the fields of the
  record \<open>env\<close>, a parameter of every definition that needs one.
\<close>

subsection \<open>Characters\<close>

abbreviation byte_of :: "char \<Rightarrow> nat" where "byte_of c \<equiv> of_char c"

definition is_ascii :: "char \<Rightarrow> bool" where
  "is_ascii c \<longleftrightarrow> byte_of c < 128"

definition is_lower_char :: "char \<Rightarrow> bool" where
  "is_lower_char c \<longleftrightarrow> 97 \<le> byte_of c \<and> byte_of c \<le> 122"

definition is_upper_char :: "char \<Rightarrow> bool" where
  "is_upper_char c \<longleftrightarrow> 65 \<le> byte_of c \<and> byte_of c \<le> 90"

definition is_digit_char :: "char \<Rightarrow> bool" where
  "is_digit_char c \<longleftrightarrow> 48 \<le> byte_of c \<and> byte_of c \<le> 57"

definition lower_char :: "char \<Rightarrow> char" where
  "lower_char c = (if is_upper_char c then char_of (byte_of c + 32) else c)"

definition upper_char :: "char \<Rightarrow> char" where
  "upper_char c = (if is_lower_char c then char_of (byte_of c - 32) else c)"

lemmas char_defs = is_ascii_def is_lower_char_def is_upper_char_def is_digit_char_def
  lower_char_def upper_char_def

declare char_defs [go_unfold]

lemma byte_of_char_of: "n < 256 \<Longrightarrow> byte_of (char_of n :: char) = n"
  by (simp add: of_char_of)

text \<open>Evaluation of \<open>char_of\<close> on numerals by the simplifier.\<close>

lemma char_of_eval [go_unfold]:
  "char_of (n :: nat) =
     Char (odd n) (odd (n div 2)) (odd (n div 4)) (odd (n div 8))
       (odd (n div 16)) (odd (n div 32)) (odd (n div 64)) (odd (n div 128))"
  by (simp add: char_of_def bit_iff_odd)

lemma lower_char_idem [simp]: "lower_char (lower_char c) = lower_char c"
  by (auto simp: lower_char_def is_upper_char_def byte_of_char_of)

lemma lower_upper_char [simp]: "lower_char (upper_char c) = lower_char c"
  by (auto simp: lower_char_def upper_char_def is_upper_char_def is_lower_char_def
      byte_of_char_of)

lemma upper_lower_char [simp]: "upper_char (lower_char c) = upper_char c"
  by (auto simp: lower_char_def upper_char_def is_upper_char_def is_lower_char_def
      byte_of_char_of)

lemma upper_char_idem [simp]: "upper_char (upper_char c) = upper_char c"
  by (auto simp: upper_char_def is_lower_char_def byte_of_char_of)

lemma is_ascii_lower_char [simp]: "is_ascii (lower_char c) \<longleftrightarrow> is_ascii c"
  by (auto simp: lower_char_def is_upper_char_def is_ascii_def byte_of_char_of)

lemma is_ascii_upper_char [simp]: "is_ascii (upper_char c) \<longleftrightarrow> is_ascii c"
  by (auto simp: upper_char_def is_lower_char_def is_ascii_def byte_of_char_of)

lemma not_upper_lower_char: "\<not> is_upper_char (lower_char c)"
  by (auto simp: lower_char_def is_upper_char_def byte_of_char_of)

lemma lower_char_id: "\<not> is_upper_char c \<Longrightarrow> lower_char c = c"
  by (simp add: lower_char_def)

subsection \<open>Prefixes, suffixes, substrings\<close>

definition has_prefix :: "string \<Rightarrow> string \<Rightarrow> bool" where
  "has_prefix s p \<longleftrightarrow> take (length p) s = p"

definition has_suffix :: "string \<Rightarrow> string \<Rightarrow> bool" where
  "has_suffix s p \<longleftrightarrow> length p \<le> length s \<and> drop (length s - length p) s = p"

fun str_contains :: "string \<Rightarrow> string \<Rightarrow> bool" where
  "str_contains [] p = (p = [])"
| "str_contains (c # s) p = (has_prefix (c # s) p \<or> str_contains s p)"

declare has_prefix_def [go_unfold] has_suffix_def [go_unfold]

lemma has_prefix_iff: "has_prefix s p \<longleftrightarrow> (\<exists>t. s = p @ t)"
  by (metis append_eq_conv_conj append_take_drop_id has_prefix_def)

lemma has_suffix_iff: "has_suffix s p \<longleftrightarrow> (\<exists>t. s = t @ p)"
proof
  assume "has_suffix s p"
  then show "\<exists>t. s = t @ p"
    unfolding has_suffix_def by (metis append_take_drop_id)
qed (auto simp: has_suffix_def)

lemma has_prefix_Nil [simp]: "has_prefix s []" "has_prefix [] p \<longleftrightarrow> p = []"
  by (auto simp: has_prefix_def)

lemma has_prefix_Cons [simp]: "has_prefix (c # s) (d # p) \<longleftrightarrow> c = d \<and> has_prefix s p"
  by (auto simp: has_prefix_def)

lemma has_prefix_append [simp]: "has_prefix (p @ s) p"
  by (auto simp: has_prefix_iff)

lemma has_suffix_append [simp]: "has_suffix (s @ p) p"
  by (auto simp: has_suffix_iff)

lemma str_contains_iff: "str_contains s p \<longleftrightarrow> (\<exists>a b. s = a @ p @ b)"
proof
  assume "str_contains s p"
  then show "\<exists>a b. s = a @ p @ b"
  proof (induction s)
    case Nil
    then show ?case by simp
  next
    case (Cons c s)
    show ?case
    proof (cases "has_prefix (c # s) p")
      case True
      then show ?thesis by (metis append_Nil has_prefix_iff)
    next
      case False
      with Cons obtain a b where "s = a @ p @ b" by auto
      then show ?thesis by (metis append_Cons)
    qed
  qed
next
  assume "\<exists>a b. s = a @ p @ b"
  then obtain a b where "s = a @ p @ b" by blast
  then show "str_contains s p"
  proof (induction a arbitrary: s)
    case Nil
    then have "has_prefix s p" by simp
    then show ?case by (cases s) auto
  next
    case (Cons x a)
    then show ?case by auto
  qed
qed

lemma str_contains_char: "str_contains s [c] \<longleftrightarrow> c \<in> set s"
  by (induction s) auto

lemma str_contains_appendI1: "str_contains a p \<Longrightarrow> str_contains (a @ b) p"
  unfolding str_contains_iff by (metis append_assoc)

lemma str_contains_appendI2: "str_contains b p \<Longrightarrow> str_contains (a @ b) p"
  unfolding str_contains_iff by (metis append_assoc)

definition trim_suffix :: "string \<Rightarrow> string \<Rightarrow> string" where
  "trim_suffix s p = (if has_suffix s p then take (length s - length p) s else s)"

definition trim_prefix :: "string \<Rightarrow> string \<Rightarrow> string" where
  "trim_prefix s p = (if has_prefix s p then drop (length p) s else s)"

definition cut_prefix :: "string \<Rightarrow> string \<Rightarrow> string option" where
  \<comment> \<open>\<^verbatim>\<open>strings.CutPrefix\<close>: the rest and \<open>true\<close>, or \<open>false\<close>\<close>
  "cut_prefix s p = (if has_prefix s p then Some (drop (length p) s) else None)"

fun count_char :: "char \<Rightarrow> string \<Rightarrow> nat" where
  "count_char c [] = 0"
| "count_char c (x # xs) = (if x = c then 1 else 0) + count_char c xs"

declare trim_suffix_def [go_unfold] trim_prefix_def [go_unfold] cut_prefix_def [go_unfold]

lemma set_trim_suffix: "set (trim_suffix s p) \<subseteq> set s"
  by (auto simp: trim_suffix_def dest: in_set_takeD)

subsection \<open>Split and Join\<close>

fun split_on :: "char \<Rightarrow> string \<Rightarrow> string list" where
  "split_on c [] = [[]]"
| "split_on c (x # xs) =
     (if x = c then [] # split_on c xs
      else (case split_on c xs of [] \<Rightarrow> [[x]] | w # ws \<Rightarrow> (x # w) # ws))"

fun join_with :: "string \<Rightarrow> string list \<Rightarrow> string" where
  "join_with sep [] = []"
| "join_with sep [w] = w"
| "join_with sep (w # v # ws) = w @ sep @ join_with sep (v # ws)"

lemma split_on_nonempty [simp]: "split_on c s \<noteq> []"
  by (induction s) (auto split: list.splits)

lemma split_on_ex: "\<exists>w ws. split_on c s = w # ws"
  by (metis list.exhaust split_on_nonempty)

lemma join_split [simp]: "join_with [c] (split_on c s) = s"
proof (induction s)
  case Nil
  then show ?case by simp
next
  case (Cons x xs)
  obtain w ws where ws: "split_on c xs = w # ws" using split_on_ex by blast
  with Cons show ?case by (cases ws) auto
qed

lemma split_on_no_sep: "w \<in> set (split_on c s) \<Longrightarrow> c \<notin> set w"
proof (induction s arbitrary: w)
  case Nil
  then show ?case by simp
next
  case (Cons x xs)
  obtain v vs where vs: "split_on c xs = v # vs" using split_on_ex by blast
  with Cons show ?case by (auto split: if_splits)
qed

lemma split_on_no_occurrence: "c \<notin> set s \<Longrightarrow> split_on c s = [s]"
  by (induction s) auto

lemma split_on_append: "c \<notin> set w \<Longrightarrow> split_on c (w @ c # s) = w # split_on c s"
  by (induction w) auto

lemma split_join [simp]:
  "ws \<noteq> [] \<Longrightarrow> \<forall>w \<in> set ws. c \<notin> set w \<Longrightarrow> split_on c (join_with [c] ws) = ws"
  by (induction "[c]" ws rule: join_with.induct) (auto simp: split_on_no_occurrence split_on_append)

lemma split_on_chars: "w \<in> set (split_on c s) \<Longrightarrow> set w \<subseteq> set s"
proof (induction s arbitrary: w)
  case Nil
  then show ?case by simp
next
  case (Cons x xs)
  obtain v vs where vs: "split_on c xs = v # vs" using split_on_ex by blast
  with Cons.prems have "w = [] \<or> w \<in> set (split_on c xs) \<or> w = x # v"
    by (auto split: if_splits)
  with Cons.IH vs show ?case by fastforce
qed

lemma split_on_length: "w \<in> set (split_on c s) \<Longrightarrow> length w \<le> length s"
proof (induction s arbitrary: w)
  case Nil
  then show ?case by simp
next
  case (Cons x xs)
  obtain v vs where vs: "split_on c xs = v # vs" using split_on_ex by blast
  with Cons.prems have "w = [] \<or> w \<in> set (split_on c xs) \<or> w = x # v"
    by (auto split: if_splits)
  with Cons.IH [of w] Cons.IH [of v] vs show ?case by auto
qed

end
