(* ===== verification/GoText.thy ===== *)
theory GoText
  imports GoStrings
begin

text \<open>
  More of Go's standard library: white space trimming, case mapping, \<^verbatim>\<open>strings.ReplaceAll\<close>,
  and the decimal and hexadecimal conversions of \<^verbatim>\<open>strconv\<close>. The record \<open>env\<close> holds what
  the model does not define: see the header of GoStrings.
\<close>

subsection \<open>The environment: code that is not in the repository\<close>

record env =
  uni_lower :: "string \<Rightarrow> string" \<comment> \<open>\<^verbatim>\<open>strings.ToLower\<close> on a string with non-ASCII bytes\<close>
  uni_upper :: "string \<Rightarrow> string" \<comment> \<open>\<^verbatim>\<open>strings.ToUpper\<close> on a string with non-ASCII bytes\<close>
  uni_fold :: "string \<Rightarrow> string \<Rightarrow> bool" \<comment> \<open>\<^verbatim>\<open>strings.EqualFold\<close>, one side not ASCII\<close>
  uni_all_upper :: "string \<Rightarrow> bool" \<comment> \<open>every rune that is not ASCII is \<^verbatim>\<open>unicode.IsUpper\<close>\<close>
  idna_to_ascii :: "string \<Rightarrow> string option" \<comment> \<open>\<^verbatim>\<open>idna.Lookup.ToASCII\<close>, None on error\<close>
  regexp_compile :: "string \<Rightarrow> (string \<Rightarrow> bool) option"
    \<comment> \<open>\<^verbatim>\<open>regexp.Compile\<close>: None on error, else \<^verbatim>\<open>MatchString\<close> of the result\<close>

text \<open>A concrete environment, for evaluating examples: ASCII only, IDNA is the identity on
  lower-case host characters, and no regular expression compiles.\<close>

definition idna_char :: "char \<Rightarrow> bool" where
  "idna_char c \<longleftrightarrow> is_lower_char c \<or> is_digit_char c \<or> c = CHR ''.'' \<or> c = CHR ''-''"

definition ascii_env :: env where
  "ascii_env =
     \<lparr>uni_lower = id, uni_upper = id, uni_fold = (=), uni_all_upper = (\<lambda>_. False),
      idna_to_ascii = (\<lambda>s. if list_all idna_char s then Some s else None),
      regexp_compile = (\<lambda>_. None)\<rparr>"

declare idna_char_def [go_unfold] ascii_env_def [go_unfold]

subsection \<open>Case\<close>

abbreviation ascii_string :: "string \<Rightarrow> bool" where
  "ascii_string s \<equiv> list_all is_ascii s"

definition to_lower :: "env \<Rightarrow> string \<Rightarrow> string" where
  "to_lower E s = (if ascii_string s then map lower_char s else uni_lower E s)"

definition to_upper :: "env \<Rightarrow> string \<Rightarrow> string" where
  "to_upper E s = (if ascii_string s then map upper_char s else uni_upper E s)"

definition equal_fold :: "env \<Rightarrow> string \<Rightarrow> string \<Rightarrow> bool" where
  "equal_fold E s t =
     (if ascii_string s \<and> ascii_string t then map lower_char s = map lower_char t
      else uni_fold E s t)"

declare to_lower_def [go_unfold] to_upper_def [go_unfold] equal_fold_def [go_unfold]

lemma ascii_map_lower [simp]: "ascii_string (map lower_char s) = ascii_string s"
  by (simp add: list.pred_map comp_def)

lemma ascii_map_upper [simp]: "ascii_string (map upper_char s) = ascii_string s"
  by (simp add: list.pred_map comp_def)

lemma to_lower_idem: "ascii_string s \<Longrightarrow> to_lower E (to_lower E s) = to_lower E s"
  by (simp add: to_lower_def)

lemma to_lower_ascii [simp]: "ascii_string s \<Longrightarrow> ascii_string (to_lower E s)"
  by (simp add: to_lower_def)

lemma to_upper_case: "ascii_string s \<Longrightarrow> to_upper E (map lower_char s) = to_upper E s"
  by (simp add: to_upper_def)

lemma to_lower_id: "ascii_string s \<Longrightarrow> list_all (\<lambda>c. \<not> is_upper_char c) s \<Longrightarrow> to_lower E s = s"
  by (simp add: to_lower_def list_all_iff lower_char_id map_idI)

lemma equal_fold_refl: "ascii_string s \<Longrightarrow> equal_fold E s s"
  by (simp add: equal_fold_def)

subsection \<open>TrimSpace\<close>

text \<open>The UTF-8 encodings of the code points \<^verbatim>\<open>unicode.IsSpace\<close> accepts.\<close>

definition space_encodings :: "string list" where
  "space_encodings =
     [[CHR 0x09], [CHR 0x0A], [CHR 0x0B], [CHR 0x0C], [CHR 0x0D], [CHR 0x20],
      [CHR 0xC2, CHR 0x85], [CHR 0xC2, CHR 0xA0], [CHR 0xE1, CHR 0x9A, CHR 0x80],
      [CHR 0xE2, CHR 0x80, CHR 0x80], [CHR 0xE2, CHR 0x80, CHR 0x81],
      [CHR 0xE2, CHR 0x80, CHR 0x82], [CHR 0xE2, CHR 0x80, CHR 0x83],
      [CHR 0xE2, CHR 0x80, CHR 0x84], [CHR 0xE2, CHR 0x80, CHR 0x85],
      [CHR 0xE2, CHR 0x80, CHR 0x86], [CHR 0xE2, CHR 0x80, CHR 0x87],
      [CHR 0xE2, CHR 0x80, CHR 0x88], [CHR 0xE2, CHR 0x80, CHR 0x89],
      [CHR 0xE2, CHR 0x80, CHR 0x8A], [CHR 0xE2, CHR 0x80, CHR 0xA8],
      [CHR 0xE2, CHR 0x80, CHR 0xA9], [CHR 0xE2, CHR 0x80, CHR 0xAF],
      [CHR 0xE2, CHR 0x81, CHR 0x9F], [CHR 0xE3, CHR 0x80, CHR 0x80]]"

definition strip_any :: "string list \<Rightarrow> string \<Rightarrow> string option" where
  \<comment> \<open>remove one of the given nonempty strings from the front\<close>
  "strip_any encs s =
     (case find (\<lambda>e. e \<noteq> [] \<and> has_prefix s e) encs of
        None \<Rightarrow> None
      | Some e \<Rightarrow> Some (drop (length e) s))"

lemma strip_any_shorter: "strip_any encs s = Some t \<Longrightarrow> length t < length s"
proof -
  assume "strip_any encs s = Some t"
  then obtain e where e: "find (\<lambda>e. e \<noteq> [] \<and> has_prefix s e) encs = Some e"
    and t: "t = drop (length e) s"
    by (auto simp: strip_any_def split: option.splits)
  from e have "e \<noteq> []" and "has_prefix s e"
    by (auto simp: find_Some_iff)
  then obtain u where "s = e @ u" "e \<noteq> []" by (auto simp: has_prefix_iff)
  then show ?thesis using t by simp
qed

function trim_with :: "string list \<Rightarrow> string \<Rightarrow> string" where
  "trim_with encs s = (case strip_any encs s of None \<Rightarrow> s | Some t \<Rightarrow> trim_with encs t)"
  by pat_completeness auto
termination
  by (relation "measure (\<lambda>(encs, s). length s)") (auto simp: strip_any_shorter)

declare trim_with.simps [simp del]

definition trim_left :: "string \<Rightarrow> string" where
  "trim_left s = trim_with space_encodings s"

definition trim_right :: "string \<Rightarrow> string" where
  "trim_right s = rev (trim_with (map rev space_encodings) (rev s))"

definition trim_space :: "string \<Rightarrow> string" where
  "trim_space s = trim_right (trim_left s)"

lemma strip_any_suffix: "strip_any encs s = Some t \<Longrightarrow> \<exists>e. s = e @ t"
  by (auto simp: strip_any_def split: option.splits)
     (metis append_take_drop_id)

lemma trim_with_suffix: "\<exists>e. s = e @ trim_with encs s"
proof (induction encs s rule: trim_with.induct)
  case (1 encs s)
  show ?case
  proof (cases "strip_any encs s")
    case None
    then show ?thesis by (simp add: trim_with.simps)
  next
    case (Some t)
    with 1 obtain e where "t = e @ trim_with encs t" by blast
    moreover obtain d where "s = d @ t" using strip_any_suffix Some by blast
    ultimately show ?thesis
      using Some by (subst trim_with.simps) (metis append_assoc option.simps(5))
  qed
qed

lemma trim_with_done: "strip_any encs (trim_with encs s) = None"
proof (induction encs s rule: trim_with.induct)
  case (1 encs s)
  then show ?case
    by (cases "strip_any encs s") (simp_all add: trim_with.simps [of encs s])
qed

lemma trim_with_fixed: "strip_any encs s = None \<Longrightarrow> trim_with encs s = s"
  by (simp add: trim_with.simps)

lemma strip_any_None_prefix:
  assumes "strip_any encs (s @ t) = None"
  shows "strip_any encs s = None"
proof -
  have none: "find (\<lambda>e. e \<noteq> [] \<and> has_prefix (s @ t) e) encs = None"
    using assms by (auto simp: strip_any_def split: option.splits)
  have "find (\<lambda>e. e \<noteq> [] \<and> has_prefix s e) encs = None"
    using none by (auto simp: find_None_iff has_prefix_iff)
  then show ?thesis by (simp add: strip_any_def)
qed

lemma trim_right_prefix: "\<exists>e. s = trim_right s @ e"
proof -
  obtain e where "rev s = e @ trim_with (map rev space_encodings) (rev s)"
    using trim_with_suffix by blast
  then have "s = trim_right s @ rev e"
    unfolding trim_right_def by (metis rev_append rev_rev_ident)
  then show ?thesis by blast
qed

lemma trim_space_left_done: "strip_any space_encodings (trim_space s) = None"
proof -
  have "strip_any space_encodings (trim_left s) = None"
    by (simp add: trim_left_def trim_with_done)
  moreover obtain e where "trim_left s = trim_space s @ e"
    unfolding trim_space_def using trim_right_prefix by blast
  ultimately show ?thesis by (metis strip_any_None_prefix)
qed

lemma trim_space_idem [simp]: "trim_space (trim_space s) = trim_space s"
proof -
  have l: "trim_left (trim_space s) = trim_space s"
    by (simp add: trim_left_def trim_with_fixed trim_space_left_done)
  have "trim_right (trim_space s) = trim_space s"
    by (simp add: trim_space_def trim_right_def trim_with_fixed trim_with_done)
  with l show ?thesis by (simp add: trim_space_def)
qed

lemma trim_space_sub: "\<exists>a b. s = a @ trim_space s @ b"
proof -
  obtain a where a: "s = a @ trim_left s" unfolding trim_left_def using trim_with_suffix by blast
  obtain b where b: "trim_left s = trim_space s @ b"
    unfolding trim_space_def using trim_right_prefix by blast
  from a have "s = a @ trim_space s @ b" by (subst (asm) b)
  then show ?thesis by blast
qed

lemma set_trim_space: "set (trim_space s) \<subseteq> set s"
  using trim_space_sub [of s] by (metis Un_iff set_append subsetI)

lemma trim_space_Nil [simp]: "trim_space [] = []"
  using trim_space_sub [of "[]"] by simp

subsection \<open>ReplaceAll\<close>

function replace_all :: "string \<Rightarrow> string \<Rightarrow> string \<Rightarrow> string" where
  \<comment> \<open>\<open>replace_all s old new\<close>; every use has a nonempty \<open>old\<close>\<close>
  "replace_all s old new =
     (if old \<noteq> [] \<and> has_prefix s old then new @ replace_all (drop (length old) s) old new
      else case s of [] \<Rightarrow> [] | c # cs \<Rightarrow> c # replace_all cs old new)"
  by pat_completeness auto
termination
  by (relation "measure (\<lambda>(s, old, new). length s)") (auto simp: has_prefix_iff)

declare replace_all.simps [simp del]

subsection \<open>strconv\<close>

definition digit_chars :: string where
  "digit_chars = ''0123456789abcdef''"

fun nat_digits :: "nat \<Rightarrow> nat \<Rightarrow> string" where
  \<comment> \<open>the digits of a number in a base from 2 to 16, lower case\<close>
  "nat_digits b n =
     (if n < b \<or> b < 2 then [digit_chars ! (n mod b)]
      else nat_digits b (n div b) @ [digit_chars ! (n mod b)])"

declare nat_digits.simps [simp del]

definition itoa :: "int \<Rightarrow> string" where
  "itoa i = (if i < 0 then CHR ''-'' # nat_digits 10 (nat (- i)) else nat_digits 10 (nat i))"

definition format_hex :: "nat \<Rightarrow> string" where
  "format_hex n = nat_digits 16 n"

definition digit_val :: "char \<Rightarrow> nat" where
  "digit_val c = byte_of c - 48"

declare digit_val_def [go_unfold]

fun digits_val :: "nat \<Rightarrow> string \<Rightarrow> nat option" where
  "digits_val acc [] = Some acc"
| "digits_val acc (c # cs) =
     (if is_digit_char c then digits_val (10 * acc + digit_val c) cs else None)"

fun atoi :: "string \<Rightarrow> int option" where
  \<comment> \<open>\<^verbatim>\<open>strconv.Atoi\<close> on a 64-bit platform: an optional sign, then digits, in range\<close>
  "atoi s =
     (let neg = has_prefix s ''-'';
          ds = (if neg \<or> has_prefix s ''+'' then drop 1 s else s)
      in if ds = [] then None
         else (case digits_val 0 ds of
                 None \<Rightarrow> None
               | Some n \<Rightarrow>
                   (let v = (if neg then - int n else int n)
                    in if - (2 ^ 63) \<le> v \<and> v < 2 ^ 63 then Some v else None)))"

declare atoi.simps [simp del]

lemma digits_val_append:
  "digits_val a (xs @ ys) = (case digits_val a xs of None \<Rightarrow> None | Some b \<Rightarrow> digits_val b ys)"
  by (induction xs arbitrary: a) auto

lemma nat_digits_nonempty: "nat_digits b n \<noteq> []"
  by (subst nat_digits.simps) simp

lemma digit_char_val:
  "k < 10 \<Longrightarrow> is_digit_char (digit_chars ! k) \<and> digit_val (digit_chars ! k) = k"
proof -
  have "\<forall>k \<in> set [0 ..< 10]. is_digit_char (digit_chars ! k) \<and> digit_val (digit_chars ! k) = k"
    by (simp add: upt_rec digit_chars_def is_digit_char_def digit_val_def)
  then show "k < 10 \<Longrightarrow> ?thesis" by simp
qed

lemma nat_digits_chars: "list_all is_digit_char (nat_digits 10 n)"
proof (induction "10 :: nat" n rule: nat_digits.induct)
  case (1 n)
  then show ?case
    by (subst nat_digits.simps) (auto simp: digit_char_val)
qed

lemma digits_val_nat_digits: "digits_val 0 (nat_digits 10 n) = Some n"
proof (induction "10 :: nat" n rule: nat_digits.induct)
  case (1 n)
  show ?case
  proof (cases "n < 10")
    case True
    then show ?thesis by (subst nat_digits.simps) (simp add: digit_char_val)
  next
    case False
    then have "digits_val 0 (nat_digits 10 (n div 10)) = Some (n div 10)"
      using 1 by simp
    with False show ?thesis
      by (subst nat_digits.simps) (simp add: digits_val_append digit_char_val)
  qed
qed

lemma digit_not_sign: "list_all is_digit_char s \<Longrightarrow> s \<noteq> [] \<Longrightarrow> \<not> has_prefix s ''-'' \<and> \<not> has_prefix s ''+''"
  by (cases s) (auto simp: is_digit_char_def)

lemma atoi_itoa: "0 \<le> i \<Longrightarrow> i < 2 ^ 63 \<Longrightarrow> atoi (itoa i) = Some i"
  using digit_not_sign [OF nat_digits_chars nat_digits_nonempty, of "nat i"]
  by (simp add: atoi.simps itoa_def Let_def digits_val_nat_digits nat_digits_nonempty)

lemma itoa_nonneg_chars: "0 \<le> i \<Longrightarrow> list_all is_digit_char (itoa i)"
  by (simp add: itoa_def nat_digits_chars)

end
