(* ===== verification/GoNet.thy ===== *)
theory GoNet
  imports GoText
begin

text \<open>
  Go's \<^verbatim>\<open>net.ParseIP\<close>, \<^verbatim>\<open>net.ParseCIDR\<close>, \<^verbatim>\<open>IP.To4\<close>, \<^verbatim>\<open>IP.String\<close>,
  \<^verbatim>\<open>net.SplitHostPort\<close> and \<^verbatim>\<open>net.JoinHostPort\<close>. An address is the list of its bytes
  (16 for what the parsers return, as \<^verbatim>\<open>net.IP\<close> has them), each a number below 256.
\<close>

type_synonym ip = "nat list"

subsection \<open>Parsing IPv4\<close>

fun v4_loop :: "string \<Rightarrow> nat \<Rightarrow> nat \<Rightarrow> nat list \<Rightarrow> nat list option" where
  \<comment> \<open>rest of the text, digits of the current octet, its value, finished octets\<close>
  "v4_loop [] dl v fs = (if length fs < 3 then None else Some (fs @ [v]))"
| "v4_loop (c # cs) dl v fs =
     (if is_digit_char c then
        (if dl = 1 \<and> v = 0 then None
         else if 10 * v + digit_val c > 255 then None
         else v4_loop cs (Suc dl) (10 * v + digit_val c) fs)
      else if c = CHR ''.'' then
        (if dl = 0 \<or> cs = [] then None
         else if length fs = 3 then None
         else v4_loop cs 0 0 (fs @ [v]))
      else None)"

lemma v4_loop_result:
  "v4_loop s dl v fs = Some bs \<Longrightarrow> length fs \<le> 3 \<Longrightarrow> v < 256 \<Longrightarrow> \<forall>b \<in> set fs. b < 256 \<Longrightarrow>
   length bs = 4 \<and> (\<forall>b \<in> set bs. b < 256)"
proof (induction s dl v fs rule: v4_loop.induct)
  case (1 dl v fs)
  then show ?case by (auto split: if_splits)
next
  case (2 c cs dl v fs)
  show ?case
  proof (cases "is_digit_char c")
    case True
    with "2.prems"(1) have step: "v4_loop cs (Suc dl) (10 * v + digit_val c) fs = Some bs"
      "\<not> (dl = 1 \<and> v = 0)" "\<not> 10 * v + digit_val c > 255"
      by (auto split: if_splits)
    then have "10 * v + digit_val c < 256" by linarith
    with "2.IH"(1) [OF True step(2,3,1)] "2.prems" show ?thesis by blast
  next
    case False
    with "2.prems"(1) have step: "v4_loop cs 0 0 (fs @ [v]) = Some bs" "c = CHR ''.''"
      "\<not> (dl = 0 \<or> cs = [])" "length fs \<noteq> 3"
      by (auto split: if_splits)
    with "2.IH"(2) [OF False step(2,3,4,1)] "2.prems" show ?thesis by auto
  qed
qed

subsection \<open>Parsing IPv6\<close>

definition hex_val :: "char \<Rightarrow> nat option" where
  "hex_val c =
     (if is_digit_char c then Some (digit_val c)
      else if 97 \<le> byte_of c \<and> byte_of c \<le> 102 then Some (byte_of c - 87)
      else if 65 \<le> byte_of c \<and> byte_of c \<le> 70 then Some (byte_of c - 55)
      else None)"

declare hex_val_def [go_unfold]

fun hex_run :: "string \<Rightarrow> nat \<Rightarrow> nat \<Rightarrow> (nat \<times> nat \<times> string) option" where
  "hex_run [] off acc = Some (off, acc, [])"
| "hex_run (c # cs) off acc =
     (case hex_val c of
        None \<Rightarrow> Some (off, acc, c # cs)
      | Some d \<Rightarrow> if off > 3 then None else hex_run cs (Suc off) (16 * acc + d))"

fun v6_groups ::
  "nat \<Rightarrow> nat list \<Rightarrow> nat option \<Rightarrow> string \<Rightarrow> (nat list \<times> nat option \<times> string) option" where
  \<comment> \<open>groups still free, bytes so far, position of the ellipsis, rest of the text\<close>
  "v6_groups 0 bs el s = Some (bs, el, s)"
| "v6_groups (Suc n) bs el s =
     (case hex_run s 0 0 of
        None \<Rightarrow> None
      | Some (off, acc, rest) \<Rightarrow>
          if off = 0 then None
          else if has_prefix rest ''.'' then
            (if el = None \<and> length bs \<noteq> 12 then None
             else if length bs + 4 > 16 then None
             else (case v4_loop s 0 0 [] of
                     None \<Rightarrow> None
                   | Some f \<Rightarrow> Some (bs @ f, el, [])))
          else
            (let bs' = bs @ [acc div 256 mod 256, acc mod 256]
             in case rest of
                  [] \<Rightarrow> Some (bs', el, [])
                | c # cs \<Rightarrow>
                    if c \<noteq> CHR '':'' then None
                    else if cs = [] then None
                    else if hd cs = CHR '':'' then
                      (if el \<noteq> None then None
                       else if tl cs = [] then Some (bs', Some (length bs'), [])
                       else v6_groups n bs' (Some (length bs')) (tl cs))
                    else v6_groups n bs' el cs))"

lemmas v6_groups_eval [go_unfold] =
  v6_groups.simps(2) [of "pred_numeral k" for k, folded numeral_eq_Suc]

definition parse_ipv6 :: "string \<Rightarrow> ip option" where
  "parse_ipv6 s0 =
     (let lead = has_prefix s0 ''::'';
          s = (if lead then drop 2 s0 else s0)
      in if lead \<and> s = [] then Some (replicate 16 0)
         else case v6_groups 8 [] (if lead then Some 0 else None) s of
                None \<Rightarrow> None
              | Some (bs, el, rest) \<Rightarrow>
                  if rest \<noteq> [] then None
                  else if length bs < 16 then
                    (case el of
                       None \<Rightarrow> None
                     | Some e \<Rightarrow> Some (take e bs @ replicate (16 - length bs) 0 @ drop e bs))
                  else if el \<noteq> None then None else Some bs)"

definition v4_in_v6_prefix :: "nat list" where
  "v4_in_v6_prefix = replicate 10 0 @ [255, 255]"

fun first_special :: "string \<Rightarrow> char option" where
  "first_special [] = None"
| "first_special (c # cs) =
     (if c = CHR ''.'' \<or> c = CHR '':'' \<or> c = CHR ''%'' then Some c else first_special cs)"

definition parse_addr :: "string \<Rightarrow> (bool \<times> ip) option" where
  \<comment> \<open>\<^verbatim>\<open>netip.ParseAddr\<close> without a zone: whether the address is IPv4, and its 16 bytes\<close>
  "parse_addr s =
     (if CHR ''%'' \<in> set s then None
      else case first_special s of
             None \<Rightarrow> None
           | Some c \<Rightarrow>
               if c = CHR ''.'' then
                 map_option (\<lambda>f. (True, v4_in_v6_prefix @ f)) (v4_loop s 0 0 [])
               else map_option (\<lambda>bs. (False, bs)) (parse_ipv6 s))"

definition parse_ip :: "string \<Rightarrow> ip option" where
  "parse_ip s = map_option snd (parse_addr s)"

definition to4 :: "ip \<Rightarrow> ip option" where
  "to4 bs =
     (if length bs = 4 then Some bs
      else if length bs = 16 \<and> take 12 bs = v4_in_v6_prefix then Some (drop 12 bs)
      else None)"

lemma v6_groups_wf:
  "v6_groups n bs el s = Some (bs', el', rest) \<Longrightarrow> \<forall>b \<in> set bs. b < 256 \<Longrightarrow>
   length bs + 2 * n = 16 \<Longrightarrow> (\<forall>e. el = Some e \<longrightarrow> e \<le> length bs) \<Longrightarrow>
   (\<forall>b \<in> set bs'. b < 256) \<and> length bs' \<le> 16 \<and> (\<forall>e. el' = Some e \<longrightarrow> e \<le> length bs')"
proof (induction n arbitrary: bs el s)
  case 0
  then show ?case by simp
next
  case (Suc n)
  obtain off acc r where run: "hex_run s 0 0 = Some (off, acc, r)" and off: "off \<noteq> 0"
    using Suc.prems(1) by (auto split: option.splits prod.splits if_splits)
  show ?case
  proof (cases "has_prefix r ''.''")
    case True
    obtain f where f: "v4_loop s 0 0 [] = Some f"
      using True Suc.prems(1) run off
      by (cases "v4_loop s 0 0 []") (simp_all split: if_splits)
    have res: "bs' = bs @ f" "el' = el" "length bs + 4 \<le> 16"
      using True Suc.prems(1) run off f by (simp_all split: if_splits)
    have "length f = 4 \<and> (\<forall>b \<in> set f. b < 256)"
      using v4_loop_result [OF f] by simp
    moreover have "\<forall>e. el' = Some e \<longrightarrow> e \<le> length bs" using Suc.prems(4) res(2) by simp
    moreover have "length bs' = length bs + length f" using res(1) by simp
    moreover have "\<forall>b \<in> set bs'. b < 256" using res(1) Suc.prems(2) calculation(1) by auto
    ultimately show ?thesis using res(3) by (metis le_add1 order_trans)
  next
    case False
    let ?bs' = "bs @ [acc div 256 mod 256, acc mod 256]"
    have wf: "\<forall>b \<in> set ?bs'. b < 256" "length ?bs' + 2 * n = 16"
      "\<forall>e. el = Some e \<longrightarrow> e \<le> length ?bs'" "length ?bs' \<le> 16"
      using Suc.prems(2-4) by (simp_all add: le_SucI)
    show ?thesis
    proof (cases r)
      case Nil
      then have "bs' = ?bs'" "el' = el" using Suc.prems(1) run off by (simp_all add: Let_def)
      with wf show ?thesis by simp
    next
      case (Cons c cs)
      then have c: "c = CHR '':''" "cs \<noteq> []"
        using Suc.prems(1) run off False by (auto simp: Let_def split: if_splits)
      have eq: "(if hd cs = CHR '':'' then
                   (if el \<noteq> None then None
                    else if tl cs = [] then Some (?bs', Some (length ?bs'), [])
                    else v6_groups n ?bs' (Some (length ?bs')) (tl cs))
                 else v6_groups n ?bs' el cs) = Some (bs', el', rest)"
        using Suc.prems(1) run off False Cons c by (simp add: Let_def)
      consider (stop) "hd cs = CHR '':''" "el = None" "tl cs = []"
          "bs' = ?bs'" "el' = Some (length ?bs')"
        | (ell) "hd cs = CHR '':''" "el = None" "tl cs \<noteq> []"
          "v6_groups n ?bs' (Some (length ?bs')) (tl cs) = Some (bs', el', rest)"
        | (go) "hd cs \<noteq> CHR '':''" "v6_groups n ?bs' el cs = Some (bs', el', rest)"
        using eq by (simp split: if_splits)
      then show ?thesis
      proof cases
        case stop
        with wf show ?thesis by auto
      next
        case ell
        show ?thesis by (rule Suc.IH [OF ell(4) wf(1,2)]) simp
      next
        case go
        show ?thesis by (rule Suc.IH [OF go(2) wf(1,2,3)])
      qed
    qed
  qed
qed

lemma parse_addr_wf:
  assumes "parse_addr s = Some (is4, bs)"
  shows "length bs = 16 \<and> (\<forall>b \<in> set bs. b < 256)"
proof (cases "first_special s = Some CHR ''.''")
  case True
  then obtain f where f: "v4_loop s 0 0 [] = Some f" and bs: "bs = v4_in_v6_prefix @ f"
    using assms by (auto simp: parse_addr_def split: if_splits)
  from v4_loop_result [OF f] bs show ?thesis
    by (auto simp: v4_in_v6_prefix_def)
next
  case False
  then have p: "parse_ipv6 s = Some bs"
    using assms by (auto simp: parse_addr_def split: if_splits option.splits)
  show ?thesis
  proof (cases "has_prefix s ''::'' \<and> drop 2 s = []")
    case True
    with p show ?thesis by (auto simp: parse_ipv6_def)
  next
    case False
    let ?el = "if has_prefix s ''::'' then Some 0 else None"
    let ?t = "if has_prefix s ''::'' then drop 2 s else s"
    obtain cs el rest where g: "v6_groups 8 [] ?el ?t = Some (cs, el, rest)"
      using p False
      by (cases "v6_groups 8 [] ?el ?t") (auto simp: parse_ipv6_def Let_def split: if_splits)
    have "(\<forall>b \<in> set cs. b < 256) \<and> length cs \<le> 16 \<and> (\<forall>e. el = Some e \<longrightarrow> e \<le> length cs)"
      using v6_groups_wf [OF g] by auto
    moreover have "(bs = cs \<and> \<not> length cs < 16) \<or> (\<exists>e. el = Some e \<and> length cs < 16 \<and>
        bs = take e cs @ replicate (16 - length cs) 0 @ drop e cs)"
      using p False g
      by (auto simp: parse_ipv6_def Let_def split: option.splits if_splits)
    ultimately show ?thesis
      by (auto dest!: in_set_takeD in_set_dropD)
  qed
qed

lemma parse_addr_v4:
  "parse_addr s = Some (True, bs) \<Longrightarrow> \<exists>f. to4 bs = Some f \<and> length f = 4"
  by (auto simp: parse_addr_def to4_def v4_in_v6_prefix_def split: if_splits option.splits
      dest!: v4_loop_result)

lemma parse_ip_wf: "parse_ip s = Some bs \<Longrightarrow> length bs = 16 \<and> (\<forall>b \<in> set bs. b < 256)"
  by (auto simp: parse_ip_def dest!: parse_addr_wf)

text \<open>Every character of a text that parses as an address is a hexadecimal digit, a dot or a
  colon, so such a text can be written into a command or a ruleset as it is.\<close>

definition ip_char :: "char \<Rightarrow> bool" where
  "ip_char c \<longleftrightarrow> hex_val c \<noteq> None \<or> c = CHR ''.'' \<or> c = CHR '':''"

lemma digit_ip_char: "is_digit_char c \<Longrightarrow> ip_char c"
  by (simp add: ip_char_def hex_val_def)

lemma v4_loop_chars: "v4_loop s dl v fs = Some bs \<Longrightarrow> list_all ip_char s"
proof (induction s dl v fs rule: v4_loop.induct)
  case (1 dl v fs)
  then show ?case by simp
next
  case (2 c cs dl v fs)
  moreover have "ip_char CHR ''.''" by (simp add: ip_char_def)
  ultimately show ?case by (auto simp: digit_ip_char split: if_splits)
qed

lemma hex_run_chars:
  "hex_run s off acc = Some (off', acc', rest) \<Longrightarrow> \<exists>pre. s = pre @ rest \<and> list_all ip_char pre"
proof (induction s off acc rule: hex_run.induct)
  case (1 off acc)
  then show ?case by auto
next
  case (2 c cs off acc)
  show ?case
  proof (cases "hex_val c")
    case None
    with "2.prems" show ?thesis by auto
  next
    case (Some d)
    with "2.prems" have "hex_run cs (Suc off) (16 * acc + d) = Some (off', acc', rest)" "\<not> 3 < off"
      by (auto split: if_splits)
    with 2 Some obtain pre where "cs = pre @ rest" "list_all ip_char pre" by blast
    moreover have "ip_char c" using Some by (simp add: ip_char_def)
    ultimately show ?thesis by (intro exI [of _ "c # pre"]) simp
  qed
qed

lemma v6_groups_chars:
  "v6_groups n bs el s = Some (bs', el', []) \<Longrightarrow> list_all ip_char s"
proof (induction n arbitrary: bs el s)
  case 0
  then show ?case by simp
next
  case (Suc n)
  obtain off acc r where run: "hex_run s 0 0 = Some (off, acc, r)" and off: "off \<noteq> 0"
    using Suc.prems(1) by (auto split: option.splits prod.splits if_splits)
  obtain pre where pre: "s = pre @ r" "list_all ip_char pre" using hex_run_chars [OF run] by blast
  have colon: "ip_char CHR '':''" by (simp add: ip_char_def)
  show ?case
  proof (cases "has_prefix r ''.''")
    case True
    with Suc.prems run off show ?thesis
      by (auto split: option.splits if_splits dest: v4_loop_chars)
  next
    case False
    let ?bs' = "bs @ [acc div 256 mod 256, acc mod 256]"
    show ?thesis
    proof (cases r)
      case Nil
      with pre show ?thesis by simp
    next
      case (Cons c cs)
      then have c: "c = CHR '':''" "cs \<noteq> []"
        using Suc.prems(1) run off False by (auto simp: Let_def split: if_splits)
      have eq: "(if hd cs = CHR '':'' then
                   (if el \<noteq> None then None
                    else if tl cs = [] then Some (?bs', Some (length ?bs'), [])
                    else v6_groups n ?bs' (Some (length ?bs')) (tl cs))
                 else v6_groups n ?bs' el cs) = Some (bs', el', [])"
        using Suc.prems(1) run off False Cons c by (simp add: Let_def)
      consider (stop) "hd cs = CHR '':''" "tl cs = []"
        | (ell) "hd cs = CHR '':''" "el = None" "tl cs \<noteq> []"
          "v6_groups n ?bs' (Some (length ?bs')) (tl cs) = Some (bs', el', [])"
        | (go) "hd cs \<noteq> CHR '':''" "v6_groups n ?bs' el cs = Some (bs', el', [])"
        using eq by (simp split: if_splits)
      then show ?thesis
      proof cases
        case stop
        then have "cs = [CHR '':'']" using c(2) by (cases cs) auto
        with pre Cons c colon show ?thesis by simp
      next
        case ell
        have "list_all ip_char (tl cs)"
          by (rule Suc.IH [OF ell(4)])
        with ell(1) pre Cons c colon show ?thesis by (cases cs) auto
      next
        case go
        have "list_all ip_char cs"
          by (rule Suc.IH [OF go(2)])
        with pre Cons c colon show ?thesis by auto
      qed
    qed
  qed
qed

lemma parse_ip_chars:
  assumes "parse_ip s = Some bs"
  shows "list_all ip_char s"
proof -
  obtain is4 where a: "parse_addr s = Some (is4, bs)"
    using assms by (auto simp: parse_ip_def)
  show ?thesis
  proof (cases "first_special s = Some CHR ''.''")
    case True
    then show ?thesis
      using a by (auto simp: parse_addr_def split: if_splits dest: v4_loop_chars)
  next
    case False
    then have p: "parse_ipv6 s = Some bs"
      using a by (auto simp: parse_addr_def split: if_splits option.splits)
    let ?t = "if has_prefix s ''::'' then drop 2 s else s"
    have "list_all ip_char ?t"
      using p by (auto simp: parse_ipv6_def Let_def split: option.splits if_splits
          dest: v6_groups_chars)
    moreover have "list_all ip_char s" if "has_prefix s ''::''" "list_all ip_char (drop 2 s)"
    proof -
      from that(1) obtain t where "s = ''::'' @ t" by (auto simp: has_prefix_iff)
      with that(2) show ?thesis by (simp add: ip_char_def)
    qed
    ultimately show ?thesis by (auto split: if_splits)
  qed
qed

lemma parse_ip_nonempty: "parse_ip s = Some bs \<Longrightarrow> s \<noteq> []"
  by (auto simp: parse_ip_def parse_addr_def)

subsection \<open>ParseCIDR\<close>

definition mask_bytes :: "nat \<Rightarrow> nat list \<Rightarrow> nat list" where
  \<comment> \<open>keep the first \<open>n\<close> bits\<close>
  "mask_bytes n bs =
     map (\<lambda>i. let k = min 8 (n - 8 * i) in bs ! i - bs ! i mod 2 ^ (8 - k)) [0 ..< length bs]"

definition parse_cidr :: "string \<Rightarrow> (ip \<times> ip) option" where
  \<comment> \<open>the address and the network address; a v4 network has 4 bytes, as \<^verbatim>\<open>IP.Mask\<close> returns\<close>
  "parse_cidr s =
     (let addr = takeWhile (\<lambda>c. c \<noteq> CHR ''/'') s;
          mask = drop (Suc (length addr)) s
      in if CHR ''/'' \<notin> set s then None
         else case parse_addr addr of
                None \<Rightarrow> None
              | Some (is4, bs) \<Rightarrow>
                  (if mask = [] then None
                   else case digits_val 0 mask of
                          None \<Rightarrow> None
                        | Some n \<Rightarrow>
                            if n > (if is4 then 32 else 128) then None
                            else Some (bs, if is4 then mask_bytes n (drop 12 bs)
                                           else mask_bytes n bs)))"

lemma mask_bytes_length [simp]: "length (mask_bytes n bs) = length bs"
  by (simp add: mask_bytes_def)

lemma digits_val_chars: "digits_val acc s = Some n \<Longrightarrow> list_all is_digit_char s"
  by (induction s arbitrary: acc) (auto split: if_splits)

lemma parse_addr_chars: "parse_addr s = Some r \<Longrightarrow> list_all ip_char s"
  by (rule parse_ip_chars [of s "snd r"]) (simp add: parse_ip_def)

definition cidr_char :: "char \<Rightarrow> bool" where
  "cidr_char c \<longleftrightarrow> ip_char c \<or> c = CHR ''/''"

lemma parse_cidr_chars:
  assumes "parse_cidr s = Some r"
  shows "list_all cidr_char s"
proof -
  let ?a = "takeWhile (\<lambda>c. c \<noteq> CHR ''/'') s"
  let ?m = "drop (Suc (length ?a)) s"
  have slash: "CHR ''/'' \<in> set s" and addr: "parse_addr ?a \<noteq> None"
    and m: "digits_val 0 ?m \<noteq> None"
    using assms by (auto simp: parse_cidr_def Let_def split: if_splits option.splits)
  have d: "dropWhile (\<lambda>c. c \<noteq> CHR ''/'') s = CHR ''/'' # ?m"
  proof -
    have "dropWhile (\<lambda>c. c \<noteq> CHR ''/'') s \<noteq> []" using slash by simp
    then have "dropWhile (\<lambda>c. c \<noteq> CHR ''/'') s
        = hd (dropWhile (\<lambda>c. c \<noteq> CHR ''/'') s) # tl (dropWhile (\<lambda>c. c \<noteq> CHR ''/'') s)"
      by simp
    moreover have "hd (dropWhile (\<lambda>c. c \<noteq> CHR ''/'') s) = CHR ''/''"
      using hd_dropWhile [of "\<lambda>c. c \<noteq> CHR ''/''" s] slash by simp
    moreover have "tl (dropWhile (\<lambda>c. c \<noteq> CHR ''/'') s) = ?m"
      by (simp add: dropWhile_eq_drop drop_Suc tl_drop)
    ultimately show ?thesis by metis
  qed
  have "list_all cidr_char ?a"
    using addr parse_addr_chars by (auto simp: list_all_iff cidr_char_def)
  moreover have "list_all cidr_char ?m"
    using m digits_val_chars by (auto simp: list_all_iff cidr_char_def digit_ip_char)
  ultimately have "list_all cidr_char (?a @ CHR ''/'' # ?m)"
    by (simp add: cidr_char_def)
  then show ?thesis by (metis d takeWhile_dropWhile_id)
qed

subsection \<open>IP.String\<close>

definition v4_text :: "nat list \<Rightarrow> string" where
  "v4_text bs = join_with ''.'' (map (\<lambda>b. itoa (int b)) bs)"

fun groups_of :: "nat list \<Rightarrow> nat list" where
  "groups_of (a # b # bs) = (256 * a + b) # groups_of bs"
| "groups_of _ = []"

definition zero_run :: "nat list \<Rightarrow> nat \<Rightarrow> nat" where
  \<comment> \<open>length of the run of zero groups that starts at index \<open>i\<close>\<close>
  "zero_run gs i = length (takeWhile (\<lambda>g. g = 0) (drop i gs))"

definition longest_run :: "nat list \<Rightarrow> (nat \<times> nat) option" where
  \<comment> \<open>start and length of the first longest run of at least two zero groups\<close>
  "longest_run gs =
     foldl (\<lambda>best i. let l = zero_run gs i in
                if l \<ge> 2 \<and> (case best of None \<Rightarrow> True | Some (_, k) \<Rightarrow> l > k)
                then Some (i, l) else best)
       None [0 ..< length gs]"

definition v6_text :: "nat list \<Rightarrow> string" where
  "v6_text gs =
     (case longest_run gs of
        None \<Rightarrow> join_with '':'' (map format_hex gs)
      | Some (i, l) \<Rightarrow>
          join_with '':'' (map format_hex (take i gs)) @ ''::''
          @ join_with '':'' (map format_hex (drop (i + l) gs)))"

definition ip_string :: "ip \<Rightarrow> string" where
  \<comment> \<open>for the lengths 0, 4 and 16; other lengths, which no DNS message decodes to, print
    \<^verbatim>\<open>?\<close> and the bytes in hexadecimal\<close>
  "ip_string bs =
     (if bs = [] then ''<nil>''
      else case to4 bs of
        Some f \<Rightarrow> v4_text f
      | None \<Rightarrow>
          if length bs = 16 then v6_text (groups_of bs)
          else CHR ''?'' # concat (map (\<lambda>b. nat_digits 16 (b div 16) @ nat_digits 16 (b mod 16)) bs))"

subsection \<open>SplitHostPort and JoinHostPort\<close>

definition split_first :: "char \<Rightarrow> string \<Rightarrow> (string \<times> string) option" where
  \<comment> \<open>the parts before and after the first occurrence\<close>
  "split_first c s =
     (if c \<in> set s then
        (let a = takeWhile (\<lambda>x. x \<noteq> c) s in Some (a, drop (Suc (length a)) s))
      else None)"

definition split_last :: "char \<Rightarrow> string \<Rightarrow> (string \<times> string) option" where
  "split_last c s =
     (case split_first c (rev s) of None \<Rightarrow> None | Some (a, b) \<Rightarrow> Some (rev b, rev a))"

definition split_host_port :: "string \<Rightarrow> (string \<times> string) option" where
  "split_host_port s =
     (case split_last CHR '':'' s of
        None \<Rightarrow> None
      | Some (front, port) \<Rightarrow>
          if has_prefix s ''['' then
            (case split_first CHR '']'' s of
               None \<Rightarrow> None
             | Some (pre, post) \<Rightarrow>
                 if post = [] then None
                 else if Suc (length pre) \<noteq> length front then None
                 else if CHR ''['' \<in> set (drop 1 s) \<or> CHR '']'' \<in> set post then None
                 else Some (drop 1 pre, port))
          else if CHR '':'' \<in> set front then None
          else if CHR ''['' \<in> set s \<or> CHR '']'' \<in> set s then None
          else Some (front, port))"

definition join_host_port :: "string \<Rightarrow> string \<Rightarrow> string" where
  "join_host_port host port =
     (if CHR '':'' \<in> set host then ''['' @ host @ '']:'' @ port else host @ '':'' @ port)"

lemma split_first_at: "c \<notin> set a \<Longrightarrow> split_first c (a @ c # b) = Some (a, b)"
proof -
  assume "c \<notin> set a"
  then have "takeWhile (\<lambda>x. x \<noteq> c) (a @ c # b) = a"
    by (subst takeWhile_append2) auto
  then show ?thesis by (simp add: split_first_def)
qed

lemma split_last_at: "c \<notin> set b \<Longrightarrow> split_last c (a @ c # b) = Some (a, b)"
  using split_first_at [of c "rev b" "rev a"] by (simp add: split_last_def)

lemma split_join_host_port:
  assumes "CHR '':'' \<notin> set port" "\<forall>c \<in> {CHR ''['', CHR '']''}. c \<notin> set host \<and> c \<notin> set port"
  shows "split_host_port (join_host_port host port) = Some (host, port)"
proof (cases "CHR '':'' \<in> set host")
  case True
  let ?s = "''['' @ host @ '']:'' @ port"
  have l: "split_last CHR '':'' ?s = Some (''['' @ host @ '']'', port)"
    using split_last_at [of "CHR '':''" port "''['' @ host @ '']''"] assms by simp
  have f: "split_first CHR '']'' ?s = Some (''['' @ host, CHR '':'' # port)"
    using split_first_at [of "CHR '']''" "''['' @ host" "CHR '':'' # port"] assms by simp
  show ?thesis
    using True assms l f by (simp add: split_host_port_def join_host_port_def)
next
  case False
  let ?s = "host @ '':'' @ port"
  have l: "split_last CHR '':'' ?s = Some (host, port)"
    using split_last_at [of "CHR '':''" port host] assms by simp
  have "\<not> has_prefix ?s ''[''"
    using assms by (cases host) (auto simp: has_prefix_def)
  with False assms l show ?thesis
    by (auto simp: split_host_port_def join_host_port_def)
qed

end
