(* ===== verification/Flow.thy ===== *)
theory Flow
  imports GoNet
begin

text \<open>
  \<^verbatim>\<open>internal/actions\<close>: the names of the actions and modes, the identifier of a network
  flow, and the table of flows for which a synthetic redirect event was logged.

  The table (\<^verbatim>\<open>recentSynthetic\<close>) is the record \<open>synthetic\<close>; every reading of the clock is
  an argument.
\<close>

definition action_allowed :: string where "action_allowed = ''ALLOWED''"
definition action_blocked :: string where "action_blocked = ''BLOCKED''"
definition action_redirected :: string where "action_redirected = ''REDIRECTED''"
definition action_audit :: string where "action_audit = ''AUDIT''"

definition mode_https :: string where "mode_https = ''https''"
definition mode_dns :: string where "mode_dns = ''dns''"
definition mode_dns_strict :: string where "mode_dns_strict = ''dns-strict''"

lemmas action_defs = action_allowed_def action_blocked_def action_redirected_def action_audit_def
lemmas mode_defs = mode_https_def mode_dns_def mode_dns_strict_def

declare action_defs [go_unfold] mode_defs [go_unfold]

subsection \<open>Flow identifiers\<close>

definition fnv_offset :: "64 word" where "fnv_offset = 14695981039346656037"
definition fnv_prime :: "64 word" where "fnv_prime = 1099511628211"

definition fnv1a :: "string \<Rightarrow> 64 word" where
  \<comment> \<open>\<^verbatim>\<open>hash/fnv.New64a\<close> on the bytes written to it\<close>
  "fnv1a s = foldl (\<lambda>h c. xor h (word_of_nat (byte_of c)) * fnv_prime) fnv_offset s"

definition flow_key :: "env \<Rightarrow> string \<Rightarrow> int \<Rightarrow> string \<Rightarrow> int \<Rightarrow> string \<Rightarrow> string" where
  \<comment> \<open>the bytes the hasher receives\<close>
  "flow_key E sip sport dip dport proto =
     sip @ '':'' @ itoa sport @ ''->'' @ dip @ '':'' @ itoa dport @ ''|'' @ to_upper E proto"

definition flow_id :: "env \<Rightarrow> string \<Rightarrow> int \<Rightarrow> string \<Rightarrow> int \<Rightarrow> string \<Rightarrow> string" where
  "flow_id E sip sport dip dport proto =
     format_hex (unat (fnv1a (flow_key E sip sport dip dport proto)))"

lemma append_sep_inj:
  assumes "c \<notin> set u" "c \<notin> set u'" "u @ c # v = u' @ c # v'"
  shows "u = u' \<and> v = v'"
  using assms
proof (induction u arbitrary: u')
  case Nil
  then show ?case by (cases u') auto
next
  case (Cons x u)
  then show ?case by (cases u') auto
qed

lemma append_sep_inj_last:
  assumes "c \<notin> set v" "c \<notin> set v'" "u @ c # v = u' @ c # v'"
  shows "u = u' \<and> v = v'"
  using append_sep_inj [of c "rev v" "rev v'" "rev u" "rev u'"] assms
  by (metis append.assoc append_Cons append_Nil rev.simps(2) rev_append rev_rev_ident set_rev)

lemma itoa_inj:
  assumes "0 \<le> i" "0 \<le> j" "itoa i = itoa j"
  shows "i = j"
proof -
  have "nat_digits 10 (nat i) = nat_digits 10 (nat j)"
    using assms by (simp add: itoa_def)
  then have "nat i = nat j"
    by (metis digits_val_nat_digits option.inject)
  with assms show ?thesis by simp
qed

lemma not_ip_char:
  "list_all ip_char s \<Longrightarrow> CHR ''-'' \<notin> set s" "list_all ip_char s \<Longrightarrow> CHR ''|'' \<notin> set s"
  "list_all is_digit_char s \<Longrightarrow> CHR ''-'' \<notin> set s" "list_all is_digit_char s \<Longrightarrow> CHR ''|'' \<notin> set s"
  "list_all is_digit_char s \<Longrightarrow> CHR '':'' \<notin> set s"
  by (auto simp: list_all_iff ip_char_def hex_val_def is_digit_char_def dest!: bspec split: if_splits)

text \<open>What is hashed into a flow identifier determines the flow. For addresses in text form,
  IPv6 with its colons included, and port numbers, two flows give the hasher the same bytes only
  when both endpoints agree and the protocols agree up to case.\<close>

theorem flow_key_inj:
  assumes "list_all ip_char sip" "list_all ip_char dip" "list_all ip_char sip'" "list_all ip_char dip'"
    and "0 \<le> sp" "0 \<le> dp" "0 \<le> sp'" "0 \<le> dp'"
  shows "flow_key E sip sp dip dp proto = flow_key E sip' sp' dip' dp' proto' \<longleftrightarrow>
    sip = sip' \<and> sp = sp' \<and> dip = dip' \<and> dp = dp' \<and> to_upper E proto = to_upper E proto'"
proof
  assume eq: "flow_key E sip sp dip dp proto = flow_key E sip' sp' dip' dp' proto'"
  note digits = itoa_nonneg_chars [OF assms(5)] itoa_nonneg_chars [OF assms(6)]
    itoa_nonneg_chars [OF assms(7)] itoa_nonneg_chars [OF assms(8)]
  note clean = assms(1-4) [THEN not_ip_char(1)] assms(1-4) [THEN not_ip_char(2)]
    digits [THEN not_ip_char(3)] digits [THEN not_ip_char(4)] digits [THEN not_ip_char(5)]
  have "(sip @ '':'' @ itoa sp) @ CHR ''-'' # (CHR ''>'' # dip @ '':'' @ itoa dp @ ''|'' @ to_upper E proto)
      = (sip' @ '':'' @ itoa sp') @ CHR ''-'' # (CHR ''>'' # dip' @ '':'' @ itoa dp' @ ''|'' @ to_upper E proto')"
    using eq by (simp add: flow_key_def)
  from append_sep_inj [OF _ _ this]
  have src: "sip @ CHR '':'' # itoa sp = sip' @ CHR '':'' # itoa sp'"
    and dst: "(dip @ '':'' @ itoa dp) @ CHR ''|'' # to_upper E proto =
      (dip' @ '':'' @ itoa dp') @ CHR ''|'' # to_upper E proto'"
    using clean by simp_all
  from append_sep_inj [OF _ _ dst]
  have d: "dip @ CHR '':'' # itoa dp = dip' @ CHR '':'' # itoa dp'" and p: "to_upper E proto = to_upper E proto'"
    using clean by simp_all
  from append_sep_inj_last [OF _ _ src] append_sep_inj_last [OF _ _ d] p
  show "sip = sip' \<and> sp = sp' \<and> dip = dip' \<and> dp = dp' \<and> to_upper E proto = to_upper E proto'"
    using clean itoa_inj assms(5-8) by blast
qed (simp add: flow_key_def)

lemma flow_key_inj_witness:
  "flow_key ascii_env ''::1'' 80 ''10.0.0.1'' 443 ''tcp'' = flow_key ascii_env ''::1'' 80 ''10.0.0.1'' 443 ''TCP''
   \<and> flow_key ascii_env ''::1'' 80 ''10.0.0.1'' 443 ''tcp'' \<noteq> flow_key ascii_env ''::1'' 80 ''10.0.0.1'' 443 ''udp''"
proof -
  have "list_all ip_char ''::1''" "list_all ip_char ''10.0.0.1''"
    by (simp_all add: ip_char_def go_unfold)
  then show ?thesis by (simp add: flow_key_inj to_upper_def go_unfold)
qed

subsection \<open>The table of synthetic events\<close>

record synthetic =
  syn_m :: "(string, nanos) gomap"
  syn_writes :: nat

definition suppress_window :: nanos where "suppress_window = 5 * second"
definition prune_interval :: nat where "prune_interval = 64"

definition synthetic_init :: synthetic where
  "synthetic_init = \<lparr>syn_m = [], syn_writes = 0\<rparr>"

definition mark_synthetic :: "nanos \<Rightarrow> nanos \<Rightarrow> string \<Rightarrow> synthetic \<Rightarrow> synthetic" where
  \<comment> \<open>the two clock readings: the time stored, and the time the cutoff is taken from\<close>
  "mark_synthetic now now' fid st =
     (if fid = [] then st
      else
        (let m = AList.update fid now (syn_m st);
             w = Suc (syn_writes st)
         in if prune_interval \<le> w then
              (let cutoff = now' - suppress_window * 4
               in \<lparr>syn_m = filter (\<lambda>(k, v). \<not> v < cutoff) m, syn_writes = 0\<rparr>)
            else \<lparr>syn_m = m, syn_writes = w\<rparr>))"

definition is_synthetic_recent :: "nanos \<Rightarrow> string \<Rightarrow> synthetic \<Rightarrow> bool" where
  "is_synthetic_recent now fid st \<longleftrightarrow>
     fid \<noteq> [] \<and>
     (case map_of (syn_m st) fid of
        None \<Rightarrow> False
      | Some lastTime \<Rightarrow> now - lastTime \<le> suppress_window)"

definition synthetic_wf :: "synthetic \<Rightarrow> bool" where
  "synthetic_wf st \<longleftrightarrow> wf_map (syn_m st) \<and> syn_writes st < prune_interval"

lemma synthetic_init_wf [inv_intro]: "synthetic_wf synthetic_init"
  by (simp add: synthetic_wf_def synthetic_init_def prune_interval_def)

lemma mark_synthetic_wf [inv_intro]: "synthetic_wf st \<Longrightarrow> synthetic_wf (mark_synthetic now now' fid st)"
  by (auto simp: synthetic_wf_def mark_synthetic_def Let_def prune_interval_def)

lemma synthetic_after_mark:
  assumes "synthetic_wf st" "fid \<noteq> []" "now \<le> now'" "now' \<le> later"
  shows "is_synthetic_recent later k (mark_synthetic now now' fid st) \<longleftrightarrow>
    (if k = fid then later - now \<le> suppress_window else is_synthetic_recent later k st)"
proof -
  have wf: "wf_map (AList.update fid now (syn_m st))"
    using assms(1) by (simp add: synthetic_wf_def)
  show ?thesis
    using assms(2-4)
    by (auto simp: is_synthetic_recent_def mark_synthetic_def Let_def map_of_filter_fst [OF wf]
        update_conv' suppress_window_def split: option.splits)
qed

end
