(* ===== verification/Nftables.thy ===== *)
theory Nftables
  imports Flow
begin

text \<open>
  \<^verbatim>\<open>internal/nftables/nftables.go\<close>, the part that generates and applies rulesets. Every
  template is given line by line, as the text the \<^verbatim>\<open>fmt.Sprintf\<close> call produces
  (\<open>unlines\<close> ends each line with a newline). \<^verbatim>\<open>nft\<close> itself is a program outside the
  repository: a parameter that maps arguments and standard input to the output of a failed run.
  What the generated text means is the subject of theory Ruleset.
\<close>

abbreviation newline :: char where "newline \<equiv> CHR 0x0A"

fun unlines :: "string list \<Rightarrow> string" where
  "unlines [] = []"
| "unlines (l # ls) = l @ newline # unlines ls"

lemma unlines_append: "unlines (a @ b) = unlines a @ unlines b"
  by (induction a) auto

subsection \<open>Version and ports\<close>

datatype nft_error =
    InvalidPort string string \<comment> \<open>not a number: the name of the port and its text\<close>
  | PortOutOfRange string int
  | VersionFailed
  | DryRunFailed string
  | ApplyFailed string

definition version :: "string option \<Rightarrow> nft_error + string" where
  \<comment> \<open>the argument is the output of \<^verbatim>\<open>nft --version\<close>, if it ran\<close>
  "version run =
     (case run of
        None \<Rightarrow> Inl VersionFailed
      | Some out \<Rightarrow> Inr (trim_prefix (trim_space out) ''nftables ''))"

definition parse_port :: "string \<Rightarrow> string \<Rightarrow> nft_error + int" where
  "parse_port s name =
     (case atoi (trim_space s) of
        None \<Rightarrow> Inl (InvalidPort name s)
      | Some port \<Rightarrow> if port < 1 \<or> port > 65535 then Inl (PortOutOfRange name port) else Inr port)"

subsection \<open>Splitting by address family\<close>

fun split_by_family :: "string list \<Rightarrow> string list \<times> string list" where
  "split_by_family [] = ([], [])"
| "split_by_family (e # rest) =
     (let entry = trim_space e; (v4, v6) = split_by_family rest
      in if entry = [] then (v4, v6)
         else if str_contains entry ''/'' then
           (case parse_cidr entry of
              None \<Rightarrow> (v4, v6)
            | Some (_, ipnet) \<Rightarrow>
                if to4 ipnet \<noteq> None then (entry # v4, v6) else (v4, entry # v6))
         else
           (case parse_ip entry of
              None \<Rightarrow> (v4, v6)
            | Some ip \<Rightarrow> if to4 ip \<noteq> None then (entry # v4, v6) else (v4, entry # v6)))"

subsection \<open>Templates\<close>

definition set_block :: "string \<Rightarrow> string \<Rightarrow> string \<Rightarrow> string" where
  "set_block name addrType elements =
     (if elements = [] then
        unlines
         [''    set '' @ name @ '' {'',
          ''        type '' @ addrType,
          ''        flags interval'',
          ''    }'']
      else
        unlines
         [''    set '' @ name @ '' {'',
          ''        type '' @ addrType,
          ''        flags interval'',
          ''        elements = {'' @ elements @ ''}'',
          ''    }''])"

definition generate_https_filter_rules_allow :: "string \<Rightarrow> string \<Rightarrow> int \<Rightarrow> int \<Rightarrow> string" where
  \<open>generate_https_filter_rules_allow allowSet denySet httpPort httpsPort =
     unlines
      [[],
       ''table ip g0efilter_v4 {''] @
     set_block ''allow_daddr_v4'' ''ipv4_addr'' allowSet @
     set_block ''deny_daddr_v4'' ''ipv4_addr'' denySet @
     unlines
      [[],
       ''    chain egress_allowlist_v4 {'',
       ''        type filter hook output priority filter; policy accept;'',
       [],
       ''        # Always allow loopback-bound traffic'',
       ''        oifname "lo" accept'',
       [],
       ''        # Allow already established connections'',
       ''        ct state established,related accept'',
       [],
       ''        # Bypass marked traffic (SO_MARK=0x1)'',
       ''        meta mark 0x1 accept'',
       [],
       ''        # Allow local proxies on 127.0.0.1'',
       ''        ip daddr 127.0.0.1 tcp dport '' @ itoa httpPort @ '' accept    # HTTP proxy'',
       ''        ip daddr 127.0.0.1 tcp dport '' @ itoa httpsPort @ '' accept    # HTTPS proxy'',
       [],
       ''        # Explicit allowlist overrides the denylist'',
       ''        ip daddr @allow_daddr_v4 accept'',
       [],
       ''        # Log and drop deny-listed destinations'',
       ''        ip daddr @deny_daddr_v4 log prefix "blocked" group 0'',
       ''        ip daddr @deny_daddr_v4 drop'',
       ''    }'',
       ''}'']\<close>

definition generate_https_nat_rules_allow :: "string \<Rightarrow> string \<Rightarrow> int \<Rightarrow> int \<Rightarrow> string" where
  \<open>generate_https_nat_rules_allow allowSet denySet httpPort httpsPort =
     unlines
      [[],
       ''table ip g0efilter_nat_v4 {''] @
     set_block ''allow_daddr_v4'' ''ipv4_addr'' allowSet @
     set_block ''deny_daddr_v4'' ''ipv4_addr'' denySet @
     unlines
      [[],
       ''    chain output {'',
       ''        type nat hook output priority -100;'',
       [],
       ''        # Bypass marked traffic (SO_MARK=0x1)'',
       ''        meta mark 0x1 return'',
       [],
       ''        # Return if allow-listed IP'',
       ''        ip daddr @allow_daddr_v4 return'',
       [],
       ''        # Deny-listed IPs are dropped in the filter chain, not proxied'',
       ''        ip daddr @deny_daddr_v4 return'',
       [],
       ''        # Redirect HTTP (80) to local HTTP proxy'',
       ''        tcp dport 80  log prefix "redirected" group 0'',
       ''        tcp dport 80  redirect to :'' @ itoa httpPort,
       [],
       ''        # Redirect HTTPS (443) to local HTTPS proxy'',
       ''        tcp dport 443 log prefix "redirected" group 0'',
       ''        tcp dport 443 redirect to :'' @ itoa httpsPort,
       ''    }'',
       ''}'']\<close>

definition generate_https_filter_rules_allow_v6 :: "string \<Rightarrow> string \<Rightarrow> int \<Rightarrow> int \<Rightarrow> string" where
  \<open>generate_https_filter_rules_allow_v6 allowSet denySet httpPort httpsPort =
     unlines
      [[],
       ''table ip6 g0efilter_v6 {''] @
     set_block ''allow_daddr_v6'' ''ipv6_addr'' allowSet @
     set_block ''deny_daddr_v6'' ''ipv6_addr'' denySet @
     unlines
      [[],
       ''    chain egress_allowlist_v6 {'',
       ''        type filter hook output priority filter; policy accept;'',
       [],
       ''        # Always allow loopback-bound traffic'',
       ''        oifname "lo" accept'',
       [],
       ''        # Allow already established connections'',
       ''        ct state established,related accept'',
       [],
       ''        # Bypass marked traffic (SO_MARK=0x1)'',
       ''        meta mark 0x1 accept'',
       [],
       ''        # Allow local proxies on ::1'',
       ''        ip6 daddr ::1 tcp dport '' @ itoa httpPort @ '' accept    # HTTP proxy'',
       ''        ip6 daddr ::1 tcp dport '' @ itoa httpsPort @ '' accept    # HTTPS proxy'',
       [],
       ''        # Explicit allowlist overrides the denylist'',
       ''        ip6 daddr @allow_daddr_v6 accept'',
       [],
       ''        # Log and drop deny-listed destinations'',
       ''        ip6 daddr @deny_daddr_v6 log prefix "blocked" group 0'',
       ''        ip6 daddr @deny_daddr_v6 drop'',
       ''    }'',
       ''}'']\<close>

definition generate_https_nat_rules_allow_v6 :: "string \<Rightarrow> string \<Rightarrow> int \<Rightarrow> int \<Rightarrow> string" where
  \<open>generate_https_nat_rules_allow_v6 allowSet denySet httpPort httpsPort =
     unlines
      [[],
       ''table ip6 g0efilter_nat_v6 {''] @
     set_block ''allow_daddr_v6'' ''ipv6_addr'' allowSet @
     set_block ''deny_daddr_v6'' ''ipv6_addr'' denySet @
     unlines
      [[],
       ''    chain output {'',
       ''        type nat hook output priority -100;'',
       [],
       ''        # Bypass marked traffic (SO_MARK=0x1)'',
       ''        meta mark 0x1 return'',
       [],
       ''        # Return if allow-listed IP'',
       ''        ip6 daddr @allow_daddr_v6 return'',
       [],
       ''        # Deny-listed IPs are dropped in the filter chain, not proxied'',
       ''        ip6 daddr @deny_daddr_v6 return'',
       [],
       ''        # Redirect HTTP (80) to local HTTP proxy'',
       ''        tcp dport 80  log prefix "redirected" group 0'',
       ''        tcp dport 80  redirect to :'' @ itoa httpPort,
       [],
       ''        # Redirect HTTPS (443) to local HTTPS proxy'',
       ''        tcp dport 443 log prefix "redirected" group 0'',
       ''        tcp dport 443 redirect to :'' @ itoa httpsPort,
       ''    }'',
       ''}'']\<close>

definition generate_dns_filter_rules_allow :: "string \<Rightarrow> string \<Rightarrow> int \<Rightarrow> string" where
  \<open>generate_dns_filter_rules_allow allowSet denySet dnsPort =
     unlines
      [[],
       ''table ip g0efilter_v4 {''] @
     set_block ''allow_daddr_v4'' ''ipv4_addr'' allowSet @
     set_block ''deny_daddr_v4'' ''ipv4_addr'' denySet @
     unlines
      [[],
       ''    chain egress_allowlist_v4 {'',
       ''        type filter hook output priority filter; policy accept;'',
       [],
       ''        # Always allow loopback-bound traffic'',
       ''        oifname "lo" accept'',
       [],
       ''        # Allow already established connections'',
       ''        ct state established,related accept'',
       [],
       ''        # Bypass marked traffic (SO_MARK=0x1)'',
       ''        meta mark 0x1 accept'',
       [],
       ''        # Allow local DNS proxy on loopback'',
       ''        ip daddr 127.0.0.1 udp dport '' @ itoa dnsPort @ '' accept'',
       ''        ip daddr 127.0.0.1 tcp dport '' @ itoa dnsPort @ '' accept'',
       [],
       ''        # Explicit allowlist overrides the denylist'',
       ''        ip daddr @allow_daddr_v4 accept'',
       [],
       ''        # Log and drop deny-listed destinations'',
       ''        ip daddr @deny_daddr_v4 log prefix "blocked" group 0'',
       ''        ip daddr @deny_daddr_v4 drop'',
       ''    }'',
       ''}'']\<close>

definition generate_dns_filter_rules_allow_v6 :: "string \<Rightarrow> string \<Rightarrow> int \<Rightarrow> string" where
  \<open>generate_dns_filter_rules_allow_v6 allowSet denySet dnsPort =
     unlines
      [[],
       ''table ip6 g0efilter_v6 {''] @
     set_block ''allow_daddr_v6'' ''ipv6_addr'' allowSet @
     set_block ''deny_daddr_v6'' ''ipv6_addr'' denySet @
     unlines
      [[],
       ''    chain egress_allowlist_v6 {'',
       ''        type filter hook output priority filter; policy accept;'',
       [],
       ''        # Always allow loopback-bound traffic'',
       ''        oifname "lo" accept'',
       [],
       ''        # Allow already established connections'',
       ''        ct state established,related accept'',
       [],
       ''        # Bypass marked traffic (SO_MARK=0x1)'',
       ''        meta mark 0x1 accept'',
       [],
       ''        # Allow local DNS proxy on loopback'',
       ''        ip6 daddr ::1 udp dport '' @ itoa dnsPort @ '' accept'',
       ''        ip6 daddr ::1 tcp dport '' @ itoa dnsPort @ '' accept'',
       [],
       ''        # Explicit allowlist overrides the denylist'',
       ''        ip6 daddr @allow_daddr_v6 accept'',
       [],
       ''        # Log and drop deny-listed destinations'',
       ''        ip6 daddr @deny_daddr_v6 log prefix "blocked" group 0'',
       ''        ip6 daddr @deny_daddr_v6 drop'',
       ''    }'',
       ''}'']\<close>

definition generate_dns_strict_filter_rules :: "string \<Rightarrow> int \<Rightarrow> string" where
  \<open>generate_dns_strict_filter_rules allowSet dnsPort =
     unlines
      [[],
       ''table ip g0efilter_v4 {''] @
     set_block ''allow_daddr_v4'' ''ipv4_addr'' allowSet @
     unlines
      [[],
       ''    set resolved_allow_v4 {'',
       ''        type ipv4_addr'',
       ''        flags timeout'',
       ''    }'',
       [],
       ''    chain egress_allowlist_v4 {'',
       ''        type filter hook output priority filter; policy drop;'',
       [],
       ''        # Always allow loopback-bound traffic'',
       ''        oifname "lo" accept'',
       [],
       ''        # Allow already established connections'',
       ''        ct state established,related accept'',
       [],
       ''        # Bypass marked traffic (SO_MARK=0x1)'',
       ''        meta mark 0x1 accept'',
       [],
       ''        # Allow local DNS proxy on loopback'',
       ''        ip daddr 127.0.0.1 udp dport '' @ itoa dnsPort @ '' accept'',
       ''        ip daddr 127.0.0.1 tcp dport '' @ itoa dnsPort @ '' accept'',
       [],
       ''        # Allow ping to allow-listed destinations'',
       ''        icmp type echo-request ip daddr @allow_daddr_v4 accept'',
       [],
       ''        # Allow and log statically allow-listed destinations'',
       ''        ip daddr @allow_daddr_v4 log prefix "allowed" group 0'',
       ''        ip daddr @allow_daddr_v4 accept'',
       [],
       ''        # Allow destinations resolved through the DNS proxy (TTL-bounded)'',
       ''        ip daddr @resolved_allow_v4 log prefix "allowed" group 0'',
       ''        ip daddr @resolved_allow_v4 accept'',
       [],
       ''        # Log and drop everything else'',
       ''        log prefix "blocked" group 0'',
       ''        drop'',
       ''    }'',
       ''}'']\<close>

definition generate_dns_strict_filter_rules_v6 :: "string \<Rightarrow> int \<Rightarrow> string" where
  \<open>generate_dns_strict_filter_rules_v6 allowSet dnsPort =
     unlines
      [[],
       ''table ip6 g0efilter_v6 {''] @
     set_block ''allow_daddr_v6'' ''ipv6_addr'' allowSet @
     unlines
      [[],
       ''    set resolved_allow_v6 {'',
       ''        type ipv6_addr'',
       ''        flags timeout'',
       ''    }'',
       [],
       ''    chain egress_allowlist_v6 {'',
       ''        type filter hook output priority filter; policy drop;'',
       [],
       ''        # Always allow loopback-bound traffic'',
       ''        oifname "lo" accept'',
       [],
       ''        # Allow already established connections'',
       ''        ct state established,related accept'',
       [],
       ''        # Bypass marked traffic (SO_MARK=0x1)'',
       ''        meta mark 0x1 accept'',
       [],
       ''        # Allow local DNS proxy on loopback'',
       ''        ip6 daddr ::1 udp dport '' @ itoa dnsPort @ '' accept'',
       ''        ip6 daddr ::1 tcp dport '' @ itoa dnsPort @ '' accept'',
       [],
       ''        # Allow ping to allow-listed destinations'',
       ''        icmpv6 type echo-request ip6 daddr @allow_daddr_v6 accept'',
       [],
       ''        # ICMPv6 neighbour discovery is required for any IPv6 connectivity'',
       ''        icmpv6 type { nd-neighbor-solicit, nd-neighbor-advert, nd-router-solicit, nd-router-advert } accept'',
       [],
       ''        # Allow and log statically allow-listed destinations'',
       ''        ip6 daddr @allow_daddr_v6 log prefix "allowed" group 0'',
       ''        ip6 daddr @allow_daddr_v6 accept'',
       [],
       ''        # Allow destinations resolved through the DNS proxy (TTL-bounded)'',
       ''        ip6 daddr @resolved_allow_v6 log prefix "allowed" group 0'',
       ''        ip6 daddr @resolved_allow_v6 accept'',
       [],
       ''        # Log and drop everything else'',
       ''        log prefix "blocked" group 0'',
       ''        drop'',
       ''    }'',
       ''}'']\<close>

definition generate_dns_filter_rules :: "string \<Rightarrow> int \<Rightarrow> string" where
  \<open>generate_dns_filter_rules allowSet dnsPort =
     unlines
      [[],
       ''table ip g0efilter_v4 {'',
       ''    set allow_daddr_v4 {'',
       ''        type ipv4_addr'',
       ''        flags interval'',
       ''        elements = {'' @ allowSet @ ''}'',
       ''    }'',
       [],
       ''    chain egress_allowlist_v4 {'',
       ''        type filter hook output priority filter; policy accept;'',
       [],
       ''        # Always allow loopback-bound traffic'',
       ''        oifname "lo" accept'',
       [],
       ''        # Allow already established connections'',
       ''        ct state established,related accept'',
       [],
       ''        # Bypass marked traffic (SO_MARK=0x1)'',
       ''        meta mark 0x1 accept'',
       [],
       ''        # Allow local DNS proxy on loopback'',
       ''        ip daddr 127.0.0.1 udp dport '' @ itoa dnsPort @ '' accept'',
       ''        ip daddr 127.0.0.1 tcp dport '' @ itoa dnsPort @ '' accept'',
       [],
       ''        # Allow ping to allow-listed destinations'',
       ''        icmp type echo-request ip daddr @allow_daddr_v4 accept'',
       ''    }'',
       ''}'']\<close>

definition generate_https_filter_rules :: "string \<Rightarrow> int \<Rightarrow> int \<Rightarrow> string" where
  \<open>generate_https_filter_rules allowSet httpPort httpsPort =
     unlines
      [[],
       ''table ip g0efilter_v4 {'',
       ''    set allow_daddr_v4 {'',
       ''        type ipv4_addr'',
       ''        flags interval'',
       ''        elements = {'' @ allowSet @ ''}'',
       ''    }'',
       [],
       ''    chain egress_allowlist_v4 {'',
       ''        type filter hook output priority filter; policy drop;'',
       [],
       ''        # Always allow loopback-bound traffic'',
       ''        oifname "lo" accept'',
       [],
       ''        # Allow already established connections'',
       ''        ct state established,related accept'',
       [],
       ''        # Bypass marked traffic (SO_MARK=0x1)'',
       ''        meta mark 0x1 accept'',
       [],
       ''        # Allow local proxies on 127.0.0.1'',
       ''        ip daddr 127.0.0.1 tcp dport '' @ itoa httpPort @ '' accept    # HTTP proxy'',
       ''        ip daddr 127.0.0.1 tcp dport '' @ itoa httpsPort @ '' accept    # HTTPS proxy'',
       [],
       ''        # Allow ping to allow-listed destinations'',
       ''        icmp type echo-request ip daddr @allow_daddr_v4 accept'',
       [],
       ''        # Allow and log allow-listed destinations'',
       ''        ip daddr @allow_daddr_v4 log prefix "allowed" group 0'',
       ''        ip daddr @allow_daddr_v4 accept'',
       [],
       ''        # Log and drop everything else'',
       ''        log prefix "blocked" group 0'',
       ''        drop'',
       ''    }'',
       ''}'']\<close>

definition generate_dns_nat_rules :: "int \<Rightarrow> string" where
  \<open>generate_dns_nat_rules dnsPort =
     unlines
      [[],
       ''table ip g0efilter_nat_v4 {'',
       ''    chain output {'',
       ''        type nat hook output priority -100;'',
       [],
       ''        # Bypass marked traffic (SO_MARK=0x1)'',
       ''        meta mark 0x1 return'',
       [],
       ''        # Exempt direct access to the local DNS proxy'',
       ''        ip daddr 127.0.0.1 udp dport 53 return'',
       ''        ip daddr 127.0.0.1 tcp dport 53 return'',
       ''        ip daddr 127.0.0.1 udp dport '' @ itoa dnsPort @ '' return'',
       ''        ip daddr 127.0.0.1 tcp dport '' @ itoa dnsPort @ '' return'',
       [],
       ''        # Redirect ALL DNS (UDP/TCP 53) to local DNS proxy'',
       ''        udp dport 53  log prefix "dns_redirected" group 0'',
       ''        udp dport 53  redirect to :'' @ itoa dnsPort,
       ''        tcp dport 53  log prefix "dns_redirected" group 0'',
       ''        tcp dport 53  redirect to :'' @ itoa dnsPort,
       ''    }'',
       ''}'']\<close>

definition generate_https_nat_rules :: "string \<Rightarrow> int \<Rightarrow> int \<Rightarrow> string" where
  \<open>generate_https_nat_rules allowSet httpPort httpsPort =
     unlines
      [[],
       ''table ip g0efilter_nat_v4 {'',
       ''    set allow_daddr_v4 {'',
       ''        type ipv4_addr'',
       ''        flags interval'',
       ''        elements = {'' @ allowSet @ ''}'',
       ''    }'',
       [],
       ''    chain output {'',
       ''        type nat hook output priority -100;'',
       [],
       ''        # Bypass marked traffic (SO_MARK=0x1)'',
       ''        meta mark 0x1 return'',
       [],
       ''        # Return if allow-listed IP'',
       ''        ip daddr @allow_daddr_v4 return'',
       [],
       ''        # Redirect HTTP (80) to local HTTP proxy'',
       ''        tcp dport 80  log prefix "redirected" group 0'',
       ''        tcp dport 80  redirect to :'' @ itoa httpPort,
       [],
       ''        # Redirect HTTPS (443) to local HTTPS proxy'',
       ''        tcp dport 443 log prefix "redirected" group 0'',
       ''        tcp dport 443 redirect to :'' @ itoa httpsPort,
       ''    }'',
       ''}'']\<close>

definition generate_https_filter_rules_v6 :: "string \<Rightarrow> int \<Rightarrow> int \<Rightarrow> string" where
  \<open>generate_https_filter_rules_v6 allowSet httpPort httpsPort =
     unlines
      [[],
       ''table ip6 g0efilter_v6 {'',
       ''    set allow_daddr_v6 {'',
       ''        type ipv6_addr'',
       ''        flags interval'',
       ''        elements = {'' @ allowSet @ ''}'',
       ''    }'',
       [],
       ''    chain egress_allowlist_v6 {'',
       ''        type filter hook output priority filter; policy drop;'',
       [],
       ''        # Always allow loopback-bound traffic'',
       ''        oifname "lo" accept'',
       [],
       ''        # Allow already established connections'',
       ''        ct state established,related accept'',
       [],
       ''        # Bypass marked traffic (SO_MARK=0x1)'',
       ''        meta mark 0x1 accept'',
       [],
       ''        # Allow local proxies on ::1'',
       ''        ip6 daddr ::1 tcp dport '' @ itoa httpPort @ '' accept    # HTTP proxy'',
       ''        ip6 daddr ::1 tcp dport '' @ itoa httpsPort @ '' accept    # HTTPS proxy'',
       [],
       ''        # Allow ping to allow-listed destinations'',
       ''        icmpv6 type echo-request ip6 daddr @allow_daddr_v6 accept'',
       [],
       ''        # Allow and log allow-listed destinations'',
       ''        ip6 daddr @allow_daddr_v6 log prefix "allowed" group 0'',
       ''        ip6 daddr @allow_daddr_v6 accept'',
       [],
       ''        # Log and drop everything else'',
       ''        log prefix "blocked" group 0'',
       ''        drop'',
       ''    }'',
       ''}'']\<close>

definition generate_https_nat_rules_v6 :: "string \<Rightarrow> int \<Rightarrow> int \<Rightarrow> string" where
  \<open>generate_https_nat_rules_v6 allowSet httpPort httpsPort =
     unlines
      [[],
       ''table ip6 g0efilter_nat_v6 {'',
       ''    set allow_daddr_v6 {'',
       ''        type ipv6_addr'',
       ''        flags interval'',
       ''        elements = {'' @ allowSet @ ''}'',
       ''    }'',
       [],
       ''    chain output {'',
       ''        type nat hook output priority -100;'',
       [],
       ''        # Bypass marked traffic (SO_MARK=0x1)'',
       ''        meta mark 0x1 return'',
       [],
       ''        # Return if allow-listed IP'',
       ''        ip6 daddr @allow_daddr_v6 return'',
       [],
       ''        # Redirect HTTP (80) to local HTTP proxy'',
       ''        tcp dport 80  log prefix "redirected" group 0'',
       ''        tcp dport 80  redirect to :'' @ itoa httpPort,
       [],
       ''        # Redirect HTTPS (443) to local HTTPS proxy'',
       ''        tcp dport 443 log prefix "redirected" group 0'',
       ''        tcp dport 443 redirect to :'' @ itoa httpsPort,
       ''    }'',
       ''}'']\<close>

definition generate_dns_filter_rules_v6 :: "string \<Rightarrow> int \<Rightarrow> string" where
  \<open>generate_dns_filter_rules_v6 allowSet dnsPort =
     unlines
      [[],
       ''table ip6 g0efilter_v6 {'',
       ''    set allow_daddr_v6 {'',
       ''        type ipv6_addr'',
       ''        flags interval'',
       ''        elements = {'' @ allowSet @ ''}'',
       ''    }'',
       [],
       ''    chain egress_allowlist_v6 {'',
       ''        type filter hook output priority filter; policy accept;'',
       [],
       ''        # Always allow loopback-bound traffic'',
       ''        oifname "lo" accept'',
       [],
       ''        # Allow already established connections'',
       ''        ct state established,related accept'',
       [],
       ''        # Bypass marked traffic (SO_MARK=0x1)'',
       ''        meta mark 0x1 accept'',
       [],
       ''        # Allow local DNS proxy on loopback'',
       ''        ip6 daddr ::1 udp dport '' @ itoa dnsPort @ '' accept'',
       ''        ip6 daddr ::1 tcp dport '' @ itoa dnsPort @ '' accept'',
       [],
       ''        # Allow ping to allow-listed destinations'',
       ''        icmpv6 type echo-request ip6 daddr @allow_daddr_v6 accept'',
       ''    }'',
       ''}'']\<close>

definition generate_dns_nat_rules_v6 :: "int \<Rightarrow> string" where
  \<open>generate_dns_nat_rules_v6 dnsPort =
     unlines
      [[],
       ''table ip6 g0efilter_nat_v6 {'',
       ''    chain output {'',
       ''        type nat hook output priority -100;'',
       [],
       ''        # Bypass marked traffic (SO_MARK=0x1)'',
       ''        meta mark 0x1 return'',
       [],
       ''        # Exempt direct access to the local DNS proxy'',
       ''        ip6 daddr ::1 udp dport 53 return'',
       ''        ip6 daddr ::1 tcp dport 53 return'',
       ''        ip6 daddr ::1 udp dport '' @ itoa dnsPort @ '' return'',
       ''        ip6 daddr ::1 tcp dport '' @ itoa dnsPort @ '' return'',
       [],
       ''        # Redirect ALL DNS (UDP/TCP 53) to local DNS proxy'',
       ''        udp dport 53  log prefix "dns_redirected" group 0'',
       ''        udp dport 53  redirect to :'' @ itoa dnsPort,
       ''        tcp dport 53  log prefix "dns_redirected" group 0'',
       ''        tcp dport 53  redirect to :'' @ itoa dnsPort,
       ''    }'',
       ''}'']\<close>

subsection \<open>Generating a ruleset\<close>

record ruleset_config =
  AllowV4 :: "string list"
  AllowV6 :: "string list"
  DenyV4 :: "string list"
  DenyV6 :: "string list"
  HTTPSPort :: int
  HTTPPort :: int
  DNSPort :: int
  Mode :: string
  DefaultAllow :: bool
  Audit :: bool

definition ruleset_mode :: "env \<Rightarrow> ruleset_config \<Rightarrow> string" where
  "ruleset_mode E cfg =
     (let mode = to_lower E (Mode cfg)
      in if mode \<noteq> mode_dns \<and> mode \<noteq> mode_dns_strict then mode_https else mode)"

definition join_or :: "string \<Rightarrow> string list \<Rightarrow> string" where
  \<comment> \<open>the placeholder keeps an allow set nonempty\<close>
  "join_or placeholder entries =
     (let s = join_with '', '' entries in if s = [] then placeholder else s)"

definition generate_enforcing_ruleset :: "env \<Rightarrow> ruleset_config \<Rightarrow> string" where
  "generate_enforcing_ruleset E cfg =
     (let mode = ruleset_mode E cfg;
          allowSetV4 = join_or ''127.0.0.1'' (AllowV4 cfg);
          allowSetV6 = join_or ''::1'' (AllowV6 cfg)
      in if DefaultAllow cfg then
           (let denySetV4 = join_with '', '' (DenyV4 cfg);
                denySetV6 = join_with '', '' (DenyV6 cfg)
            in if mode = mode_dns \<or> mode = mode_dns_strict then
                 generate_dns_filter_rules_allow allowSetV4 denySetV4 (DNSPort cfg) @
                 [newline] @ generate_dns_nat_rules (DNSPort cfg) @
                 [newline] @ generate_dns_filter_rules_allow_v6 allowSetV6 denySetV6 (DNSPort cfg) @
                 [newline] @ generate_dns_nat_rules_v6 (DNSPort cfg)
               else
                 generate_https_filter_rules_allow allowSetV4 denySetV4 (HTTPPort cfg) (HTTPSPort cfg) @
                 [newline] @
                 generate_https_nat_rules_allow allowSetV4 denySetV4 (HTTPPort cfg) (HTTPSPort cfg) @
                 [newline] @
                 generate_https_filter_rules_allow_v6 allowSetV6 denySetV6 (HTTPPort cfg) (HTTPSPort cfg) @
                 [newline] @
                 generate_https_nat_rules_allow_v6 allowSetV6 denySetV6 (HTTPPort cfg) (HTTPSPort cfg))
         else if mode = mode_dns_strict then
           generate_dns_strict_filter_rules allowSetV4 (DNSPort cfg) @
           [newline] @ generate_dns_nat_rules (DNSPort cfg) @
           [newline] @ generate_dns_strict_filter_rules_v6 allowSetV6 (DNSPort cfg) @
           [newline] @ generate_dns_nat_rules_v6 (DNSPort cfg)
         else if mode = mode_dns then
           generate_dns_filter_rules allowSetV4 (DNSPort cfg) @
           [newline] @ generate_dns_nat_rules (DNSPort cfg) @
           [newline] @ generate_dns_filter_rules_v6 allowSetV6 (DNSPort cfg) @
           [newline] @ generate_dns_nat_rules_v6 (DNSPort cfg)
         else
           generate_https_filter_rules allowSetV4 (HTTPPort cfg) (HTTPSPort cfg) @
           [newline] @ generate_https_nat_rules allowSetV4 (HTTPPort cfg) (HTTPSPort cfg) @
           [newline] @ generate_https_filter_rules_v6 allowSetV6 (HTTPPort cfg) (HTTPSPort cfg) @
           [newline] @ generate_https_nat_rules_v6 allowSetV6 (HTTPPort cfg) (HTTPSPort cfg))"

definition audit_ruleset :: "string \<Rightarrow> string" where
  \<open>audit_ruleset ruleset =
     (let r1 = replace_all ruleset ''policy drop;'' ''policy accept;'';
          r2 = replace_all r1 ''log prefix "blocked" group 0'' ''log prefix "audit" group 0'';
          r3 = replace_all r2 (newline # ''        drop'' @ [newline]) (newline # ''        accept'' @ [newline]);
          r4 = replace_all r3 '' @deny_daddr_v4 drop'' '' @deny_daddr_v4 accept''
      in replace_all r4 '' @deny_daddr_v6 drop'' '' @deny_daddr_v6 accept'')\<close>

definition generate_ruleset :: "env \<Rightarrow> ruleset_config \<Rightarrow> string" where
  "generate_ruleset E cfg =
     (let ruleset = generate_enforcing_ruleset E cfg
      in if Audit cfg then audit_ruleset ruleset else ruleset)"

definition generate_nft_ruleset ::
  "env \<Rightarrow> string list \<Rightarrow> string list \<Rightarrow> int \<Rightarrow> int \<Rightarrow> int \<Rightarrow> string \<Rightarrow> string" where
  "generate_nft_ruleset E v4 v6 httpsPort httpPort dnsPort mode =
     generate_ruleset E
       \<lparr>AllowV4 = v4, AllowV6 = v6, DenyV4 = [], DenyV6 = [], HTTPSPort = httpsPort,
        HTTPPort = httpPort, DNSPort = dnsPort, Mode = mode, DefaultAllow = False, Audit = False\<rparr>"

subsection \<open>Applying a ruleset\<close>

definition atomic_replace_preamble :: string where
  "atomic_replace_preamble =
     unlines
      [''table ip g0efilter_v4'',
       ''delete table ip g0efilter_v4'',
       ''table ip g0efilter_nat_v4'',
       ''delete table ip g0efilter_nat_v4'',
       ''table ip6 g0efilter_v6'',
       ''delete table ip6 g0efilter_v6'',
       ''table ip6 g0efilter_nat_v6'',
       ''delete table ip6 g0efilter_nat_v6'']"

record policy_rules =
  RuleAllowIPs :: "string list"
  RuleDenyIPs :: "string list"
  RuleDefaultAllow :: bool
  RuleAudit :: bool

text \<open>A run of \<^verbatim>\<open>nft\<close>: its arguments and its standard input. \<open>nft\<close> maps a run to \<open>None\<close>
  when it succeeds and to its output when it fails.\<close>

type_synonym nft_run = "string list \<times> string"
type_synonym nft_prog = "nft_run \<Rightarrow> string option"

definition validate_and_parse_ruleset :: "nft_prog \<Rightarrow> string \<Rightarrow> nft_run list \<times> nft_error option" where
  "validate_and_parse_ruleset nft ruleset =
     (let run = ([''-c'', ''-f'', ''-''], ruleset)
      in ([run], map_option DryRunFailed (nft run)))"

definition apply_ruleset :: "nft_prog \<Rightarrow> string \<Rightarrow> nft_run list \<times> nft_error option" where
  "apply_ruleset nft ruleset =
     (let run = ([''-f'', ''-''], ruleset)
      in ([run], map_option ApplyFailed (nft run)))"

definition policy_ruleset ::
  "env \<Rightarrow> (string \<Rightarrow> string) \<Rightarrow> policy_rules \<Rightarrow> string \<Rightarrow> string \<Rightarrow> string \<Rightarrow> nft_error + string" where
  \<comment> \<open>the text handed to \<^verbatim>\<open>nft\<close>\<close>
  "policy_ruleset E getenv rules httpsPortStr httpPortStr dnsPortStr =
     (let mode0 = to_lower E (trim_space (getenv ''FILTER_MODE''));
          mode = (if mode0 = [] then mode_https else mode0);
          allow = (if RuleAllowIPs rules = [] then [''127.0.0.1''] else RuleAllowIPs rules)
      in bind_res (parse_port httpsPortStr ''HTTPS'') (\<lambda>httpsPort.
         bind_res (parse_port httpPortStr ''HTTP'') (\<lambda>httpPort.
         bind_res (parse_port dnsPortStr ''DNS'') (\<lambda>dnsPort.
         let (allowV4, allowV6) = split_by_family allow;
             (denyV4, denyV6) = split_by_family (RuleDenyIPs rules);
             ruleset = generate_ruleset E
               \<lparr>AllowV4 = allowV4, AllowV6 = allowV6, DenyV4 = denyV4, DenyV6 = denyV6,
                HTTPSPort = httpsPort, HTTPPort = httpPort, DNSPort = dnsPort, Mode = mode,
                DefaultAllow = RuleDefaultAllow rules, Audit = RuleAudit rules\<rparr>;
             ruleset' = (if has_suffix ruleset [newline] then ruleset else ruleset @ [newline])
         in Inr (atomic_replace_preamble @ ruleset')))))"

definition apply_policy_rules_with_context ::
  "env \<Rightarrow> (string \<Rightarrow> string) \<Rightarrow> nft_prog \<Rightarrow> policy_rules \<Rightarrow> string \<Rightarrow> string \<Rightarrow> string \<Rightarrow>
   nft_run list \<times> nft_error option" where
  "apply_policy_rules_with_context E getenv nft rules httpsPortStr httpPortStr dnsPortStr =
     (case policy_ruleset E getenv rules httpsPortStr httpPortStr dnsPortStr of
        Inl e \<Rightarrow> ([], Some e)
      | Inr ruleset \<Rightarrow>
          (case validate_and_parse_ruleset nft ruleset of
             (runs, Some e) \<Rightarrow> (runs, Some e)
           | (runs, None) \<Rightarrow>
               (let (runs', err) = apply_ruleset nft ruleset in (runs @ runs', err))))"

definition apply_nft_rules_with_context ::
  "env \<Rightarrow> (string \<Rightarrow> string) \<Rightarrow> nft_prog \<Rightarrow> string list \<Rightarrow> string \<Rightarrow> string \<Rightarrow> string \<Rightarrow>
   nft_run list \<times> nft_error option" where
  "apply_nft_rules_with_context E getenv nft allowlist httpsPortStr httpPortStr dnsPortStr =
     apply_policy_rules_with_context E getenv nft
       \<lparr>RuleAllowIPs = allowlist, RuleDenyIPs = [], RuleDefaultAllow = False, RuleAudit = False\<rparr>
       httpsPortStr httpPortStr dnsPortStr"

definition apply_nft_rules_auto ::
  "env \<Rightarrow> (string \<Rightarrow> string) \<Rightarrow> nft_prog \<Rightarrow> string list \<Rightarrow> string \<Rightarrow> string \<Rightarrow>
   nft_run list \<times> nft_error option" where
  "apply_nft_rules_auto E getenv nft allowlist httpsPortStr httpPortStr =
     (let dnsPortStr0 = trim_space (getenv ''DNS_PORT'');
          dnsPortStr = (if dnsPortStr0 = [] then ''53'' else dnsPortStr0)
      in apply_nft_rules_with_context E getenv nft allowlist httpsPortStr httpPortStr dnsPortStr)"

subsection \<open>Ports and families\<close>

lemma parse_port_range: "parse_port s name = Inr p \<Longrightarrow> 1 \<le> p \<and> p \<le> 65535"
  by (auto simp: parse_port_def split: option.splits if_splits)

lemma parse_port_itoa:
  assumes "trim_space s = itoa p" "1 \<le> p" "p \<le> 65535"
  shows "parse_port s name = Inr p"
  using assms atoi_itoa [of p] by (simp add: parse_port_def)

text \<open>What an entry of a set has to be: an address or a range of the family, written with
  characters that have no meaning to \<^verbatim>\<open>nft\<close>.\<close>

definition family_entry :: "bool \<Rightarrow> string \<Rightarrow> bool" where
  "family_entry is4 e \<longleftrightarrow>
     trim_space e = e \<and>
     (if CHR ''/'' \<in> set e
      then \<exists>ip net. parse_cidr e = Some (ip, net) \<and> (to4 net \<noteq> None) = is4
      else \<exists>ip. parse_ip e = Some ip \<and> (to4 ip \<noteq> None) = is4)"

lemma cidr_chars_ip: "list_all ip_char s \<Longrightarrow> list_all cidr_char s"
  by (auto simp: list_all_iff cidr_char_def)

lemma family_entry_chars: "family_entry is4 e \<Longrightarrow> e \<noteq> [] \<and> list_all cidr_char e"
  unfolding family_entry_def
  by (auto split: if_splits dest: parse_cidr_chars parse_ip_nonempty parse_ip_chars [THEN cidr_chars_ip])

lemma split_by_family_entries:
  "(\<forall>e \<in> set (fst (split_by_family es)). family_entry True e) \<and>
   (\<forall>e \<in> set (snd (split_by_family es)). family_entry False e)"
proof (induction es)
  case Nil
  then show ?case by simp
next
  case (Cons e es)
  obtain v4 v6 where s: "split_by_family es = (v4, v6)" by (cases "split_by_family es")
  with Cons show ?case
    by (auto simp: Let_def family_entry_def str_contains_char split: option.splits prod.splits if_splits)
qed

text \<open>\<^verbatim>\<open>splitByFamily\<close> keeps exactly the entries that parse as an address or a range,
  trimmed and in their order, each in the list of its family; an IPv4-mapped IPv6 address counts
  as IPv4.\<close>

theorem split_by_family_exact:
  "split_by_family es =
    (filter (family_entry True) (map trim_space es), filter (family_entry False) (map trim_space es))"
proof (induction es)
  case Nil
  then show ?case by simp
next
  case (Cons e es)
  let ?e = "trim_space e"
  have empty: "\<not> family_entry b []" for b
    by (simp add: family_entry_def parse_ip_def parse_addr_def)
  have range: "family_entry b ?e = (case parse_cidr ?e of None \<Rightarrow> False | Some (_, net) \<Rightarrow> (to4 net \<noteq> None) = b)"
    if "CHR ''/'' \<in> set ?e" for b
    using that by (simp add: family_entry_def split: option.splits prod.splits)
  have single: "family_entry b ?e = (case parse_ip ?e of None \<Rightarrow> False | Some ip \<Rightarrow> (to4 ip \<noteq> None) = b)"
    if "CHR ''/'' \<notin> set ?e" for b
    using that by (simp add: family_entry_def split: option.splits)
  show ?case
  proof (cases "CHR ''/'' \<in> set ?e")
    case True
    then have "?e \<noteq> []" by auto
    with True show ?thesis
      by (simp only: split_by_family.simps Cons.IH Let_def prod.case str_contains_char)
        (simp add: range split: option.split prod.split)
  next
    case False
    then show ?thesis
      by (cases "?e = []")
        (simp_all only: split_by_family.simps Cons.IH Let_def prod.case str_contains_char,
         simp_all add: empty single split: option.split)
  qed
qed

end
