(* ===== verification/Pattern.thy ===== *)
theory Pattern
  imports GoNet
begin

text \<open>
  Domain patterns of \<^verbatim>\<open>internal/policy/policy.go\<close>: \<^verbatim>\<open>/regex/\<close> entries, wildcard entries,
  the structural checks on both and what a compiled pattern matches.

  A \<^verbatim>\<open>/regex/\<close> entry goes to the RE2 engine, the parameter \<open>regexp_compile\<close>. A wildcard entry
  is compiled by the code to the expression \<^verbatim>\<open>\A(?i:lit.+lit.+lit)\z\<close> whose literals are ASCII
  host characters. That fragment of the regular expressions is modelled (\<open>wild_match\<close>) on
  every byte string: a literal matches its letter in either case, and the two letters whose Unicode
  simple folding has a third member (\<^verbatim>\<open>k\<close> with U+212A, \<^verbatim>\<open>s\<close> with U+017F) match that
  member too; \<^verbatim>\<open>.\<close> matches any rune but a newline. Counting bytes instead of runes in
  \<^verbatim>\<open>.+\<close> changes nothing, since a literal can only match at a rune boundary.
\<close>

datatype policy_error =
    ErrInvalidIP string
  | ErrInvalidDomain string
  | ErrInvalidRegex string
  | ErrInvalidWildcard string
  | ErrInvalidDefaultAction string
  | ErrPathTraversal
  | ErrNotRegularFile
  | ErrUnknownField string
  | ErrFile string

text \<open>The argument of a constructor is the reason the message gives in brackets.\<close>

definition max_domain_length :: nat where "max_domain_length = 253"
definition max_regex_length :: nat where "max_regex_length = 1024"

declare max_domain_length_def [go_unfold] max_regex_length_def [go_unfold]

subsection \<open>Regular expression entries\<close>

definition is_regex_pattern :: "string \<Rightarrow> bool" where
  "is_regex_pattern s \<longleftrightarrow> 2 < length s \<and> has_prefix s ''/'' \<and> has_suffix s ''/''"

definition compile_domain_pattern :: "env \<Rightarrow> string \<Rightarrow> policy_error + (string \<Rightarrow> bool)" where
  "compile_domain_pattern E p =
     (if \<not> is_regex_pattern p then Inl (ErrInvalidRegex [])
      else
        (let inner = take (length p - 2) (drop 1 p)
         in if length inner > max_regex_length then Inl (ErrInvalidRegex ''too long'')
            else (case regexp_compile E (CHR 0x5C # ''A(?i:'' @ inner @ '')'' @ [CHR 0x5C, CHR ''z'']) of
                    None \<Rightarrow> Inl (ErrInvalidRegex ''compile'')
                  | Some m \<Rightarrow> Inr m)))"

declare is_regex_pattern_def [go_unfold]

subsection \<open>Wildcard entries\<close>

definition validate_wildcard_structure :: "string \<Rightarrow> policy_error + unit" where
  "validate_wildcard_structure p =
     (if \<not> str_contains p ''*'' \<or> p = ''*'' then Inl (ErrInvalidWildcard [])
      else if length p > max_domain_length then Inl (ErrInvalidWildcard ''too long'')
      else if str_contains p ''**'' then Inl (ErrInvalidWildcard ''consecutive wildcards'')
      else if str_contains p ''..'' \<or> has_prefix p ''.'' \<or> has_suffix p ''.''
      then Inl (ErrInvalidWildcard ''dot placement'')
      else if \<not> str_contains p ''.'' then Inl (ErrInvalidWildcard ''need at least one dot'')
      else Inr ())"

definition wildcard_char :: "char \<Rightarrow> bool" where
  "wildcard_char c \<longleftrightarrow>
     is_lower_char c \<or> is_upper_char c \<or> is_digit_char c \<or> c = CHR ''.'' \<or> c = CHR ''-''"

definition is_valid_wildcard_chunk :: "string \<Rightarrow> bool" where
  "is_valid_wildcard_chunk chunk \<longleftrightarrow> list_all wildcard_char chunk"

declare validate_wildcard_structure_def [go_unfold] wildcard_char_def [go_unfold]
  is_valid_wildcard_chunk_def [go_unfold]

text \<open>What \<^verbatim>\<open>\A(?i:lit.+lit)\z\<close> matches.\<close>

fun eat_lit :: "char \<Rightarrow> string \<Rightarrow> string option" where
  "eat_lit c [] = None"
| "eat_lit c (x # xs) =
     (if lower_char x = c then Some xs
      else if c = CHR ''k'' \<and> has_prefix (x # xs) [CHR 0xE2, CHR 0x84, CHR 0xAA]
      then Some (drop 2 xs)
      else if c = CHR ''s'' \<and> has_prefix (x # xs) [CHR 0xC5, CHR 0xBF] then Some (drop 1 xs)
      else None)"

fun eat_lits :: "string \<Rightarrow> string \<Rightarrow> string option" where
  "eat_lits [] s = Some s"
| "eat_lits (c # cs) s = (case eat_lit c s of None \<Rightarrow> None | Some t \<Rightarrow> eat_lits cs t)"

fun dot_plus :: "(string \<Rightarrow> bool) \<Rightarrow> string \<Rightarrow> bool" where
  "dot_plus k [] = False"
| "dot_plus k (c # cs) = (c \<noteq> CHR 0x0A \<and> (k cs \<or> dot_plus k cs))"

fun wild_match :: "string list \<Rightarrow> string \<Rightarrow> bool" where
  "wild_match [] = (\<lambda>s. s = [])"
| "wild_match [w] = (\<lambda>s. eat_lits w s = Some [])"
| "wild_match (w # v # ws) =
     (\<lambda>s. case eat_lits w s of None \<Rightarrow> False | Some t \<Rightarrow> dot_plus (wild_match (v # ws)) t)"

definition compile_wildcard_pattern :: "env \<Rightarrow> string \<Rightarrow> policy_error + (string \<Rightarrow> bool)" where
  "compile_wildcard_pattern E p =
     (case validate_wildcard_structure p of
        Inl e \<Rightarrow> Inl e
      | Inr _ \<Rightarrow>
          (let parts = split_on CHR ''*'' p
           in if \<not> list_all is_valid_wildcard_chunk parts
              then Inl (ErrInvalidWildcard ''invalid characters'')
              else Inr (wild_match (map (to_lower E) parts))))"

subsection \<open>Wildcards as globs\<close>

text \<open>
  The specification: the host is the literal parts in order, compared without regard to case,
  with a nonempty text without a newline in place of each star.
\<close>

inductive glob :: "string list \<Rightarrow> string \<Rightarrow> bool" where
  last: "map lower_char u = w \<Longrightarrow> glob [w] u"
| star: "map lower_char u = w \<Longrightarrow> g \<noteq> [] \<Longrightarrow> CHR 0x0A \<notin> set g \<Longrightarrow> glob (v # ws) t \<Longrightarrow>
     glob (w # v # ws) (u @ g @ t)"

inductive_cases glob_lastE: "glob [w] s"
inductive_cases glob_starE: "glob (w # v # ws) s"

lemma eat_lit_ascii:
  "ascii_string s \<Longrightarrow>
   eat_lit c s = (case s of [] \<Rightarrow> None | x # xs \<Rightarrow> if lower_char x = c then Some xs else None)"
  by (cases s) (auto simp: is_ascii_def has_prefix_def)

lemma eat_lits_ascii:
  "ascii_string s \<Longrightarrow>
   eat_lits w s = Some t \<longleftrightarrow> (\<exists>u. s = u @ t \<and> map lower_char u = w)"
proof (induction w arbitrary: s)
  case Nil
  then show ?case by auto
next
  case (Cons c cs)
  show ?case
  proof (cases s)
    case Nil
    then show ?thesis by auto
  next
    case (Cons x xs)
    with Cons.prems have ascii: "ascii_string xs" by simp
    show ?thesis
    proof
      assume "eat_lits (c # cs) s = Some t"
      then have x: "lower_char x = c" and "eat_lits cs xs = Some t"
        using \<open>s = x # xs\<close> eat_lit_ascii [OF Cons.prems, of c] by (simp_all split: if_splits)
      from this(2) obtain u where u: "xs = u @ t" "map lower_char u = cs"
        using Cons.IH [OF ascii] by blast
      have "s = (x # u) @ t \<and> map lower_char (x # u) = c # cs"
        using \<open>s = x # xs\<close> u x by simp
      then show "\<exists>u. s = u @ t \<and> map lower_char u = c # cs" by (rule exI)
    next
      assume "\<exists>u. s = u @ t \<and> map lower_char u = c # cs"
      then obtain u where u: "s = u @ t" "map lower_char u = c # cs" by (elim exE conjE)
      then obtain u' where u': "u = x # u'" "lower_char x = c" "map lower_char u' = cs"
        using \<open>s = x # xs\<close> by (cases u) simp_all
      have "eat_lit c s = Some xs"
        using eat_lit_ascii [OF Cons.prems, of c] \<open>s = x # xs\<close> u'(2) by simp
      moreover have "xs = u' @ t" using u(1) u'(1) \<open>s = x # xs\<close> by simp
      then have "eat_lits cs xs = Some t"
        using Cons.IH [OF ascii] u'(3) by blast
      ultimately show "eat_lits (c # cs) s = Some t" by simp
    qed
  qed
qed

lemma dot_plus_iff:
  "dot_plus k s \<longleftrightarrow> (\<exists>g t. s = g @ t \<and> g \<noteq> [] \<and> CHR 0x0A \<notin> set g \<and> k t)"
proof (induction s)
  case Nil
  then show ?case by simp
next
  case (Cons c cs)
  show ?case
  proof
    assume "dot_plus k (c # cs)"
    then have c: "c \<noteq> CHR 0x0A" and "k cs \<or> dot_plus k cs" by auto
    from this(2) show "\<exists>g t. c # cs = g @ t \<and> g \<noteq> [] \<and> CHR 0x0A \<notin> set g \<and> k t"
    proof
      assume "k cs"
      with c show ?thesis by (intro exI [of _ "[c]"] exI [of _ cs]) simp
    next
      assume "dot_plus k cs"
      with Cons obtain g t where "cs = g @ t" "CHR 0x0A \<notin> set g" "k t" by auto
      with c show ?thesis by (intro exI [of _ "c # g"] exI [of _ t]) simp
    qed
  next
    assume "\<exists>g t. c # cs = g @ t \<and> g \<noteq> [] \<and> CHR 0x0A \<notin> set g \<and> k t"
    then obtain g t where g: "c # cs = g @ t" "g \<noteq> []" "CHR 0x0A \<notin> set g" "k t" by blast
    then obtain g' where g': "g = c # g'" by (cases g) auto
    show "dot_plus k (c # cs)"
    proof (cases "g' = []")
      case True
      with g g' show ?thesis by auto
    next
      case False
      then have "dot_plus k cs" using g g' Cons by auto
      with g(3) g' show ?thesis by auto
    qed
  qed
qed

lemma wild_match_glob:
  "ascii_string s \<Longrightarrow> ws \<noteq> [] \<Longrightarrow> wild_match ws s \<longleftrightarrow> glob ws s"
proof (induction ws arbitrary: s rule: wild_match.induct)
  case 1
  then show ?case by simp
next
  case (2 w)
  then have "wild_match [w] s \<longleftrightarrow> map lower_char s = w"
    using eat_lits_ascii [of s w "[]"] by auto
  then show ?case by (auto elim: glob_lastE intro: glob.last)
next
  case (3 w v ws)
  show ?case
  proof
    assume "wild_match (w # v # ws) s"
    then obtain t where t: "eat_lits w s = Some t" and d: "dot_plus (wild_match (v # ws)) t"
      by (auto split: option.splits)
    obtain u where u: "s = u @ t" "map lower_char u = w"
      using t eat_lits_ascii [OF "3.prems"(1)] by blast
    obtain g r where g: "t = g @ r" "g \<noteq> []" "CHR 0x0A \<notin> set g" "wild_match (v # ws) r"
      using d dot_plus_iff by blast
    have "glob (v # ws) r"
      using "3.IH" [OF t, of r] g u "3.prems"(1) by simp
    with u g show "glob (w # v # ws) s" by (auto intro: glob.star)
  next
    assume "glob (w # v # ws) s"
    then obtain u g t where s: "s = u @ g @ t" "map lower_char u = w" "g \<noteq> []"
      "CHR 0x0A \<notin> set g" "glob (v # ws) t"
      by (auto elim: glob_starE)
    have e: "eat_lits w s = Some (g @ t)"
      using s eat_lits_ascii [OF "3.prems"(1)] by blast
    have "wild_match (v # ws) t"
      using "3.IH" [OF e, of t] s "3.prems"(1) by simp
    then have "dot_plus (wild_match (v # ws)) (g @ t)"
      using s dot_plus_iff by blast
    with e show "wild_match (w # v # ws) s" by simp
  qed
qed

text \<open>The literal parts of an accepted wildcard pattern are ASCII, so lowering them needs no
  Unicode table.\<close>

lemma wildcard_char_ascii: "wildcard_char c \<Longrightarrow> is_ascii c"
  by (auto simp: go_unfold)

lemma valid_chunk_ascii: "is_valid_wildcard_chunk w \<Longrightarrow> ascii_string w"
  by (auto simp: is_valid_wildcard_chunk_def list_all_iff wildcard_char_ascii)

lemma compile_wildcard_ok:
  assumes "compile_wildcard_pattern E p = Inr m"
  shows "m = wild_match (map (map lower_char) (split_on CHR ''*'' p)) \<and> ascii_string p \<and>
    CHR ''*'' \<in> set p \<and> length p \<le> 253"
proof -
  have v: "validate_wildcard_structure p = Inr ()"
    and parts: "list_all is_valid_wildcard_chunk (split_on CHR ''*'' p)"
    and m: "m = wild_match (map (to_lower E) (split_on CHR ''*'' p))"
    using assms by (auto simp: compile_wildcard_pattern_def Let_def split: sum.splits if_splits)
  have "map (to_lower E) (split_on CHR ''*'' p) = map (map lower_char) (split_on CHR ''*'' p)"
  proof (rule map_cong [OF refl])
    fix w
    assume "w \<in> set (split_on CHR ''*'' p)"
    then have "is_valid_wildcard_chunk w" using parts by (simp add: list_all_iff)
    then show "to_lower E w = map lower_char w" by (simp add: to_lower_def valid_chunk_ascii)
  qed
  then have "m = wild_match (map (map lower_char) (split_on CHR ''*'' p))"
    by (simp only: m)
  moreover have "ascii_string (join_with ''*'' ws)"
    if "list_all is_valid_wildcard_chunk ws" for ws
    using that
    by (induction "''*''" ws rule: join_with.induct) (auto simp: valid_chunk_ascii is_ascii_def)
  then have "ascii_string p" using parts join_split [of "CHR ''*''" p] by metis
  ultimately show ?thesis
    using v by (simp add: validate_wildcard_structure_def str_contains_char
        max_domain_length_def split: if_splits)
qed

end
