(* ===== verification/Policy.thy ===== *)
theory Policy
  imports Pattern
begin

text \<open>
  \<^verbatim>\<open>internal/policy/policy.go\<close>: validation of policy entries, reading a policy from the
  environment or the policy file, and appending an entry to the file's allowlist.

  The YAML library is the parameter \<open>yaml\<close>; \<^verbatim>\<open>os.Getenv\<close> is a function. The file system
  is a map from cleaned paths to nodes, and a write returns the changed map. Debug and error logs
  are left out.
\<close>

subsection \<open>Validating IP entries\<close>

definition validate_ip :: "string \<Rightarrow> policy_error + unit" where
  "validate_ip s =
     (let ip = trim_space s
      in if ip = [] then Inl (ErrInvalidIP ''empty'')
         else if has_prefix ip ''['' then Inl (ErrInvalidIP ''contains port'')
         else if str_contains ip ''%'' then Inl (ErrInvalidIP ''scoped address'')
         else if CHR '':'' \<in> set ip \<and> count_char CHR '':'' ip = 1 \<and> str_contains ip ''.''
         then Inl (ErrInvalidIP ''contains port'')
         else if str_contains ip ''/'' then
           (case parse_cidr ip of None \<Rightarrow> Inl (ErrInvalidIP ''range'') | Some _ \<Rightarrow> Inr ())
         else (case parse_ip ip of None \<Rightarrow> Inl (ErrInvalidIP []) | Some _ \<Rightarrow> Inr ()))"

subsection \<open>Validating domain entries\<close>

definition domain_to_ascii :: "env \<Rightarrow> string \<Rightarrow> policy_error + string" where
  "domain_to_ascii E domain =
     (case idna_to_ascii E domain of
        None \<Rightarrow> Inl (ErrInvalidDomain [])
      | Some ascii \<Rightarrow>
          if ascii = [] then Inl (ErrInvalidDomain [])
          else if parse_ip ascii \<noteq> None then Inl (ErrInvalidDomain ''IP literal'')
          else if length ascii > max_domain_length then Inl (ErrInvalidDomain ''too long'')
          else if has_prefix ascii ''.'' \<or> has_suffix ascii ''.'' \<or> str_contains ascii ''..''
          then Inl (ErrInvalidDomain [])
          else if \<not> str_contains ascii ''.''
          then Inl (ErrInvalidDomain ''need at least one dot'')
          else Inr ascii)"

definition label_char :: "char \<Rightarrow> bool" where
  "label_char c \<longleftrightarrow> is_lower_char c \<or> is_digit_char c \<or> c = CHR ''-'' \<or> is_upper_char c"

definition validate_label_chars :: "env \<Rightarrow> string \<Rightarrow> policy_error + unit" where
  \<comment> \<open>ASCII runes by the ranges of the code, the others by \<^verbatim>\<open>unicode.IsUpper\<close>\<close>
  "validate_label_chars E label =
     (if list_all (\<lambda>c. is_ascii c \<longrightarrow> label_char c) label \<and>
        (ascii_string label \<or> uni_all_upper E label)
      then Inr () else Inl (ErrInvalidDomain ''label chars''))"

definition is_all_digits :: "string \<Rightarrow> bool" where
  "is_all_digits s \<longleftrightarrow> list_all is_digit_char s"

fun validate_labels :: "env \<Rightarrow> string list \<Rightarrow> policy_error + unit" where
  "validate_labels E [] = Inr ()"
| "validate_labels E (label # rest) =
     (if length label < 1 \<or> length label > 63 then Inl (ErrInvalidDomain ''label length'')
      else
        (case validate_label_chars E label of
           Inl e \<Rightarrow> Inl e
         | Inr _ \<Rightarrow>
             (let lower = to_lower E label
              in if hd lower = CHR ''-'' \<or> last lower = CHR ''-''
                 then Inl (ErrInvalidDomain ''hyphen position'')
                 else if rest = [] \<and> is_all_digits lower
                 then Inl (ErrInvalidDomain ''numeric TLD'')
                 else validate_labels E rest)))"

definition validate_domain_labels :: "env \<Rightarrow> string \<Rightarrow> policy_error + unit" where
  "validate_domain_labels E ascii = validate_labels E (split_on CHR ''.'' ascii)"

definition validate_literal :: "env \<Rightarrow> string \<Rightarrow> policy_error + unit" where
  \<comment> \<open>the last part of \<^verbatim>\<open>validateDomain\<close>, on a name without wildcards\<close>
  "validate_literal E domain =
     bind_res (domain_to_ascii E (trim_suffix domain ''.'')) (validate_domain_labels E)"

definition validate_domain :: "env \<Rightarrow> string \<Rightarrow> policy_error + unit" where
  "validate_domain E d =
     (let domain = trim_space d
      in if domain = [] then Inl (ErrInvalidDomain ''empty'')
         else if domain = ''*'' then Inr ()
         else if is_regex_pattern domain then map_sum id (\<lambda>_. ()) (compile_domain_pattern E domain)
         else
           (let after = cut_prefix domain ''*.''
            in if after \<noteq> None \<and> \<not> str_contains (the after) ''*'' then
                 (if the after = [] then Inl (ErrInvalidDomain [])
                  else validate_literal E (the after))
               else if str_contains domain ''*'' then
                 map_sum id (\<lambda>_. ()) (compile_wildcard_pattern E (trim_suffix domain ''.''))
               else validate_literal E domain))"

declare validate_ip_def [go_unfold] domain_to_ascii_def [go_unfold] label_char_def [go_unfold]
  validate_label_chars_def [go_unfold] is_all_digits_def [go_unfold]
  validate_domain_labels_def [go_unfold] validate_literal_def [go_unfold]
  validate_domain_def [go_unfold]

subsection \<open>The policy file\<close>

record allow_list =
  IPs :: "string list"
  Domains :: "string list"

record config =
  cfg_default_action :: string
  cfg_allow :: allow_list
  cfg_deny :: allow_list

record policy =
  DefaultAction :: string
  AllowIPs :: "string list"
  AllowDomains :: "string list"
  DenyIPs :: "string list"
  DenyDomains :: "string list"

text \<open>\<^verbatim>\<open>go.yaml.in/yaml\<close> on the type \<open>config\<close>: None is an error.\<close>

record yaml =
  unmarshal :: "string \<Rightarrow> config option"
  marshal :: "config \<Rightarrow> string option"

record fs_node =
  regular :: bool
  readable :: bool
  writable :: bool
  data :: string

type_synonym fs = "string \<rightharpoonup> fs_node"

text \<open>\<^verbatim>\<open>filepath.Clean\<close> on Unix.\<close>

definition clean_step :: "bool \<Rightarrow> string list \<Rightarrow> string \<Rightarrow> string list" where
  \<comment> \<open>the kept elements, last first, after one more element of the path\<close>
  "clean_step rooted acc el =
     (if el = [] \<or> el = ''.'' then acc
      else if el = ''..'' then
        (if acc \<noteq> [] \<and> hd acc \<noteq> ''..'' then tl acc
         else if rooted then acc else el # acc)
      else el # acc)"

definition path_clean :: "string \<Rightarrow> string" where
  "path_clean p =
     (let rooted = has_prefix p ''/'';
          els = rev (foldl (clean_step rooted) [] (split_on CHR ''/'' p));
          body = join_with ''/'' els
      in if rooted then CHR ''/'' # body else if els = [] then ''.'' else body)"

definition load_config :: "yaml \<Rightarrow> fs \<Rightarrow> string \<Rightarrow> policy_error + config" where
  "load_config Y fs file =
     (let cleanPath = path_clean file
      in if str_contains cleanPath ''..'' then Inl ErrPathTraversal
         else
           (case fs cleanPath of
              None \<Rightarrow> Inl (ErrFile ''access'')
            | Some n \<Rightarrow>
                if \<not> regular n then Inl ErrNotRegularFile
                else if \<not> readable n then Inl (ErrFile ''read'')
                else (case unmarshal Y (data n) of
                        None \<Rightarrow> Inl (ErrFile ''parse'')
                      | Some cfg \<Rightarrow> Inr cfg)))"

declare clean_step_def [go_unfold] path_clean_def [go_unfold] load_config_def [go_unfold]

subsection \<open>Reading a policy\<close>

definition default_action_deny :: string where "default_action_deny = ''deny''"
definition default_action_allow :: string where "default_action_allow = ''allow''"

definition validate_default_action :: "env \<Rightarrow> string \<Rightarrow> policy_error + string" where
  "validate_default_action E a =
     (let action = to_lower E (trim_space a)
      in if action = [] \<or> action = default_action_deny \<or> action = default_action_allow
         then Inr action else Inl (ErrInvalidDefaultAction action))"

definition parse_comma_separated :: "string \<Rightarrow> string list" where
  "parse_comma_separated input =
     (if input = [] then []
      else filter (\<lambda>p. p \<noteq> []) (map trim_space (split_on CHR '','' input)))"

fun validate_ips :: "string list \<Rightarrow> policy_error + string list" where
  "validate_ips [] = Inr []"
| "validate_ips (s # rest) =
     (let ip = trim_space s
      in if ip = [] then validate_ips rest
         else bind_res (validate_ip ip) (\<lambda>_. map_sum id ((#) ip) (validate_ips rest)))"

fun validate_domains :: "env \<Rightarrow> string list \<Rightarrow> policy_error + string list" where
  "validate_domains E [] = Inr []"
| "validate_domains E (s # rest) =
     (let dom = trim_space s
      in if dom = [] then validate_domains E rest
         else bind_res (validate_domain E dom)
                (\<lambda>_. map_sum id ((#) dom) (validate_domains E rest)))"

definition validate_lists :: "env \<Rightarrow> allow_list \<Rightarrow> policy_error + (string list \<times> string list)" where
  "validate_lists E l =
     bind_res (validate_ips (IPs l)) (\<lambda>ips.
     bind_res (validate_domains E (Domains l)) (\<lambda>domains. Inr (ips, domains)))"

definition load_from_env ::
  "env \<Rightarrow> string \<Rightarrow> string \<Rightarrow> string \<Rightarrow> string \<Rightarrow> policy_error + policy" where
  "load_from_env E allowIPs allowDomains denyIPs denyDomains =
     bind_res (validate_lists E \<lparr>IPs = parse_comma_separated allowIPs,
                                  Domains = parse_comma_separated allowDomains\<rparr>) (\<lambda>a.
     bind_res (validate_lists E \<lparr>IPs = parse_comma_separated denyIPs,
                                  Domains = parse_comma_separated denyDomains\<rparr>) (\<lambda>d.
     Inr \<lparr>DefaultAction = [], AllowIPs = fst a, AllowDomains = snd a,
          DenyIPs = fst d, DenyDomains = snd d\<rparr>))"

definition read :: "env \<Rightarrow> yaml \<Rightarrow> (string \<Rightarrow> string) \<Rightarrow> fs \<Rightarrow> string \<Rightarrow> policy_error + policy" where
  "read E Y getenv fs file =
     (let ai = trim_space (getenv ''ALLOWLIST_IPS'');
          ad = trim_space (getenv ''ALLOWLIST_DOMAINS'');
          di = trim_space (getenv ''DENYLIST_IPS'');
          dd = trim_space (getenv ''DENYLIST_DOMAINS'')
      in if ai \<noteq> [] \<or> ad \<noteq> [] \<or> di \<noteq> [] \<or> dd \<noteq> [] then load_from_env E ai ad di dd
         else
           bind_res (load_config Y fs file) (\<lambda>cfg.
           bind_res (validate_default_action E (cfg_default_action cfg)) (\<lambda>act.
           bind_res (validate_lists E (cfg_allow cfg)) (\<lambda>a.
           bind_res (validate_lists E (cfg_deny cfg)) (\<lambda>d.
           Inr \<lparr>DefaultAction = act, AllowIPs = fst a, AllowDomains = snd a,
                DenyIPs = fst d, DenyDomains = snd d\<rparr>)))))"

definition read_policy ::
  "env \<Rightarrow> yaml \<Rightarrow> (string \<Rightarrow> string) \<Rightarrow> fs \<Rightarrow> string \<Rightarrow>
   policy_error + (string list \<times> string list)" where
  "read_policy E Y getenv fs file =
     map_sum id (\<lambda>pol. (AllowIPs pol, AllowDomains pol)) (read E Y getenv fs file)"

declare validate_default_action_def [go_unfold] default_action_deny_def [go_unfold]
  default_action_allow_def [go_unfold] parse_comma_separated_def [go_unfold]
  validate_lists_def [go_unfold] load_from_env_def [go_unfold]

subsection \<open>Appending to the policy file\<close>

datatype allow_field = Field_domains | Field_ips | Field_other string

definition add_to_allow ::
  "env \<Rightarrow> allow_field \<Rightarrow> string \<Rightarrow> config \<Rightarrow> policy_error + config option" where
  \<comment> \<open>the switch on the field: \<open>Inr None\<close> is the early return of an entry that is there already\<close>
  "add_to_allow E field value cfg =
     (let al = cfg_allow cfg
      in case field of
           Field_domains \<Rightarrow>
             if list_ex (\<lambda>d. equal_fold E d value) (Domains al) then Inr None
             else Inr (Some (cfg\<lparr>cfg_allow := al\<lparr>Domains := Domains al @ [value]\<rparr>\<rparr>))
         | Field_ips \<Rightarrow>
             if value \<in> set (IPs al) then Inr None
             else Inr (Some (cfg\<lparr>cfg_allow := al\<lparr>IPs := IPs al @ [value]\<rparr>\<rparr>))
         | Field_other f \<Rightarrow> Inl (ErrUnknownField f))"

definition write_file :: "fs \<Rightarrow> string \<Rightarrow> string \<Rightarrow> (policy_error + unit) \<times> fs" where
  \<comment> \<open>\<^verbatim>\<open>os.WriteFile\<close>: a file that is there is truncated and rewritten\<close>
  "write_file fs path bytes =
     (case fs path of
        None \<Rightarrow> (Inr (), fs(path \<mapsto> \<lparr>regular = True, readable = True, writable = True,
                                        data = bytes\<rparr>))
      | Some n \<Rightarrow> if writable n then (Inr (), fs(path \<mapsto> n\<lparr>data := bytes\<rparr>))
                   else (Inl (ErrFile ''write''), fs))"

definition append_to_allowlist ::
  "env \<Rightarrow> yaml \<Rightarrow> fs \<Rightarrow> string \<Rightarrow> allow_field \<Rightarrow> string \<Rightarrow> (policy_error + unit) \<times> fs" where
  "append_to_allowlist E Y fs file field value =
     (case load_config Y fs file of
        Inl e \<Rightarrow> (Inl e, fs)
      | Inr cfg \<Rightarrow>
          (case add_to_allow E field value cfg of
             Inl e \<Rightarrow> (Inl e, fs)
           | Inr None \<Rightarrow> (Inr (), fs)
           | Inr (Some cfg') \<Rightarrow>
               (case marshal Y cfg' of
                  None \<Rightarrow> (Inl (ErrFile ''marshal''), fs)
                | Some bytes \<Rightarrow> write_file fs (path_clean file) bytes)))"

definition append_domain ::
  "env \<Rightarrow> yaml \<Rightarrow> fs \<Rightarrow> string \<Rightarrow> string \<Rightarrow> (policy_error + unit) \<times> fs" where
  "append_domain E Y fs file d =
     (let domain = trim_space d
      in if domain = [] then (Inl (ErrInvalidDomain ''empty''), fs)
         else (case validate_domain E domain of
                 Inl e \<Rightarrow> (Inl e, fs)
               | Inr _ \<Rightarrow> append_to_allowlist E Y fs file Field_domains domain))"

definition append_ip ::
  "env \<Rightarrow> yaml \<Rightarrow> fs \<Rightarrow> string \<Rightarrow> string \<Rightarrow> (policy_error + unit) \<times> fs" where
  "append_ip E Y fs file s =
     (let ip = trim_space s
      in if ip = [] then (Inl (ErrInvalidIP ''empty''), fs)
         else (case validate_ip ip of
                 Inl e \<Rightarrow> (Inl e, fs)
               | Inr _ \<Rightarrow> append_to_allowlist E Y fs file Field_ips ip))"

subsection \<open>What the validators accept\<close>

lemma validate_ip_trim [simp]: "validate_ip (trim_space s) = validate_ip s"
  by (simp add: validate_ip_def)

lemma validate_domain_trim [simp]: "validate_domain E (trim_space s) = validate_domain E s"
  by (simp add: validate_domain_def)

lemma validate_ip_parses:
  assumes "validate_ip s = Inr ()"
  shows "parse_ip (trim_space s) \<noteq> None \<or>
    CHR ''/'' \<in> set (trim_space s) \<and> parse_cidr (trim_space s) \<noteq> None"
  using assms
  by (auto simp: validate_ip_def Let_def str_contains_char split: if_splits option.splits)

text \<open>An accepted IP entry is written with hexadecimal digits, dots, colons and slashes
  only, and is not empty. It can be put into an nftables set as it is: no entry can carry white
  space, a quote, a brace, a comma or a comment sign into the ruleset.\<close>

theorem validated_ip_is_inert:
  assumes "validate_ip s = Inr ()"
  shows "trim_space s \<noteq> [] \<and> list_all (\<lambda>c. ip_char c \<or> c = CHR ''/'') (trim_space s)"
  using validate_ip_parses [OF assms]
proof
  assume "parse_ip (trim_space s) \<noteq> None"
  then obtain b where b: "parse_ip (trim_space s) = Some b" by blast
  show ?thesis
    using parse_ip_nonempty [OF b] parse_ip_chars [OF b] by (auto simp: list_all_iff)
next
  assume "CHR ''/'' \<in> set (trim_space s) \<and> parse_cidr (trim_space s) \<noteq> None"
  then obtain b where b: "parse_cidr (trim_space s) = Some b"
    and "CHR ''/'' \<in> set (trim_space s)" by blast
  then show ?thesis
    using parse_cidr_chars [OF b] by (auto simp: list_all_iff cidr_char_def)
qed

lemma validated_ip_is_inert_witness:
  "validate_ip ''10.0.0.0/8'' = Inr () \<and> trim_space ''10.0.0.0/8'' \<noteq> []"
proof -
  have t: "trim_space ''10.0.0.0/8'' = ''10.0.0.0/8''" by code_simp
  have "validate_ip ''10.0.0.0/8'' = Inr ()"
    by (simp add: validate_ip_def t Let_def go_unfold parse_cidr_def parse_addr_def)
  with validated_ip_is_inert [OF this] show ?thesis by simp
qed

text \<open>The specification of a literal domain name, on what IDNA makes of it.\<close>

definition label_wf :: "string \<Rightarrow> bool" where
  "label_wf l \<longleftrightarrow>
     l \<noteq> [] \<and> length l \<le> 63 \<and> list_all label_char l \<and> hd l \<noteq> CHR ''-'' \<and> last l \<noteq> CHR ''-''"

definition hostname_wf :: "string \<Rightarrow> bool" where
  "hostname_wf a \<longleftrightarrow>
     length a \<le> 253 \<and> parse_ip a = None \<and> 2 \<le> length (split_on CHR ''.'' a) \<and>
     (\<forall>l \<in> set (split_on CHR ''.'' a). label_wf l) \<and>
     \<not> list_all is_digit_char (last (split_on CHR ''.'' a))"

lemma lower_char_dash: "lower_char c = CHR ''-'' \<longleftrightarrow> c = CHR ''-''"
  by (auto simp: lower_char_def is_upper_char_def dest!: arg_cong [of _ _ byte_of]
      simp: byte_of_char_of)

lemma lower_char_digit: "is_digit_char (lower_char c) = is_digit_char c"
  by (auto simp: lower_char_def is_upper_char_def is_digit_char_def byte_of_char_of)

lemma validate_labels_iff:
  assumes "\<forall>l \<in> set ls. ascii_string l"
  shows "validate_labels E ls = Inr () \<longleftrightarrow>
    (\<forall>l \<in> set ls. label_wf l) \<and> (ls \<noteq> [] \<longrightarrow> \<not> list_all is_digit_char (last ls))"
  using assms
proof (induction ls)
  case Nil
  then show ?case by simp
next
  case (Cons l ls)
  have ascii: "ascii_string l" using Cons.prems by simp
  have chars: "list_all (\<lambda>c. is_ascii c \<longrightarrow> label_char c) l = list_all label_char l"
    using ascii by (auto simp: list_all_iff)
  have digits: "is_all_digits (to_lower E l) = list_all is_digit_char l"
    using ascii by (simp add: to_lower_def is_all_digits_def list.pred_map comp_def
        lower_char_digit)
  show ?case
  proof (cases "length l < 1")
    case True
    then show ?thesis by (auto simp: label_wf_def)
  next
    case False
    then have ends: "hd (to_lower E l) = CHR ''-'' \<longleftrightarrow> hd l = CHR ''-''"
      "last (to_lower E l) = CHR ''-'' \<longleftrightarrow> last l = CHR ''-''"
      using ascii by (auto simp: to_lower_def hd_map last_map lower_char_dash Suc_le_eq)
    show ?thesis
      using Cons ascii False ends
      by (auto simp: validate_label_chars_def chars digits label_wf_def Let_def)
  qed
qed

lemma split_on_length_two: "2 \<le> length (split_on c s) \<longleftrightarrow> c \<in> set s"
proof (induction s)
  case Nil
  then show ?case by simp
next
  case (Cons x xs)
  obtain w ws where "split_on c xs = w # ws" using split_on_ex by blast
  with Cons show ?case by auto
qed

lemma split_on_append_sep: "split_on c (u @ c # v) = split_on c u @ split_on c v"
proof (induction u)
  case Nil
  then show ?case by simp
next
  case (Cons x u)
  obtain w ws where "split_on c u = w # ws" using split_on_ex by blast
  with Cons show ?case by simp
qed

lemma split_on_empty_label:
  assumes "[] \<notin> set (split_on c s)"
  shows "s \<noteq> []" "\<not> has_prefix s [c]" "\<not> has_suffix s [c]" "\<not> str_contains s [c, c]"
proof -
  show "s \<noteq> []" using assms by auto
  show "\<not> has_prefix s [c]" using assms by (cases s) auto
  show "\<not> str_contains s [c, c]"
    using assms by (auto simp: str_contains_iff split_on_append_sep)
  show "\<not> has_suffix s [c]"
    using assms by (auto simp: has_suffix_iff split_on_append_sep [where v = "[]"])
qed

text \<open>A name without wildcards is accepted exactly when IDNA converts it (a final dot
  removed) to a well-formed host name: at most 253 characters, at least two labels, every label
  with 1 to 63 letters, digits or hyphens and no hyphen at its ends, the last label not numeric,
  and no IP address. The only assumption on the IDNA library is that its output is ASCII.\<close>

theorem validate_literal_domain:
  assumes "\<And>t a. idna_to_ascii E t = Some a \<Longrightarrow> ascii_string a"
    and "trim_space d \<noteq> []" "CHR ''*'' \<notin> set d" "\<not> is_regex_pattern (trim_space d)"
  shows "validate_domain E d = Inr () \<longleftrightarrow>
    (\<exists>a. idna_to_ascii E (trim_suffix (trim_space d) ''.'') = Some a \<and> hostname_wf a)"
proof -
  let ?t = "trim_suffix (trim_space d) ''.''"
  have star: "CHR ''*'' \<notin> set (trim_space d)" using assms(3) set_trim_space by blast
  have "cut_prefix (trim_space d) ''*.'' = None"
    using star by (auto simp: cut_prefix_def has_prefix_iff)
  with assms(2,4) star have v: "validate_domain E d = validate_literal E (trim_space d)"
    by (auto simp: validate_domain_def Let_def str_contains_char)
  show ?thesis
  proof (cases "idna_to_ascii E ?t")
    case None
    then show ?thesis by (simp add: v validate_literal_def domain_to_ascii_def)
  next
    case (Some a)
    have ascii: "ascii_string l" if "l \<in> set (split_on CHR ''.'' a)" for l
      using assms(1) [OF Some] split_on_chars [OF that] by (auto simp: list_all_iff)
    have labels: "validate_domain_labels E a = Inr () \<longleftrightarrow>
      (\<forall>l \<in> set (split_on CHR ''.'' a). label_wf l) \<and>
      \<not> list_all is_digit_char (last (split_on CHR ''.'' a))"
      using validate_labels_iff [of "split_on CHR ''.'' a" E] ascii
      by (simp add: validate_domain_labels_def)
    have nonempty: "[] \<notin> set (split_on CHR ''.'' a)"
      if "\<forall>l \<in> set (split_on CHR ''.'' a). label_wf l"
      using that by (auto simp: label_wf_def)
    show ?thesis
      using labels split_on_empty_label [OF nonempty] Some
      by (auto simp: v validate_literal_def domain_to_ascii_def hostname_wf_def
          max_domain_length_def split_on_length_two str_contains_char)
  qed
qed

lemma ascii_env_idna: "idna_to_ascii ascii_env t = Some a \<Longrightarrow> ascii_string a"
  by (auto simp: ascii_env_def idna_char_def is_ascii_def is_lower_char_def is_digit_char_def
      list_all_iff split: if_splits)

lemma validate_literal_domain_witness:
  "validate_domain ascii_env ''a.example'' = Inr () \<and> validate_domain ascii_env ''-a.example'' \<noteq> Inr ()"
proof -
  have t: "trim_space ''a.example'' = ''a.example''" "trim_space ''-a.example'' = ''-a.example''"
    by code_simp+
  have "hostname_wf ''a.example''"
    by (simp add: hostname_wf_def label_wf_def go_unfold parse_ip_def parse_addr_def)
  moreover have "\<not> hostname_wf ''-a.example''"
    by (simp add: hostname_wf_def label_wf_def)
  ultimately show ?thesis
    using validate_literal_domain [of ascii_env "''a.example''"]
      validate_literal_domain [of ascii_env "''-a.example''"]
    by (simp add: t ascii_env_idna go_unfold)
qed

subsection \<open>What reading a policy returns\<close>

definition ip_entry_ok :: "string \<Rightarrow> bool" where
  "ip_entry_ok s \<longleftrightarrow> s \<noteq> [] \<and> trim_space s = s \<and> validate_ip s = Inr ()"

definition domain_entry_ok :: "env \<Rightarrow> string \<Rightarrow> bool" where
  "domain_entry_ok E s \<longleftrightarrow> s \<noteq> [] \<and> trim_space s = s \<and> validate_domain E s = Inr ()"

definition policy_wf :: "env \<Rightarrow> policy \<Rightarrow> bool" where
  "policy_wf E p \<longleftrightarrow>
     DefaultAction p \<in> {[], ''deny'', ''allow''} \<and>
     list_all ip_entry_ok (AllowIPs p) \<and> list_all ip_entry_ok (DenyIPs p) \<and>
     list_all (domain_entry_ok E) (AllowDomains p) \<and> list_all (domain_entry_ok E) (DenyDomains p)"

lemma map_sum_Inr: "map_sum f g x = Inr b \<longleftrightarrow> (\<exists>a. x = Inr a \<and> b = g a)"
  by (cases x) auto

lemma validate_ips_result:
  "validate_ips ss = Inr r \<longleftrightarrow>
   r = filter (\<lambda>s. s \<noteq> []) (map trim_space ss) \<and> list_all ip_entry_ok r"
proof (induction ss arbitrary: r)
  case Nil
  then show ?case by auto
next
  case (Cons s ss)
  show ?case
  proof (cases "trim_space s = []")
    case True
    with Cons show ?thesis by (simp add: Let_def)
  next
    case False
    show ?thesis
    proof (cases "validate_ip s")
      case (Inl e)
      with False show ?thesis by (auto simp: Let_def ip_entry_ok_def)
    next
      case (Inr u)
      then have "validate_ips (s # ss) = map_sum id ((#) (trim_space s)) (validate_ips ss)"
        using False by (simp add: Let_def)
      then show ?thesis
        using Inr False by (simp only: map_sum_Inr Cons.IH) (auto simp: ip_entry_ok_def)
    qed
  qed
qed

lemma validate_domains_result:
  "validate_domains E ss = Inr r \<longleftrightarrow>
   r = filter (\<lambda>s. s \<noteq> []) (map trim_space ss) \<and> list_all (domain_entry_ok E) r"
proof (induction ss arbitrary: r)
  case Nil
  then show ?case by auto
next
  case (Cons s ss)
  show ?case
  proof (cases "trim_space s = []")
    case True
    with Cons show ?thesis by (simp add: Let_def)
  next
    case False
    show ?thesis
    proof (cases "validate_domain E s")
      case (Inl e)
      with False show ?thesis by (auto simp: Let_def domain_entry_ok_def)
    next
      case (Inr u)
      then have "validate_domains E (s # ss) = map_sum id ((#) (trim_space s)) (validate_domains E ss)"
        using False by (simp add: Let_def)
      then show ?thesis
        using Inr False by (simp only: map_sum_Inr Cons.IH) (auto simp: domain_entry_ok_def)
    qed
  qed
qed

lemma validate_lists_result:
  "validate_lists E l = Inr (ips, doms) \<longleftrightarrow>
   ips = filter (\<lambda>s. s \<noteq> []) (map trim_space (IPs l)) \<and> list_all ip_entry_ok ips \<and>
   doms = filter (\<lambda>s. s \<noteq> []) (map trim_space (Domains l)) \<and> list_all (domain_entry_ok E) doms"
  by (auto simp: validate_lists_def bind_res_Inr validate_ips_result validate_domains_result)

lemma validate_lists_entries:
  "validate_lists E l = Inr p \<Longrightarrow>
   list_all ip_entry_ok (fst p) \<and> list_all (domain_entry_ok E) (snd p)"
  using validate_lists_result [of E l "fst p" "snd p"] by auto

definition env_policy_set :: "(string \<Rightarrow> string) \<Rightarrow> bool" where
  "env_policy_set getenv \<longleftrightarrow>
     (\<exists>v \<in> {''ALLOWLIST_IPS'', ''ALLOWLIST_DOMAINS'', ''DENYLIST_IPS'', ''DENYLIST_DOMAINS''}.
        trim_space (getenv v) \<noteq> [])"

text \<open>C32: every policy that is read, from the environment or from the file, is well formed. Its
  entries are trimmed, not empty and accepted by the validators, and its default action is
  \<^verbatim>\<open>deny\<close>, \<^verbatim>\<open>allow\<close> or unset.\<close>

theorem read_policy_wf:
  assumes "read E Y getenv fs file = Inr pol"
  shows "policy_wf E pol"
proof (cases "env_policy_set getenv")
  case True
  with assms show ?thesis
    by (auto simp: read_def env_policy_set_def Let_def load_from_env_def bind_res_Inr policy_wf_def
        dest!: validate_lists_entries split: if_splits)
next
  case False
  with assms show ?thesis
    by (auto simp: read_def env_policy_set_def Let_def bind_res_Inr policy_wf_def
        validate_default_action_def default_action_deny_def default_action_allow_def
        dest!: validate_lists_entries split: if_splits)
qed

lemma read_policy_wf_witness:
  "policy_wf ascii_env
     \<lparr>DefaultAction = [], AllowIPs = [''1.2.3.4''], AllowDomains = [], DenyIPs = [], DenyDomains = []\<rparr>"
proof -
  let ?g = "\<lambda>v. if v = ''ALLOWLIST_IPS'' then ''1.2.3.4'' else []"
  let ?Y = "\<lparr>unmarshal = (\<lambda>_. None), marshal = (\<lambda>_. None)\<rparr>"
  have t: "trim_space ''1.2.3.4'' = ''1.2.3.4''" by code_simp
  have "read ascii_env ?Y ?g (\<lambda>_. None) [] =
    Inr \<lparr>DefaultAction = [], AllowIPs = [''1.2.3.4''], AllowDomains = [], DenyIPs = [], DenyDomains = []\<rparr>"
    by (simp add: read_def t Let_def parse_ip_def parse_addr_def go_unfold)
  then show ?thesis by (rule read_policy_wf)
qed

text \<open>The environment replaces the file: when one of the four variables is set, neither the
  file system nor the path has any influence, and no default action is taken from the file.\<close>

lemma read_env_only:
  "env_policy_set getenv \<Longrightarrow> read E Y getenv fs file = read E Y' getenv fs' file'"
  by (auto simp: read_def env_policy_set_def Let_def)

lemma read_env_default_action:
  "env_policy_set getenv \<Longrightarrow> read E Y getenv fs file = Inr pol \<Longrightarrow> DefaultAction pol = []"
  by (auto simp: read_def env_policy_set_def Let_def load_from_env_def bind_res_Inr)

text \<open>No path whose cleaned form has two consecutive dots is ever opened.\<close>

lemma load_config_no_traversal:
  "load_config Y fs file = Inr cfg \<Longrightarrow> \<not> str_contains (path_clean file) ''..'' \<and> path_clean file \<in> dom fs"
  by (auto simp: load_config_def Let_def split: if_splits option.splits)

subsection \<open>What appending does\<close>

lemma append_error_unchanged:
  "append_domain E Y fs file d = (Inl e, fs') \<Longrightarrow> fs' = fs"
  "append_ip E Y fs file d = (Inl e, fs') \<Longrightarrow> fs' = fs"
  by (auto simp: append_domain_def append_ip_def append_to_allowlist_def write_file_def Let_def
      split: sum.splits option.splits if_splits)

lemma append_frame:
  "append_domain E Y fs file d = (r, fs') \<Longrightarrow> p \<noteq> path_clean file \<Longrightarrow> fs' p = fs p"
  "append_ip E Y fs file d = (r, fs') \<Longrightarrow> p \<noteq> path_clean file \<Longrightarrow> fs' p = fs p"
  by (auto simp: append_domain_def append_ip_def append_to_allowlist_def write_file_def Let_def
      split: sum.splits option.splits if_splits)

lemma load_after_write:
  assumes "load_config Y fs file = Inr cfg" "write_file fs (path_clean file) bytes = (Inr (), fs')"
    and "unmarshal Y bytes = Some cfg'"
  shows "load_config Y fs' file = Inr cfg'"
  using assms by (auto simp: load_config_def write_file_def Let_def split: if_splits option.splits)

definition with_domain :: "config \<Rightarrow> string \<Rightarrow> config" where
  "with_domain cfg d =
     cfg\<lparr>cfg_allow := (cfg_allow cfg)\<lparr>Domains := Domains (cfg_allow cfg) @ [d]\<rparr>\<rparr>"

lemma append_domain_ok:
  assumes "append_domain E Y fs file d = (Inr (), fs')"
  shows "trim_space d \<noteq> [] \<and> validate_domain E d = Inr () \<and>
    (\<exists>cfg. load_config Y fs file = Inr cfg \<and>
       (fs' = fs \<and> list_ex (\<lambda>x. equal_fold E x (trim_space d)) (Domains (cfg_allow cfg)) \<or>
        (\<not> list_ex (\<lambda>x. equal_fold E x (trim_space d)) (Domains (cfg_allow cfg)) \<and>
         (\<exists>b. marshal Y (with_domain cfg (trim_space d)) = Some b \<and>
           write_file fs (path_clean file) b = (Inr (), fs')))))"
  using assms
  by (auto simp: append_domain_def append_to_allowlist_def add_to_allow_def Let_def with_domain_def
      split: sum.splits option.splits if_splits)

text \<open>Unblocking a domain works and is idempotent. After a successful
  \<^verbatim>\<open>AppendDomain\<close> the file parses to the old configuration with the domain present in the
  allowlist (up to case) and nothing else changed: the old entries stay in place, the denylist and
  the default action are kept, and a second call returns without touching the file. The
  assumption is that the YAML library reads back the configuration it wrote.\<close>

theorem append_domain_idempotent:
  assumes "append_domain E Y fs file d = (Inr (), fs')"
    and "load_config Y fs file = Inr cfg"
    and "\<And>b. marshal Y (with_domain cfg (trim_space d)) = Some b \<Longrightarrow>
           unmarshal Y b = Some (with_domain cfg (trim_space d))"
    and "equal_fold E (trim_space d) (trim_space d)"
  shows "\<exists>cfg'. load_config Y fs' file = Inr cfg' \<and>
      (cfg' = cfg \<or> cfg' = with_domain cfg (trim_space d)) \<and>
      list_ex (\<lambda>x. equal_fold E x (trim_space d)) (Domains (cfg_allow cfg')) \<and>
      append_domain E Y fs' file d = (Inr (), fs')"
proof -
  let ?has = "\<lambda>c. list_ex (\<lambda>x. equal_fold E x (trim_space d)) (Domains (cfg_allow c))"
  have "\<exists>cfg'. load_config Y fs' file = Inr cfg' \<and>
      (cfg' = cfg \<or> cfg' = with_domain cfg (trim_space d)) \<and> ?has cfg'"
    using append_domain_ok [OF assms(1)] assms(2-4) load_after_write [OF assms(2)]
    by (auto simp: with_domain_def)
  then obtain cfg' where c: "load_config Y fs' file = Inr cfg'" "?has cfg'"
    "cfg' = cfg \<or> cfg' = with_domain cfg (trim_space d)" by blast
  moreover have "append_domain E Y fs' file d = (Inr (), fs')"
    using append_domain_ok [OF assms(1)] c
    by (auto simp: append_domain_def append_to_allowlist_def add_to_allow_def Let_def)
  ultimately show ?thesis by blast
qed

lemma append_domain_idempotent_witness:
  "\<exists>fs'. append_domain ascii_env
      \<lparr>unmarshal = (\<lambda>b. if b = ''old'' then Some \<lparr>cfg_default_action = [],
           cfg_allow = \<lparr>IPs = [], Domains = []\<rparr>, cfg_deny = \<lparr>IPs = [], Domains = []\<rparr>\<rparr>
         else Some \<lparr>cfg_default_action = [],
           cfg_allow = \<lparr>IPs = [], Domains = [''a.b'']\<rparr>, cfg_deny = \<lparr>IPs = [], Domains = []\<rparr>\<rparr>),
       marshal = (\<lambda>_. Some ''new'')\<rparr> fs' ''/p'' ''a.b'' = (Inr (), fs')"
proof -
  let ?e = "\<lparr>IPs = [], Domains = []\<rparr>"
  let ?c0 = "\<lparr>cfg_default_action = [], cfg_allow = ?e, cfg_deny = ?e\<rparr>"
  let ?c1 = "\<lparr>cfg_default_action = [], cfg_allow = \<lparr>IPs = [], Domains = [''a.b'']\<rparr>, cfg_deny = ?e\<rparr>"
  let ?Y = "\<lparr>unmarshal = (\<lambda>b. if b = ''old'' then Some ?c0 else Some ?c1),
    marshal = (\<lambda>_. Some ''new'')\<rparr>"
  let ?n = "\<lparr>regular = True, readable = True, writable = True, data = ''old''\<rparr>"
  let ?fs = "[''/p'' \<mapsto> ?n]"
  let ?fs' = "[''/p'' \<mapsto> ?n\<lparr>data := ''new''\<rparr>]"
  have t: "trim_space ''a.b'' = ''a.b''" by code_simp
  have v: "validate_domain ascii_env ''a.b'' = Inr ()"
    by (simp add: t go_unfold Let_def parse_ip_def parse_addr_def)
  have l: "load_config ?Y ?fs ''/p'' = Inr ?c0"
    by (simp add: go_unfold Let_def)
  have a: "append_domain ascii_env ?Y ?fs ''/p'' ''a.b'' = (Inr (), ?fs')"
    by (simp add: append_domain_def append_to_allowlist_def l v t Let_def add_to_allow_def
        write_file_def go_unfold parse_ip_def parse_addr_def)
  from append_domain_idempotent [OF a l] show ?thesis
    by (auto simp: t with_domain_def go_unfold)
qed

end
