(* ===== verification/Learner.thy ===== *)
theory Learner
  imports Policy Flow
begin

text \<open>
  \<^verbatim>\<open>internal/g0efilter/learner.go\<close>: the values the filters observe in learning mode, on
  their way to the policy file. The set of seen keys is a list; logs are left out. The callback of the
  filters is \<open>learner_record\<close>, the ticker of the flush loop is the event \<open>Flush\<close>.
\<close>

record learn_entry =
  le_kind :: string
  le_value :: string

record learner =
  ln_path :: string
  ln_seen :: "string list"
  ln_pending :: "learn_entry list"
  ln_cap_warned :: bool

definition learner_max_seen :: nat where "learner_max_seen = 10000"

definition new_learner :: "string \<Rightarrow> learner" where
  "new_learner policyPath = \<lparr>ln_path = policyPath, ln_seen = [], ln_pending = [], ln_cap_warned = False\<rparr>"

definition learn_key :: "learn_entry \<Rightarrow> string" where
  "learn_key e = le_kind e @ '':'' @ le_value e"

definition learner_record :: "learn_entry \<Rightarrow> learner \<Rightarrow> learner" where
  "learner_record e l =
     (if le_value e = [] then l
      else (let key = learn_key e
            in if key \<in> set (ln_seen l) then l
               else if length (ln_seen l) \<ge> learner_max_seen then l\<lparr>ln_cap_warned := True\<rparr>
               else l\<lparr>ln_seen := ln_seen l @ [key], ln_pending := ln_pending l @ [e]\<rparr>))"

definition append_entry ::
  "env \<Rightarrow> yaml \<Rightarrow> string \<Rightarrow> learn_entry \<Rightarrow> fs \<Rightarrow> (policy_error + unit) \<times> fs" where
  "append_entry E Y path e fs =
     (if le_kind e = ''ip'' then append_ip E Y fs path (le_value e)
      else append_domain E Y fs path (le_value e))"

fun flush_batch :: "env \<Rightarrow> yaml \<Rightarrow> string \<Rightarrow> learn_entry list \<Rightarrow> fs \<Rightarrow> fs" where
  \<comment> \<open>an error is logged and the loop goes on\<close>
  "flush_batch E Y path [] fs = fs"
| "flush_batch E Y path (e # es) fs = flush_batch E Y path es (snd (append_entry E Y path e fs))"

definition learner_flush :: "env \<Rightarrow> yaml \<Rightarrow> learner \<Rightarrow> fs \<Rightarrow> learner \<times> fs" where
  "learner_flush E Y l fs = (l\<lparr>ln_pending := []\<rparr>, flush_batch E Y (ln_path l) (ln_pending l) fs)"

subsection \<open>What is learned\<close>

datatype learn_event = Record learn_entry | Flush

record learn_state =
  ls_learner :: learner
  ls_fs :: fs
  ls_handed :: "learn_entry list" \<comment> \<open>the entries whose append was tried so far, whether it worked or not\<close>

definition learn_step :: "env \<Rightarrow> yaml \<Rightarrow> learn_state \<Rightarrow> learn_event \<Rightarrow> learn_state" where
  "learn_step E Y s ev =
     (case ev of
        Record e \<Rightarrow> s\<lparr>ls_learner := learner_record e (ls_learner s)\<rparr>
      | Flush \<Rightarrow>
          (let (l, fs) = learner_flush E Y (ls_learner s) (ls_fs s)
           in \<lparr>ls_learner = l, ls_fs = fs, ls_handed = ls_handed s @ ln_pending (ls_learner s)\<rparr>))"

definition learn_start :: "string \<Rightarrow> fs \<Rightarrow> learn_state" where
  "learn_start path fs = \<lparr>ls_learner = new_learner path, ls_fs = fs, ls_handed = []\<rparr>"

definition observed :: "learn_event list \<Rightarrow> learn_entry list" where
  "observed evs = concat (map (\<lambda>ev. case ev of Record e \<Rightarrow> if le_value e = [] then [] else [e] | Flush \<Rightarrow> []) evs)"

definition firsts :: "'a list \<Rightarrow> 'a list" where
  \<comment> \<open>every element once, where it occurs first\<close>
  "firsts xs = rev (remdups (rev xs))"

lemma firsts_snoc: "firsts (xs @ [x]) = (if x \<in> set xs then firsts xs else firsts xs @ [x])"
  by (simp add: firsts_def)

lemma set_firsts [simp]: "set (firsts xs) = set xs"
  by (simp add: firsts_def)

lemma learn_key_inj:
  assumes "CHR '':'' \<notin> set (le_kind e)" "CHR '':'' \<notin> set (le_kind e')" "learn_key e = learn_key e'"
  shows "e = e'"
proof -
  have "le_kind e = le_kind e' \<and> le_value e = le_value e'"
    using append_sep_inj [of "CHR '':''" "le_kind e" "le_kind e'" "le_value e" "le_value e'"] assms
    by (simp add: learn_key_def)
  then show ?thesis by simp
qed

lemma flush_batch_append: "flush_batch E Y path (xs @ ys) fs = flush_batch E Y path ys (flush_batch E Y path xs fs)"
  by (induction xs arbitrary: fs) simp_all

definition learn_inv :: "env \<Rightarrow> yaml \<Rightarrow> string \<Rightarrow> fs \<Rightarrow> learn_entry list \<Rightarrow> learn_state \<Rightarrow> bool" where
  "learn_inv E Y path fs xs s \<longleftrightarrow>
     ln_path (ls_learner s) = path \<and>
     ls_handed s @ ln_pending (ls_learner s) = take learner_max_seen (firsts xs) \<and>
     ln_seen (ls_learner s) = map learn_key (take learner_max_seen (firsts xs)) \<and>
     ls_fs s = flush_batch E Y path (ls_handed s) fs"

lemma record_inv:
  assumes inv: "learn_inv E Y path fs xs s" and v: "le_value e \<noteq> []"
    and kinds: "\<forall>x \<in> insert e (set xs). CHR '':'' \<notin> set (le_kind x)"
  shows "learn_inv E Y path fs (xs @ [e]) (learn_step E Y s (Record e))"
proof -
  let ?l = "ls_learner s"
  have seen: "ln_seen ?l = map learn_key (take learner_max_seen (firsts xs))"
    and all: "ls_handed s @ ln_pending ?l = take learner_max_seen (firsts xs)"
    using inv by (simp_all add: learn_inv_def)
  consider (dup) "learn_key e \<in> set (ln_seen ?l)"
    | (full) "learn_key e \<notin> set (ln_seen ?l)" "learner_max_seen \<le> length (ln_seen ?l)"
    | (new) "learn_key e \<notin> set (ln_seen ?l)" "length (ln_seen ?l) < learner_max_seen"
    by linarith
  then show ?thesis
  proof cases
    case dup
    then obtain x where x: "x \<in> set (take learner_max_seen (firsts xs))" "learn_key x = learn_key e"
      by (auto simp: seen)
    then have "x \<in> set xs" using in_set_takeD by fastforce
    then have "e \<in> set xs" using learn_key_inj [of x e] x(2) kinds by auto
    then show ?thesis
      using inv dup v by (simp add: learn_inv_def learn_step_def learner_record_def Let_def firsts_snoc)
  next
    case full
    then have "take learner_max_seen (firsts (xs @ [e])) = take learner_max_seen (firsts xs)"
      by (simp add: seen firsts_snoc)
    then show ?thesis
      using inv full v by (simp add: learn_inv_def learn_step_def learner_record_def Let_def)
  next
    case new
    then have short: "length (firsts xs) < learner_max_seen" by (simp add: seen min_def split: if_splits)
    then have "e \<notin> set xs" using new(1) by (auto simp: seen)
    then have "take learner_max_seen (firsts (xs @ [e])) = take learner_max_seen (firsts xs) @ [e]"
      using short by (simp add: firsts_snoc)
    then show ?thesis
      using inv new v by (simp add: learn_inv_def learn_step_def learner_record_def Let_def)
  qed
qed

lemma flush_inv: "learn_inv E Y path fs xs s \<Longrightarrow> learn_inv E Y path fs xs (learn_step E Y s Flush)"
  by (simp add: learn_inv_def learn_step_def learner_flush_def Let_def flush_batch_append [symmetric])

lemma observed_snoc: "observed (evs @ [ev]) =
  observed evs @ (case ev of Record e \<Rightarrow> if le_value e = [] then [] else [e] | Flush \<Rightarrow> [])"
  by (simp add: observed_def)

lemma learn_run_inv:
  assumes "\<forall>e \<in> set (observed evs). CHR '':'' \<notin> set (le_kind e)"
  shows "learn_inv E Y path fs (observed evs) (foldl (learn_step E Y) (learn_start path fs) evs)"
  using assms
proof (induction evs rule: rev_induct)
  case Nil
  show ?case by (simp add: learn_inv_def learn_start_def new_learner_def observed_def firsts_def)
next
  case (snoc ev evs)
  let ?s = "foldl (learn_step E Y) (learn_start path fs) evs"
  have ih: "learn_inv E Y path fs (observed evs) ?s" using snoc by (simp add: observed_snoc)
  show ?case
  proof (cases ev)
    case Flush
    then show ?thesis using flush_inv [OF ih] by (simp add: observed_snoc)
  next
    case (Record e)
    then show ?thesis
    proof (cases "le_value e = []")
      case True
      then have "learn_step E Y ?s ev = ?s" using Record by (simp add: learn_step_def learner_record_def)
      then show ?thesis using ih Record True by (simp add: observed_snoc)
    next
      case False
      then show ?thesis using record_inv [OF ih False] snoc.prems Record by (simp add: observed_snoc)
    qed
  qed
qed

lemma learned_entries:
  assumes "\<forall>e \<in> set (observed evs). CHR '':'' \<notin> set (le_kind e)"
    and "s = foldl (learn_step E Y) (learn_start path fs) evs"
  shows "ls_handed s @ ln_pending (ls_learner s) = take 10000 (firsts (observed evs)) \<and>
    ls_fs s = flush_batch E Y path (ls_handed s) fs \<and> length (ln_seen (ls_learner s)) \<le> 10000"
  using learn_run_inv [OF assms(1), of E Y path fs] assms(2)
  by (simp add: learn_inv_def learner_max_seen_def)

subsection \<open>What becomes of the file\<close>

fun adjoin :: "('a \<Rightarrow> 'a \<Rightarrow> bool) \<Rightarrow> 'a list \<Rightarrow> 'a list \<Rightarrow> 'a list" where
  \<comment> \<open>each value that has no equal in the list yet is put at its end\<close>
  "adjoin eq xs [] = xs"
| "adjoin eq xs (v # vs) = adjoin eq (if \<exists>x \<in> set xs. eq x v then xs else xs @ [v]) vs"

definition learned_ips :: "learn_entry list \<Rightarrow> string list" where
  "learned_ips es =
     filter (\<lambda>v. v \<noteq> [] \<and> validate_ip v = Inr ()) (map (\<lambda>e. trim_space (le_value e)) (filter (\<lambda>e. le_kind e = ''ip'') es))"

definition learned_domains :: "env \<Rightarrow> learn_entry list \<Rightarrow> string list" where
  "learned_domains E es =
     filter (\<lambda>v. v \<noteq> [] \<and> validate_domain E v = Inr ()) (map (\<lambda>e. trim_space (le_value e)) (filter (\<lambda>e. le_kind e \<noteq> ''ip'') es))"

definition extended :: "env \<Rightarrow> config \<Rightarrow> learn_entry list \<Rightarrow> config" where
  \<comment> \<open>the configuration with the valid values added to its allow list and nothing else changed\<close>
  "extended E cfg es =
     cfg\<lparr>cfg_allow :=
       \<lparr>IPs = adjoin (=) (IPs (cfg_allow cfg)) (learned_ips es),
        Domains = adjoin (equal_fold E) (Domains (cfg_allow cfg)) (learned_domains E es)\<rparr>\<rparr>"

definition yaml_roundtrip :: "yaml \<Rightarrow> bool" where
  "yaml_roundtrip Y \<longleftrightarrow> (\<forall>cfg. \<exists>b. marshal Y cfg = Some b \<and> unmarshal Y b = Some cfg)"

definition policy_file :: "yaml \<Rightarrow> string \<Rightarrow> config \<Rightarrow> fs \<Rightarrow> bool" where
  \<comment> \<open>the file is there, may be read and written, and holds this configuration\<close>
  "policy_file Y path cfg fs \<longleftrightarrow>
     load_config Y fs path = Inr cfg \<and> (\<exists>n. fs (path_clean path) = Some n \<and> writable n)"

lemma write_policy_file:
  assumes "policy_file Y path cfg fs" "unmarshal Y b = Some cfg'"
  shows "\<exists>fs'. write_file fs (path_clean path) b = (Inr (), fs') \<and> policy_file Y path cfg' fs'"
proof -
  obtain n where n: "fs (path_clean path) = Some n" "writable n" using assms(1) by (auto simp: policy_file_def)
  then have w: "write_file fs (path_clean path) b = (Inr (), fs(path_clean path \<mapsto> n\<lparr>data := b\<rparr>))"
    by (simp add: write_file_def)
  then have "load_config Y (fs(path_clean path \<mapsto> n\<lparr>data := b\<rparr>)) path = Inr cfg'"
    using load_after_write [OF _ w assms(2)] assms(1) by (simp add: policy_file_def)
  then show ?thesis using w n by (auto simp: policy_file_def)
qed

lemma append_policy_file:
  assumes "policy_file Y path cfg fs" "yaml_roundtrip Y" "add_to_allow E field v cfg = Inr r"
  shows "policy_file Y path (case r of None \<Rightarrow> cfg | Some c \<Rightarrow> c) (snd (append_to_allowlist E Y fs path field v))"
proof (cases r)
  case None
  then show ?thesis using assms by (simp add: append_to_allowlist_def policy_file_def)
next
  case (Some c)
  obtain b where b: "marshal Y c = Some b" "unmarshal Y b = Some c" using assms(2) by (auto simp: yaml_roundtrip_def)
  then obtain fs' where "write_file fs (path_clean path) b = (Inr (), fs')" "policy_file Y path c fs'"
    using write_policy_file [OF assms(1)] by blast
  then show ?thesis using assms(1,3) Some b by (simp add: append_to_allowlist_def policy_file_def)
qed

lemma allow_list_update:
  "cfg\<lparr>cfg_allow := \<lparr>IPs = IPs (cfg_allow cfg), Domains = Domains (cfg_allow cfg)\<rparr>\<rparr> = cfg"
  "(a :: allow_list)\<lparr>IPs := xs\<rparr> = \<lparr>IPs = xs, Domains = Domains a\<rparr>"
  "(a :: allow_list)\<lparr>Domains := xs\<rparr> = \<lparr>IPs = IPs a, Domains = xs\<rparr>"
  by (cases cfg; simp) (cases a; simp)+

lemma append_entry_file:
  assumes "policy_file Y path cfg fs" "yaml_roundtrip Y"
  shows "policy_file Y path (extended E cfg [e]) (snd (append_entry E Y path e fs))"
proof -
  note [simp] = allow_list_update
  show ?thesis
  proof (cases "le_kind e = ''ip''")
    case True
    let ?v = "trim_space (le_value e)"
    have d: "learned_domains E [e] = []" using True by (simp add: learned_domains_def)
    show ?thesis
    proof (cases "?v \<noteq> [] \<and> validate_ip ?v = Inr ()")
      case ok: True
      then have "append_entry E Y path e fs = append_to_allowlist E Y fs path Field_ips ?v"
        using True by (simp add: append_entry_def append_ip_def Let_def)
      then show ?thesis
        using append_policy_file [OF assms, of E Field_ips ?v] True ok
        by (auto simp: extended_def d learned_ips_def add_to_allow_def Let_def split: if_splits)
    next
      case False
      then have "snd (append_entry E Y path e fs) = fs"
        using True by (auto simp: append_entry_def append_ip_def Let_def split: sum.splits)
      moreover have "learned_ips [e] = []" using False by (auto simp: learned_ips_def)
      ultimately show ?thesis using assms(1) by (simp add: extended_def d)
    qed
  next
    case dom: False
    let ?v = "trim_space (le_value e)"
    have i: "learned_ips [e] = []" using dom by (simp add: learned_ips_def)
    show ?thesis
    proof (cases "?v \<noteq> [] \<and> validate_domain E ?v = Inr ()")
      case ok: True
      then have "append_entry E Y path e fs = append_to_allowlist E Y fs path Field_domains ?v"
        using dom by (simp add: append_entry_def append_domain_def Let_def)
      then show ?thesis
        using append_policy_file [OF assms, of E Field_domains ?v] dom ok
        by (cases "\<exists>d \<in> set (Domains (cfg_allow cfg)). equal_fold E d ?v")
          (simp_all add: extended_def i learned_domains_def add_to_allow_def Let_def list_ex_iff)
    next
      case False
      then have "snd (append_entry E Y path e fs) = fs"
        using dom by (auto simp: append_entry_def append_domain_def Let_def split: sum.splits)
      moreover have "learned_domains E [e] = []" using False by (auto simp: learned_domains_def)
      ultimately show ?thesis using assms(1) by (simp add: extended_def i)
    qed
  qed
qed

lemma adjoin_append: "adjoin eq xs (us @ vs) = adjoin eq (adjoin eq xs us) vs"
  by (induction us arbitrary: xs) simp_all

lemma extended_append: "extended E (extended E cfg es) es' = extended E cfg (es @ es')"
  by (simp add: extended_def learned_ips_def learned_domains_def adjoin_append)

lemma flush_batch_file:
  assumes "yaml_roundtrip Y"
  shows "policy_file Y path cfg fs \<Longrightarrow> policy_file Y path (extended E cfg es) (flush_batch E Y path es fs)"
proof (induction es arbitrary: cfg fs)
  case Nil
  then show ?case by (simp add: extended_def learned_ips_def learned_domains_def allow_list_update)
next
  case (Cons e es)
  from Cons.IH [OF append_entry_file [OF Cons.prems assms, of E e]] show ?case
    by (simp add: extended_append)
qed

text \<open>C39: Learning puts every observed value into the policy file once. Whenever the filters report
  values and however the flushes fall between them, the entries handed over so far followed by those that
  wait are the first 10000 different values, in the order in which they were first seen. If the YAML
  library reads back what it writes, and the file can be read and written and nobody else writes it, then
  it holds at the end the configuration it held before, with exactly the valid ones among the handed-over
  values put at the end of the two allow lists unless they were there already; the deny list and the
  default action stay. Values that the validation refuses are left out, and the memory of the learner is
  bounded.\<close>

theorem learner_exact:
  assumes "\<forall>e \<in> set (observed evs). CHR '':'' \<notin> set (le_kind e)"
    and "s = foldl (learn_step E Y) (learn_start path fs) evs"
    and "yaml_roundtrip Y" "policy_file Y path cfg fs"
  shows "ls_handed s @ ln_pending (ls_learner s) = take 10000 (firsts (observed evs)) \<and>
    load_config Y (ls_fs s) path = Inr (cfg\<lparr>cfg_allow :=
       \<lparr>IPs = adjoin (=) (IPs (cfg_allow cfg)) (learned_ips (ls_handed s)),
        Domains = adjoin (equal_fold E) (Domains (cfg_allow cfg)) (learned_domains E (ls_handed s))\<rparr>\<rparr>) \<and>
    length (ln_seen (ls_learner s)) \<le> 10000"
  using learned_entries [OF assms(1,2)] flush_batch_file [OF assms(3,4), of E "ls_handed s"]
  by (simp add: policy_file_def extended_def)

text \<open>A YAML library for examples: it marks every character, and ends strings and lists.\<close>

definition enc_string :: "string \<Rightarrow> string" where
  "enc_string s = concat (map (\<lambda>c. [CHR ''c'', c]) s) @ ''.''"

definition enc_strings :: "string list \<Rightarrow> string" where
  "enc_strings ss = concat (map enc_string ss) @ '';''"

fun dec_string :: "string \<Rightarrow> string \<Rightarrow> string \<times> string" where
  "dec_string acc (m # c # r) = (if m = CHR ''c'' then dec_string (acc @ [c]) r else (acc, c # r))"
| "dec_string acc r = (acc, [])"

fun dec_strings :: "nat \<Rightarrow> string \<Rightarrow> string list \<times> string" where
  "dec_strings 0 r = ([], r)"
| "dec_strings (Suc n) r =
     (if r = [] \<or> hd r = CHR '';'' then ([], tl r)
      else (let (s, r1) = dec_string [] r; (ss, r2) = dec_strings n r1 in (s # ss, r2)))"

lemma dec_enc_string: "r \<noteq> [] \<Longrightarrow> dec_string acc (enc_string s @ r) = (acc @ s, r)"
  by (induction s arbitrary: acc) (cases r; simp add: enc_string_def)+

lemma dec_enc_strings: "length ss < n \<Longrightarrow> dec_strings n (enc_strings ss @ r) = (ss, r)"
proof (induction ss arbitrary: n)
  case Nil
  then show ?case by (cases n) (simp_all add: enc_strings_def)
next
  case (Cons s ss)
  then obtain k where n: "n = Suc k" "length ss < k" by (cases n) auto
  have e: "enc_strings (s # ss) @ r = enc_string s @ enc_strings ss @ r" by (simp add: enc_strings_def)
  have h: "hd (enc_string s @ x) \<noteq> CHR '';''" "enc_string s @ x \<noteq> []" for x
    by (cases s; simp add: enc_string_def)+
  have "dec_string [] (enc_string s @ enc_strings ss @ r) = (s, enc_strings ss @ r)"
    using dec_enc_string [of "enc_strings ss @ r" "[]" s] by (simp add: enc_strings_def)
  then show ?case
    using Cons.IH [OF n(2)] h unfolding e n(1) by (simp del: append_assoc)
qed

lemma enc_strings_length: "length ss < length (enc_strings ss)"
  by (induction ss) (simp_all add: enc_strings_def enc_string_def)

definition marked_yaml :: yaml where
  "marked_yaml =
     \<lparr>unmarshal = (\<lambda>b.
        let n = length b;
            (act, r1) = dec_strings n b; (ai, r2) = dec_strings n r1; (ad, r3) = dec_strings n r2;
            (di, r4) = dec_strings n r3; (dd, r5) = dec_strings n r4
        in Some \<lparr>cfg_default_action = concat act, cfg_allow = \<lparr>IPs = ai, Domains = ad\<rparr>,
                 cfg_deny = \<lparr>IPs = di, Domains = dd\<rparr>\<rparr>),
      marshal = (\<lambda>cfg. Some (enc_strings [cfg_default_action cfg] @ enc_strings (IPs (cfg_allow cfg)) @
        enc_strings (Domains (cfg_allow cfg)) @ enc_strings (IPs (cfg_deny cfg)) @ enc_strings (Domains (cfg_deny cfg))))\<rparr>"

lemma marked_yaml_roundtrip: "yaml_roundtrip marked_yaml"
  unfolding yaml_roundtrip_def
proof
  fix cfg :: config
  let ?b = "enc_strings [cfg_default_action cfg] @ enc_strings (IPs (cfg_allow cfg)) @
    enc_strings (Domains (cfg_allow cfg)) @ enc_strings (IPs (cfg_deny cfg)) @ enc_strings (Domains (cfg_deny cfg))"
  have len: "length ss < length ?b"
    if "ss \<in> {[cfg_default_action cfg], IPs (cfg_allow cfg), Domains (cfg_allow cfg), IPs (cfg_deny cfg), Domains (cfg_deny cfg)}" for ss
    using that enc_strings_length [of ss] by auto
  have d: "dec_strings (length ?b) (enc_strings ss @ r) = (ss, r)" "dec_strings (length ?b) (enc_strings ss) = (ss, [])"
    if "ss \<in> {[cfg_default_action cfg], IPs (cfg_allow cfg), Domains (cfg_allow cfg), IPs (cfg_deny cfg), Domains (cfg_deny cfg)}" for ss r
    using dec_enc_strings [OF len [OF that]] dec_enc_strings [OF len [OF that], of "[]"] by simp_all
  have "unmarshal marked_yaml ?b = Some cfg"
    unfolding marked_yaml_def yaml.simps Let_def by (simp only: d insertI1 insertI2 insertCI prod.case) simp
  then show "\<exists>b. marshal marked_yaml cfg = Some b \<and> unmarshal marked_yaml b = Some cfg"
    by (intro exI [of _ ?b]) (simp add: marked_yaml_def)
qed

definition sample_learn_events :: "learn_event list" where
  "sample_learn_events =
     [Record \<lparr>le_kind = ''domain'', le_value = ''a.b''\<rparr>, Record \<lparr>le_kind = ''ip'', le_value = ''1.2.3.4''\<rparr>, Flush,
      Record \<lparr>le_kind = ''domain'', le_value = ''a.b''\<rparr>, Record \<lparr>le_kind = ''domain'', le_value = []\<rparr>]"

definition sample_learn_config :: config where
  "sample_learn_config =
     \<lparr>cfg_default_action = ''deny'', cfg_allow = \<lparr>IPs = [''1.2.3.4''], Domains = [''b.c'']\<rparr>,
      cfg_deny = \<lparr>IPs = [], Domains = []\<rparr>\<rparr>"

definition sample_learn_fs :: fs where
  "sample_learn_fs =
     [''/p'' \<mapsto> \<lparr>regular = True, readable = True, writable = True, data = the (marshal marked_yaml sample_learn_config)\<rparr>]"

theorem learner_exact_witness:
  "\<exists>cfg. load_config marked_yaml (ls_fs (foldl (learn_step ascii_env marked_yaml)
     (learn_start ''/p'' sample_learn_fs) sample_learn_events)) ''/p'' = Inr cfg \<and>
     cfg_allow cfg = \<lparr>IPs = [''1.2.3.4''], Domains = [''b.c'', ''a.b'']\<rparr> \<and> cfg_default_action cfg = ''deny''"
proof -
  let ?s = "foldl (learn_step ascii_env marked_yaml) (learn_start ''/p'' sample_learn_fs) sample_learn_events"
  have o: "observed sample_learn_events =
    [\<lparr>le_kind = ''domain'', le_value = ''a.b''\<rparr>, \<lparr>le_kind = ''ip'', le_value = ''1.2.3.4''\<rparr>,
     \<lparr>le_kind = ''domain'', le_value = ''a.b''\<rparr>]"
    by (simp add: observed_def sample_learn_events_def)
  have f: "firsts (observed sample_learn_events) =
      [\<lparr>le_kind = ''domain'', le_value = ''a.b''\<rparr>, \<lparr>le_kind = ''ip'', le_value = ''1.2.3.4''\<rparr>]"
    by (simp add: o firsts_def)
  have p: "path_clean ''/p'' = ''/p''" by code_simp
  obtain b where "marshal marked_yaml sample_learn_config = Some b" "unmarshal marked_yaml b = Some sample_learn_config"
    using marked_yaml_roundtrip by (auto simp: yaml_roundtrip_def)
  then have pf: "policy_file marked_yaml ''/p'' sample_learn_config sample_learn_fs"
    unfolding policy_file_def load_config_def p by (simp add: sample_learn_fs_def Let_def has_prefix_def)
  have kinds: "\<forall>e \<in> set (observed sample_learn_events). CHR '':'' \<notin> set (le_kind e)" by (simp add: o)
  note exact = learner_exact [OF kinds refl marked_yaml_roundtrip pf, of ascii_env]
  have "ln_pending (ls_learner ?s) = []"
    by (simp add: sample_learn_events_def learn_step_def learn_start_def learner_flush_def learner_record_def
        new_learner_def learn_key_def learner_max_seen_def Let_def)
  then have handed: "ls_handed ?s =
      [\<lparr>le_kind = ''domain'', le_value = ''a.b''\<rparr>, \<lparr>le_kind = ''ip'', le_value = ''1.2.3.4''\<rparr>]"
    using exact by (simp add: f)
  have t: "trim_space ''a.b'' = ''a.b''" "trim_space ''1.2.3.4'' = ''1.2.3.4''" "validate_ip ''1.2.3.4'' = Inr ()"
    by code_simp+
  have v: "validate_domain ascii_env ''a.b'' = Inr ()"
    by (simp add: t go_unfold Let_def parse_ip_def parse_addr_def)
  have "learned_ips (ls_handed ?s) = [''1.2.3.4'']" "learned_domains ascii_env (ls_handed ?s) = [''a.b'']"
    by (simp_all add: handed learned_ips_def learned_domains_def t v)
  moreover have "\<not> equal_fold ascii_env ''b.c'' ''a.b''" by code_simp
  ultimately show ?thesis using exact by (simp add: sample_learn_config_def)
qed

end
