(* ===== verification/Validate.thy ===== *)
theory Validate
  imports Policy
begin

text \<open>
  \<^verbatim>\<open>internal/filter/validate.go\<close>: the check of host names taken from an HTTP Host header or
  a TLS server name, and of DNS query names. The loops over runes accept ASCII runes only, so they
  are modelled over bytes (see GoStrings). The trace logger is left out.
\<close>

definition max_host_length :: nat where "max_host_length = 253"
definition max_label_length :: nat where "max_label_length = 63"
definition min_valid_host_length :: nat where "min_valid_host_length = 1"
definition unknown_value :: string where "unknown_value = ''unknown''"

lemmas host_limits = max_host_length_def max_label_length_def min_valid_host_length_def

declare host_limits [go_unfold] unknown_value_def [go_unfold]

definition is_valid_dns_char :: "char \<Rightarrow> bool" where
  "is_valid_dns_char r \<longleftrightarrow>
     is_lower_char r \<or> is_digit_char r \<or> r = CHR ''.'' \<or> r = CHR ''-''"

definition is_all_numeric :: "string \<Rightarrow> bool" where
  "is_all_numeric s \<longleftrightarrow> list_all is_digit_char s \<and> length s > 0"

definition is_valid_label :: "string \<Rightarrow> bool" where
  "is_valid_label label =
     (if length label < 1 \<or> length label > max_label_length then False
      else \<not> (label ! 0 = CHR ''-'' \<or> label ! (length label - 1) = CHR ''-''))"

definition is_valid_tld :: "string \<Rightarrow> bool" where
  "is_valid_tld tld = (if length tld < 2 then False else \<not> is_all_numeric tld)"

definition has_valid_length :: "string \<Rightarrow> bool" where
  "has_valid_length host \<longleftrightarrow>
     min_valid_host_length \<le> length host \<and> length host \<le> max_host_length"

definition has_valid_characters :: "string \<Rightarrow> bool" where
  "has_valid_characters host \<longleftrightarrow> list_all is_valid_dns_char host"

definition has_valid_structure :: "string \<Rightarrow> bool" where
  "has_valid_structure host =
     (if has_prefix host ''.'' \<or> has_prefix host ''-'' then False
      else if has_suffix host ''-'' then False
      else if str_contains host ''..'' then False
      else True)"

fun valid_labels_loop :: "string list \<Rightarrow> bool" where
  "valid_labels_loop [] = True"
| "valid_labels_loop (label # rest) =
     (if \<not> is_valid_label label then False
      else if rest = [] \<and> \<not> is_valid_tld label then False
      else valid_labels_loop rest)"

definition has_valid_labels :: "string \<Rightarrow> bool" where
  "has_valid_labels host =
     (let labels = split_on CHR ''.'' host
      in if length labels < 2 then False else valid_labels_loop labels)"

definition sanitize_host :: "string \<Rightarrow> string option" where
  "sanitize_host host =
     (if \<not> has_valid_length host then None
      else if \<not> has_valid_characters host then None
      else if \<not> has_valid_structure host then None
      else if \<not> has_valid_labels host then None
      else Some host)"

lemmas sanitize_defs = is_valid_dns_char_def is_all_numeric_def is_valid_label_def is_valid_tld_def
  has_valid_length_def has_valid_characters_def has_valid_structure_def has_valid_labels_def
  sanitize_host_def

declare sanitize_defs [go_unfold]

subsection \<open>The reason a host was refused\<close>

definition determine_structure_failure_reason :: "string \<Rightarrow> string" where
  "determine_structure_failure_reason host =
     (if has_prefix host ''.'' then ''starts_with_dot''
      else if has_prefix host ''-'' then ''starts_with_hyphen''
      else if has_suffix host ''-'' then ''ends_with_hyphen''
      else if str_contains host ''..'' then ''contains_double_dot''
      else unknown_value)"

definition check_label_validity :: "string \<Rightarrow> bool \<Rightarrow> string" where
  "check_label_validity label isTLD =
     (if \<not> is_valid_label label then
        (if length label < 1 then ''empty_label''
         else if length label > max_label_length then ''label_too_long''
         else if label ! 0 = CHR ''-'' then ''label_starts_with_hyphen''
         else if label ! (length label - 1) = CHR ''-'' then ''label_ends_with_hyphen''
         else ''invalid_label'')
      else if isTLD \<and> \<not> is_valid_tld label then
        (if length label < 2 then ''tld_too_short'' else ''tld_all_numeric'')
      else [])"

fun label_reason_loop :: "string list \<Rightarrow> string" where
  "label_reason_loop [] = unknown_value"
| "label_reason_loop (label # rest) =
     (let reason = check_label_validity label (rest = [])
      in if reason \<noteq> [] then reason else label_reason_loop rest)"

definition determine_label_failure_reason :: "string \<Rightarrow> string" where
  "determine_label_failure_reason host =
     (let labels = split_on CHR ''.'' host
      in if length labels < 2 then ''insufficient_labels'' else label_reason_loop labels)"

subsection \<open>DNS query names\<close>

definition is_valid_dns_qname_label :: "string \<Rightarrow> bool" where
  "is_valid_dns_qname_label label =
     (if length label < 1 \<or> length label > max_label_length then False
      else if label ! 0 = CHR ''-'' \<or> label ! (length label - 1) = CHR ''-'' then False
      else list_all (\<lambda>r. is_valid_dns_char r \<or> r = CHR ''_'') label)"

definition sanitize_dns_qname :: "env \<Rightarrow> string \<Rightarrow> string option" where
  "sanitize_dns_qname E qname =
     (if length qname < min_valid_host_length \<or> length qname > max_host_length then None
      else
        (let lowered = to_lower E qname
         in if list_all is_valid_dns_qname_label (split_on CHR ''.'' lowered)
            then Some lowered else None))"

declare is_valid_dns_qname_label_def [go_unfold] sanitize_dns_qname_def [go_unfold]

subsection \<open>The specification of an accepted host\<close>

definition dns_label :: "string \<Rightarrow> bool" where
  "dns_label l \<longleftrightarrow> l \<noteq> [] \<and> length l \<le> 63 \<and> hd l \<noteq> CHR ''-'' \<and> last l \<noteq> CHR ''-''"

definition host_wf :: "string \<Rightarrow> bool" where
  "host_wf h \<longleftrightarrow>
     length h \<le> 253 \<and> list_all is_valid_dns_char h \<and>
     (let ls = split_on CHR ''.'' h
      in 2 \<le> length ls \<and> (\<forall>l \<in> set ls. dns_label l) \<and>
         2 \<le> length (last ls) \<and> \<not> list_all is_digit_char (last ls))"

lemma is_valid_label_iff: "is_valid_label l \<longleftrightarrow> dns_label l"
  by (cases l) (auto simp: is_valid_label_def dns_label_def max_label_length_def hd_conv_nth last_conv_nth)

lemma valid_labels_loop_iff:
  "ls \<noteq> [] \<Longrightarrow> valid_labels_loop ls \<longleftrightarrow> (\<forall>l \<in> set ls. dns_label l) \<and> is_valid_tld (last ls)"
  by (induction ls) (auto simp: is_valid_label_iff)

lemma is_valid_tld_iff: "is_valid_tld t \<longleftrightarrow> 2 \<le> length t \<and> \<not> list_all is_digit_char t"
  by (auto simp: is_valid_tld_def is_all_numeric_def)

lemma has_valid_labels_iff:
  "has_valid_labels h \<longleftrightarrow>
     (let ls = split_on CHR ''.'' h
      in 2 \<le> length ls \<and> (\<forall>l \<in> set ls. dns_label l) \<and>
         2 \<le> length (last ls) \<and> \<not> list_all is_digit_char (last ls))"
  by (simp add: has_valid_labels_def Let_def valid_labels_loop_iff is_valid_tld_iff)

lemma labels_give_structure:
  assumes "\<forall>l \<in> set (split_on CHR ''.'' h). dns_label l"
  shows "has_valid_structure h"
proof -
  have ne: "[] \<notin> set (split_on CHR ''.'' h)" using assms by (auto simp: dns_label_def)
  have pre: "\<not> has_prefix h ''-''"
  proof
    assume "has_prefix h ''-''"
    then obtain t where "h = CHR ''-'' # t" by (auto simp: has_prefix_iff)
    moreover obtain w ws where "split_on CHR ''.'' t = w # ws" using split_on_ex by blast
    ultimately have "CHR ''-'' # w \<in> set (split_on CHR ''.'' h)" by simp
    with assms show False by (auto simp: dns_label_def)
  qed
  have suf: "last (split_on CHR ''.'' (t @ ''-'')) \<noteq> [] \<and>
      last (last (split_on CHR ''.'' (t @ ''-''))) = CHR ''-''" for t
  proof (induction t)
    case Nil
    then show ?case by simp
  next
    case (Cons x t)
    obtain w ws where "split_on CHR ''.'' (t @ ''-'') = w # ws" using split_on_ex by blast
    with Cons show ?case by (cases ws) auto
  qed
  have "\<not> has_suffix h ''-''"
  proof
    assume "has_suffix h ''-''"
    then obtain t where h: "h = t @ ''-''" by (auto simp: has_suffix_iff)
    have "last (split_on CHR ''.'' h) \<in> set (split_on CHR ''.'' h)" by (rule last_in_set) simp
    then have "dns_label (last (split_on CHR ''.'' h))" using assms by blast
    with suf [of t] h show False by (simp add: dns_label_def)
  qed
  with pre split_on_empty_label [OF ne] show ?thesis by (simp add: has_valid_structure_def)
qed

text \<open>The host check is sound and complete for its specification, and never repairs. A host
  comes back exactly when it is well formed, and then unchanged.\<close>

theorem sanitize_host_iff: "sanitize_host h = Some h' \<longleftrightarrow> h' = h \<and> host_wf h"
proof -
  have "host_wf h \<Longrightarrow> 1 \<le> length h"
    by (cases h) (auto simp: host_wf_def Let_def)
  moreover have "host_wf h \<Longrightarrow> has_valid_structure h"
    using labels_give_structure [of h] by (auto simp: host_wf_def Let_def)
  ultimately show ?thesis
    by (auto simp: sanitize_host_def has_valid_labels_iff has_valid_characters_def
        has_valid_length_def host_limits host_wf_def Let_def split: if_splits)
qed

lemma sanitize_host_wf: "sanitize_host h = Some h' \<Longrightarrow> h' = h \<and> host_wf h"
  unfolding sanitize_host_def
  using labels_give_structure [of h]
  by (auto simp: has_valid_labels_iff has_valid_characters_def
      has_valid_length_def host_limits host_wf_def Let_def split: if_splits)

lemma dns_char_ascii: "is_valid_dns_char c \<Longrightarrow> is_ascii c \<and> \<not> is_upper_char c"
  by (auto simp: is_valid_dns_char_def char_defs)

lemma host_wf_ascii:
  assumes "host_wf h"
  shows "ascii_string h \<and> map lower_char h = h"
proof -
  have c: "list_all is_valid_dns_char h" using assms by (simp add: host_wf_def)
  have "map lower_char h = h"
    using c by (intro map_idI) (auto simp: list_all_iff dest!: dns_char_ascii lower_char_id)
  with c show ?thesis by (auto simp: list_all_iff dns_char_ascii)
qed

lemma host_wf_nonempty: "host_wf h \<Longrightarrow> h \<noteq> []"
  by (auto simp: host_wf_def Let_def)

text \<open>The reasons in the trace log agree with the decision.\<close>

lemma check_label_validity_ok:
  "check_label_validity l t = [] \<longleftrightarrow> is_valid_label l \<and> (t \<longrightarrow> is_valid_tld l)"
  by (auto simp: check_label_validity_def)

lemma check_label_validity_known: "check_label_validity l t \<noteq> unknown_value"
  by (simp add: check_label_validity_def unknown_value_def)

lemma label_reason_loop_iff: "label_reason_loop ls = unknown_value \<longleftrightarrow> valid_labels_loop ls"
  by (induction ls) (auto simp: Let_def check_label_validity_ok check_label_validity_known)

lemma failure_reasons_exact:
  "determine_label_failure_reason h = unknown_value \<longleftrightarrow> has_valid_labels h"
  "determine_structure_failure_reason h = unknown_value \<longleftrightarrow> has_valid_structure h"
  by (auto simp: determine_label_failure_reason_def has_valid_labels_def Let_def
      label_reason_loop_iff [unfolded unknown_value_def] unknown_value_def determine_structure_failure_reason_def
      has_valid_structure_def)

subsection \<open>Query names\<close>

definition qname_char :: "char \<Rightarrow> bool" where
  "qname_char c \<longleftrightarrow> is_valid_dns_char c \<or> c = CHR ''_''"

definition qname_wf :: "string \<Rightarrow> bool" where
  "qname_wf q \<longleftrightarrow>
     (\<forall>l \<in> set (split_on CHR ''.'' q). dns_label l \<and> list_all qname_char l)"

lemma qname_label_iff: "is_valid_dns_qname_label l \<longleftrightarrow> dns_label l \<and> list_all qname_char l"
  by (cases l) (auto simp: is_valid_dns_qname_label_def dns_label_def max_label_length_def
      hd_conv_nth last_conv_nth qname_char_def [abs_def])

lemma sanitize_dns_qname_result:
  "sanitize_dns_qname E q = Some q' \<longleftrightarrow>
   q' = to_lower E q \<and> q \<noteq> [] \<and> length q \<le> 253 \<and> qname_wf q'"
  by (cases q) (auto simp: sanitize_dns_qname_def Let_def host_limits qname_wf_def list_all_iff
      qname_label_iff split: if_splits)

lemma qname_wf_chars:
  assumes "qname_wf q"
  shows "list_all qname_char q"
proof -
  have "list_all qname_char (join_with ''.'' ls)" if "\<forall>l \<in> set ls. list_all qname_char l" for ls
    using that
    by (induction "''.''" ls rule: join_with.induct) (auto simp: qname_char_def is_valid_dns_char_def)
  then show ?thesis using assms join_split [of "CHR ''.''" q] unfolding qname_wf_def by metis
qed

lemma qname_char_ascii: "qname_char c \<Longrightarrow> is_ascii c \<and> lower_char c = c"
  by (auto simp: qname_char_def is_valid_dns_char_def char_defs)

text \<open>A query name that passes is ASCII, in lower case and nothing but dot-separated labels
  of letters, digits, hyphens and underscores, and checking it again changes nothing.\<close>

theorem sanitize_dns_qname_idem:
  assumes "sanitize_dns_qname E q = Some q'"
  shows "qname_wf q' \<and> list_all qname_char q' \<and>
    (length q' \<le> 253 \<longrightarrow> sanitize_dns_qname E q' = Some q')"
proof -
  have wf: "qname_wf q'" using assms by (auto simp add: sanitize_dns_qname_result)
  have c: "list_all qname_char q'" using qname_wf_chars [OF wf] .
  have "ascii_string q'" using c by (auto simp: list_all_iff qname_char_ascii)
  moreover have "map lower_char q' = q'"
    using c by (intro map_idI) (simp add: list_all_iff qname_char_ascii)
  moreover have "q' \<noteq> []" using wf by (auto simp: qname_wf_def dns_label_def)
  ultimately show ?thesis
    using wf c by (cases q') (auto simp: sanitize_dns_qname_result to_lower_def)
qed

lemma sanitize_dns_qname_idem_witness:
  "sanitize_dns_qname ascii_env ''_dmarc.a.example'' = Some ''_dmarc.a.example''"
proof -
  have "sanitize_dns_qname ascii_env ''_DMARC.A.example'' = Some ''_dmarc.a.example''"
    by (simp add: go_unfold Let_def)
  from sanitize_dns_qname_idem [OF this] show ?thesis by simp
qed

end
