(* ===== verification/Matcher.thy ===== *)
theory Matcher
  imports Validate
begin

text \<open>
  The policy decision of \<^verbatim>\<open>internal/filter/common.go\<close>: normalisation of hosts and patterns,
  the host matcher, pattern matching with its cache of compiled expressions, and the decisions on
  top (learning, default allow, default deny, audit).

  A matcher's set of exact names is a list; only membership matters. The callback
  \<^verbatim>\<open>OnLearn\<close> is the list of the calls made to it.
\<close>

subsection \<open>Options\<close>

record proc_info =
  PID :: int
  Name :: string
  Cmdline :: string
  Executable :: string

record host_matcher =
  exact :: "string list"
  patterns :: "string list"

text \<open>A nil logger, callback or provider is \<open>False\<close> or \<open>None\<close>. The process provider is the
  function its lookup computes: source address, source port, protocol.\<close>

record options =
  ListenAddr :: string
  DialTimeout :: int
  IdleTimeout :: int
  DropWithRST :: bool
  HasLogger :: bool
  DefaultAllow :: bool
  Denylist :: "string list"
  LearningMode :: bool
  OnLearn :: bool
  OnResolved :: bool
  AuditMode :: bool
  ProcInfo :: "(string \<Rightarrow> int \<Rightarrow> string \<Rightarrow> proc_info option) option"
  DNSHardening :: bool
  DNSRateQPS :: int
  DNSRateBurst :: int
  denyMatcher :: "host_matcher option"

definition audited :: "bool \<Rightarrow> options \<Rightarrow> bool" where
  "audited permitted opts \<longleftrightarrow> \<not> permitted \<and> AuditMode opts"

subsection \<open>Normalisation\<close>

definition normalize_domain :: "env \<Rightarrow> string \<Rightarrow> string" where
  "normalize_domain E d =
     (let domain = trim_space d
      in if is_regex_pattern domain then domain
         else
           (let lowered = to_lower E (trim_suffix domain ''.'')
            in if lowered = ''*'' then lowered
               else (case idna_to_ascii E lowered of None \<Rightarrow> lowered | Some ascii \<Rightarrow> ascii)))"

definition normalize_patterns :: "env \<Rightarrow> string list \<Rightarrow> string list" where
  "normalize_patterns E ps = map (normalize_domain E) ps"

subsection \<open>Pattern matching\<close>

definition run_compiled :: "'e + (string \<Rightarrow> bool) \<Rightarrow> string \<Rightarrow> bool" where
  \<comment> \<open>\<^verbatim>\<open>re != nil && re.MatchString(host)\<close>, a failed compilation being nil\<close>
  "run_compiled c host = (case c of Inl _ \<Rightarrow> False | Inr m \<Rightarrow> m host)"

definition match_pattern :: "env \<Rightarrow> string \<Rightarrow> string \<Rightarrow> bool" where
  "match_pattern E host pattern =
     (if pattern = ''*'' then True
      else if is_regex_pattern pattern then run_compiled (compile_domain_pattern E pattern) host
      else if has_prefix pattern ''*.'' \<and> \<not> str_contains (drop 2 pattern) ''*'' then
        (let suffix = drop 1 pattern
         in has_suffix host suffix \<and> length host > length suffix)
      else if str_contains pattern ''*'' then
        run_compiled (compile_wildcard_pattern E pattern) host
      else host = pattern)"

declare audited_def [go_unfold] normalize_domain_def [go_unfold] run_compiled_def [go_unfold]
  match_pattern_def [go_unfold]

text \<open>The code keeps compiled expressions, failures included, in the global
  \<^verbatim>\<open>regexCache\<close>; None is a stored nil.\<close>

type_synonym regex_cache = "(string, (string \<Rightarrow> bool) option) gomap"

definition cached_compile ::
  "regex_cache \<Rightarrow> string \<Rightarrow> (string \<Rightarrow> policy_error + (string \<Rightarrow> bool)) \<Rightarrow>
   (string \<Rightarrow> bool) option \<times> regex_cache" where
  "cached_compile cache pattern compile =
     (case map_of cache pattern of
        Some re \<Rightarrow> (re, cache)
      | None \<Rightarrow>
          (let re = (case compile pattern of Inl _ \<Rightarrow> None | Inr m \<Rightarrow> Some m)
           in (re, AList.update pattern re cache)))"

definition match_pattern_cached ::
  "env \<Rightarrow> regex_cache \<Rightarrow> string \<Rightarrow> string \<Rightarrow> bool \<times> regex_cache" where
  "match_pattern_cached E cache host pattern =
     (if pattern = ''*'' then (True, cache)
      else if is_regex_pattern pattern then
        (let (re, cache') = cached_compile cache pattern (compile_domain_pattern E)
         in (case re of None \<Rightarrow> False | Some m \<Rightarrow> m host, cache'))
      else if has_prefix pattern ''*.'' \<and> \<not> str_contains (drop 2 pattern) ''*'' then
        (let suffix = drop 1 pattern
         in (has_suffix host suffix \<and> length host > length suffix, cache))
      else if str_contains pattern ''*'' then
        (let (re, cache') = cached_compile cache pattern (compile_wildcard_pattern E)
         in (case re of None \<Rightarrow> False | Some m \<Rightarrow> m host, cache'))
      else (host = pattern, cache))"

subsection \<open>The matcher\<close>

fun add_patterns :: "env \<Rightarrow> host_matcher \<Rightarrow> string list \<Rightarrow> host_matcher" where
  "add_patterns E m [] = m"
| "add_patterns E m (q # qs) =
     (let p = normalize_domain E q
      in if str_contains p ''*'' \<or> is_regex_pattern p
         then add_patterns E (m\<lparr>patterns := patterns m @ [p]\<rparr>) qs
         else add_patterns E (m\<lparr>exact := p # exact m\<rparr>) qs)"

definition new_matcher :: "env \<Rightarrow> string list \<Rightarrow> host_matcher" where
  "new_matcher E ps = add_patterns E \<lparr>exact = [], patterns = []\<rparr> ps"

definition allows :: "env \<Rightarrow> host_matcher \<Rightarrow> string \<Rightarrow> bool" where
  "allows E m host =
     (let h = normalize_domain E host
      in if h \<in> set (exact m) then True else list_ex (match_pattern E h) (patterns m))"

definition allowed_host :: "env \<Rightarrow> string \<Rightarrow> string list \<Rightarrow> bool" where
  "allowed_host E host allowlist = allows E (new_matcher E allowlist) host"

definition host_permitted_by :: "env \<Rightarrow> string \<Rightarrow> host_matcher \<Rightarrow> options \<Rightarrow> bool" where
  "host_permitted_by E host allow opts =
     (if LearningMode opts then True
      else if \<not> DefaultAllow opts then host \<noteq> [] \<and> allows E allow host
      else if host = [] \<or> allows E allow host then True
      else
        (let deny = (case denyMatcher opts of None \<Rightarrow> new_matcher E (Denylist opts) | Some m \<Rightarrow> m)
         in \<not> allows E deny host))"

definition host_permitted :: "env \<Rightarrow> string \<Rightarrow> string list \<Rightarrow> options \<Rightarrow> bool" where
  "host_permitted E host allowlist opts = host_permitted_by E host (new_matcher E allowlist) opts"

definition maybe_learn_host_by ::
  "env \<Rightarrow> string \<Rightarrow> host_matcher \<Rightarrow> options \<Rightarrow> (string \<times> string) list" where
  "maybe_learn_host_by E host allow opts =
     (if \<not> LearningMode opts \<or> \<not> OnLearn opts \<or> host = [] then []
      else if \<not> allows E allow host then [(''domain'', host)] else [])"

definition maybe_learn_host ::
  "env \<Rightarrow> string \<Rightarrow> string list \<Rightarrow> options \<Rightarrow> (string \<times> string) list" where
  "maybe_learn_host E host allowlist opts = maybe_learn_host_by E host (new_matcher E allowlist) opts"

definition maybe_learn_ip :: "string \<Rightarrow> options \<Rightarrow> (string \<times> string) list" where
  "maybe_learn_ip destIP opts =
     (if \<not> LearningMode opts \<or> \<not> OnLearn opts \<or> destIP = [] then [] else [(''ip'', destIP)])"

declare new_matcher_def [go_unfold] allows_def [go_unfold] host_permitted_by_def [go_unfold]

subsection \<open>The cache is invisible\<close>

definition cache_wf :: "env \<Rightarrow> regex_cache \<Rightarrow> bool" where
  \<comment> \<open>every entry is what compiling its key gives, the key deciding which compiler\<close>
  "cache_wf E cache \<longleftrightarrow>
     (\<forall>p re. map_of cache p = Some re \<longrightarrow>
        re = (case (if is_regex_pattern p then compile_domain_pattern E p
                    else compile_wildcard_pattern E p) of Inl _ \<Rightarrow> None | Inr m \<Rightarrow> Some m))"

lemma cached_compile_correct:
  assumes "cache_wf E cache"
    and "compile = (if is_regex_pattern p then compile_domain_pattern E else compile_wildcard_pattern E)"
  shows "\<exists>cache'. cached_compile cache p compile =
      (case compile p of Inl _ \<Rightarrow> None | Inr m \<Rightarrow> Some m, cache') \<and> cache_wf E cache'"
proof (cases "map_of cache p")
  case None
  then show ?thesis using assms
    by (auto simp: cached_compile_def cache_wf_def Let_def update_conv' split: if_splits)
next
  case (Some re)
  have "re = (case compile p of Inl _ \<Rightarrow> None | Inr m \<Rightarrow> Some m)"
    using assms(1) [unfolded cache_wf_def, rule_format, OF Some] assms(2) by (simp split: if_splits)
  with Some assms(1) show ?thesis by (simp add: cached_compile_def)
qed

text \<open>The cache of compiled patterns cannot be observed. Whatever patterns it has seen, a
  lookup gives the answer of a fresh compilation, and the cache keeps that property. In
  particular the two kinds of patterns that share the cache cannot be taken for each other.\<close>

theorem regex_cache_transparent:
  assumes "cache_wf E cache"
  shows "fst (match_pattern_cached E cache host pattern) = match_pattern E host pattern \<and>
    cache_wf E (snd (match_pattern_cached E cache host pattern))"
proof (cases "is_regex_pattern pattern")
  case True
  obtain cache' where c: "cached_compile cache pattern (compile_domain_pattern E) =
      (case compile_domain_pattern E pattern of Inl _ \<Rightarrow> None | Inr m \<Rightarrow> Some m, cache')"
    "cache_wf E cache'"
    using cached_compile_correct [OF assms refl, of pattern] True by auto
  with True assms show ?thesis
    by (auto simp: match_pattern_cached_def match_pattern_def run_compiled_def split: sum.splits)
next
  case False
  obtain cache' where c: "cached_compile cache pattern (compile_wildcard_pattern E) =
      (case compile_wildcard_pattern E pattern of Inl _ \<Rightarrow> None | Inr m \<Rightarrow> Some m, cache')"
    "cache_wf E cache'"
    using cached_compile_correct [OF assms refl, of pattern] False by auto
  with False assms show ?thesis
    by (auto simp: match_pattern_cached_def match_pattern_def run_compiled_def Let_def
        split: sum.splits)
qed

lemma regex_cache_transparent_witness:
  "fst (match_pattern_cached ascii_env [] ''a.b.c'' ''a.*.c'') = match_pattern ascii_env ''a.b.c'' ''a.*.c''"
proof -
  have "cache_wf ascii_env []" by (simp add: cache_wf_def)
  from regex_cache_transparent [OF this] show ?thesis by blast
qed

subsection \<open>The matcher against the list of patterns\<close>

definition matches_any :: "env \<Rightarrow> string \<Rightarrow> string list \<Rightarrow> bool" where
  "matches_any E host ps \<longleftrightarrow>
     list_ex (\<lambda>p. match_pattern E (normalize_domain E host) (normalize_domain E p)) ps"

lemma allows_add_patterns:
  "allows E (add_patterns E m qs) host \<longleftrightarrow> allows E m host \<or> matches_any E host qs"
proof (induction qs arbitrary: m)
  case Nil
  then show ?case by (simp add: matches_any_def)
next
  case (Cons q qs)
  let ?p = "normalize_domain E q"
  show ?case
  proof (cases "str_contains ?p ''*'' \<or> is_regex_pattern ?p")
    case True
    then show ?thesis
      using Cons.IH [of "m\<lparr>patterns := patterns m @ [?p]\<rparr>"]
      by (auto simp: Let_def matches_any_def allows_def)
  next
    case False
    then have "match_pattern E h ?p \<longleftrightarrow> h = ?p" for h
      by (auto simp: match_pattern_def has_prefix_iff str_contains_char)
    then show ?thesis
      using False Cons.IH [of "m\<lparr>exact := ?p # exact m\<rparr>"]
      by (auto simp: Let_def matches_any_def allows_def)
  qed
qed

lemma allows_new_matcher: "allows E (new_matcher E ps) host \<longleftrightarrow> matches_any E host ps"
  using allows_add_patterns [of E "\<lparr>exact = [], patterns = []\<rparr>" ps host]
  by (simp add: new_matcher_def) (simp add: allows_def)

text \<open>C6: the policy decision, as the documentation states it. The split into a set of exact
  names and a list of patterns is an optimisation: a matcher decides as if every entry were
  matched in turn. Learning permits everything; default deny permits a host only if it is not
  empty and an allowlist entry matches; default allow forbids exactly the hosts that a denylist
  entry matches and no allowlist entry does.\<close>

theorem host_permitted_policy:
  assumes "denyMatcher opts = None \<or> denyMatcher opts = Some (new_matcher E (Denylist opts))"
  shows "host_permitted E host allowlist opts \<longleftrightarrow>
    LearningMode opts \<or>
    (if DefaultAllow opts
     then \<not> (host \<noteq> [] \<and> matches_any E host (Denylist opts) \<and> \<not> matches_any E host allowlist)
     else host \<noteq> [] \<and> matches_any E host allowlist)"
  using assms
  by (auto simp: host_permitted_def host_permitted_by_def allows_new_matcher Let_def)

definition plain_options :: options where
  \<comment> \<open>a logger and callbacks, default deny\<close>
  "plain_options =
     \<lparr>ListenAddr = '':8443'', DialTimeout = 0, IdleTimeout = 0, DropWithRST = False,
      HasLogger = True, DefaultAllow = False, Denylist = [], LearningMode = False, OnLearn = True,
      OnResolved = True, AuditMode = False, ProcInfo = None, DNSHardening = True,
      DNSRateQPS = 0, DNSRateBurst = 0, denyMatcher = None\<rparr>"

declare plain_options_def [go_unfold]

lemma host_permitted_policy_witness:
  "host_permitted ascii_env ''a.example.org'' [''*.example.org''] plain_options \<and>
   \<not> host_permitted ascii_env ''example.org'' [''*.example.org''] plain_options"
proof -
  have t: "trim_space ''*.example.org'' = ''*.example.org''"
    "trim_space ''a.example.org'' = ''a.example.org''" "trim_space ''example.org'' = ''example.org''"
    by code_simp+
  show ?thesis
    using host_permitted_policy [of plain_options ascii_env]
    by (simp add: matches_any_def t go_unfold)
qed

subsection \<open>What a wildcard lets through\<close>

lemma star_not_regex:
  assumes "has_prefix p ''*.''"
  shows "\<not> is_regex_pattern p"
  using assms by (auto simp: is_regex_pattern_def has_prefix_iff)

text \<open>The fast path for a leading wildcard agrees with the general one. On a valid host, an
  entry \<^verbatim>\<open>*.d\<close> without further stars matches exactly what its glob matches: the names with
  something, at least one character, in front of \<^verbatim>\<open>.d\<close>. It never matches
  \<^verbatim>\<open>d\<close> itself, nor a name that only ends in the letters of \<^verbatim>\<open>d\<close>.\<close>

theorem leading_wildcard_glob:
  assumes "host_wf h" "CHR ''*'' \<notin> set d"
  shows "(match_pattern E h (''*.'' @ d) \<longleftrightarrow> (\<exists>g. g \<noteq> [] \<and> h = g @ ''.'' @ d)) \<and>
    (match_pattern E h (''*.'' @ d) \<longleftrightarrow> glob [[], ''.'' @ d] h)"
proof -
  have pre: "has_prefix (''*.'' @ d) ''*.''" by (simp add: has_prefix_iff)
  have nl: "CHR 0x0A \<notin> set h"
    using assms(1) by (auto simp: host_wf_def list_all_iff is_valid_dns_char_def char_defs)
  have low: "map lower_char h = h" using host_wf_ascii [OF assms(1)] by simp
  have m: "match_pattern E h (''*.'' @ d) \<longleftrightarrow> (\<exists>g. g \<noteq> [] \<and> h = g @ ''.'' @ d)"
    using star_not_regex [OF pre] assms(2)
    by (auto simp: match_pattern_def str_contains_char Let_def has_suffix_iff)
  moreover have "glob [[], ''.'' @ d] h \<longleftrightarrow> (\<exists>g. g \<noteq> [] \<and> h = g @ ''.'' @ d)"
  proof
    assume "glob [[], ''.'' @ d] h"
    then obtain g t where "h = g @ t" "g \<noteq> []" "map lower_char t = ''.'' @ d"
      by (auto elim!: glob_starE glob_lastE)
    moreover have "map lower_char t = t" using low \<open>h = g @ t\<close> by simp
    ultimately show "\<exists>g. g \<noteq> [] \<and> h = g @ ''.'' @ d" by auto
  next
    assume "\<exists>g. g \<noteq> [] \<and> h = g @ ''.'' @ d"
    then obtain g where g: "g \<noteq> []" "h = g @ ''.'' @ d" by blast
    have "map lower_char (''.'' @ d) = ''.'' @ d"
      using low g(2) by simp
    then have "glob [''.'' @ d] (''.'' @ d)" by (rule glob.last)
    from glob.star [OF _ g(1) _ this, of "[]" "[]"] show "glob [[], ''.'' @ d] h"
      using g(2) nl by simp
  qed
  ultimately show ?thesis by blast
qed

lemma leading_wildcard_glob_witness:
  "match_pattern ascii_env ''x.y.example.org'' ''*.example.org'' \<and>
   \<not> match_pattern ascii_env ''badexample.org'' ''*.example.org''"
proof -
  have h: "host_wf ''x.y.example.org''" "host_wf ''badexample.org''"
    by (simp_all add: host_wf_def Let_def dns_label_def go_unfold)
  show ?thesis
    using leading_wildcard_glob [OF h(1), of "''example.org''" ascii_env]
      leading_wildcard_glob [OF h(2), of "''example.org''" ascii_env]
    by (simp add: go_unfold)
qed

text \<open>The general path is its glob as well. On a valid host, an entry with a star inside
  that compiles matches exactly the hosts with its literal parts in order (in lower case) and a
  nonempty text in place of each star; an entry that does not compile matches nothing.\<close>

theorem inner_wildcard_glob:
  assumes "host_wf h" "CHR ''*'' \<in> set p" "p \<noteq> ''*''" "\<not> is_regex_pattern p"
    and "\<not> (has_prefix p ''*.'' \<and> CHR ''*'' \<notin> set (drop 2 p))"
  shows "match_pattern E h p \<longleftrightarrow>
    is_ok (compile_wildcard_pattern E p) \<and> glob (map (map lower_char) (split_on CHR ''*'' p)) h"
proof (cases "compile_wildcard_pattern E p")
  case (Inl e)
  then show ?thesis using assms
    by (auto simp: match_pattern_def str_contains_char run_compiled_def)
next
  case (Inr m)
  have "m = wild_match (map (map lower_char) (split_on CHR ''*'' p))"
    using compile_wildcard_ok [OF Inr] by blast
  moreover have "ascii_string h" using host_wf_ascii [OF assms(1)] by simp
  ultimately have "m h \<longleftrightarrow> glob (map (map lower_char) (split_on CHR ''*'' p)) h"
    by (simp add: wild_match_glob)
  then show ?thesis using assms Inr
    by (auto simp: match_pattern_def str_contains_char run_compiled_def)
qed

lemma inner_wildcard_glob_witness:
  "match_pattern ascii_env ''s.x.y.example.org'' ''s.*.example.org'' \<longleftrightarrow>
     glob [''s.'', ''.example.org''] ''s.x.y.example.org''"
proof -
  have h: "host_wf ''s.x.y.example.org''"
    by (simp add: host_wf_def Let_def dns_label_def go_unfold)
  have c: "is_ok (compile_wildcard_pattern ascii_env ''s.*.example.org'')"
    by (simp add: compile_wildcard_pattern_def Let_def go_unfold)
  show ?thesis
    using inner_wildcard_glob [OF h, of "''s.*.example.org''" ascii_env] c
    by (simp add: go_unfold)
qed

text \<open>A wildcard for an internationalised domain is accepted and useless. IDNA conversion
  rejects the star, so the entry keeps its Unicode letters, and no valid host (hosts on the wire
  are ASCII) ever matches it, although \<^verbatim>\<open>validateDomain\<close> accepts the entry.\<close>

theorem idn_wildcard_dead:
  assumes "idna_to_ascii E (to_lower E (trim_suffix (trim_space p) ''.'')) = None"
    and "\<not> is_regex_pattern (trim_space p)" "\<not> is_regex_pattern (normalize_domain E p)"
    and "\<not> ascii_string (to_lower E (trim_suffix (trim_space p) ''.''))"
    and "host_wf h"
  shows "\<not> match_pattern E h (normalize_domain E p)"
proof -
  let ?n = "to_lower E (trim_suffix (trim_space p) ''.'')"
  have "is_ascii CHR ''*''" by (simp add: is_ascii_def)
  then have n: "normalize_domain E p = ?n" and star: "?n \<noteq> ''*''"
    using assms(1,2,4) by (auto simp: normalize_domain_def Let_def)
  have h: "ascii_string h" using host_wf_ascii [OF assms(5)] by simp
  have "\<not> has_suffix h (drop 1 ?n)" if wild: "has_prefix ?n ''*.''"
  proof
    assume "has_suffix h (drop 1 ?n)"
    then have "ascii_string (drop 1 ?n)" using h by (auto simp: has_suffix_iff)
    moreover obtain r where "?n = ''*.'' @ r" using wild by (auto simp: has_prefix_iff)
    ultimately show False using assms(4) by (auto simp: is_ascii_def)
  qed
  moreover have "run_compiled (compile_wildcard_pattern E ?n) h \<longrightarrow> ascii_string ?n"
    by (cases "compile_wildcard_pattern E ?n")
       (auto simp: run_compiled_def dest: compile_wildcard_ok)
  moreover have "h \<noteq> ?n" using h assms(4) by auto
  ultimately show ?thesis
    using assms(3,4) star by (auto simp: n match_pattern_def Let_def)
qed

definition idn_env :: env where
  \<comment> \<open>\<open>ascii_env\<close> with one internationalised name\<close>
  "idn_env =
     ascii_env\<lparr>idna_to_ascii := (\<lambda>s.
       if s = ''b'' @ [CHR 0xC3, CHR 0xBC] @ ''cher.example'' then Some ''xn--bcher-kva.example''
       else idna_to_ascii ascii_env s)\<rparr>"

lemma idn_wildcard_dead_witness:
  "validate_domain idn_env (''*.b'' @ [CHR 0xC3, CHR 0xBC] @ ''cher.example'') = Inr () \<and>
   \<not> match_pattern idn_env ''www.xn--bcher-kva.example''
       (normalize_domain idn_env (''*.b'' @ [CHR 0xC3, CHR 0xBC] @ ''cher.example''))"
proof -
  let ?p = "''*.b'' @ [CHR 0xC3, CHR 0xBC] @ ''cher.example''"
  have t: "trim_space ?p = ?p" by code_simp
  have n: "normalize_domain idn_env ?p = ?p"
    using t by (simp add: idn_env_def go_unfold)
  have h: "host_wf ''www.xn--bcher-kva.example''"
    by (simp add: host_wf_def Let_def dns_label_def go_unfold)
  have "validate_domain idn_env ?p = Inr ()"
    using t by (simp add: idn_env_def go_unfold Let_def parse_ip_def parse_addr_def)
  moreover have "\<not> match_pattern idn_env ''www.xn--bcher-kva.example'' (normalize_domain idn_env ?p)"
    by (rule idn_wildcard_dead [OF _ _ _ _ h])
       (use t n in \<open>simp_all add: idn_env_def go_unfold\<close>)
  ultimately show ?thesis by simp
qed

end
