(* ===== verification/App.thy ===== *)
theory App
  imports Nftables Learner Matcher
begin

text \<open>
  \<^verbatim>\<open>internal/g0efilter/app.go\<close>: the configuration from the environment, how a policy becomes a
  ruleset in the kernel and options of the proxies, and how a change of the policy file is taken over
  while they run. \<open>app_step\<close> interleaves the goroutine that polls the file with the supervisor
  that restarts the services. The environment, the file system, \<^verbatim>\<open>nft\<close>, SHA-256 and
  \<^verbatim>\<open>time.ParseDuration\<close> are arguments; log output is left out.
\<close>

subsection \<open>Configuration\<close>

record app_config =
  ac_policy_path :: string
  ac_http_port :: string
  ac_https_port :: string
  ac_dns_port :: string
  ac_log_level :: string
  ac_log_file :: string
  ac_hostname :: string
  ac_mode :: string
  ac_default_action :: string
  ac_learning_mode :: bool
  ac_learner :: bool \<comment> \<open>the pointer is not nil\<close>
  ac_audit_mode :: bool
  ac_dns_hardening :: bool
  ac_dns_rate_qps :: int
  ac_dns_rate_burst :: int
  ac_proc_info :: bool \<comment> \<open>the pointer is not nil\<close>
  ac_enable_remote_unblock :: bool
  ac_dashboard_host :: string
  ac_dashboard_api_key :: string
  ac_unblock_poll_interval :: nanos
  ac_notification_host :: string
  ac_notification_key :: string

definition getenv_default :: "(string \<Rightarrow> string) \<Rightarrow> string \<Rightarrow> string \<Rightarrow> string" where
  "getenv_default getenv key def = (let v = trim_space (getenv key) in if v = [] then def else v)"

definition parse_int_default :: "string \<Rightarrow> int \<Rightarrow> int" where
  "parse_int_default s def = (case atoi (trim_space s) of None \<Rightarrow> def | Some n \<Rightarrow> n)"

definition parse_duration_default :: "(string \<Rightarrow> nanos option) \<Rightarrow> string \<Rightarrow> nanos \<Rightarrow> nanos" where
  "parse_duration_default parse_duration s def = (case parse_duration s of None \<Rightarrow> def | Some d \<Rightarrow> d)"

definition load_app_config ::
  "env \<Rightarrow> (string \<Rightarrow> string) \<Rightarrow> (string \<Rightarrow> nanos option) \<Rightarrow> app_config" where
  "load_app_config E getenv parse_duration =
     (let get = getenv_default getenv
      in \<lparr>ac_policy_path = get ''POLICY_PATH'' ''/app/policy.yaml'',
          ac_http_port = get ''HTTP_PORT'' ''8080'',
          ac_https_port = get ''HTTPS_PORT'' ''8443'',
          ac_dns_port = get ''DNS_PORT'' ''53'',
          ac_log_level = get ''LOG_LEVEL'' ''INFO'',
          ac_log_file = get ''LOG_FILE'' [],
          ac_hostname = get ''HOSTNAME'' [],
          ac_mode = to_lower E (get ''FILTER_MODE'' ''https''),
          ac_default_action = to_lower E (get ''DEFAULT_ACTION'' default_action_deny),
          ac_learning_mode = equal_fold E (get ''LEARNING_MODE'' ''false'') ''true'',
          ac_learner = False,
          ac_audit_mode = equal_fold E (get ''ENFORCE'' ''block'') ''audit'',
          ac_dns_hardening = equal_fold E (get ''DNS_HARDENING'' ''true'') ''true'',
          ac_dns_rate_qps = parse_int_default (get ''DNS_RATE_QPS'' []) 0,
          ac_dns_rate_burst = parse_int_default (get ''DNS_RATE_BURST'' []) 0,
          ac_proc_info = False,
          ac_enable_remote_unblock = equal_fold E (get ''ENABLE_REMOTE_UNBLOCK'' ''false'') ''true'',
          ac_dashboard_host = trim_space (get ''DASHBOARD_HOST'' []),
          ac_dashboard_api_key = trim_space (get ''DASHBOARD_API_KEY'' []),
          ac_unblock_poll_interval =
            parse_duration_default parse_duration (get ''UNBLOCK_POLL_INTERVAL'' ''10s'') (10 * second),
          ac_notification_host = trim_space (get ''NOTIFICATION_HOST'' []),
          ac_notification_key = trim_space (get ''NOTIFICATION_KEY'' [])\<rparr>)"

definition normalize_mode :: "app_config \<Rightarrow> app_config" where
  "normalize_mode cfg0 =
     (let cfg = (if ac_default_action cfg0 = default_action_deny \<or> ac_default_action cfg0 = default_action_allow
                 then cfg0 else cfg0\<lparr>ac_default_action := default_action_deny\<rparr>)
      in if ac_mode cfg = mode_https \<or> ac_mode cfg = mode_dns \<or> ac_mode cfg = mode_dns_strict then cfg
         else cfg\<lparr>ac_mode := mode_https\<rparr>)"

definition file_exists :: "fs \<Rightarrow> string \<Rightarrow> bool" where
  "file_exists fs path = (case fs (path_clean path) of None \<Rightarrow> False | Some n \<Rightarrow> regular n)"

definition resolve_policy_path :: "(string \<Rightarrow> string) \<Rightarrow> fs \<Rightarrow> string \<Rightarrow> app_config \<Rightarrow> app_config" where
  "resolve_policy_path getenv fs fallbackPath cfg =
     (if trim_space (getenv ''POLICY_PATH'') \<noteq> [] then cfg
      else if file_exists fs (ac_policy_path cfg) \<and> file_exists fs fallbackPath then cfg
      else if file_exists fs fallbackPath then cfg\<lparr>ac_policy_path := fallbackPath\<rparr>
      else cfg)"

definition is_dns_mode :: "string \<Rightarrow> bool" where
  "is_dns_mode m \<longleftrightarrow> m = mode_dns \<or> m = mode_dns_strict"

datatype app_error =
    AppPolicy policy_error
  | AppNft nft_error
  | PortConflict string
  | PolicyPathEmpty
  | HashFailed
  | UnknownUnblockType string
  | UnexpectedHTTPStatus nat
  | AckFailed nat
  | HTTPFailed

definition validate_ports :: "app_config \<Rightarrow> app_error + unit" where
  "validate_ports cfg =
     (if ac_mode cfg = mode_https \<and> ac_http_port cfg = ac_https_port cfg
      then Inl (PortConflict (ac_http_port cfg)) else Inr ())"

definition setup_learning :: "app_config \<Rightarrow> app_config" where
  "setup_learning cfg = (if \<not> ac_learning_mode cfg then cfg else cfg\<lparr>ac_learner := True\<rparr>)"

definition setup_proc_info :: "env \<Rightarrow> (string \<Rightarrow> string) \<Rightarrow> app_config \<Rightarrow> app_config" where
  "setup_proc_info E getenv cfg =
     (if \<not> equal_fold E (getenv_default getenv ''PROCESS_INFO'' ''false'') ''true'' then cfg
      else cfg\<lparr>ac_proc_info := True\<rparr>)"

subsection \<open>From a policy to the kernel\<close>

definition effective_default_allow :: "app_config \<Rightarrow> policy option \<Rightarrow> bool" where
  "effective_default_allow cfg pol =
     (let action = (case pol of
                      Some p \<Rightarrow> if DefaultAction p \<noteq> [] then DefaultAction p else ac_default_action cfg
                    | None \<Rightarrow> ac_default_action cfg)
      in action = default_action_allow)"

definition app_policy_rules :: "app_config \<Rightarrow> policy \<Rightarrow> policy_rules" where
  \<comment> \<open>the rules \<^verbatim>\<open>loadAndApplyPolicy\<close> asks for\<close>
  "app_policy_rules cfg pol =
     (let rules = \<lparr>RuleAllowIPs = AllowIPs pol, RuleDenyIPs = DenyIPs pol,
                   RuleDefaultAllow = effective_default_allow cfg (Some pol), RuleAudit = ac_audit_mode cfg\<rparr>
      in if ac_learning_mode cfg then rules\<lparr>RuleDefaultAllow := True, RuleDenyIPs := []\<rparr> else rules)"

definition load_and_apply_policy ::
  "env \<Rightarrow> yaml \<Rightarrow> (string \<Rightarrow> string) \<Rightarrow> nft_prog \<Rightarrow> fs \<Rightarrow> app_config \<Rightarrow>
   nft_run list \<times> (app_error + policy)" where
  \<comment> \<open>the runs of \<^verbatim>\<open>nft\<close> and the result\<close>
  "load_and_apply_policy E Y getenv nft fs cfg =
     (case read E Y getenv fs (ac_policy_path cfg) of
        Inl e \<Rightarrow> ([], Inl (AppPolicy e))
      | Inr pol \<Rightarrow>
          (case apply_policy_rules_with_context E getenv nft (app_policy_rules cfg pol)
                  (ac_https_port cfg) (ac_http_port cfg) (ac_dns_port cfg) of
             (runs, Some e) \<Rightarrow> (runs, Inl (AppNft e))
           | (runs, None) \<Rightarrow> (runs, Inr pol)))"

subsection \<open>From a policy to the proxies\<close>

datatype service =
    Service53 "string list" options
  | Service443 "string list" options
  | Service80 "string list" options

definition strict_resolved_hook :: "options \<Rightarrow> bool" where
  \<comment> \<open>the callback is not nil\<close>
  "strict_resolved_hook opts = (\<not> (options.DefaultAllow opts \<or> LearningMode opts))"

definition service_options ::
  "(string \<Rightarrow> int \<Rightarrow> string \<Rightarrow> proc_info option) \<Rightarrow> app_config \<Rightarrow> policy \<Rightarrow> options" where
  "service_options lookup cfg pol =
     (let opts =
            \<lparr>ListenAddr = [], DialTimeout = 5000, IdleTimeout = 600000, DropWithRST = True, HasLogger = True,
             DefaultAllow = effective_default_allow cfg (Some pol), Denylist = DenyDomains pol,
             LearningMode = ac_learning_mode cfg, OnLearn = ac_learner cfg, OnResolved = False,
             AuditMode = ac_audit_mode cfg, ProcInfo = (if ac_proc_info cfg then Some lookup else None),
             DNSHardening = ac_dns_hardening cfg, DNSRateQPS = ac_dns_rate_qps cfg,
             DNSRateBurst = ac_dns_rate_burst cfg, denyMatcher = None\<rparr>
      in if ac_mode cfg = mode_dns_strict then opts\<lparr>OnResolved := strict_resolved_hook opts\<rparr> else opts)"

definition start_dns_service :: "string \<Rightarrow> string list \<Rightarrow> options \<Rightarrow> service list" where
  "start_dns_service dnsPort domains opts = [Service53 domains (opts\<lparr>ListenAddr := '':'' @ dnsPort\<rparr>)]"

definition start_https_services :: "app_config \<Rightarrow> string list \<Rightarrow> options \<Rightarrow> service list" where
  "start_https_services cfg domains opts =
     [Service443 domains (opts\<lparr>ListenAddr := '':'' @ ac_https_port cfg\<rparr>),
      Service80 domains (opts\<lparr>ListenAddr := '':'' @ ac_http_port cfg\<rparr>)]"

definition start_services ::
  "(string \<Rightarrow> int \<Rightarrow> string \<Rightarrow> proc_info option) \<Rightarrow> app_config \<Rightarrow> policy \<Rightarrow> service list" where
  "start_services lookup cfg pol =
     (let opts = service_options lookup cfg pol
      in if is_dns_mode (ac_mode cfg) then start_dns_service (ac_dns_port cfg) (AllowDomains pol) opts
         else start_https_services cfg (AllowDomains pol) opts)"

subsection \<open>Watching the policy file\<close>

definition file_sha256_hex :: "(string \<Rightarrow> string) \<Rightarrow> fs \<Rightarrow> string \<Rightarrow> app_error + string" where
  "file_sha256_hex sha256 fs path =
     (let cleanPath = path_clean (trim_space path)
      in if cleanPath = [] then Inl PolicyPathEmpty
         else (case fs cleanPath of
                 None \<Rightarrow> Inl HashFailed
               | Some n \<Rightarrow> if regular n \<and> readable n then Inr (sha256 (data n)) else Inl HashFailed))"

definition send_latest :: "bool \<Rightarrow> 'a option \<Rightarrow> 'a \<Rightarrow> 'a option" where
  \<comment> \<open>a channel with one slot; the flag says that the context is done\<close>
  "send_latest ctxDone buf upd =
     (if ctxDone then buf
      else (case buf of
              None \<Rightarrow> Some upd
            | Some stale \<Rightarrow> (let buf = None in case buf of None \<Rightarrow> Some upd | Some x \<Rightarrow> Some x)))"

definition check_policy_tick ::
  "env \<Rightarrow> yaml \<Rightarrow> (string \<Rightarrow> string) \<Rightarrow> (string \<Rightarrow> string) \<Rightarrow> nft_prog \<Rightarrow> fs \<Rightarrow> fs \<Rightarrow> app_config \<Rightarrow>
   bool \<Rightarrow> string \<Rightarrow> (string \<times> policy) option \<Rightarrow> nft_run list \<times> string \<times> (string \<times> policy) option" where
  \<comment> \<open>the file is read twice, for the hash and for the policy, and may change in between\<close>
  "check_policy_tick E Y getenv sha256 nft fs1 fs2 cfg ctxDone lastHash reloadCh =
     (case file_sha256_hex sha256 fs1 (ac_policy_path cfg) of
        Inl _ \<Rightarrow> ([], lastHash, reloadCh)
      | Inr newHash \<Rightarrow>
          if lastHash = [] then ([], newHash, reloadCh)
          else if newHash = lastHash then ([], lastHash, reloadCh)
          else (case load_and_apply_policy E Y getenv nft fs2 cfg of
                  (runs, Inl _) \<Rightarrow> (runs, lastHash, reloadCh)
                | (runs, Inr pol) \<Rightarrow> (runs, newHash, send_latest ctxDone reloadCh (newHash, pol))))"

subsection \<open>The running program\<close>

record app_state =
  as_kernel :: "string option" \<comment> \<open>the last text \<^verbatim>\<open>nft\<close> loaded\<close>
  as_services :: "service list"
  as_reload :: "(string \<times> policy) option"
  as_hash :: string

definition kernel_run :: "nft_prog \<Rightarrow> string option \<Rightarrow> nft_run \<Rightarrow> string option" where
  "kernel_run nft k run = (if fst run = [''-f'', ''-''] \<and> nft run = None then Some (snd run) else k)"

definition app_start ::
  "env \<Rightarrow> yaml \<Rightarrow> (string \<Rightarrow> string) \<Rightarrow> (string \<Rightarrow> string) \<Rightarrow> nft_prog \<Rightarrow> fs \<Rightarrow> fs \<Rightarrow>
   (string \<Rightarrow> int \<Rightarrow> string \<Rightarrow> proc_info option) \<Rightarrow> app_config \<Rightarrow> app_error + app_state" where
  \<comment> \<open>\<^verbatim>\<open>loadInitialPolicy\<close> and the first service group; the file may change before the hash is taken\<close>
  "app_start E Y getenv sha256 nft fs1 fs2 lookup cfg =
     (case load_and_apply_policy E Y getenv nft fs1 cfg of
        (runs, Inl e) \<Rightarrow> Inl e
      | (runs, Inr pol) \<Rightarrow>
          Inr \<lparr>as_kernel = foldl (kernel_run nft) None runs, as_services = start_services lookup cfg pol,
               as_reload = None,
               as_hash = (case file_sha256_hex sha256 fs2 (ac_policy_path cfg) of Inl _ \<Rightarrow> [] | Inr h \<Rightarrow> h)\<rparr>)"

definition tick ::
  "env \<Rightarrow> yaml \<Rightarrow> (string \<Rightarrow> string) \<Rightarrow> (string \<Rightarrow> string) \<Rightarrow> nft_prog \<Rightarrow> fs \<Rightarrow> fs \<Rightarrow> app_config \<Rightarrow>
   app_state \<Rightarrow> app_state" where
  \<comment> \<open>one turn of \<^verbatim>\<open>pollPolicyChanges\<close>\<close>
  "tick E Y getenv sha256 nft fs1 fs2 cfg s =
     (let (runs, h, ch) = check_policy_tick E Y getenv sha256 nft fs1 fs2 cfg False (as_hash s) (as_reload s)
      in s\<lparr>as_kernel := foldl (kernel_run nft) (as_kernel s) runs, as_hash := h, as_reload := ch\<rparr>)"

definition reload ::
  "(string \<Rightarrow> int \<Rightarrow> string \<Rightarrow> proc_info option) \<Rightarrow> app_config \<Rightarrow> app_state \<Rightarrow> app_state" where
  \<comment> \<open>one turn of \<^verbatim>\<open>supervise\<close>: a receive from the channel, \<^verbatim>\<open>restartServices\<close>\<close>
  "reload lookup cfg s =
     (case as_reload s of
        None \<Rightarrow> s
      | Some (h, pol) \<Rightarrow> s\<lparr>as_reload := None, as_services := start_services lookup cfg pol\<rparr>)"

inductive app_run ::
  "env \<Rightarrow> yaml \<Rightarrow> (string \<Rightarrow> string) \<Rightarrow> (string \<Rightarrow> string) \<Rightarrow>
   (string \<Rightarrow> int \<Rightarrow> string \<Rightarrow> proc_info option) \<Rightarrow> app_config \<Rightarrow> app_state \<Rightarrow> bool"
  for E Y getenv sha256 lookup cfg where
  run_start: "app_start E Y getenv sha256 nft fs1 fs2 lookup cfg = Inr s \<Longrightarrow> app_run E Y getenv sha256 lookup cfg s"
| run_tick: "app_run E Y getenv sha256 lookup cfg s \<Longrightarrow>
    app_run E Y getenv sha256 lookup cfg (tick E Y getenv sha256 nft fs1 fs2 cfg s)"
| run_reload: "app_run E Y getenv sha256 lookup cfg s \<Longrightarrow>
    app_run E Y getenv sha256 lookup cfg (reload lookup cfg s)"

subsection \<open>Kernel and proxies agree on the mode\<close>

lemma normalize_mode_of:
  "ac_mode (normalize_mode cfg) =
     (if ac_mode cfg = mode_dns \<or> ac_mode cfg = mode_dns_strict then ac_mode cfg else mode_https)"
  by (auto simp: normalize_mode_def Let_def)

lemma setup_fields [simp]:
  "ac_mode (setup_proc_info E getenv cfg) = ac_mode cfg" "ac_mode (setup_learning cfg) = ac_mode cfg"
  "ac_mode (resolve_policy_path getenv fs fb cfg) = ac_mode cfg"
  by (simp_all add: setup_proc_info_def setup_learning_def resolve_policy_path_def)

lemma mode_lower [simp]: "to_lower E mode_https = mode_https" "to_lower E [] = []"
  by (simp_all add: to_lower_def mode_https_def) code_simp+

definition resolved_config ::
  "env \<Rightarrow> (string \<Rightarrow> string) \<Rightarrow> (string \<Rightarrow> nanos option) \<Rightarrow> fs \<Rightarrow> app_config" where
  "resolved_config E getenv parse_duration fs =
     resolve_policy_path getenv fs ''/app/policy/policy.yaml'' (normalize_mode (load_app_config E getenv parse_duration))"

definition run_config ::
  "env \<Rightarrow> (string \<Rightarrow> string) \<Rightarrow> (string \<Rightarrow> nanos option) \<Rightarrow> fs \<Rightarrow> app_error + app_config" where
  \<comment> \<open>what \<^verbatim>\<open>Run\<close> makes of the environment before it loads the policy\<close>
  "run_config E getenv parse_duration fs =
     (let cfg = resolved_config E getenv parse_duration fs
      in bind_res (validate_ports cfg) (\<lambda>_. Inr (setup_proc_info E getenv (setup_learning cfg))))"

definition env_mode :: "env \<Rightarrow> (string \<Rightarrow> string) \<Rightarrow> string" where
  "env_mode E getenv = (let m = to_lower E (trim_space (getenv ''FILTER_MODE'')) in if m = [] then mode_https else m)"

lemma run_config_mode:
  assumes "run_config E getenv pd fs = Inr cfg"
  shows "ac_mode cfg =
    (if env_mode E getenv = mode_dns \<or> env_mode E getenv = mode_dns_strict then env_mode E getenv else mode_https)"
proof -
  have "ac_mode cfg = ac_mode (resolved_config E getenv pd fs)"
    using assms by (auto simp: run_config_def Let_def bind_res_Inr)
  then show ?thesis
    by (auto simp: resolved_config_def normalize_mode_of load_app_config_def getenv_default_def env_mode_def Let_def
        mode_defs [symmetric]) (simp_all add: mode_defs)
qed

lemma policy_ruleset_config:
  assumes "policy_ruleset E getenv rules https http dns = Inr rtext"
  obtains rs where "rtext = atomic_replace_preamble @
      (let r = generate_ruleset E rs in if has_suffix r [newline] then r else r @ [newline])"
    "Mode rs = env_mode E getenv" "ruleset_config.DefaultAllow rs = RuleDefaultAllow rules" "Audit rs = RuleAudit rules"
    "parse_port https ''HTTPS'' = Inr (HTTPSPort rs)" "parse_port http ''HTTP'' = Inr (HTTPPort rs)"
    "parse_port dns ''DNS'' = Inr (DNSPort rs)"
  using assms
  by (simp add: policy_ruleset_def env_mode_def Let_def bind_res_Inr case_prod_unfold) fastforce

lemma ruleset_mode_env:
  assumes "to_lower E (to_lower E m) = to_lower E m" "m = trim_space (getenv ''FILTER_MODE'')" "Mode rs = env_mode E getenv"
  shows "ruleset_mode E rs =
    (if env_mode E getenv = mode_dns \<or> env_mode E getenv = mode_dns_strict then env_mode E getenv else mode_https)"
proof -
  have "to_lower E (env_mode E getenv) = env_mode E getenv"
    using assms(1) by (simp add: env_mode_def Let_def assms(2))
  then show ?thesis by (simp add: ruleset_mode_def assms(3) Let_def)
qed

definition serves :: "string \<Rightarrow> ruleset_config \<Rightarrow> app_config \<Rightarrow> service \<Rightarrow> bool" where
  \<comment> \<open>the proxy fits the ruleset: it is one the ruleset redirects to, at that port, with that stance\<close>
  "serves m rs cfg svc =
     (let fits = (\<lambda>o1. (options.DefaultAllow o1 \<or> LearningMode o1) = ruleset_config.DefaultAllow rs \<and>
                       AuditMode o1 = Audit rs \<and>
                       OnResolved o1 = (m = mode_dns_strict \<and> \<not> ruleset_config.DefaultAllow rs))
      in case svc of
           Service53 ds o1 \<Rightarrow> is_dns_mode m \<and> fits o1 \<and>
             (\<exists>p. ListenAddr o1 = '':'' @ p \<and> parse_port p ''DNS'' = Inr (DNSPort rs))
         | Service443 ds o1 \<Rightarrow> \<not> is_dns_mode m \<and> fits o1 \<and>
             (\<exists>p. ListenAddr o1 = '':'' @ p \<and> parse_port p ''HTTPS'' = Inr (HTTPSPort rs))
         | Service80 ds o1 \<Rightarrow> \<not> is_dns_mode m \<and> fits o1 \<and>
             (\<exists>p. ListenAddr o1 = '':'' @ p \<and> parse_port p ''HTTP'' = Inr (HTTPPort rs)))"

lemma service_options_fit:
  "(options.DefaultAllow (service_options lookup cfg pol) \<or> LearningMode (service_options lookup cfg pol)) =
     RuleDefaultAllow (app_policy_rules cfg pol)"
  "AuditMode (service_options lookup cfg pol) = RuleAudit (app_policy_rules cfg pol)"
  "OnResolved (service_options lookup cfg pol) =
     (ac_mode cfg = mode_dns_strict \<and> \<not> RuleDefaultAllow (app_policy_rules cfg pol))"
  by (simp_all add: service_options_def app_policy_rules_def Let_def strict_resolved_hook_def)

text \<open>Kernel and proxies agree. Whatever the environment says, the ruleset that is loaded for a
  policy is of the mode for which the proxies are started: the proxies it redirects to are the ones
  that run, each listens at the port of the redirect, has the same stance (default allow or learning
  exactly when the ruleset is permissive, audit exactly when it is a dry run), and the callback that
  opens the dns-strict sets is installed exactly when the ruleset has them.\<close>

theorem modes_agree:
  assumes "to_lower E (to_lower E m) = to_lower E m" "m = trim_space (getenv ''FILTER_MODE'')"
    and "run_config E getenv parse_duration fs = Inr cfg"
    and "policy_ruleset E getenv (app_policy_rules cfg pol) (ac_https_port cfg) (ac_http_port cfg) (ac_dns_port cfg)
      = Inr rtext"
  shows "\<exists>rs. rtext = atomic_replace_preamble @
      (let r = generate_ruleset E rs in if has_suffix r [newline] then r else r @ [newline]) \<and>
    ruleset_mode E rs = ac_mode cfg \<and>
    list_all (serves (ruleset_mode E rs) rs cfg) (start_services lookup cfg pol) \<and>
    start_services lookup cfg pol \<noteq> []"
proof -
  obtain rs where rs: "rtext = atomic_replace_preamble @
      (let r = generate_ruleset E rs in if has_suffix r [newline] then r else r @ [newline])"
    "Mode rs = env_mode E getenv"
    "ruleset_config.DefaultAllow rs = RuleDefaultAllow (app_policy_rules cfg pol)"
    "Audit rs = RuleAudit (app_policy_rules cfg pol)"
    "parse_port (ac_https_port cfg) ''HTTPS'' = Inr (HTTPSPort rs)"
    "parse_port (ac_http_port cfg) ''HTTP'' = Inr (HTTPPort rs)"
    "parse_port (ac_dns_port cfg) ''DNS'' = Inr (DNSPort rs)"
    using policy_ruleset_config [OF assms(4)] .
  have m: "ruleset_mode E rs = ac_mode cfg"
    using ruleset_mode_env [OF assms(1,2) rs(2)] run_config_mode [OF assms(3)] by simp
  have "list_all (serves (ruleset_mode E rs) rs cfg) (start_services lookup cfg pol)"
    using rs(3-7) service_options_fit [of lookup cfg pol]
    by (simp add: m start_services_def start_dns_service_def start_https_services_def serves_def Let_def)
  moreover have "start_services lookup cfg pol \<noteq> []"
    by (simp add: start_services_def start_dns_service_def start_https_services_def Let_def)
  ultimately show ?thesis using rs(1) m by blast
qed

subsection \<open>A change of the policy\<close>

definition ruleset_of :: "env \<Rightarrow> (string \<Rightarrow> string) \<Rightarrow> app_config \<Rightarrow> policy \<Rightarrow> nft_error + string" where
  "ruleset_of E getenv cfg pol =
     policy_ruleset E getenv (app_policy_rules cfg pol) (ac_https_port cfg) (ac_http_port cfg) (ac_dns_port cfg)"

definition nft_accepts :: "nft_prog \<Rightarrow> string \<Rightarrow> bool" where
  "nft_accepts nft rtext \<longleftrightarrow> nft ([''-c'', ''-f'', ''-''], rtext) = None \<and> nft ([''-f'', ''-''], rtext) = None"

lemma load_and_apply_cases:
  obtains (ok) pol rtext runs where "load_and_apply_policy E Y getenv nft fs cfg = (runs, Inr pol)"
      "read E Y getenv fs (ac_policy_path cfg) = Inr pol" "ruleset_of E getenv cfg pol = Inr rtext"
      "nft_accepts nft rtext" "foldl (kernel_run nft) k runs = Some rtext"
  | (failed) e runs where "load_and_apply_policy E Y getenv nft fs cfg = (runs, Inl e)"
      "foldl (kernel_run nft) k runs = k"
      "\<And>pol rtext. read E Y getenv fs (ac_policy_path cfg) = Inr pol \<Longrightarrow> ruleset_of E getenv cfg pol = Inr rtext \<Longrightarrow>
        \<not> nft_accepts nft rtext"
proof (cases "read E Y getenv fs (ac_policy_path cfg)")
  case (Inl e)
  then show thesis using failed [of "[]"] by (simp add: load_and_apply_policy_def)
next
  case read: (Inr pol)
  show thesis
  proof (cases "ruleset_of E getenv cfg pol")
    case (Inl e)
    then show thesis
      using read by (intro failed [of "[]" "AppNft e"])
        (simp_all add: load_and_apply_policy_def apply_policy_rules_with_context_def ruleset_of_def)
  next
    case (Inr rtext)
    let ?dry = "([''-c'', ''-f'', ''-''], rtext)" and ?run = "([''-f'', ''-''], rtext)"
    consider (d) x where "nft ?dry = Some x" | (r) x where "nft ?dry = None" "nft ?run = Some x" | (a) "nft_accepts nft rtext"
      by (cases "nft ?dry"; cases "nft ?run") (auto simp: nft_accepts_def)
    then show thesis
    proof cases
      case (d x)
      then show thesis
        using read Inr by (intro failed [of "[?dry]" "AppNft (DryRunFailed x)"])
          (simp_all add: load_and_apply_policy_def apply_policy_rules_with_context_def ruleset_of_def
            validate_and_parse_ruleset_def kernel_run_def nft_accepts_def)
    next
      case (r x)
      then show thesis
        using read Inr by (intro failed [of "[?dry, ?run]" "AppNft (ApplyFailed x)"])
          (simp_all add: load_and_apply_policy_def apply_policy_rules_with_context_def ruleset_of_def
            validate_and_parse_ruleset_def apply_ruleset_def kernel_run_def nft_accepts_def)
    next
      case a
      then show thesis
        using read Inr by (intro ok [of "[?dry, ?run]" pol rtext])
          (simp_all add: load_and_apply_policy_def apply_policy_rules_with_context_def ruleset_of_def
            validate_and_parse_ruleset_def apply_ruleset_def kernel_run_def nft_accepts_def)
    qed
  qed
qed

definition in_step ::
  "env \<Rightarrow> (string \<Rightarrow> string) \<Rightarrow> (string \<Rightarrow> int \<Rightarrow> string \<Rightarrow> proc_info option) \<Rightarrow> app_config \<Rightarrow>
   app_state \<Rightarrow> policy \<Rightarrow> bool" where
  \<comment> \<open>the kernel enforces the policy, and the proxies do or are about to\<close>
  "in_step E getenv lookup cfg s pol \<longleftrightarrow>
     (\<exists>rtext. ruleset_of E getenv cfg pol = Inr rtext \<and> as_kernel s = Some rtext) \<and>
     (case as_reload s of
        None \<Rightarrow> as_services s = start_services lookup cfg pol
      | Some (h, p) \<Rightarrow> p = pol)"

text \<open>Which file system the policy in force was read from: the one of the latest load that succeeded.\<close>

definition tick_loads ::
  "env \<Rightarrow> yaml \<Rightarrow> (string \<Rightarrow> string) \<Rightarrow> (string \<Rightarrow> string) \<Rightarrow> nft_prog \<Rightarrow> fs \<Rightarrow> fs \<Rightarrow> app_config \<Rightarrow>
   app_state \<Rightarrow> bool" where
  \<comment> \<open>the hash differs from the known one, and reading and applying the policy works\<close>
  "tick_loads E Y getenv sha256 nft fs1 fs2 cfg s =
     (case file_sha256_hex sha256 fs1 (ac_policy_path cfg) of
        Inl _ \<Rightarrow> False
      | Inr h \<Rightarrow> as_hash s \<noteq> [] \<and> h \<noteq> as_hash s \<and>
          (case load_and_apply_policy E Y getenv nft fs2 cfg of (_, Inl _) \<Rightarrow> False | (_, Inr _) \<Rightarrow> True))"

inductive loaded_run ::
  "env \<Rightarrow> yaml \<Rightarrow> (string \<Rightarrow> string) \<Rightarrow> (string \<Rightarrow> string) \<Rightarrow>
   (string \<Rightarrow> int \<Rightarrow> string \<Rightarrow> proc_info option) \<Rightarrow> app_config \<Rightarrow> app_state \<Rightarrow> fs \<Rightarrow> bool"
  for E Y getenv sha256 lookup cfg where
  loaded_start: "app_start E Y getenv sha256 nft fs1 fs2 lookup cfg = Inr s \<Longrightarrow>
    loaded_run E Y getenv sha256 lookup cfg s fs1"
| loaded_tick: "loaded_run E Y getenv sha256 lookup cfg s F \<Longrightarrow>
    loaded_run E Y getenv sha256 lookup cfg (tick E Y getenv sha256 nft fs1 fs2 cfg s)
      (if tick_loads E Y getenv sha256 nft fs1 fs2 cfg s then fs2 else F)"
| loaded_reload: "loaded_run E Y getenv sha256 lookup cfg s F \<Longrightarrow>
    loaded_run E Y getenv sha256 lookup cfg (reload lookup cfg s) F"

lemma loaded_app_run: "loaded_run E Y getenv sha256 lookup cfg s F \<Longrightarrow> app_run E Y getenv sha256 lookup cfg s"
  by (induction rule: loaded_run.induct) (rule run_start run_tick run_reload; assumption)+

lemma app_run_loaded: "app_run E Y getenv sha256 lookup cfg s \<Longrightarrow> \<exists>F. loaded_run E Y getenv sha256 lookup cfg s F"
  by (induction rule: app_run.induct) (blast intro: loaded_run.intros)+

lemma start_in_step:
  assumes "app_start E Y getenv sha256 nft fs1 fs2 lookup cfg = Inr s"
  shows "\<exists>pol. in_step E getenv lookup cfg s pol \<and> as_reload s = None \<and>
    read E Y getenv fs1 (ac_policy_path cfg) = Inr pol"
  using assms
  by (cases rule: load_and_apply_cases [of E Y getenv nft fs1 cfg None])
    (auto simp: app_start_def in_step_def)

lemma tick_cases:
  obtains (ok) pol rtext h where "tick E Y getenv sha256 nft fs1 fs2 cfg s =
        s\<lparr>as_kernel := Some rtext, as_hash := h, as_reload := Some (h, pol)\<rparr>"
      "file_sha256_hex sha256 fs1 (ac_policy_path cfg) = Inr h"
      "read E Y getenv fs2 (ac_policy_path cfg) = Inr pol" "ruleset_of E getenv cfg pol = Inr rtext"
      "as_hash s \<noteq> []" "h \<noteq> as_hash s" "nft_accepts nft rtext" "tick_loads E Y getenv sha256 nft fs1 fs2 cfg s"
  | (same) h where "tick E Y getenv sha256 nft fs1 fs2 cfg s = s\<lparr>as_hash := h\<rparr>"
      "\<not> tick_loads E Y getenv sha256 nft fs1 fs2 cfg s"
      "\<And>h' pol rtext. file_sha256_hex sha256 fs1 (ac_policy_path cfg) = Inr h' \<Longrightarrow> as_hash s \<noteq> [] \<Longrightarrow>
        h' \<noteq> as_hash s \<Longrightarrow> read E Y getenv fs2 (ac_policy_path cfg) = Inr pol \<Longrightarrow>
        ruleset_of E getenv cfg pol = Inr rtext \<Longrightarrow> \<not> nft_accepts nft rtext"
proof (cases "file_sha256_hex sha256 fs1 (ac_policy_path cfg)")
  case (Inl e)
  then show thesis
    using same [of "as_hash s"] by (simp add: tick_def check_policy_tick_def tick_loads_def)
next
  case (Inr h)
  show thesis
  proof (cases "as_hash s = [] \<or> h = as_hash s")
    case True
    then show thesis
      using Inr same [of h] by (auto simp: tick_def check_policy_tick_def tick_loads_def)
  next
    case False
    show thesis
    proof (cases rule: load_and_apply_cases [of E Y getenv nft fs2 cfg "as_kernel s"])
      case (ok pol rtext runs)
      then show thesis
        using Inr False by (intro that(1) [of h pol rtext])
          (auto simp: tick_def check_policy_tick_def send_latest_def tick_loads_def split: option.splits)
    next
      case (failed e runs)
      show thesis
      proof (rule same [of "as_hash s"])
        show "tick E Y getenv sha256 nft fs1 fs2 cfg s = s\<lparr>as_hash := as_hash s\<rparr>"
          using Inr False failed(1,2) by (simp add: tick_def check_policy_tick_def)
        show "\<not> tick_loads E Y getenv sha256 nft fs1 fs2 cfg s"
          using failed(1) by (simp add: tick_loads_def split: sum.split)
      qed (use failed(3) in blast)
    qed
  qed
qed

lemma tick_in_step:
  assumes "in_step E getenv lookup cfg s pol" "read E Y getenv F (ac_policy_path cfg) = Inr pol"
  shows "\<exists>pol. in_step E getenv lookup cfg (tick E Y getenv sha256 nft fs1 fs2 cfg s) pol \<and>
    read E Y getenv (if tick_loads E Y getenv sha256 nft fs1 fs2 cfg s then fs2 else F) (ac_policy_path cfg) = Inr pol"
proof (cases rule: tick_cases [of E Y getenv sha256 nft fs1 fs2 cfg s])
  case (ok pol' rtext h)
  then show ?thesis by (intro exI [of _ pol']) (auto simp: in_step_def)
next
  case (same h)
  then show ?thesis using assms by (intro exI [of _ pol]) (auto simp: in_step_def split: option.splits)
qed

lemma reload_in_step:
  "in_step E getenv lookup cfg s pol \<Longrightarrow> in_step E getenv lookup cfg (reload lookup cfg s) pol"
  by (auto simp: in_step_def reload_def split: option.splits)

lemma loaded_in_step:
  assumes "loaded_run E Y getenv sha256 lookup cfg s F"
  shows "\<exists>pol. in_step E getenv lookup cfg s pol \<and> read E Y getenv F (ac_policy_path cfg) = Inr pol"
  using assms
proof (induction rule: loaded_run.induct)
  case (loaded_start nft fs1 fs2 s)
  then show ?case using start_in_step by blast
next
  case (loaded_tick s F nft fs1 fs2)
  then show ?case using tick_in_step by blast
next
  case (loaded_reload s F)
  then show ?case using reload_in_step by blast
qed

lemma run_in_step:
  assumes "app_run E Y getenv sha256 lookup cfg s"
  shows "\<exists>pol. in_step E getenv lookup cfg s pol \<and> (\<exists>fs. read E Y getenv fs (ac_policy_path cfg) = Inr pol)"
  using app_run_loaded [OF assms] loaded_in_step by blast

text \<open>C7: The kernel and the proxies never drift apart. In every state of the running program there
  is one policy, read and validated from the file or the environment, such that the kernel holds
  exactly its ruleset and the proxies run with it; only between the load of a new ruleset and the next
  turn of the supervisor the proxies lag, and then the very same policy waits for them. A file that
  cannot be read or parsed, or a ruleset that \<^verbatim>\<open>nft\<close> refuses, changes neither.\<close>

theorem kernel_and_proxies_in_step:
  assumes "app_run E Y getenv sha256 lookup cfg s"
  shows "\<exists>pol rtext. (\<exists>fs. read E Y getenv fs (ac_policy_path cfg) = Inr pol) \<and>
    ruleset_of E getenv cfg pol = Inr rtext \<and> as_kernel s = Some rtext \<and>
    (as_reload s = None \<and> as_services s = start_services lookup cfg pol \<or> (\<exists>h. as_reload s = Some (h, pol)))"
proof -
  obtain pol where pol: "in_step E getenv lookup cfg s pol"
    "\<exists>fs. read E Y getenv fs (ac_policy_path cfg) = Inr pol" using run_in_step [OF assms] by blast
  then show ?thesis by (intro exI [of _ pol]) (auto simp: in_step_def split: option.splits)
qed

text \<open>C19: A new policy takes effect, all of it or nothing. When the content of the file has changed and
  it reads as a policy whose ruleset \<^verbatim>\<open>nft\<close> accepts, one turn of the watcher and one of the
  supervisor put the ruleset into the kernel and restart the proxies with that policy; in every other
  case kernel and proxies stay as they are.\<close>

theorem reload_all_or_nothing:
  assumes "app_run E Y getenv sha256 lookup cfg s" "as_reload s = None"
    and "s' = reload lookup cfg (tick E Y getenv sha256 nft fs1 fs2 cfg s)"
  shows "as_reload s' = None \<and>
    (if (\<exists>h pol rtext. file_sha256_hex sha256 fs1 (ac_policy_path cfg) = Inr h \<and> as_hash s \<noteq> [] \<and> h \<noteq> as_hash s \<and>
         read E Y getenv fs2 (ac_policy_path cfg) = Inr pol \<and> ruleset_of E getenv cfg pol = Inr rtext \<and>
         nft_accepts nft rtext)
     then \<exists>pol rtext. read E Y getenv fs2 (ac_policy_path cfg) = Inr pol \<and> ruleset_of E getenv cfg pol = Inr rtext \<and>
       as_kernel s' = Some rtext \<and> as_services s' = start_services lookup cfg pol \<and>
       file_sha256_hex sha256 fs1 (ac_policy_path cfg) = Inr (as_hash s')
     else as_kernel s' = as_kernel s \<and> as_services s' = as_services s)"
proof (cases rule: tick_cases [of E Y getenv sha256 nft fs1 fs2 cfg s])
  case (ok pol rtext h)
  have "s' = s\<lparr>as_kernel := Some rtext, as_hash := h, as_reload := None, as_services := start_services lookup cfg pol\<rparr>"
    using ok(1) assms(3) by (simp add: reload_def)
  then show ?thesis using ok by auto
next
  case (same h)
  have "s' = s\<lparr>as_hash := h\<rparr>" using same(1) assms(2,3) by (simp add: reload_def)
  then show ?thesis using same(3) assms(2) by auto
qed

text \<open>The hash is taken after the policy was read and applied, so a file that changes in between is taken
  for the one that is enforced: as long as it stays like that, the watcher does nothing.\<close>

lemma startup_change_lost:
  assumes "app_start E Y getenv sha256 nft fs1 fs2 lookup cfg = Inr s"
    and "file_sha256_hex sha256 fs2 (ac_policy_path cfg) = Inr h"
  shows "tick E Y getenv sha256 nft fs2 fs2 cfg s = s"
  using assms by (cases s) (auto simp: app_start_def tick_def check_policy_tick_def split: sum.splits prod.splits)

subsection \<open>An example\<close>

definition sample_env :: "string \<Rightarrow> string" where
  "sample_env k =
     (if k = ''FILTER_MODE'' then '' DNS-Strict'' else if k = ''POLICY_PATH'' then ''/p'' else [])"

definition sample_app_config :: app_config where
  "sample_app_config = projr (run_config ascii_env sample_env (\<lambda>_. None) (\<lambda>_. None))"

definition sample_yaml :: yaml where
  "sample_yaml =
     \<lparr>unmarshal = (\<lambda>b. Some \<lparr>cfg_default_action = (if b = ''a'' then [] else ''deny''),
        cfg_allow = \<lparr>IPs = [], Domains = []\<rparr>, cfg_deny = \<lparr>IPs = [], Domains = []\<rparr>\<rparr>), marshal = (\<lambda>_. None)\<rparr>"

definition sample_fs :: "string \<Rightarrow> fs" where
  "sample_fs b = [''/p'' \<mapsto> \<lparr>regular = True, readable = True, writable = True, data = b\<rparr>]"

definition sample_policy :: "string \<Rightarrow> policy" where
  "sample_policy act =
     \<lparr>DefaultAction = act, AllowIPs = [], AllowDomains = [], DenyIPs = [], DenyDomains = []\<rparr>"

definition no_proc :: "string \<Rightarrow> int \<Rightarrow> string \<Rightarrow> proc_info option" where
  "no_proc a p q = None"

lemma sample_trims:
  "trim_space [] = []" "trim_space ''/p'' = ''/p''" "trim_space '' DNS-Strict'' = ''DNS-Strict''"
  "to_lower ascii_env ''DNS-Strict'' = ''dns-strict''" "to_lower ascii_env ''deny'' = ''deny''"
  "to_lower ascii_env ''dns-strict'' = ''dns-strict''"
  "equal_fold ascii_env ''false'' ''true'' = False" "path_clean ''/p'' = ''/p''" "trim_space ''deny'' = ''deny''"
  "str_contains ''/p'' ''..'' = False"
  by code_simp+

lemma sample_app_facts:
  "ac_policy_path sample_app_config = ''/p''" "ac_https_port sample_app_config = ''8443''"
  "ac_http_port sample_app_config = ''8080''" "ac_dns_port sample_app_config = ''53''"
  "ac_mode sample_app_config = ''dns-strict''" "ac_learning_mode sample_app_config = False"
  "run_config ascii_env sample_env (\<lambda>_. None) (\<lambda>_. None) = Inr sample_app_config"
  by (simp_all add: sample_app_config_def run_config_def resolved_config_def validate_ports_def load_app_config_def getenv_default_def sample_env_def
      sample_trims setup_proc_info_def setup_learning_def resolve_policy_path_def normalize_mode_def mode_defs
      default_action_deny_def default_action_allow_def Let_def)

lemma sample_read:
  "read ascii_env sample_yaml sample_env (sample_fs ''a'') ''/p'' = Inr (sample_policy [])"
  "read ascii_env sample_yaml sample_env (sample_fs ''b'') ''/p'' = Inr (sample_policy ''deny'')"
  by (simp_all add: read_def sample_env_def sample_trims load_config_def sample_fs_def sample_yaml_def
      validate_default_action_def default_action_deny_def validate_lists_def sample_policy_def Let_def)

lemma sample_ports:
  "parse_port ''8443'' ''HTTPS'' = Inr 8443" "parse_port ''8080'' ''HTTP'' = Inr 8080" "parse_port ''53'' ''DNS'' = Inr 53"
  by code_simp+

lemma sample_ruleset: "\<exists>rtext. ruleset_of ascii_env sample_env sample_app_config pol = Inr rtext"
  by (simp add: ruleset_of_def sample_app_facts policy_ruleset_def sample_ports Let_def case_prod_unfold)

definition sample_text :: "policy \<Rightarrow> string" where
  "sample_text pol = projr (ruleset_of ascii_env sample_env sample_app_config pol)"

lemma sample_text: "ruleset_of ascii_env sample_env sample_app_config pol = Inr (sample_text pol)"
  using sample_ruleset [of pol] by (auto simp: sample_text_def)

definition sample_started :: app_state where
  "sample_started =
     \<lparr>as_kernel = Some (sample_text (sample_policy [])),
      as_services = start_services no_proc sample_app_config (sample_policy []), as_reload = None, as_hash = ''a''\<rparr>"

lemma sample_hash: "file_sha256_hex (\<lambda>b. b) (sample_fs b) ''/p'' = Inr b"
  by (simp add: file_sha256_hex_def sample_trims sample_fs_def)

lemma sample_run: "app_run ascii_env sample_yaml sample_env (\<lambda>b. b) no_proc sample_app_config sample_started"
proof -
  have "load_and_apply_policy ascii_env sample_yaml sample_env (\<lambda>_. None) (sample_fs ''a'') sample_app_config =
    ([([''-c'', ''-f'', ''-''], sample_text (sample_policy [])), ([''-f'', ''-''], sample_text (sample_policy []))],
     Inr (sample_policy []))"
    using sample_text [of "sample_policy []"]
    by (simp add: load_and_apply_policy_def sample_app_facts sample_read apply_policy_rules_with_context_def
        ruleset_of_def validate_and_parse_ruleset_def apply_ruleset_def)
  then have "app_start ascii_env sample_yaml sample_env (\<lambda>b. b) (\<lambda>_. None) (sample_fs ''a'')
      (sample_fs ''a'') no_proc sample_app_config = Inr sample_started"
    by (simp add: app_start_def kernel_run_def sample_started_def sample_app_facts sample_hash)
  then show ?thesis by (rule run_start)
qed

theorem modes_agree_witness:
  "\<exists>rs. ruleset_mode ascii_env rs = ''dns-strict'' \<and>
    list_all (serves ''dns-strict'' rs sample_app_config) (start_services no_proc sample_app_config (sample_policy []))"
proof -
  have l: "to_lower ascii_env (to_lower ascii_env ''DNS-Strict'') = to_lower ascii_env ''DNS-Strict''"
    by (simp only: sample_trims)
  have m: "''DNS-Strict'' = trim_space (sample_env ''FILTER_MODE'')"
    by (simp add: sample_env_def sample_trims)
  from modes_agree [OF l m sample_app_facts(7) sample_text [unfolded ruleset_of_def], of "sample_policy []" no_proc]
  show ?thesis unfolding sample_app_facts(5) by metis
qed

theorem kernel_and_proxies_in_step_witness:
  "\<exists>pol. as_kernel sample_started = Some (sample_text pol) \<and>
    as_services sample_started = start_services no_proc sample_app_config pol"
  using kernel_and_proxies_in_step [OF sample_run] sample_text by (auto simp: sample_started_def)

theorem reload_all_or_nothing_witness:
  "as_services (reload no_proc sample_app_config (tick ascii_env sample_yaml sample_env (\<lambda>b. b) (\<lambda>_. None)
     (sample_fs ''b'') (sample_fs ''b'') sample_app_config sample_started)) =
   start_services no_proc sample_app_config (sample_policy ''deny'')"
proof -
  have "as_reload sample_started = None" "as_hash sample_started = ''a''" by (simp_all add: sample_started_def)
  from reload_all_or_nothing [OF sample_run this(1) refl, of "\<lambda>_. None" "sample_fs ''b''" "sample_fs ''b''"] this(2)
  show ?thesis
    by (simp add: sample_app_facts sample_hash sample_read sample_text nft_accepts_def)
qed

end
