(* ===== verification/Ruleset.thy ===== *)
theory Ruleset
  imports Nftables
begin

text \<open>
  What a generated ruleset means. The reader below covers the part of the \<^verbatim>\<open>nft\<close> language
  the templates use (nft(8)): it turns the text into tables with their sets and base chains, or
  fails. A script is applied to the tables of the kernel, and a packet that leaves the host
  passes the nat chains (only the first packet of a connection does) and then the filter chains
  of its family. In the output hook a redirect replaces the destination by the loopback address.

  None of this models the repository: it is the specification the texts of theory Nftables are
  measured against.
\<close>

subsection \<open>Tables\<close>

datatype nft_match =
    OifName string
  | CtState string
  | MetaMark string
  | DaddrIs bool string \<comment> \<open>is it IPv4, and the address\<close>
  | DaddrIn bool string \<comment> \<open>is it IPv4, and the name of the set\<close>
  | TcpDport string
  | UdpDport string
  | IcmpType bool "string list"

datatype nft_stmt = Accept | Drop | Return | Redirect string | Log string

type_synonym nft_rule = "nft_match list \<times> nft_stmt"

record nft_set =
  set_name :: string
  set_type :: string
  set_flags :: string
  set_elements :: "string list"

record nft_chain =
  chain_name :: string
  chain_type :: string
  chain_prio :: string
  chain_policy :: string
  chain_rules :: "nft_rule list"

record nft_table =
  table_family :: string
  table_name :: string
  table_sets :: "nft_set list"
  table_chains :: "nft_chain list"

subsection \<open>Reading a line\<close>

datatype nft_item =
    Blank | Close
  | TableStmt string string | DeleteTable string string | TableOpen string string
  | SetOpen string | ChainOpen string
  | SetType string | SetFlags string | SetElements "string list"
  | BaseChain string string string
  | Rule nft_rule

definition words :: "string \<Rightarrow> string list" where
  \<comment> \<open>the words of a line without its comment\<close>
  "words l = filter (\<lambda>w. w \<noteq> []) (split_on CHR '' '' (takeWhile (\<lambda>c. c \<noteq> CHR ''#'') l))"

fun read_stmt :: "string list \<Rightarrow> nft_stmt option" where
  \<open>read_stmt ws =
     (if ws = [''accept''] then Some Accept
      else if ws = [''drop''] then Some Drop
      else if ws = [''return''] then Some Return
      else case ws of
        [a, b, c] \<Rightarrow>
          if a = ''redirect'' \<and> b = ''to'' \<and> has_prefix c '':'' then Some (Redirect (tl c)) else None
      | [a, b, c, d, e] \<Rightarrow>
          if a = ''log'' \<and> b = ''prefix'' \<and> d = ''group'' \<and> e = ''0'' then Some (Log c) else None
      | _ \<Rightarrow> None)\<close>

definition daddr_match :: "bool \<Rightarrow> string \<Rightarrow> nft_match" where
  "daddr_match is4 w = (if has_prefix w ''@'' then DaddrIn is4 (tl w) else DaddrIs is4 w)"

definition read_match :: "string \<Rightarrow> string \<Rightarrow> string \<Rightarrow> nft_match option" where
  "read_match a b c =
     (if a = ''ct'' \<and> b = ''state'' then Some (CtState c)
      else if a = ''meta'' \<and> b = ''mark'' then Some (MetaMark c)
      else if a = ''ip'' \<and> b = ''daddr'' then Some (daddr_match True c)
      else if a = ''ip6'' \<and> b = ''daddr'' then Some (daddr_match False c)
      else if a = ''tcp'' \<and> b = ''dport'' then Some (TcpDport c)
      else if a = ''udp'' \<and> b = ''dport'' then Some (UdpDport c)
      else if a = ''icmp'' \<and> b = ''type'' then Some (IcmpType True [c])
      else if a = ''icmpv6'' \<and> b = ''type'' \<and> c \<noteq> ''{'' then Some (IcmpType False [c])
      else None)"

definition read_icmp_set :: "string list \<Rightarrow> (nft_match \<times> string list) option" where
  \<comment> \<open>\<^verbatim>\<open>icmpv6 type { a, b } ...\<close>: the names lose their commas\<close>
  "read_icmp_set ws =
     (if take 3 ws = [''icmpv6'', ''type'', ''{''] \<and> ''}'' \<in> set ws then
        (let names = takeWhile (\<lambda>w. w \<noteq> ''}'') (drop 3 ws)
         in Some (IcmpType False (map (\<lambda>w. trim_suffix w '','') names),
                  drop (4 + length names) ws))
      else None)"

fun read_rule :: "nat \<Rightarrow> string list \<Rightarrow> nft_rule option" where
  \<comment> \<open>at most that many matches in front of the statement\<close>
  "read_rule 0 ws = map_option (\<lambda>s. ([], s)) (read_stmt ws)"
| "read_rule (Suc n) ws =
     (case read_stmt ws of
        Some s \<Rightarrow> Some ([], s)
      | None \<Rightarrow>
        (case read_icmp_set ws of
           Some (m, rest) \<Rightarrow> map_option (\<lambda>(ms, s). (m # ms, s)) (read_rule n rest)
         | None \<Rightarrow>
           (case ws of
              a # b # ws' \<Rightarrow>
                if a = ''oifname'' then map_option (\<lambda>(ms, s). (OifName b # ms, s)) (read_rule n ws')
                else (case ws' of
                        c # rest \<Rightarrow>
                          (case read_match a b c of
                             None \<Rightarrow> None
                           | Some m \<Rightarrow> map_option (\<lambda>(ms, s). (m # ms, s)) (read_rule n rest))
                      | [] \<Rightarrow> None)
            | _ \<Rightarrow> None)))"

definition read_elements :: "string list \<Rightarrow> string list option" where
  "read_elements ws =
     (let s = concat ws
      in if has_prefix s ''{'' \<and> has_suffix s ''}''
         then Some (split_on CHR '','' (butlast (tl s))) else None)"

definition read_words :: "string list \<Rightarrow> nft_item option" where
  "read_words ws =
     (if ws = [] then Some Blank
      else if ws = [''}''] then Some Close
      else if hd ws = ''table'' then
        (case tl ws of
           [f, n] \<Rightarrow> Some (TableStmt f n)
         | [f, n, b] \<Rightarrow> if b = ''{'' then Some (TableOpen f n) else None
         | _ \<Rightarrow> None)
      else if hd ws = ''delete'' then
        (case tl ws of
           [t, f, n] \<Rightarrow> if t = ''table'' then Some (DeleteTable f n) else None
         | _ \<Rightarrow> None)
      else if hd ws = ''set'' \<and> drop 2 ws = [''{''] then Some (SetOpen (ws ! 1))
      else if hd ws = ''chain'' \<and> drop 2 ws = [''{''] then Some (ChainOpen (ws ! 1))
      else if hd ws = ''flags'' \<and> length ws = 2 then Some (SetFlags (ws ! 1))
      else if hd ws = ''elements'' \<and> length ws \<ge> 3 \<and> ws ! 1 = ''=''
      then map_option SetElements (read_elements (drop 2 ws))
      else if hd ws = ''type'' then
        (case tl ws of
           [t] \<Rightarrow> Some (SetType t)
         | [k, h, out, p, x] \<Rightarrow>
             if h = ''hook'' \<and> out = ''output'' \<and> p = ''priority''
             then Some (BaseChain k (trim_suffix x '';'') ''accept'') else None
         | [k, h, out, p, x, q, y] \<Rightarrow>
             if h = ''hook'' \<and> out = ''output'' \<and> p = ''priority'' \<and> q = ''policy''
             then Some (BaseChain k (trim_suffix x '';'') (trim_suffix y '';'')) else None
         | _ \<Rightarrow> None)
      else map_option Rule (read_rule 4 ws))"

definition read_line :: "string \<Rightarrow> nft_item option" where
  "read_line l = read_words (words l)"

subsection \<open>Reading a script\<close>

datatype nft_cmd = AddTable string string | DelTable string string | PutTable nft_table

datatype nft_ctx =
    Top
  | InTable nft_table
  | InSet nft_table nft_set
  | InChain nft_table nft_chain

type_synonym reader = "nft_ctx \<times> nft_cmd list"

fun step :: "reader \<Rightarrow> nft_item \<Rightarrow> reader option" where
  "step st Blank = Some st"
| "step (Top, cs) (TableStmt f n) = Some (Top, cs @ [AddTable f n])"
| "step (Top, cs) (DeleteTable f n) = Some (Top, cs @ [DelTable f n])"
| "step (Top, cs) (TableOpen f n) =
     Some (InTable \<lparr>table_family = f, table_name = n, table_sets = [], table_chains = []\<rparr>, cs)"
| "step (InTable t, cs) Close = Some (Top, cs @ [PutTable t])"
| "step (InTable t, cs) (SetOpen n) =
     Some (InSet t \<lparr>set_name = n, set_type = [], set_flags = [], set_elements = []\<rparr>, cs)"
| "step (InTable t, cs) (ChainOpen n) =
     Some (InChain t \<lparr>chain_name = n, chain_type = [], chain_prio = [], chain_policy = ''accept'',
                      chain_rules = []\<rparr>, cs)"
| "step (InSet t s, cs) (SetType ty) = Some (InSet t (s\<lparr>set_type := ty\<rparr>), cs)"
| "step (InSet t s, cs) (SetFlags fl) = Some (InSet t (s\<lparr>set_flags := fl\<rparr>), cs)"
| "step (InSet t s, cs) (SetElements es) = Some (InSet t (s\<lparr>set_elements := es\<rparr>), cs)"
| "step (InSet t s, cs) Close = Some (InTable (t\<lparr>table_sets := table_sets t @ [s]\<rparr>), cs)"
| "step (InChain t c, cs) (BaseChain k p pol) =
     Some (InChain t (c\<lparr>chain_type := k, chain_prio := p, chain_policy := pol\<rparr>), cs)"
| "step (InChain t c, cs) (Rule r) =
     Some (InChain t (c\<lparr>chain_rules := chain_rules c @ [r]\<rparr>), cs)"
| "step (InChain t c, cs) Close = Some (InTable (t\<lparr>table_chains := table_chains t @ [c]\<rparr>), cs)"
| "step _ _ = None"

fun run_lines :: "reader \<Rightarrow> string list \<Rightarrow> reader option" where
  "run_lines st [] = Some st"
| "run_lines st (l # ls) =
     (case read_line l of
        None \<Rightarrow> None
      | Some i \<Rightarrow> (case step st i of None \<Rightarrow> None | Some st' \<Rightarrow> run_lines st' ls))"

definition read_script :: "string \<Rightarrow> nft_cmd list option" where
  "read_script text =
     (case run_lines (Top, []) (split_on newline text) of
        Some (Top, cs) \<Rightarrow> Some cs
      | _ \<Rightarrow> None)"

subsection \<open>Applying a script\<close>

definition same_table :: "string \<Rightarrow> string \<Rightarrow> nft_table \<Rightarrow> bool" where
  "same_table f n t \<longleftrightarrow> table_family t = f \<and> table_name t = n"

fun apply_cmd :: "nft_table list \<Rightarrow> nft_cmd \<Rightarrow> nft_table list option" where
  "apply_cmd K (AddTable f n) =
     Some (if list_ex (same_table f n) K then K
           else K @ [\<lparr>table_family = f, table_name = n, table_sets = [], table_chains = []\<rparr>])"
| "apply_cmd K (DelTable f n) =
     (if list_ex (same_table f n) K then Some (filter (\<lambda>t. \<not> same_table f n t) K) else None)"
| "apply_cmd K (PutTable t) =
     Some (if list_ex (same_table (table_family t) (table_name t)) K
           then map (\<lambda>u. if same_table (table_family t) (table_name t) u
                          then u\<lparr>table_sets := table_sets u @ table_sets t,
                                 table_chains := table_chains u @ table_chains t\<rparr> else u) K
           else K @ [t])"

fun apply_cmds :: "nft_table list \<Rightarrow> nft_cmd list \<Rightarrow> nft_table list option" where
  "apply_cmds K [] = Some K"
| "apply_cmds K (c # cs) =
     (case apply_cmd K c of None \<Rightarrow> None | Some K' \<Rightarrow> apply_cmds K' cs)"

definition apply_script :: "nft_table list \<Rightarrow> string \<Rightarrow> nft_table list option" where
  "apply_script K text =
     (case read_script text of None \<Rightarrow> None | Some cs \<Rightarrow> apply_cmds K cs)"

subsection \<open>Packets\<close>

datatype l4 = Tcp nat | Udp nat | Icmp string | OtherL4

record packet =
  pk_dst :: ip \<comment> \<open>16 bytes\<close>
  pk_l4 :: l4
  pk_oif :: string
  pk_established :: bool
  pk_mark :: nat

definition is_v4 :: "packet \<Rightarrow> bool" where
  "is_v4 p \<longleftrightarrow> to4 (pk_dst p) \<noteq> None"

definition element_matches :: "ip \<Rightarrow> string \<Rightarrow> bool" where
  \<comment> \<open>an address, or a range: the address agrees with the network on the bits of the prefix\<close>
  "element_matches d e =
     (if CHR ''/'' \<in> set e then
        (case (parse_cidr e, digits_val 0 (drop (Suc (length (takeWhile (\<lambda>c. c \<noteq> CHR ''/'') e))) e)) of
           (Some (_, net), Some n) \<Rightarrow>
             (case to4 d of
                Some d4 \<Rightarrow> length net = 4 \<and> mask_bytes n d4 = net
              | None \<Rightarrow> length net = 16 \<and> mask_bytes n d = net)
         | _ \<Rightarrow> False)
      else parse_ip e = Some d)"

definition listed :: "string list \<Rightarrow> ip \<Rightarrow> bool" where
  "listed es d = list_ex (element_matches d) es"

type_synonym dyn_sets = "string \<Rightarrow> ip \<Rightarrow> bool"
  \<comment> \<open>elements that were added at run time to the sets of that name\<close>

definition in_named_set :: "dyn_sets \<Rightarrow> nft_set list \<Rightarrow> string \<Rightarrow> ip \<Rightarrow> bool" where
  "in_named_set dyn ss n d =
     list_ex (\<lambda>s. set_name s = n \<and>
                  (listed (set_elements s) d \<or> set_flags s = ''timeout'' \<and> dyn n d)) ss"

definition port_is :: "string \<Rightarrow> nat \<Rightarrow> bool" where
  "port_is w n \<longleftrightarrow> digits_val 0 w = Some n"

fun match_holds :: "(string \<Rightarrow> ip \<Rightarrow> bool) \<Rightarrow> packet \<Rightarrow> nft_match \<Rightarrow> bool" where
  "match_holds mem p (OifName w) = (w = CHR 0x22 # pk_oif p @ [CHR 0x22])"
| "match_holds mem p (CtState w) = (w = ''established,related'' \<and> pk_established p)"
| "match_holds mem p (MetaMark w) = (w = ''0x1'' \<and> pk_mark p = 1)"
| "match_holds mem p (DaddrIs is4 w) = (is_v4 p = is4 \<and> parse_ip w = Some (pk_dst p))"
| "match_holds mem p (DaddrIn is4 n) = (is_v4 p = is4 \<and> mem n (pk_dst p))"
| "match_holds mem p (TcpDport w) = (case pk_l4 p of Tcp n \<Rightarrow> port_is w n | _ \<Rightarrow> False)"
| "match_holds mem p (UdpDport w) = (case pk_l4 p of Udp n \<Rightarrow> port_is w n | _ \<Rightarrow> False)"
| "match_holds mem p (IcmpType is4 ts) =
     (case pk_l4 p of Icmp t \<Rightarrow> is_v4 p = is4 \<and> t \<in> set ts | _ \<Rightarrow> False)"

text \<open>The first rule with a verdict decides; a log rule lets the packet go on. \<open>None\<close> is the
  end of the chain.\<close>

fun eval_rules ::
  "(string \<Rightarrow> ip \<Rightarrow> bool) \<Rightarrow> packet \<Rightarrow> nft_rule list \<Rightarrow> string list \<times> nft_stmt option" where
  "eval_rules mem p [] = ([], None)"
| "eval_rules mem p ((ms, s) # rs) =
     (if \<not> list_all (match_holds mem p) ms then eval_rules mem p rs
      else case s of
             Log l \<Rightarrow> (let (ls, v) = eval_rules mem p rs in (l # ls, v))
           | _ \<Rightarrow> ([], Some s))"

definition loopback :: "bool \<Rightarrow> ip" where
  "loopback is4 = (if is4 then v4_in_v6_prefix @ [127, 0, 0, 1] else replicate 15 0 @ [1])"

definition family_of :: "packet \<Rightarrow> string" where
  "family_of p = (if is_v4 p then ''ip'' else ''ip6'')"

definition chains_of :: "nft_table list \<Rightarrow> string \<Rightarrow> string \<Rightarrow> (nft_table \<times> nft_chain) list" where
  "chains_of K fam ty =
     concat (map (\<lambda>t. if table_family t = fam
                       then map (Pair t) (filter (\<lambda>c. chain_type c = ty) (table_chains t)) else []) K)"

fun run_nat :: "dyn_sets \<Rightarrow> packet \<Rightarrow> (nft_table \<times> nft_chain) list \<Rightarrow> string list \<times> packet" where
  \<comment> \<open>the first chain that redirects decides\<close>
  "run_nat dyn p [] = ([], p)"
| "run_nat dyn p ((t, c) # rest) =
     (let (ls, v) = eval_rules (in_named_set dyn (table_sets t)) p (chain_rules c)
      in case v of
           Some (Redirect w) \<Rightarrow>
             (ls, p\<lparr>pk_dst := loopback (is_v4 p),
                    pk_l4 := (case (pk_l4 p, digits_val 0 w) of
                                (Tcp _, Some n) \<Rightarrow> Tcp n | (Udp _, Some n) \<Rightarrow> Udp n | (x, _) \<Rightarrow> x)\<rparr>)
         | _ \<Rightarrow> (let (ls', q) = run_nat dyn p rest in (ls @ ls', q)))"

fun run_filter :: "dyn_sets \<Rightarrow> packet \<Rightarrow> (nft_table \<times> nft_chain) list \<Rightarrow> string list \<times> bool" where
  \<comment> \<open>every chain has to let the packet pass\<close>
  "run_filter dyn p [] = ([], True)"
| "run_filter dyn p ((t, c) # rest) =
     (let (ls, v) = eval_rules (in_named_set dyn (table_sets t)) p (chain_rules c);
          pass = (case v of
                    Some Accept \<Rightarrow> True
                  | Some Drop \<Rightarrow> False
                  | _ \<Rightarrow> chain_policy c \<noteq> ''drop'')
      in if pass then (let (ls', b) = run_filter dyn p rest in (ls @ ls', b)) else (ls, False))"

datatype fate = Sent packet | Dropped

definition egress :: "nft_table list \<Rightarrow> dyn_sets \<Rightarrow> packet \<Rightarrow> string list \<times> fate" where
  "egress K dyn p =
     (let (ls, q) = (if pk_established p then ([], p)
                     else run_nat dyn p (chains_of K (family_of p) ''nat''));
          (ls', pass) = run_filter dyn q (chains_of K (family_of p) ''filter'')
      in (ls @ ls', if pass then Sent q else Dropped))"

end
