(* ===== verification/RulesetLines.thy ===== *)
theory RulesetLines
  imports Ruleset
begin

text \<open>
  From text to lines: how the reader and \<^verbatim>\<open>auditRuleset\<close> act on a text that is given line
  by line. The audit rewrites work on the whole text; here they become a function on lines
  (\<open>audit_line\<close>), which for every line of the templates is the intended change of its meaning
  (\<open>audit_item\<close>).
\<close>

subsection \<open>ReplaceAll, line by line\<close>

lemma replace_all_Nil [simp]: "replace_all [] old new = (if old = [] then [] else [])"
  by (subst replace_all.simps) auto

lemma replace_all_hit: "old \<noteq> [] \<Longrightarrow> replace_all (old @ s) old new = new @ replace_all s old new"
  by (subst replace_all.simps) simp

lemma replace_all_miss:
  "\<not> has_prefix (c # s) old \<Longrightarrow> replace_all (c # s) old new = c # replace_all s old new"
  by (subst replace_all.simps) simp

lemma replace_all_absent:
  assumes "c \<in> set old" "c \<notin> set s"
  shows "replace_all s old new = s"
  using assms(2)
proof (induction s)
  case Nil
  then show ?case by simp
next
  case (Cons x s)
  have "\<not> has_prefix (x # s) old"
  proof
    assume "has_prefix (x # s) old"
    then obtain t where "x # s = old @ t" by (auto simp: has_prefix_iff)
    with assms(1) have "c \<in> set (x # s)" by simp
    with Cons.prems show False by simp
  qed
  with Cons show ?case by (simp add: replace_all_miss)
qed

lemma replace_all_before:
  "hd old \<notin> set m \<Longrightarrow> old \<noteq> [] \<Longrightarrow> replace_all (m @ s) old new = m @ replace_all s old new"
proof (induction m)
  case Nil
  then show ?case by simp
next
  case (Cons x m)
  then have "\<not> has_prefix (x # m @ s) old" by (cases old) auto
  with Cons show ?case by (simp add: replace_all_miss)
qed

lemma has_prefix_line:
  assumes "c \<notin> set p"
  shows "has_prefix (l @ c # s) p \<longleftrightarrow> has_prefix l p"
  using assms
proof (induction p arbitrary: l)
  case Nil
  then show ?case by simp
next
  case (Cons x p)
  then show ?case by (cases l) auto
qed

lemma replace_all_line:
  assumes "newline \<notin> set old" "old \<noteq> []"
  shows "replace_all (l @ newline # s) old new = replace_all l old new @ newline # replace_all s old new"
proof (induction "length l" arbitrary: l rule: less_induct)
  case less
  have miss: "\<not> has_prefix (newline # s) old"
    using assms by (cases old) auto
  show ?case
  proof (cases "has_prefix l old")
    case True
    then obtain t where t: "l = old @ t" by (auto simp: has_prefix_iff)
    have "length t < length l" using t assms(2) by simp
    from less [OF this] show ?thesis by (simp add: t replace_all_hit [OF assms(2)])
  next
    case False
    show ?thesis
    proof (cases l)
      case Nil
      then show ?thesis by (simp add: replace_all_miss [OF miss])
    next
      case (Cons c cs)
      from False have "\<not> has_prefix (c # cs @ newline # s) old"
        using has_prefix_line [OF assms(1), of l s] Cons by simp
      moreover have "\<not> has_prefix (c # cs) old" using False Cons by simp
      ultimately show ?thesis using less [of cs] Cons by (simp add: replace_all_miss)
    qed
  qed
qed

lemma replace_all_unlines:
  assumes "newline \<notin> set old" "old \<noteq> []"
  shows "replace_all (unlines ls) old new = unlines (map (\<lambda>l. replace_all l old new) ls)"
  by (induction ls) (simp_all add: replace_all_line [OF assms])

fun swap_lines :: "string \<Rightarrow> string \<Rightarrow> string list \<Rightarrow> string list" where
  \<comment> \<open>replacing a whole line consumes the line end that the next match would need\<close>
  "swap_lines w v [] = []"
| "swap_lines w v [l] = [if l = w then v else l]"
| "swap_lines w v (l # m # ls) =
     (if l = w then v # m # swap_lines w v ls else l # swap_lines w v (m # ls))"

definition isolated :: "'a \<Rightarrow> 'a list \<Rightarrow> bool" where
  "isolated w ls = successively (\<lambda>a b. \<not> (a = w \<and> b = w)) ls"

lemma swap_lines_map: "isolated w ls \<Longrightarrow> swap_lines w v ls = map (\<lambda>l. if l = w then v else l) ls"
proof (induction w v ls rule: swap_lines.induct)
  case (3 w v l m ls)
  show ?case
  proof (cases "l = w")
    case True
    have "isolated w ls" "m \<noteq> w" using "3.prems" True by (cases ls; auto simp: isolated_def)+
    with 3 True show ?thesis by simp
  next
    case False
    have "isolated w (m # ls)" using "3.prems" by (simp add: isolated_def)
    with 3 False show ?thesis by simp
  qed
qed auto

lemma replace_all_whole_line:
  assumes "newline \<notin> set w" "\<forall>l \<in> set ls. newline \<notin> set l"
  shows "replace_all (newline # unlines ls) (newline # w @ [newline]) (newline # v @ [newline])
    = newline # unlines (swap_lines w v ls)"
  using assms
proof (induction w v ls rule: swap_lines.induct)
  case (1 w v)
  have "\<not> has_prefix [newline] (newline # w @ [newline])" by (cases w) auto
  then show ?case by (simp add: replace_all_miss)
next
  case (2 w v l)
  let ?old = "newline # w @ [newline]" and ?new = "newline # v @ [newline]"
  show ?case
  proof (cases "l = w")
    case True
    then show ?thesis using replace_all_hit [of ?old "[]" ?new] by simp
  next
    case False
    have no: "\<not> has_prefix (newline # l @ [newline]) ?old"
    proof
      assume "has_prefix (newline # l @ [newline]) ?old"
      then obtain t where "l @ newline # [] = w @ newline # t" by (auto simp: has_prefix_iff)
      from append_sep_inj [OF _ _ this] 2 False show False by simp
    qed
    have "\<not> has_prefix [newline] ?old" by (cases w) auto
    moreover have "replace_all (l @ [newline]) ?old ?new = l @ replace_all [newline] ?old ?new"
      using 2 by (intro replace_all_before) auto
    ultimately show ?thesis using False by (simp add: replace_all_miss [OF no] replace_all_miss)
  qed
next
  case (3 w v l m ls)
  let ?old = "newline # w @ [newline]" and ?new = "newline # v @ [newline]"
  show ?case
  proof (cases "l = w")
    case True
    have "replace_all (m @ newline # unlines ls) ?old ?new = m @ replace_all (newline # unlines ls) ?old ?new"
      using 3 by (intro replace_all_before) auto
    moreover have "replace_all (newline # unlines ls) ?old ?new = newline # unlines (swap_lines w v ls)"
      using 3 True by simp
    ultimately show ?thesis
      using True replace_all_hit [of ?old "m @ newline # unlines ls" ?new] by simp
  next
    case False
    have no: "\<not> has_prefix (newline # l @ newline # m @ newline # unlines ls) ?old"
    proof
      assume "has_prefix (newline # l @ newline # m @ newline # unlines ls) ?old"
      then obtain t where "l @ newline # (m @ newline # unlines ls) = w @ newline # t"
        by (auto simp: has_prefix_iff)
      from append_sep_inj [OF _ _ this] 3 False show False by simp
    qed
    have "replace_all (l @ newline # unlines (m # ls)) ?old ?new
        = l @ replace_all (newline # unlines (m # ls)) ?old ?new"
      using 3 by (intro replace_all_before) auto
    moreover have "replace_all (newline # unlines (m # ls)) ?old ?new
        = newline # unlines (swap_lines w v (m # ls))"
      using 3 False by simp
    ultimately show ?thesis using False by (simp add: replace_all_miss [OF no] replace_all_miss)
  qed
qed

subsection \<open>The audit rewrites on a line\<close>

definition drop_line :: string where "drop_line = ''        drop''"

definition pre_audit :: "string \<Rightarrow> string" where
  \<open>pre_audit l =
     replace_all (replace_all l ''policy drop;'' ''policy accept;'')
       ''log prefix "blocked" group 0'' ''log prefix "audit" group 0''\<close>

definition audit_line :: "string \<Rightarrow> string" where
  "audit_line l =
     (let r3 = (if pre_audit l = drop_line then ''        accept'' else pre_audit l)
      in replace_all (replace_all r3 '' @deny_daddr_v4 drop'' '' @deny_daddr_v4 accept'')
           '' @deny_daddr_v6 drop'' '' @deny_daddr_v6 accept'')"

fun audit_stmt :: "nft_stmt \<Rightarrow> nft_stmt" where
  "audit_stmt Drop = Accept"
| \<open>audit_stmt (Log l) = Log (if l = ''"blocked"'' then ''"audit"'' else l)\<close>
| "audit_stmt s = s"

fun audit_item :: "nft_item \<Rightarrow> nft_item" where
  "audit_item (Rule (ms, s)) = Rule (ms, audit_stmt s)"
| "audit_item (BaseChain k p pol) = BaseChain k p (if pol = ''drop'' then ''accept'' else pol)"
| "audit_item i = i"

definition line_ok :: "string \<Rightarrow> bool" where
  "line_ok l \<longleftrightarrow>
     newline \<notin> set l \<and> newline \<notin> set (audit_line l) \<and> newline \<notin> set (pre_audit l) \<and>
     (case read_line l of
        None \<Rightarrow> False
      | Some i \<Rightarrow> read_line (audit_line l) = Some (audit_item i) \<and>
          (pre_audit l = drop_line) = (i = Rule ([], Drop)))"

definition item_of :: "string \<Rightarrow> nft_item" where
  "item_of l = the (read_line l)"

lemma line_okD:
  assumes "line_ok l"
  shows "newline \<notin> set l" "newline \<notin> set (audit_line l)" "newline \<notin> set (pre_audit l)"
    "read_line l = Some (item_of l)" "read_line (audit_line l) = Some (audit_item (item_of l))"
    "(pre_audit l = drop_line) = (item_of l = Rule ([], Drop))"
  using assms by (auto simp: line_ok_def item_of_def split: option.splits)

text \<open>A line without the verdicts of the templates is left alone; each condition is a quick look
  for a character of the text that would be replaced.\<close>

definition no_verdict :: "string \<Rightarrow> bool" where
  "no_verdict l \<longleftrightarrow>
     newline \<notin> set l \<and> (CHR '';'' \<in> set l \<longrightarrow> CHR ''d'' \<notin> set l) \<and>
     (CHR 0x22 \<in> set l \<longrightarrow> CHR ''b'' \<notin> set l) \<and>
     (CHR ''@'' \<in> set l \<longrightarrow> CHR ''y'' \<in> set l \<longrightarrow> CHR ''n'' \<in> set l \<longrightarrow> CHR ''o'' \<notin> set l) \<and> l \<noteq> drop_line"

lemma audit_line_id:
  assumes "no_verdict l"
  shows "pre_audit l = l" "audit_line l = l"
proof -
  have 1: "replace_all l ''policy drop;'' new = l" for new
    using assms replace_all_absent [of "CHR '';''" "''policy drop;''" l new]
      replace_all_absent [of "CHR ''d''" "''policy drop;''" l new]
    by (cases "CHR '';'' \<in> set l") (simp_all add: no_verdict_def)
  have 2: "replace_all l ''log prefix \"blocked\" group 0'' new = l" for new
    using assms replace_all_absent [of "CHR 0x22" "''log prefix \"blocked\" group 0''" l new]
      replace_all_absent [of "CHR ''b''" "''log prefix \"blocked\" group 0''" l new]
    by (cases "CHR 0x22 \<in> set l") (simp_all add: no_verdict_def)
  have 3: "replace_all l '' @deny_daddr_v4 drop'' new = l" "replace_all l '' @deny_daddr_v6 drop'' new = l"
    for new
    using assms replace_all_absent [of "CHR ''@''" _ l new]
      replace_all_absent [of "CHR ''y''" _ l new] replace_all_absent [of "CHR ''n''" _ l new]
      replace_all_absent [of "CHR ''o''" _ l new]
    by (cases "CHR ''@'' \<in> set l"; cases "CHR ''y'' \<in> set l"; cases "CHR ''n'' \<in> set l"; simp add: no_verdict_def)+
  show p: "pre_audit l = l" by (simp add: pre_audit_def 1 2)
  show "audit_line l = l" using assms by (simp add: audit_line_def p 3 no_verdict_def Let_def)
qed

lemma plain_line:
  assumes "no_verdict l" "read_words (words l) = Some i" "audit_item i = i" "i \<noteq> Rule ([], Drop)"
  shows "line_ok l \<and> item_of l = i"
  using assms by (auto simp: line_ok_def item_of_def read_line_def audit_line_id no_verdict_def)

lemma comment_line:
  assumes "newline \<notin> set l" "words l = []" "CHR 0x22 \<notin> set l" "CHR '';'' \<notin> set l" "CHR ''@'' \<notin> set l"
  shows "line_ok l \<and> item_of l = Blank"
proof (rule plain_line)
  have "words drop_line \<noteq> []" unfolding drop_line_def words_def by simp
  with assms show "no_verdict l" by (auto simp: no_verdict_def)
qed (use assms in \<open>simp_all add: read_words_def\<close>)

lemmas read_eval = words_def read_words_def read_elements_def read_match_def has_prefix_def has_suffix_def
  read_icmp_set_def daddr_match_def trim_suffix_def eval_nat_numeral read_rule.simps

lemma isolated_map:
  "(\<And>x. x \<in> set xs \<Longrightarrow> (f x = w) = (g x = v)) \<Longrightarrow> isolated w (map f xs) = isolated v (map g xs)"
  unfolding isolated_def
  by (induction xs rule: induct_list012) (auto simp: successively_map)

lemma audit_ruleset_lines:
  assumes ok: "list_all line_ok ls" and iso: "isolated (Rule ([], Drop)) (map item_of ls)"
  shows "audit_ruleset (newline # unlines ls) = newline # unlines (map audit_line ls)"
proof -
  let ?sw = "\<lambda>l. if l = drop_line then ''        accept'' else l"
  have n: "\<forall>l \<in> set (map pre_audit ls). newline \<notin> set l"
    using ok by (auto simp: list_all_iff dest: line_okD)
  have "isolated drop_line (map pre_audit ls)"
    using iso isolated_map [of ls pre_audit drop_line item_of "Rule ([], Drop)"] ok
    by (auto simp: list_all_iff dest: line_okD(6))
  then have sw: "swap_lines drop_line ''        accept'' (map pre_audit ls) = map (?sw \<circ> pre_audit) ls"
    by (simp add: swap_lines_map)
  have 1: "replace_all (newline # unlines xs) old new
      = newline # unlines (map (\<lambda>l. replace_all l old new) xs)"
    if "newline \<notin> set old" "old \<noteq> []" for xs old new
    using replace_all_unlines [OF that, of "[] # xs"] that by simp
  have 2: "replace_all (newline # unlines (map pre_audit ls))
      (newline # ''        drop'' @ [newline]) (newline # ''        accept'' @ [newline])
      = newline # unlines (map (?sw \<circ> pre_audit) ls)"
    using replace_all_whole_line [of drop_line "map pre_audit ls" "''        accept''"] n sw
    by (simp add: drop_line_def)
  have 3: "map (\<lambda>l. replace_all l ''log prefix \"blocked\" group 0'' ''log prefix \"audit\" group 0'')
      (map (\<lambda>l. replace_all l ''policy drop;'' ''policy accept;'') ls) = map pre_audit ls"
    by (simp add: pre_audit_def)
  show ?thesis
    unfolding audit_ruleset_def Let_def
    apply (subst 1, simp, simp)
    apply (subst 1, simp, simp)
    apply (subst 3)
    apply (subst 2)
    apply (subst 1, simp, simp)
    apply (subst 1, simp, simp)
    apply (simp add: audit_line_def [abs_def] Let_def comp_def)
    done
qed

subsection \<open>Running lines\<close>

fun run_items :: "reader \<Rightarrow> nft_item list \<Rightarrow> reader option" where
  "run_items st [] = Some st"
| "run_items st (i # is) = (case step st i of None \<Rightarrow> None | Some st' \<Rightarrow> run_items st' is)"

lemma run_items_append:
  "run_items st (is @ js) = (case run_items st is of None \<Rightarrow> None | Some st' \<Rightarrow> run_items st' js)"
  by (induction "is" arbitrary: st) (auto split: option.splits)

lemma run_lines_items:
  "\<forall>l \<in> set ls. read_line l = Some (f l) \<Longrightarrow> run_lines st (ls @ [[]]) = run_items st (map f ls)"
proof (induction ls arbitrary: st)
  case Nil
  have "read_line [] = Some Blank" by (simp add: read_line_def words_def read_words_def)
  then show ?case by simp
next
  case (Cons l ls)
  then show ?case by (auto split: option.splits)
qed

lemma split_unlines:
  "\<forall>l \<in> set ls. newline \<notin> set l \<Longrightarrow> split_on newline (unlines ls) = ls @ [[]]"
  by (induction ls) (auto simp: split_on_append)

definition run_script :: "nft_item list \<Rightarrow> nft_cmd list option" where
  "run_script is = (case run_items (Top, []) is of Some (Top, cs) \<Rightarrow> Some cs | _ \<Rightarrow> None)"

lemma read_script_items:
  assumes "list_all line_ok ls"
  shows "read_script (unlines ls) = run_script (map item_of ls)"
    and "read_script (unlines (map audit_line ls)) = run_script (map (audit_item \<circ> item_of) ls)"
proof -
  have r: "\<forall>l \<in> set ls. read_line l = Some (item_of l)"
    and ra: "\<forall>l \<in> set ls. read_line (audit_line l) = Some (audit_item (item_of l))"
    and n: "\<forall>l \<in> set ls. newline \<notin> set l" "\<forall>l \<in> set (map audit_line ls). newline \<notin> set l"
    using assms by (auto simp: list_all_iff dest: line_okD)
  show "read_script (unlines ls) = run_script (map item_of ls)"
    by (simp add: read_script_def run_script_def split_unlines [OF n(1)] run_lines_items [OF r])
  have ra': "\<forall>m \<in> set (map audit_line ls). read_line m = Some (the (read_line m))"
    using ra by auto
  have "map (\<lambda>m. the (read_line m)) (map audit_line ls) = map (audit_item \<circ> item_of) ls"
    using ra by auto
  then show "read_script (unlines (map audit_line ls)) = run_script (map (audit_item \<circ> item_of) ls)"
    by (simp only: read_script_def run_script_def split_unlines [OF n(2)] run_lines_items [OF ra'])
qed

end
