(* ===== verification/RulesetTables.thy ===== *)
theory RulesetTables
  imports RulesetLines
begin

text \<open>
  The lines of the templates, each with what the reader makes of it (\<open>item_of\<close>) and the proof
  that the audit rewrites change it as intended (\<open>line_ok\<close>); then the tables each template
  denotes, written once for both address families.
\<close>

named_theorems lines \<open>the lines of the templates\<close>

subsection \<open>Closed lines\<close>

lemma comment_lines [lines]:
    \<open>line_ok [] \<and> item_of [] = Blank\<close>
    \<open>line_ok ''        # Always allow loopback-bound traffic'' \<and> item_of ''        # Always allow loopback-bound traffic'' = Blank\<close>
    \<open>line_ok ''        # Allow already established connections'' \<and> item_of ''        # Allow already established connections'' = Blank\<close>
    \<open>line_ok ''        # Bypass marked traffic (SO_MARK=0x1)'' \<and> item_of ''        # Bypass marked traffic (SO_MARK=0x1)'' = Blank\<close>
    \<open>line_ok ''        # Allow local proxies on 127.0.0.1'' \<and> item_of ''        # Allow local proxies on 127.0.0.1'' = Blank\<close>
    \<open>line_ok ''        # Explicit allowlist overrides the denylist'' \<and> item_of ''        # Explicit allowlist overrides the denylist'' = Blank\<close>
    \<open>line_ok ''        # Log and drop deny-listed destinations'' \<and> item_of ''        # Log and drop deny-listed destinations'' = Blank\<close>
    \<open>line_ok ''        # Return if allow-listed IP'' \<and> item_of ''        # Return if allow-listed IP'' = Blank\<close>
    \<open>line_ok ''        # Deny-listed IPs are dropped in the filter chain, not proxied'' \<and> item_of ''        # Deny-listed IPs are dropped in the filter chain, not proxied'' = Blank\<close>
    \<open>line_ok ''        # Redirect HTTP (80) to local HTTP proxy'' \<and> item_of ''        # Redirect HTTP (80) to local HTTP proxy'' = Blank\<close>
    \<open>line_ok ''        # Redirect HTTPS (443) to local HTTPS proxy'' \<and> item_of ''        # Redirect HTTPS (443) to local HTTPS proxy'' = Blank\<close>
    \<open>line_ok ''        # Allow local proxies on ::1'' \<and> item_of ''        # Allow local proxies on ::1'' = Blank\<close>
    \<open>line_ok ''        # Allow local DNS proxy on loopback'' \<and> item_of ''        # Allow local DNS proxy on loopback'' = Blank\<close>
    \<open>line_ok ''        # Allow ping to allow-listed destinations'' \<and> item_of ''        # Allow ping to allow-listed destinations'' = Blank\<close>
    \<open>line_ok ''        # Allow and log statically allow-listed destinations'' \<and> item_of ''        # Allow and log statically allow-listed destinations'' = Blank\<close>
    \<open>line_ok ''        # Allow destinations resolved through the DNS proxy (TTL-bounded)'' \<and> item_of ''        # Allow destinations resolved through the DNS proxy (TTL-bounded)'' = Blank\<close>
    \<open>line_ok ''        # Log and drop everything else'' \<and> item_of ''        # Log and drop everything else'' = Blank\<close>
    \<open>line_ok ''        # ICMPv6 neighbour discovery is required for any IPv6 connectivity'' \<and> item_of ''        # ICMPv6 neighbour discovery is required for any IPv6 connectivity'' = Blank\<close>
    \<open>line_ok ''        # Allow and log allow-listed destinations'' \<and> item_of ''        # Allow and log allow-listed destinations'' = Blank\<close>
    \<open>line_ok ''        # Exempt direct access to the local DNS proxy'' \<and> item_of ''        # Exempt direct access to the local DNS proxy'' = Blank\<close>
    \<open>line_ok ''        # Redirect ALL DNS (UDP/TCP 53) to local DNS proxy'' \<and> item_of ''        # Redirect ALL DNS (UDP/TCP 53) to local DNS proxy'' = Blank\<close>
  by (rule comment_line; simp add: words_def)+

lemma structure_lines [lines]:
    \<open>line_ok ''table ip g0efilter_v4 {'' \<and> item_of ''table ip g0efilter_v4 {'' = TableOpen ''ip'' ''g0efilter_v4''\<close>
    \<open>line_ok ''    chain egress_allowlist_v4 {'' \<and> item_of ''    chain egress_allowlist_v4 {'' = ChainOpen ''egress_allowlist_v4''\<close>
    \<open>line_ok ''        type filter hook output priority filter; policy accept;'' \<and> item_of ''        type filter hook output priority filter; policy accept;'' = BaseChain ''filter'' ''filter'' ''accept''\<close>
    \<open>line_ok ''    }'' \<and> item_of ''    }'' = Close\<close>
    \<open>line_ok ''}'' \<and> item_of ''}'' = Close\<close>
    \<open>line_ok ''table ip g0efilter_nat_v4 {'' \<and> item_of ''table ip g0efilter_nat_v4 {'' = TableOpen ''ip'' ''g0efilter_nat_v4''\<close>
    \<open>line_ok ''    chain output {'' \<and> item_of ''    chain output {'' = ChainOpen ''output''\<close>
    \<open>line_ok ''        type nat hook output priority -100;'' \<and> item_of ''        type nat hook output priority -100;'' = BaseChain ''nat'' ''-100'' ''accept''\<close>
    \<open>line_ok ''table ip6 g0efilter_v6 {'' \<and> item_of ''table ip6 g0efilter_v6 {'' = TableOpen ''ip6'' ''g0efilter_v6''\<close>
    \<open>line_ok ''    chain egress_allowlist_v6 {'' \<and> item_of ''    chain egress_allowlist_v6 {'' = ChainOpen ''egress_allowlist_v6''\<close>
    \<open>line_ok ''table ip6 g0efilter_nat_v6 {'' \<and> item_of ''table ip6 g0efilter_nat_v6 {'' = TableOpen ''ip6'' ''g0efilter_nat_v6''\<close>
    \<open>line_ok ''    set resolved_allow_v4 {'' \<and> item_of ''    set resolved_allow_v4 {'' = SetOpen ''resolved_allow_v4''\<close>
    \<open>line_ok ''        type ipv4_addr'' \<and> item_of ''        type ipv4_addr'' = SetType ''ipv4_addr''\<close>
    \<open>line_ok ''        flags timeout'' \<and> item_of ''        flags timeout'' = SetFlags ''timeout''\<close>
    \<open>line_ok ''    set resolved_allow_v6 {'' \<and> item_of ''    set resolved_allow_v6 {'' = SetOpen ''resolved_allow_v6''\<close>
    \<open>line_ok ''        type ipv6_addr'' \<and> item_of ''        type ipv6_addr'' = SetType ''ipv6_addr''\<close>
    \<open>line_ok ''    set allow_daddr_v4 {'' \<and> item_of ''    set allow_daddr_v4 {'' = SetOpen ''allow_daddr_v4''\<close>
    \<open>line_ok ''        flags interval'' \<and> item_of ''        flags interval'' = SetFlags ''interval''\<close>
    \<open>line_ok ''    set allow_daddr_v6 {'' \<and> item_of ''    set allow_daddr_v6 {'' = SetOpen ''allow_daddr_v6''\<close>
    \<open>line_ok ''    set deny_daddr_v4 {'' \<and> item_of ''    set deny_daddr_v4 {'' = SetOpen ''deny_daddr_v4''\<close>
    \<open>line_ok ''    set deny_daddr_v6 {'' \<and> item_of ''    set deny_daddr_v6 {'' = SetOpen ''deny_daddr_v6''\<close>
    \<open>line_ok ''table ip g0efilter_v4'' \<and> item_of ''table ip g0efilter_v4'' = TableStmt ''ip'' ''g0efilter_v4''\<close>
    \<open>line_ok ''delete table ip g0efilter_v4'' \<and> item_of ''delete table ip g0efilter_v4'' = DeleteTable ''ip'' ''g0efilter_v4''\<close>
    \<open>line_ok ''table ip g0efilter_nat_v4'' \<and> item_of ''table ip g0efilter_nat_v4'' = TableStmt ''ip'' ''g0efilter_nat_v4''\<close>
    \<open>line_ok ''delete table ip g0efilter_nat_v4'' \<and> item_of ''delete table ip g0efilter_nat_v4'' = DeleteTable ''ip'' ''g0efilter_nat_v4''\<close>
    \<open>line_ok ''table ip6 g0efilter_v6'' \<and> item_of ''table ip6 g0efilter_v6'' = TableStmt ''ip6'' ''g0efilter_v6''\<close>
    \<open>line_ok ''delete table ip6 g0efilter_v6'' \<and> item_of ''delete table ip6 g0efilter_v6'' = DeleteTable ''ip6'' ''g0efilter_v6''\<close>
    \<open>line_ok ''table ip6 g0efilter_nat_v6'' \<and> item_of ''table ip6 g0efilter_nat_v6'' = TableStmt ''ip6'' ''g0efilter_nat_v6''\<close>
    \<open>line_ok ''delete table ip6 g0efilter_nat_v6'' \<and> item_of ''delete table ip6 g0efilter_nat_v6'' = DeleteTable ''ip6'' ''g0efilter_nat_v6''\<close>
  by (rule plain_line; simp add: no_verdict_def drop_line_def read_eval)+

lemma rule_lines [lines]:
    \<open>line_ok ''        oifname "lo" accept'' \<and> item_of ''        oifname "lo" accept'' = Rule ([OifName ''"lo"''], Accept)\<close>
    \<open>line_ok ''        ct state established,related accept'' \<and> item_of ''        ct state established,related accept'' = Rule ([CtState ''established,related''], Accept)\<close>
    \<open>line_ok ''        meta mark 0x1 accept'' \<and> item_of ''        meta mark 0x1 accept'' = Rule ([MetaMark ''0x1''], Accept)\<close>
    \<open>line_ok ''        ip daddr @allow_daddr_v4 accept'' \<and> item_of ''        ip daddr @allow_daddr_v4 accept'' = Rule ([DaddrIn True ''allow_daddr_v4''], Accept)\<close>
    \<open>line_ok ''        meta mark 0x1 return'' \<and> item_of ''        meta mark 0x1 return'' = Rule ([MetaMark ''0x1''], Return)\<close>
    \<open>line_ok ''        ip daddr @allow_daddr_v4 return'' \<and> item_of ''        ip daddr @allow_daddr_v4 return'' = Rule ([DaddrIn True ''allow_daddr_v4''], Return)\<close>
    \<open>line_ok ''        ip daddr @deny_daddr_v4 return'' \<and> item_of ''        ip daddr @deny_daddr_v4 return'' = Rule ([DaddrIn True ''deny_daddr_v4''], Return)\<close>
    \<open>line_ok ''        tcp dport 80  log prefix "redirected" group 0'' \<and> item_of ''        tcp dport 80  log prefix "redirected" group 0'' = Rule ([TcpDport ''80''], Log ''"redirected"'')\<close>
    \<open>line_ok ''        tcp dport 443 log prefix "redirected" group 0'' \<and> item_of ''        tcp dport 443 log prefix "redirected" group 0'' = Rule ([TcpDport ''443''], Log ''"redirected"'')\<close>
    \<open>line_ok ''        ip6 daddr @allow_daddr_v6 accept'' \<and> item_of ''        ip6 daddr @allow_daddr_v6 accept'' = Rule ([DaddrIn False ''allow_daddr_v6''], Accept)\<close>
    \<open>line_ok ''        ip6 daddr @allow_daddr_v6 return'' \<and> item_of ''        ip6 daddr @allow_daddr_v6 return'' = Rule ([DaddrIn False ''allow_daddr_v6''], Return)\<close>
    \<open>line_ok ''        ip6 daddr @deny_daddr_v6 return'' \<and> item_of ''        ip6 daddr @deny_daddr_v6 return'' = Rule ([DaddrIn False ''deny_daddr_v6''], Return)\<close>
    \<open>line_ok ''        icmp type echo-request ip daddr @allow_daddr_v4 accept'' \<and> item_of ''        icmp type echo-request ip daddr @allow_daddr_v4 accept'' = Rule ([IcmpType True [''echo-request''], DaddrIn True ''allow_daddr_v4''], Accept)\<close>
    \<open>line_ok ''        ip daddr @allow_daddr_v4 log prefix "allowed" group 0'' \<and> item_of ''        ip daddr @allow_daddr_v4 log prefix "allowed" group 0'' = Rule ([DaddrIn True ''allow_daddr_v4''], Log ''"allowed"'')\<close>
    \<open>line_ok ''        ip daddr @resolved_allow_v4 log prefix "allowed" group 0'' \<and> item_of ''        ip daddr @resolved_allow_v4 log prefix "allowed" group 0'' = Rule ([DaddrIn True ''resolved_allow_v4''], Log ''"allowed"'')\<close>
    \<open>line_ok ''        ip daddr @resolved_allow_v4 accept'' \<and> item_of ''        ip daddr @resolved_allow_v4 accept'' = Rule ([DaddrIn True ''resolved_allow_v4''], Accept)\<close>
    \<open>line_ok ''        icmpv6 type echo-request ip6 daddr @allow_daddr_v6 accept'' \<and> item_of ''        icmpv6 type echo-request ip6 daddr @allow_daddr_v6 accept'' = Rule ([IcmpType False [''echo-request''], DaddrIn False ''allow_daddr_v6''], Accept)\<close>
    \<open>line_ok ''        icmpv6 type { nd-neighbor-solicit, nd-neighbor-advert, nd-router-solicit, nd-router-advert } accept'' \<and> item_of ''        icmpv6 type { nd-neighbor-solicit, nd-neighbor-advert, nd-router-solicit, nd-router-advert } accept'' = Rule ([IcmpType False [''nd-neighbor-solicit'', ''nd-neighbor-advert'', ''nd-router-solicit'', ''nd-router-advert'']], Accept)\<close>
    \<open>line_ok ''        ip6 daddr @allow_daddr_v6 log prefix "allowed" group 0'' \<and> item_of ''        ip6 daddr @allow_daddr_v6 log prefix "allowed" group 0'' = Rule ([DaddrIn False ''allow_daddr_v6''], Log ''"allowed"'')\<close>
    \<open>line_ok ''        ip6 daddr @resolved_allow_v6 log prefix "allowed" group 0'' \<and> item_of ''        ip6 daddr @resolved_allow_v6 log prefix "allowed" group 0'' = Rule ([DaddrIn False ''resolved_allow_v6''], Log ''"allowed"'')\<close>
    \<open>line_ok ''        ip6 daddr @resolved_allow_v6 accept'' \<and> item_of ''        ip6 daddr @resolved_allow_v6 accept'' = Rule ([DaddrIn False ''resolved_allow_v6''], Accept)\<close>
    \<open>line_ok ''        ip daddr 127.0.0.1 udp dport 53 return'' \<and> item_of ''        ip daddr 127.0.0.1 udp dport 53 return'' = Rule ([DaddrIs True ''127.0.0.1'', UdpDport ''53''], Return)\<close>
    \<open>line_ok ''        ip daddr 127.0.0.1 tcp dport 53 return'' \<and> item_of ''        ip daddr 127.0.0.1 tcp dport 53 return'' = Rule ([DaddrIs True ''127.0.0.1'', TcpDport ''53''], Return)\<close>
    \<open>line_ok ''        udp dport 53  log prefix "dns_redirected" group 0'' \<and> item_of ''        udp dport 53  log prefix "dns_redirected" group 0'' = Rule ([UdpDport ''53''], Log ''"dns_redirected"'')\<close>
    \<open>line_ok ''        tcp dport 53  log prefix "dns_redirected" group 0'' \<and> item_of ''        tcp dport 53  log prefix "dns_redirected" group 0'' = Rule ([TcpDport ''53''], Log ''"dns_redirected"'')\<close>
    \<open>line_ok ''        ip6 daddr ::1 udp dport 53 return'' \<and> item_of ''        ip6 daddr ::1 udp dport 53 return'' = Rule ([DaddrIs False ''::1'', UdpDport ''53''], Return)\<close>
    \<open>line_ok ''        ip6 daddr ::1 tcp dport 53 return'' \<and> item_of ''        ip6 daddr ::1 tcp dport 53 return'' = Rule ([DaddrIs False ''::1'', TcpDport ''53''], Return)\<close>
  by (rule plain_line; simp add: no_verdict_def drop_line_def read_eval)+

lemma verdict_lines [lines]:
    \<open>line_ok ''        ip daddr @deny_daddr_v4 log prefix "blocked" group 0'' \<and> item_of ''        ip daddr @deny_daddr_v4 log prefix "blocked" group 0'' = Rule ([DaddrIn True ''deny_daddr_v4''], Log ''"blocked"'')\<close>
    \<open>line_ok ''        ip daddr @deny_daddr_v4 drop'' \<and> item_of ''        ip daddr @deny_daddr_v4 drop'' = Rule ([DaddrIn True ''deny_daddr_v4''], Drop)\<close>
    \<open>line_ok ''        ip6 daddr @deny_daddr_v6 log prefix "blocked" group 0'' \<and> item_of ''        ip6 daddr @deny_daddr_v6 log prefix "blocked" group 0'' = Rule ([DaddrIn False ''deny_daddr_v6''], Log ''"blocked"'')\<close>
    \<open>line_ok ''        ip6 daddr @deny_daddr_v6 drop'' \<and> item_of ''        ip6 daddr @deny_daddr_v6 drop'' = Rule ([DaddrIn False ''deny_daddr_v6''], Drop)\<close>
    \<open>line_ok ''        log prefix "blocked" group 0'' \<and> item_of ''        log prefix "blocked" group 0'' = Rule ([], Log ''"blocked"'')\<close>
    \<open>line_ok ''        drop'' \<and> item_of ''        drop'' = Rule ([], Drop)\<close>
    \<open>line_ok ''        type filter hook output priority filter; policy drop;'' \<and> item_of ''        type filter hook output priority filter; policy drop;'' = BaseChain ''filter'' ''filter'' ''drop''\<close>
  by code_simp+

subsection \<open>Lines with a port\<close>

lemma itoa_clean: "0 \<le> p \<Longrightarrow> \<not> is_digit_char c \<Longrightarrow> c \<notin> set (itoa p)"
  using itoa_nonneg_chars [of p] by (auto simp: list_all_iff)

lemma itoa_nonempty: "itoa p \<noteq> []"
  by (simp add: itoa_def nat_digits_nonempty)

lemma itoa_words:
  assumes "0 \<le> p"
  shows "takeWhile (\<lambda>c. c \<noteq> CHR ''#'') (itoa p @ s) = itoa p @ takeWhile (\<lambda>c. c \<noteq> CHR ''#'') s"
    and "takeWhile (\<lambda>c. c \<noteq> CHR ''#'') (itoa p) = itoa p"
    and "split_on CHR '' '' (itoa p @ CHR '' '' # s) = itoa p # split_on CHR '' '' s"
    and "split_on CHR '' '' (itoa p) = [itoa p]"
proof -
  have c: "CHR ''#'' \<notin> set (itoa p)" "CHR '' '' \<notin> set (itoa p)"
    by (simp_all add: itoa_clean [OF assms] is_digit_char_def)
  then show "takeWhile (\<lambda>c. c \<noteq> CHR ''#'') (itoa p @ s) = itoa p @ takeWhile (\<lambda>c. c \<noteq> CHR ''#'') s"
    by (subst takeWhile_append2) auto
  show "takeWhile (\<lambda>c. c \<noteq> CHR ''#'') (itoa p) = itoa p"
    using c by (auto simp: takeWhile_eq_all_conv)
  show "split_on CHR '' '' (itoa p @ CHR '' '' # s) = itoa p # split_on CHR '' '' s"
    "split_on CHR '' '' (itoa p) = [itoa p]"
    using c by (simp_all add: split_on_append split_on_no_occurrence)
qed

lemma itoa_no_char:
  assumes "0 \<le> p"
  shows "newline \<notin> set (itoa p)" "CHR '';'' \<notin> set (itoa p)" "CHR 0x22 \<notin> set (itoa p)"
    "CHR ''@'' \<notin> set (itoa p)"
  by (simp_all add: itoa_clean [OF assms] is_digit_char_def)

lemmas port_eval = itoa_words itoa_no_char itoa_nonempty

lemma port_lines_0:
  assumes "0 \<le> p"
  shows
    "line_ok (''        ip daddr 127.0.0.1 tcp dport '' @ itoa p @ '' accept    # HTTP proxy'') \<and> item_of (''        ip daddr 127.0.0.1 tcp dport '' @ itoa p @ '' accept    # HTTP proxy'') = Rule ([DaddrIs True ''127.0.0.1'', TcpDport (itoa p)], Accept)"
    "line_ok (''        ip daddr 127.0.0.1 tcp dport '' @ itoa p @ '' accept    # HTTPS proxy'') \<and> item_of (''        ip daddr 127.0.0.1 tcp dport '' @ itoa p @ '' accept    # HTTPS proxy'') = Rule ([DaddrIs True ''127.0.0.1'', TcpDport (itoa p)], Accept)"
    "line_ok (''        tcp dport 80  redirect to :'' @ itoa p) \<and> item_of (''        tcp dport 80  redirect to :'' @ itoa p) = Rule ([TcpDport ''80''], Redirect (itoa p))"
    "line_ok (''        tcp dport 443 redirect to :'' @ itoa p) \<and> item_of (''        tcp dport 443 redirect to :'' @ itoa p) = Rule ([TcpDport ''443''], Redirect (itoa p))"
    "line_ok (''        ip6 daddr ::1 tcp dport '' @ itoa p @ '' accept    # HTTP proxy'') \<and> item_of (''        ip6 daddr ::1 tcp dport '' @ itoa p @ '' accept    # HTTP proxy'') = Rule ([DaddrIs False ''::1'', TcpDport (itoa p)], Accept)"
    "line_ok (''        ip6 daddr ::1 tcp dport '' @ itoa p @ '' accept    # HTTPS proxy'') \<and> item_of (''        ip6 daddr ::1 tcp dport '' @ itoa p @ '' accept    # HTTPS proxy'') = Rule ([DaddrIs False ''::1'', TcpDport (itoa p)], Accept)"
    "line_ok (''        ip daddr 127.0.0.1 udp dport '' @ itoa p @ '' accept'') \<and> item_of (''        ip daddr 127.0.0.1 udp dport '' @ itoa p @ '' accept'') = Rule ([DaddrIs True ''127.0.0.1'', UdpDport (itoa p)], Accept)"
    "line_ok (''        ip daddr 127.0.0.1 tcp dport '' @ itoa p @ '' accept'') \<and> item_of (''        ip daddr 127.0.0.1 tcp dport '' @ itoa p @ '' accept'') = Rule ([DaddrIs True ''127.0.0.1'', TcpDport (itoa p)], Accept)"
    "line_ok (''        ip6 daddr ::1 udp dport '' @ itoa p @ '' accept'') \<and> item_of (''        ip6 daddr ::1 udp dport '' @ itoa p @ '' accept'') = Rule ([DaddrIs False ''::1'', UdpDport (itoa p)], Accept)"
    "line_ok (''        ip6 daddr ::1 tcp dport '' @ itoa p @ '' accept'') \<and> item_of (''        ip6 daddr ::1 tcp dport '' @ itoa p @ '' accept'') = Rule ([DaddrIs False ''::1'', TcpDport (itoa p)], Accept)"
    "line_ok (''        ip daddr 127.0.0.1 udp dport '' @ itoa p @ '' return'') \<and> item_of (''        ip daddr 127.0.0.1 udp dport '' @ itoa p @ '' return'') = Rule ([DaddrIs True ''127.0.0.1'', UdpDport (itoa p)], Return)"
    "line_ok (''        ip daddr 127.0.0.1 tcp dport '' @ itoa p @ '' return'') \<and> item_of (''        ip daddr 127.0.0.1 tcp dport '' @ itoa p @ '' return'') = Rule ([DaddrIs True ''127.0.0.1'', TcpDport (itoa p)], Return)"
    "line_ok (''        udp dport 53  redirect to :'' @ itoa p) \<and> item_of (''        udp dport 53  redirect to :'' @ itoa p) = Rule ([UdpDport ''53''], Redirect (itoa p))"
    "line_ok (''        tcp dport 53  redirect to :'' @ itoa p) \<and> item_of (''        tcp dport 53  redirect to :'' @ itoa p) = Rule ([TcpDport ''53''], Redirect (itoa p))"
    "line_ok (''        ip6 daddr ::1 udp dport '' @ itoa p @ '' return'') \<and> item_of (''        ip6 daddr ::1 udp dport '' @ itoa p @ '' return'') = Rule ([DaddrIs False ''::1'', UdpDport (itoa p)], Return)"
    "line_ok (''        ip6 daddr ::1 tcp dport '' @ itoa p @ '' return'') \<and> item_of (''        ip6 daddr ::1 tcp dport '' @ itoa p @ '' return'') = Rule ([DaddrIs False ''::1'', TcpDport (itoa p)], Return)"
  by (rule plain_line; simp add: no_verdict_def drop_line_def read_eval port_eval assms)+

lemmas port_lines [lines] = port_lines_0 [unfolded append.simps]

subsection \<open>The elements line\<close>

definition plain_entries :: "string list \<Rightarrow> bool" where
  "plain_entries es \<longleftrightarrow> list_all (\<lambda>e. e \<noteq> [] \<and> list_all cidr_char e) es"

lemma concat_split_on: "concat (split_on c s) = filter (\<lambda>x. x \<noteq> c) s"
proof (induction s)
  case Nil
  then show ?case by simp
next
  case (Cons x s)
  obtain w ws where "split_on c s = w # ws" using split_on_ex by blast
  with Cons show ?case by auto
qed

lemma concat_nonempty: "concat (filter (\<lambda>w. w \<noteq> []) ws) = concat ws"
  by (induction ws) auto

lemma not_cidr_char:
  "\<not> cidr_char newline" "\<not> cidr_char CHR '' ''" "\<not> cidr_char CHR '',''" "\<not> cidr_char CHR ''#''"
  "\<not> cidr_char CHR '';''" "\<not> cidr_char CHR 0x22" "\<not> cidr_char CHR ''@''" "\<not> cidr_char CHR ''{''"
  "\<not> cidr_char CHR ''}''"
  by (simp_all add: cidr_char_def ip_char_def hex_val_def is_digit_char_def)

lemma cidr_char_clean:
  "cidr_char c \<Longrightarrow> c \<notin> {newline, CHR '' '', CHR '','', CHR ''#'', CHR '';'', CHR 0x22, CHR ''@'', CHR ''{'', CHR ''}''}"
  using not_cidr_char by blast

lemma join_chars:
  "plain_entries es \<Longrightarrow> c \<in> set (join_with '', '' es) \<Longrightarrow> cidr_char c \<or> c = CHR '','' \<or> c = CHR '' ''"
  unfolding plain_entries_def
  by (induction "'', ''" es rule: join_with.induct) (auto simp: list_all_iff)

lemma entry_filter: "list_all cidr_char e \<Longrightarrow> filter (\<lambda>c. c \<noteq> CHR '' '') e = e"
  using not_cidr_char(2) by (auto simp: filter_id_conv list_all_iff)

lemma join_filter:
  "plain_entries es \<Longrightarrow> filter (\<lambda>c. c \<noteq> CHR '' '') (join_with '', '' es) = join_with '','' es"
  unfolding plain_entries_def
  by (induction "'', ''" es rule: join_with.induct) (auto simp: entry_filter)

lemma join_nonempty: "plain_entries es \<Longrightarrow> es \<noteq> [] \<Longrightarrow> join_with '', '' es \<noteq> []"
  unfolding plain_entries_def by (cases es rule: remdups_adj.cases) auto

lemma elements_line_0:
  assumes es: "plain_entries es" "es \<noteq> []"
  shows "line_ok (''        elements = {'' @ join_with '', '' es @ ''}'') \<and>
    item_of (''        elements = {'' @ join_with '', '' es @ ''}'') = SetElements es"
proof (rule plain_line)
  let ?J = "join_with '', '' es"
  have c: "c \<notin> set ?J" if "c \<in> {newline, CHR ''#'', CHR '';'', CHR 0x22, CHR ''@'', CHR ''{'', CHR ''}''}" for c
  proof
    assume "c \<in> set ?J"
    from join_chars [OF es(1) this] show False
      using that not_cidr_char by auto
  qed
  show "no_verdict (''        elements = {'' @ ?J @ ''}'')"
    using c by (simp add: no_verdict_def drop_line_def)
  let ?ws = "filter (\<lambda>w. w \<noteq> []) (split_on CHR '' '' (CHR ''{'' # ?J @ ''}''))"
  have tw: "takeWhile (\<lambda>c. c \<noteq> CHR ''#'') (?J @ ''}'') = ?J @ ''}''"
    using c [of "CHR ''#''"] by (auto simp: takeWhile_eq_all_conv)
  have w: "words (''        elements = {'' @ ?J @ ''}'') = ''elements'' # ''='' # ?ws"
    using tw by (simp add: words_def)
  have cat: "concat ?ws = CHR ''{'' # join_with '','' es @ ''}''"
    by (simp add: concat_nonempty concat_split_on join_filter es del: split_on.simps)
  then have "?ws \<noteq> []" by (metis concat.simps(1) list.distinct(1))
  then obtain v vs where ws: "?ws = v # vs" by (cases ?ws) auto
  have nc: "\<forall>e \<in> set es. CHR '','' \<notin> set e"
    using es(1) not_cidr_char(3) by (auto simp: plain_entries_def list_all_iff)
  have "read_elements ?ws = Some (split_on CHR '','' (join_with '','' es))"
    unfolding read_elements_def Let_def cat by (simp add: has_suffix_iff has_prefix_def)
  also have "\<dots> = Some es" using split_join [OF es(2) nc] by simp
  finally have "read_elements (v # vs) = Some es" using ws by simp
  then show "read_words (words (''        elements = {'' @ ?J @ ''}'')) = Some (SetElements es)"
    unfolding w ws by (simp add: read_words_def)
qed simp_all

lemmas elements_line [lines] = elements_line_0 [unfolded append.simps]

end
