(* ===== verification/RulesetTemplates.thy ===== *)
theory RulesetTemplates
  imports RulesetTables
begin

text \<open>
  The table each template denotes. The IPv4 and the IPv6 template of a pair denote the same
  table up to the names and the loopback address, so the tables are functions of the family.
  \<open>puts text ts\<close> says that a text reads as the definitions of the tables \<open>ts\<close>, and its audit
  rewrite as those tables with every drop turned into an accept (\<open>audit_table\<close>).
\<close>

subsection \<open>Tables\<close>

definition fam :: "bool \<Rightarrow> string" where "fam is4 = (if is4 then ''ip'' else ''ip6'')"
definition lo_text :: "bool \<Rightarrow> string" where "lo_text is4 = (if is4 then ''127.0.0.1'' else ''::1'')"
definition allow_set :: "bool \<Rightarrow> string" where
  "allow_set is4 = (if is4 then ''allow_daddr_v4'' else ''allow_daddr_v6'')"
definition deny_set :: "bool \<Rightarrow> string" where
  "deny_set is4 = (if is4 then ''deny_daddr_v4'' else ''deny_daddr_v6'')"
definition resolved_set :: "bool \<Rightarrow> string" where
  "resolved_set is4 = (if is4 then ''resolved_allow_v4'' else ''resolved_allow_v6'')"
definition addr_type :: "bool \<Rightarrow> string" where
  "addr_type is4 = (if is4 then ''ipv4_addr'' else ''ipv6_addr'')"

lemmas family_defs = fam_def lo_text_def allow_set_def deny_set_def resolved_set_def addr_type_def

definition interval_set :: "bool \<Rightarrow> string \<Rightarrow> string list \<Rightarrow> nft_set" where
  "interval_set is4 n es =
     \<lparr>set_name = n, set_type = addr_type is4, set_flags = ''interval'', set_elements = es\<rparr>"

definition filter_table :: "bool \<Rightarrow> nft_set list \<Rightarrow> string \<Rightarrow> nft_rule list \<Rightarrow> nft_table" where
  "filter_table is4 ss policy rules =
     \<lparr>table_family = fam is4, table_name = (if is4 then ''g0efilter_v4'' else ''g0efilter_v6''),
      table_sets = ss,
      table_chains =
        [\<lparr>chain_name = (if is4 then ''egress_allowlist_v4'' else ''egress_allowlist_v6''),
          chain_type = ''filter'', chain_prio = ''filter'', chain_policy = policy,
          chain_rules = rules\<rparr>]\<rparr>"

definition nat_table :: "bool \<Rightarrow> nft_set list \<Rightarrow> nft_rule list \<Rightarrow> nft_table" where
  "nat_table is4 ss rules =
     \<lparr>table_family = fam is4, table_name = (if is4 then ''g0efilter_nat_v4'' else ''g0efilter_nat_v6''),
      table_sets = ss,
      table_chains =
        [\<lparr>chain_name = ''output'', chain_type = ''nat'', chain_prio = ''-100'',
          chain_policy = ''accept'', chain_rules = rules\<rparr>]\<rparr>"

definition guards :: "nft_rule list" where
  \<open>guards =
     [([OifName ''"lo"''], Accept), ([CtState ''established,related''], Accept),
      ([MetaMark ''0x1''], Accept)]\<close>

definition to_lo :: "bool \<Rightarrow> nft_match \<Rightarrow> nft_stmt \<Rightarrow> nft_rule" where
  "to_lo is4 port v = ([DaddrIs is4 (lo_text is4), port], v)"

definition ping_rule :: "bool \<Rightarrow> nft_rule" where
  "ping_rule is4 = ([IcmpType is4 [''echo-request''], DaddrIn is4 (allow_set is4)], Accept)"

definition logged :: "nft_match list \<Rightarrow> string \<Rightarrow> nft_stmt \<Rightarrow> nft_rule list" where
  "logged ms pre v = [(ms, Log (CHR 0x22 # pre @ [CHR 0x22])), (ms, v)]"

definition in_set :: "bool \<Rightarrow> string \<Rightarrow> nft_match list" where "in_set is4 n = [DaddrIn is4 n]"

definition https_filter :: "bool \<Rightarrow> string list \<Rightarrow> int \<Rightarrow> int \<Rightarrow> nft_table" where
  "https_filter is4 es hp sp =
     filter_table is4 [interval_set is4 (allow_set is4) es] ''drop''
       (guards @
        [to_lo is4 (TcpDport (itoa hp)) Accept, to_lo is4 (TcpDport (itoa sp)) Accept, ping_rule is4] @
        logged (in_set is4 (allow_set is4)) ''allowed'' Accept @ logged [] ''blocked'' Drop)"

definition https_nat :: "bool \<Rightarrow> string list \<Rightarrow> int \<Rightarrow> int \<Rightarrow> nft_table" where
  "https_nat is4 es hp sp =
     nat_table is4 [interval_set is4 (allow_set is4) es]
       ([([MetaMark ''0x1''], Return), (in_set is4 (allow_set is4), Return)] @
        logged [TcpDport ''80''] ''redirected'' (Redirect (itoa hp)) @
        logged [TcpDport ''443''] ''redirected'' (Redirect (itoa sp)))"

definition denylist_rules :: "bool \<Rightarrow> nft_rule list" where
  "denylist_rules is4 =
     (in_set is4 (allow_set is4), Accept) # logged (in_set is4 (deny_set is4)) ''blocked'' Drop"

definition https_filter_allow :: "bool \<Rightarrow> string list \<Rightarrow> string list \<Rightarrow> int \<Rightarrow> int \<Rightarrow> nft_table" where
  "https_filter_allow is4 es ds hp sp =
     filter_table is4 [interval_set is4 (allow_set is4) es, interval_set is4 (deny_set is4) ds] ''accept''
       (guards @
        [to_lo is4 (TcpDport (itoa hp)) Accept, to_lo is4 (TcpDport (itoa sp)) Accept] @
        denylist_rules is4)"

definition https_nat_allow :: "bool \<Rightarrow> string list \<Rightarrow> string list \<Rightarrow> int \<Rightarrow> int \<Rightarrow> nft_table" where
  "https_nat_allow is4 es ds hp sp =
     nat_table is4 [interval_set is4 (allow_set is4) es, interval_set is4 (deny_set is4) ds]
       ([([MetaMark ''0x1''], Return), (in_set is4 (allow_set is4), Return),
         (in_set is4 (deny_set is4), Return)] @
        logged [TcpDport ''80''] ''redirected'' (Redirect (itoa hp)) @
        logged [TcpDport ''443''] ''redirected'' (Redirect (itoa sp)))"

definition dns_filter_allow :: "bool \<Rightarrow> string list \<Rightarrow> string list \<Rightarrow> int \<Rightarrow> nft_table" where
  "dns_filter_allow is4 es ds dp =
     filter_table is4 [interval_set is4 (allow_set is4) es, interval_set is4 (deny_set is4) ds] ''accept''
       (guards @
        [to_lo is4 (UdpDport (itoa dp)) Accept, to_lo is4 (TcpDport (itoa dp)) Accept] @
        denylist_rules is4)"

definition dns_filter :: "bool \<Rightarrow> string list \<Rightarrow> int \<Rightarrow> nft_table" where
  "dns_filter is4 es dp =
     filter_table is4 [interval_set is4 (allow_set is4) es] ''accept''
       (guards @
        [to_lo is4 (UdpDport (itoa dp)) Accept, to_lo is4 (TcpDport (itoa dp)) Accept, ping_rule is4])"

definition nd_rules :: "bool \<Rightarrow> nft_rule list" where
  "nd_rules is4 =
     (if is4 then []
      else [([IcmpType False [''nd-neighbor-solicit'', ''nd-neighbor-advert'', ''nd-router-solicit'',
                              ''nd-router-advert'']], Accept)])"

definition dns_strict_filter :: "bool \<Rightarrow> string list \<Rightarrow> int \<Rightarrow> nft_table" where
  "dns_strict_filter is4 es dp =
     filter_table is4
       [interval_set is4 (allow_set is4) es,
        \<lparr>set_name = resolved_set is4, set_type = addr_type is4, set_flags = ''timeout'', set_elements = []\<rparr>]
       ''drop''
       (guards @
        [to_lo is4 (UdpDport (itoa dp)) Accept, to_lo is4 (TcpDport (itoa dp)) Accept, ping_rule is4] @
        nd_rules is4 @
        logged (in_set is4 (allow_set is4)) ''allowed'' Accept @
        logged (in_set is4 (resolved_set is4)) ''allowed'' Accept @ logged [] ''blocked'' Drop)"

definition dns_nat :: "bool \<Rightarrow> int \<Rightarrow> nft_table" where
  "dns_nat is4 dp =
     nat_table is4 []
       ([([MetaMark ''0x1''], Return),
         to_lo is4 (UdpDport ''53'') Return, to_lo is4 (TcpDport ''53'') Return,
         to_lo is4 (UdpDport (itoa dp)) Return, to_lo is4 (TcpDport (itoa dp)) Return] @
        logged [UdpDport ''53''] ''dns_redirected'' (Redirect (itoa dp)) @
        logged [TcpDport ''53''] ''dns_redirected'' (Redirect (itoa dp)))"

lemmas rule_defs = guards_def to_lo_def ping_rule_def logged_def in_set_def denylist_rules_def nd_rules_def

lemmas table_defs = https_filter_def https_nat_def https_filter_allow_def https_nat_allow_def
  dns_filter_allow_def dns_filter_def dns_strict_filter_def dns_nat_def

subsection \<open>Audit on tables\<close>

definition audit_chain :: "nft_chain \<Rightarrow> nft_chain" where
  "audit_chain c =
     c\<lparr>chain_policy := (if chain_policy c = ''drop'' then ''accept'' else chain_policy c),
       chain_rules := map (\<lambda>(ms, s). (ms, audit_stmt s)) (chain_rules c)\<rparr>"

definition audit_table :: "nft_table \<Rightarrow> nft_table" where
  "audit_table t = t\<lparr>table_chains := map audit_chain (table_chains t)\<rparr>"

subsection \<open>Texts that define tables\<close>

definition lines_put :: "string list \<Rightarrow> nft_table list \<Rightarrow> bool" where
  "lines_put ls ts \<longleftrightarrow>
     list_all line_ok ls \<and> isolated (Rule ([], Drop)) (map item_of ls) \<and>
     (\<forall>cs. run_items (Top, cs) (map item_of ls) = Some (Top, cs @ map PutTable ts)) \<and>
     (\<forall>cs. run_items (Top, cs) (map (audit_item \<circ> item_of) ls)
       = Some (Top, cs @ map (PutTable \<circ> audit_table) ts))"

definition puts :: "string \<Rightarrow> nft_table list \<Rightarrow> bool" where
  "puts text ts \<longleftrightarrow> (\<exists>ls. text = newline # unlines ls \<and> lines_put ls ts)"

lemma isolated_append_Blank:
  "isolated w xs \<Longrightarrow> isolated w ys \<Longrightarrow> b \<noteq> w \<Longrightarrow> isolated w (xs @ b # ys)"
proof (induction xs)
  case Nil
  then show ?case by (cases ys) (auto simp: isolated_def)
next
  case (Cons x xs)
  then show ?case by (cases xs) (auto simp: isolated_def)
qed

lemma blank_line: "line_ok []" "item_of [] = Blank"
  by (simp_all add: lines)

lemma lines_put_append:
  assumes a: "lines_put xs ts" and b: "lines_put ys us"
  shows "lines_put (xs @ [] # [] # ys) (ts @ us)"
proof -
  have "isolated (Rule ([], Drop)) (map item_of ([] # ys))"
    using isolated_append_Blank [of "Rule ([], Drop)" "[]" "map item_of ys" Blank] b
    by (simp add: lines_put_def blank_line isolated_def)
  then have "isolated (Rule ([], Drop)) (map item_of xs @ Blank # map item_of ([] # ys))"
    using a by (intro isolated_append_Blank) (simp_all add: lines_put_def)
  with a b show ?thesis
    by (simp add: lines_put_def blank_line run_items_append)
qed

lemma puts_append:
  assumes "puts a ts" "puts b us"
  shows "puts (a @ [newline] @ b) (ts @ us)"
proof -
  obtain xs ys where x: "a = newline # unlines xs" "lines_put xs ts"
    and y: "b = newline # unlines ys" "lines_put ys us"
    using assms by (auto simp: puts_def)
  have "a @ [newline] @ b = newline # unlines (xs @ [] # [] # ys)"
    by (simp add: x y unlines_append)
  with lines_put_append [OF x(2) y(2)] show ?thesis unfolding puts_def by blast
qed

lemma puts_read:
  assumes "puts text ts"
  shows "read_script text = Some (map PutTable ts)"
    and "read_script (audit_ruleset text) = Some (map (PutTable \<circ> audit_table) ts)"
proof -
  obtain ls where t: "text = newline # unlines ls" and ok: "lines_put ls ts"
    using assms by (auto simp: puts_def)
  have l: "list_all line_ok ([] # ls)" using ok by (simp add: lines_put_def blank_line)
  have "audit_line [] = []" by (simp add: audit_line_def pre_audit_def drop_line_def)
  then have "audit_ruleset text = unlines (map audit_line ([] # ls))"
    using ok audit_ruleset_lines [of ls] by (simp add: t lines_put_def)
  then show "read_script (audit_ruleset text) = Some (map (PutTable \<circ> audit_table) ts)"
    using read_script_items(2) [OF l] ok by (simp add: run_script_def lines_put_def blank_line)
  show "read_script text = Some (map PutTable ts)"
    using read_script_items(1) [OF l] ok by (simp add: t run_script_def lines_put_def blank_line)
qed

lemma puts_lines:
  assumes "text = unlines ([] # ls)" "list_all line_ok ls" "isolated (Rule ([], Drop)) (map item_of ls)"
    and "\<And>cs. run_items (Top, cs) (map item_of ls) = Some (Top, cs @ [PutTable t])"
    and "\<And>cs. run_items (Top, cs) (map (audit_item \<circ> item_of) ls) = Some (Top, cs @ [PutTable (audit_table t)])"
  shows "puts text [t]"
  using assms by (auto simp: puts_def lines_put_def)

lemmas flatten_text = unlines_append [symmetric] append.simps

lemmas put_defs = table_defs family_defs rule_defs filter_table_def nat_table_def interval_set_def
  audit_table_def audit_chain_def isolated_def

lemma set_block_nonempty:
  "plain_entries es \<Longrightarrow> es \<noteq> [] \<Longrightarrow>
   set_block n t (join_with '', '' es) =
     unlines
      [''    set '' @ n @ '' {'', ''        type '' @ t, ''        flags interval'',
       ''        elements = {'' @ join_with '', '' es @ ''}'', ''    }'']"
  by (simp add: set_block_def join_nonempty del: unlines.simps)

lemma set_block_empty:
  "set_block n t (join_with '', '' []) =
     unlines [''    set '' @ n @ '' {'', ''        type '' @ t, ''        flags interval'', ''    }'']"
  by (simp add: set_block_def)

subsection \<open>The templates\<close>

lemma puts_https_filter:
  assumes "plain_entries es" "es \<noteq> []" "0 \<le> hp" "0 \<le> sp"
  shows "puts (generate_https_filter_rules (join_with '', '' es) hp sp) [https_filter True es hp sp]"
  by (rule puts_lines, unfold generate_https_filter_rules_def flatten_text, rule refl) (simp_all add: lines assms put_defs)

lemma puts_https_nat:
  assumes "plain_entries es" "es \<noteq> []" "0 \<le> hp" "0 \<le> sp"
  shows "puts (generate_https_nat_rules (join_with '', '' es) hp sp) [https_nat True es hp sp]"
  by (rule puts_lines, unfold generate_https_nat_rules_def flatten_text, rule refl) (simp_all add: lines assms put_defs)

lemma puts_dns_filter:
  assumes "plain_entries es" "es \<noteq> []" "0 \<le> dp"
  shows "puts (generate_dns_filter_rules (join_with '', '' es) dp) [dns_filter True es dp]"
  by (rule puts_lines, unfold generate_dns_filter_rules_def flatten_text, rule refl) (simp_all add: lines assms put_defs)

lemma puts_dns_nat:
  assumes "0 \<le> dp"
  shows "puts (generate_dns_nat_rules dp) [dns_nat True dp]"
  by (rule puts_lines, unfold generate_dns_nat_rules_def flatten_text, rule refl) (simp_all add: lines assms put_defs)

lemma puts_dns_strict_filter:
  assumes "plain_entries es" "es \<noteq> []" "0 \<le> dp"
  shows "puts (generate_dns_strict_filter_rules (join_with '', '' es) dp) [dns_strict_filter True es dp]"
  by (rule puts_lines, unfold generate_dns_strict_filter_rules_def set_block_nonempty [OF assms(1,2)] flatten_text, rule refl) (simp_all add: lines assms put_defs)

lemma puts_https_filter_allow:
  assumes "plain_entries es" "es \<noteq> []" "plain_entries ds" "0 \<le> hp" "0 \<le> sp"
  shows "puts (generate_https_filter_rules_allow (join_with '', '' es) (join_with '', '' ds) hp sp) [https_filter_allow True es ds hp sp]"
proof (cases "ds = []")
  case True
  show ?thesis
    unfolding True generate_https_filter_rules_allow_def set_block_nonempty [OF assms(1,2)] set_block_empty flatten_text
    by (rule puts_lines, rule refl) (simp_all add: lines assms put_defs)
next
  case False
  show ?thesis
    unfolding generate_https_filter_rules_allow_def set_block_nonempty [OF assms(1,2)] set_block_nonempty [OF assms(3) False]
      flatten_text
    by (rule puts_lines, rule refl) (simp_all add: lines assms False put_defs)
qed

lemma puts_https_nat_allow:
  assumes "plain_entries es" "es \<noteq> []" "plain_entries ds" "0 \<le> hp" "0 \<le> sp"
  shows "puts (generate_https_nat_rules_allow (join_with '', '' es) (join_with '', '' ds) hp sp) [https_nat_allow True es ds hp sp]"
proof (cases "ds = []")
  case True
  show ?thesis
    unfolding True generate_https_nat_rules_allow_def set_block_nonempty [OF assms(1,2)] set_block_empty flatten_text
    by (rule puts_lines, rule refl) (simp_all add: lines assms put_defs)
next
  case False
  show ?thesis
    unfolding generate_https_nat_rules_allow_def set_block_nonempty [OF assms(1,2)] set_block_nonempty [OF assms(3) False]
      flatten_text
    by (rule puts_lines, rule refl) (simp_all add: lines assms False put_defs)
qed

lemma puts_dns_filter_allow:
  assumes "plain_entries es" "es \<noteq> []" "plain_entries ds" "0 \<le> dp"
  shows "puts (generate_dns_filter_rules_allow (join_with '', '' es) (join_with '', '' ds) dp) [dns_filter_allow True es ds dp]"
proof (cases "ds = []")
  case True
  show ?thesis
    unfolding True generate_dns_filter_rules_allow_def set_block_nonempty [OF assms(1,2)] set_block_empty flatten_text
    by (rule puts_lines, rule refl) (simp_all add: lines assms put_defs)
next
  case False
  show ?thesis
    unfolding generate_dns_filter_rules_allow_def set_block_nonempty [OF assms(1,2)] set_block_nonempty [OF assms(3) False]
      flatten_text
    by (rule puts_lines, rule refl) (simp_all add: lines assms False put_defs)
qed

lemma puts_https_filter_v6:
  assumes "plain_entries es" "es \<noteq> []" "0 \<le> hp" "0 \<le> sp"
  shows "puts (generate_https_filter_rules_v6 (join_with '', '' es) hp sp) [https_filter False es hp sp]"
  by (rule puts_lines, unfold generate_https_filter_rules_v6_def flatten_text, rule refl) (simp_all add: lines assms put_defs)

lemma puts_https_nat_v6:
  assumes "plain_entries es" "es \<noteq> []" "0 \<le> hp" "0 \<le> sp"
  shows "puts (generate_https_nat_rules_v6 (join_with '', '' es) hp sp) [https_nat False es hp sp]"
  by (rule puts_lines, unfold generate_https_nat_rules_v6_def flatten_text, rule refl) (simp_all add: lines assms put_defs)

lemma puts_dns_filter_v6:
  assumes "plain_entries es" "es \<noteq> []" "0 \<le> dp"
  shows "puts (generate_dns_filter_rules_v6 (join_with '', '' es) dp) [dns_filter False es dp]"
  by (rule puts_lines, unfold generate_dns_filter_rules_v6_def flatten_text, rule refl) (simp_all add: lines assms put_defs)

lemma puts_dns_nat_v6:
  assumes "0 \<le> dp"
  shows "puts (generate_dns_nat_rules_v6 dp) [dns_nat False dp]"
  by (rule puts_lines, unfold generate_dns_nat_rules_v6_def flatten_text, rule refl) (simp_all add: lines assms put_defs)

lemma puts_dns_strict_filter_v6:
  assumes "plain_entries es" "es \<noteq> []" "0 \<le> dp"
  shows "puts (generate_dns_strict_filter_rules_v6 (join_with '', '' es) dp) [dns_strict_filter False es dp]"
  by (rule puts_lines, unfold generate_dns_strict_filter_rules_v6_def set_block_nonempty [OF assms(1,2)] flatten_text, rule refl) (simp_all add: lines assms put_defs)

lemma puts_https_filter_allow_v6:
  assumes "plain_entries es" "es \<noteq> []" "plain_entries ds" "0 \<le> hp" "0 \<le> sp"
  shows "puts (generate_https_filter_rules_allow_v6 (join_with '', '' es) (join_with '', '' ds) hp sp) [https_filter_allow False es ds hp sp]"
proof (cases "ds = []")
  case True
  show ?thesis
    unfolding True generate_https_filter_rules_allow_v6_def set_block_nonempty [OF assms(1,2)] set_block_empty flatten_text
    by (rule puts_lines, rule refl) (simp_all add: lines assms put_defs)
next
  case False
  show ?thesis
    unfolding generate_https_filter_rules_allow_v6_def set_block_nonempty [OF assms(1,2)] set_block_nonempty [OF assms(3) False]
      flatten_text
    by (rule puts_lines, rule refl) (simp_all add: lines assms False put_defs)
qed

lemma puts_https_nat_allow_v6:
  assumes "plain_entries es" "es \<noteq> []" "plain_entries ds" "0 \<le> hp" "0 \<le> sp"
  shows "puts (generate_https_nat_rules_allow_v6 (join_with '', '' es) (join_with '', '' ds) hp sp) [https_nat_allow False es ds hp sp]"
proof (cases "ds = []")
  case True
  show ?thesis
    unfolding True generate_https_nat_rules_allow_v6_def set_block_nonempty [OF assms(1,2)] set_block_empty flatten_text
    by (rule puts_lines, rule refl) (simp_all add: lines assms put_defs)
next
  case False
  show ?thesis
    unfolding generate_https_nat_rules_allow_v6_def set_block_nonempty [OF assms(1,2)] set_block_nonempty [OF assms(3) False]
      flatten_text
    by (rule puts_lines, rule refl) (simp_all add: lines assms False put_defs)
qed

lemma puts_dns_filter_allow_v6:
  assumes "plain_entries es" "es \<noteq> []" "plain_entries ds" "0 \<le> dp"
  shows "puts (generate_dns_filter_rules_allow_v6 (join_with '', '' es) (join_with '', '' ds) dp) [dns_filter_allow False es ds dp]"
proof (cases "ds = []")
  case True
  show ?thesis
    unfolding True generate_dns_filter_rules_allow_v6_def set_block_nonempty [OF assms(1,2)] set_block_empty flatten_text
    by (rule puts_lines, rule refl) (simp_all add: lines assms put_defs)
next
  case False
  show ?thesis
    unfolding generate_dns_filter_rules_allow_v6_def set_block_nonempty [OF assms(1,2)] set_block_nonempty [OF assms(3) False]
      flatten_text
    by (rule puts_lines, rule refl) (simp_all add: lines assms False put_defs)
qed

end
