(* ===== verification/Firewall.thy ===== *)
theory Firewall
  imports RulesetTemplates
begin

text \<open>
  The generated ruleset as a firewall: for every configuration the text of
  \<^verbatim>\<open>GenerateRuleset\<close> denotes four tables, applying it replaces exactly the managed tables,
  and the tables treat every packet as the mode promises.
\<close>

subsection \<open>The tables of a configuration\<close>

definition or_default :: "string \<Rightarrow> string list \<Rightarrow> string list" where
  "or_default d es = (if es = [] then [d] else es)"

definition allow_entries :: "ruleset_config \<Rightarrow> bool \<Rightarrow> string list" where
  "allow_entries cfg is4 = or_default (lo_text is4) (if is4 then AllowV4 cfg else AllowV6 cfg)"

definition deny_entries :: "ruleset_config \<Rightarrow> bool \<Rightarrow> string list" where
  "deny_entries cfg is4 = (if is4 then DenyV4 cfg else DenyV6 cfg)"

definition both :: "(bool \<Rightarrow> nft_table) \<Rightarrow> (bool \<Rightarrow> nft_table) \<Rightarrow> nft_table list" where
  "both f n = [f True, n True, f False, n False]"

definition mode_filter :: "env \<Rightarrow> ruleset_config \<Rightarrow> bool \<Rightarrow> nft_table" where
  "mode_filter E cfg is4 =
     (let es = allow_entries cfg is4; ds = deny_entries cfg is4; mode = ruleset_mode E cfg
      in if DefaultAllow cfg then
           (if mode = mode_https then https_filter_allow is4 es ds (HTTPPort cfg) (HTTPSPort cfg)
            else dns_filter_allow is4 es ds (DNSPort cfg))
         else if mode = mode_dns_strict then dns_strict_filter is4 es (DNSPort cfg)
         else if mode = mode_dns then dns_filter is4 es (DNSPort cfg)
         else https_filter is4 es (HTTPPort cfg) (HTTPSPort cfg))"

definition mode_nat :: "env \<Rightarrow> ruleset_config \<Rightarrow> bool \<Rightarrow> nft_table" where
  "mode_nat E cfg is4 =
     (let es = allow_entries cfg is4; ds = deny_entries cfg is4
      in if ruleset_mode E cfg \<noteq> mode_https then dns_nat is4 (DNSPort cfg)
         else if DefaultAllow cfg then https_nat_allow is4 es ds (HTTPPort cfg) (HTTPSPort cfg)
         else https_nat is4 es (HTTPPort cfg) (HTTPSPort cfg))"

definition ruleset_tables :: "env \<Rightarrow> ruleset_config \<Rightarrow> nft_table list" where
  "ruleset_tables E cfg =
     (let ts = both (mode_filter E cfg) (mode_nat E cfg)
      in if Audit cfg then map audit_table ts else ts)"

definition wf_config :: "ruleset_config \<Rightarrow> bool" where
  "wf_config cfg \<longleftrightarrow>
     plain_entries (AllowV4 cfg) \<and> plain_entries (AllowV6 cfg) \<and>
     plain_entries (DenyV4 cfg) \<and> plain_entries (DenyV6 cfg) \<and>
     0 \<le> HTTPSPort cfg \<and> 0 \<le> HTTPPort cfg \<and> 0 \<le> DNSPort cfg"

lemma lo_entry: "plain_entries [lo_text is4]"
  by (simp add: plain_entries_def lo_text_def cidr_char_def ip_char_def hex_val_def is_digit_char_def)

lemma join_or_default: "plain_entries es \<Longrightarrow> join_or d es = join_with '', '' (or_default d es)"
  by (auto simp: join_or_def or_default_def Let_def dest: join_nonempty)

lemma allow_entries_ok: "wf_config cfg \<Longrightarrow> plain_entries (allow_entries cfg is4) \<and> allow_entries cfg is4 \<noteq> []"
  by (simp add: allow_entries_def or_default_def wf_config_def lo_entry)

lemma ruleset_mode_cases:
  "ruleset_mode E cfg = mode_https \<or> ruleset_mode E cfg = mode_dns \<or> ruleset_mode E cfg = mode_dns_strict"
  by (auto simp: ruleset_mode_def Let_def)

lemma puts_four:
  assumes "puts a [t]" "puts b [u]" "puts c [v]" "puts d [w]"
  shows "puts (a @ [newline] @ b @ [newline] @ c @ [newline] @ d) [t, u, v, w]"
  using puts_append [OF puts_append [OF puts_append [OF assms(1,2)] assms(3)] assms(4)] by simp

lemma enforcing_puts:
  assumes wf: "wf_config cfg"
  shows "puts (generate_enforcing_ruleset E cfg) (both (mode_filter E cfg) (mode_nat E cfg))"
proof -
  have j: "join_or ''127.0.0.1'' (AllowV4 cfg) = join_with '', '' (allow_entries cfg True)"
    "join_or ''::1'' (AllowV6 cfg) = join_with '', '' (allow_entries cfg False)"
    using wf by (simp_all add: wf_config_def join_or_default allow_entries_def lo_text_def)
  note es = allow_entries_ok [OF wf, THEN conjunct1] allow_entries_ok [OF wf, THEN conjunct2]
  have ds: "plain_entries (DenyV4 cfg)" "plain_entries (DenyV6 cfg)"
    and p: "0 \<le> HTTPSPort cfg" "0 \<le> HTTPPort cfg" "0 \<le> DNSPort cfg"
    using wf by (simp_all add: wf_config_def)
  note four = puts_four [unfolded append.simps]
  consider "ruleset_mode E cfg = mode_https" | "ruleset_mode E cfg = mode_dns"
    | "ruleset_mode E cfg = mode_dns_strict"
    using ruleset_mode_cases by blast
  then show ?thesis
  proof cases
    case 1
    then show ?thesis
      by (cases "DefaultAllow cfg")
        (simp_all add: generate_enforcing_ruleset_def Let_def j mode_filter_def mode_nat_def both_def mode_defs
          deny_entries_def es ds p four
          puts_https_filter puts_https_nat puts_https_filter_v6 puts_https_nat_v6
          puts_https_filter_allow puts_https_nat_allow puts_https_filter_allow_v6 puts_https_nat_allow_v6)
  next
    case 2
    then show ?thesis
      by (cases "DefaultAllow cfg")
        (simp_all add: generate_enforcing_ruleset_def Let_def j mode_filter_def mode_nat_def both_def mode_defs
          deny_entries_def es ds p four
          puts_dns_filter puts_dns_nat puts_dns_filter_v6 puts_dns_nat_v6
          puts_dns_filter_allow puts_dns_filter_allow_v6)
  next
    case 3
    then show ?thesis
      by (cases "DefaultAllow cfg")
        (simp_all add: generate_enforcing_ruleset_def Let_def j mode_filter_def mode_nat_def both_def mode_defs
          deny_entries_def es ds p four
          puts_dns_strict_filter puts_dns_nat puts_dns_strict_filter_v6 puts_dns_nat_v6
          puts_dns_filter_allow puts_dns_filter_allow_v6)
  qed
qed

lemma ruleset_reads:
  assumes "wf_config cfg"
  shows "read_script (generate_ruleset E cfg) = Some (map PutTable (ruleset_tables E cfg))"
  using puts_read [OF enforcing_puts [OF assms, of E]]
  by (simp add: generate_ruleset_def ruleset_tables_def comp_def Let_def)

subsection \<open>Applying\<close>

definition managed :: "nft_table \<Rightarrow> bool" where
  "managed t \<longleftrightarrow>
     (table_family t, table_name t) \<in>
       {(''ip'', ''g0efilter_v4''), (''ip'', ''g0efilter_nat_v4''),
        (''ip6'', ''g0efilter_v6''), (''ip6'', ''g0efilter_nat_v6'')}"

lemma same_table_simps [simp]:
  "same_table f n (t\<lparr>table_sets := x\<rparr>) = same_table f n t"
  "same_table f n (t\<lparr>table_chains := y\<rparr>) = same_table f n t"
  by (simp_all add: same_table_def)

lemma mode_table_names:
  "table_family (mode_filter E cfg is4) = fam is4"
  "table_name (mode_filter E cfg is4) = (if is4 then ''g0efilter_v4'' else ''g0efilter_v6'')"
  "table_family (mode_nat E cfg is4) = fam is4"
  "table_name (mode_nat E cfg is4) = (if is4 then ''g0efilter_nat_v4'' else ''g0efilter_nat_v6'')"
  by (simp_all add: mode_filter_def mode_nat_def Let_def table_defs filter_table_def nat_table_def)

lemma audit_table_names [simp]:
  "table_family (audit_table t) = table_family t" "table_name (audit_table t) = table_name t"
  by (simp_all add: audit_table_def)

lemma put_fresh:
  "\<not> list_ex (same_table (table_family t) (table_name t)) K \<Longrightarrow> apply_cmd K (PutTable t) = Some (K @ [t])"
  by simp

lemma apply_ruleset_tables:
  assumes "\<forall>t \<in> set K. \<not> managed t"
  shows "apply_cmds K (map PutTable (ruleset_tables E cfg)) = Some (K @ ruleset_tables E cfg)"
proof -
  have f: "\<not> list_ex (same_table f n) K"
    if "(f, n) \<in> {(''ip'', ''g0efilter_v4''), (''ip'', ''g0efilter_nat_v4''),
        (''ip6'', ''g0efilter_v6''), (''ip6'', ''g0efilter_nat_v6'')}" for f n
    using assms that by (auto simp: list_ex_iff same_table_def managed_def)
  show ?thesis
    by (simp add: ruleset_tables_def Let_def both_def mode_table_names fam_def same_table_def f
        del: apply_cmd.simps add: put_fresh)
qed

lemma del_after_add:
  "apply_cmds K (AddTable f n # DelTable f n # cs) =
   apply_cmds (filter (\<lambda>t. \<not> same_table f n t) K) cs"
proof (cases "list_ex (same_table f n) K")
  case True
  then show ?thesis by simp
next
  case False
  then have "filter (\<lambda>t. \<not> same_table f n t) K = K"
    by (simp add: filter_id_conv list_ex_iff)
  moreover have "same_table f n \<lparr>table_family = f, table_name = n, table_sets = [], table_chains = []\<rparr>"
    by (simp add: same_table_def)
  ultimately show ?thesis using False by simp
qed

fun with_prefix :: "nft_cmd list \<Rightarrow> reader \<Rightarrow> reader" where
  "with_prefix pre (c, cs) = (c, pre @ cs)"

lemma step_prefix: "step (with_prefix pre st) i = map_option (with_prefix pre) (step st i)"
  by (induction st i rule: step.induct) simp_all

lemma run_lines_prefix:
  "run_lines (with_prefix pre st) ls = map_option (with_prefix pre) (run_lines st ls)"
proof (induction ls arbitrary: st)
  case Nil
  then show ?case by simp
next
  case (Cons l ls)
  then show ?case by (auto simp: step_prefix split: option.splits)
qed

lemma run_lines_append:
  "run_lines st (xs @ ys) = (case run_lines st xs of None \<Rightarrow> None | Some st' \<Rightarrow> run_lines st' ys)"
  by (induction xs arbitrary: st) (auto split: option.splits)

lemma split_unlines_append:
  "\<forall>l \<in> set ls. newline \<notin> set l \<Longrightarrow> split_on newline (unlines ls @ text) = ls @ split_on newline text"
  by (induction ls) (simp_all add: split_on_append)

definition preamble_cmds :: "nft_cmd list" where
  "preamble_cmds =
     [AddTable ''ip'' ''g0efilter_v4'', DelTable ''ip'' ''g0efilter_v4'',
      AddTable ''ip'' ''g0efilter_nat_v4'', DelTable ''ip'' ''g0efilter_nat_v4'',
      AddTable ''ip6'' ''g0efilter_v6'', DelTable ''ip6'' ''g0efilter_v6'',
      AddTable ''ip6'' ''g0efilter_nat_v6'', DelTable ''ip6'' ''g0efilter_nat_v6'']"

lemma preamble_reads:
  assumes "read_script text = Some cs"
  shows "read_script (atomic_replace_preamble @ text) = Some (preamble_cmds @ cs)"
proof -
  let ?ls = "[''table ip g0efilter_v4'', ''delete table ip g0efilter_v4'',
       ''table ip g0efilter_nat_v4'', ''delete table ip g0efilter_nat_v4'',
       ''table ip6 g0efilter_v6'', ''delete table ip6 g0efilter_v6'',
       ''table ip6 g0efilter_nat_v6'', ''delete table ip6 g0efilter_nat_v6'']"
  have ok: "list_all line_ok ?ls" by (simp add: lines)
  have "map item_of ?ls =
      [TableStmt ''ip'' ''g0efilter_v4'', DeleteTable ''ip'' ''g0efilter_v4'',
       TableStmt ''ip'' ''g0efilter_nat_v4'', DeleteTable ''ip'' ''g0efilter_nat_v4'',
       TableStmt ''ip6'' ''g0efilter_v6'', DeleteTable ''ip6'' ''g0efilter_v6'',
       TableStmt ''ip6'' ''g0efilter_nat_v6'', DeleteTable ''ip6'' ''g0efilter_nat_v6'']"
    by (simp add: lines)
  then have items: "run_items (Top, []) (map item_of ?ls) = Some (Top, preamble_cmds)"
    by (simp add: preamble_cmds_def)
  have r: "\<forall>l \<in> set ?ls. read_line l = Some (item_of l)" and n: "\<forall>l \<in> set ?ls. newline \<notin> set l"
    using ok by (auto simp only: list_all_iff dest: line_okD)
  have blank: "run_lines st [[]] = Some st" for st
    by (simp add: read_line_def words_def read_words_def)
  have "run_lines (Top, []) ?ls = Some (Top, preamble_cmds)"
    using run_lines_items [OF r, of "(Top, [])"] items
    unfolding run_lines_append by (auto simp only: blank split: option.splits)
  moreover obtain c where c: "run_lines (Top, []) (split_on newline text) = Some (Top, c)" "cs = c"
    using assms by (auto simp: read_script_def split: option.splits nft_ctx.splits prod.splits)
  moreover have "run_lines (Top, preamble_cmds) (split_on newline text) = Some (Top, preamble_cmds @ cs)"
    using run_lines_prefix [of preamble_cmds "(Top, [])" "split_on newline text"] c by simp
  ultimately show ?thesis
    unfolding atomic_replace_preamble_def read_script_def split_unlines_append [OF n]
    by (simp only: run_lines_append option.case nft_ctx.case prod.case)
qed

lemma filter_managed:
  "apply_cmds K (preamble_cmds @ cs) = apply_cmds (filter (\<lambda>t. \<not> managed t) K) cs"
proof -
  have "(\<lambda>t. \<not> managed t) =
      (\<lambda>t. \<not> same_table ''ip6'' ''g0efilter_nat_v6'' t \<and> \<not> same_table ''ip6'' ''g0efilter_v6'' t \<and>
           \<not> same_table ''ip'' ''g0efilter_nat_v4'' t \<and> \<not> same_table ''ip'' ''g0efilter_v4'' t)"
    by (auto simp: managed_def same_table_def)
  then show ?thesis
    by (simp add: preamble_cmds_def del_after_add conj_ac del: apply_cmds.simps)
qed

subsection \<open>One packet, one family\<close>

definition redirected :: "packet \<Rightarrow> string \<Rightarrow> packet" where
  "redirected p w =
     p\<lparr>pk_dst := loopback (is_v4 p),
       pk_l4 := (case (pk_l4 p, digits_val 0 w) of
                   (Tcp _, Some n) \<Rightarrow> Tcp n | (Udp _, Some n) \<Rightarrow> Udp n | (x, _) \<Rightarrow> x)\<rparr>"

definition nat_step :: "dyn_sets \<Rightarrow> packet \<Rightarrow> nft_table \<Rightarrow> string list \<times> packet" where
  "nat_step dyn p t =
     (if pk_established p then ([], p)
      else (let (ls, v) = eval_rules (in_named_set dyn (table_sets t)) p (chain_rules (hd (table_chains t)))
            in case v of Some (Redirect w) \<Rightarrow> (ls, redirected p w) | _ \<Rightarrow> (ls, p)))"

definition filter_step :: "dyn_sets \<Rightarrow> packet \<Rightarrow> nft_table \<Rightarrow> string list \<times> bool" where
  "filter_step dyn p t =
     (let c = hd (table_chains t);
          (ls, v) = eval_rules (in_named_set dyn (table_sets t)) p (chain_rules c)
      in (ls, case v of Some Accept \<Rightarrow> True | Some Drop \<Rightarrow> False | _ \<Rightarrow> chain_policy c \<noteq> ''drop''))"

definition one_chain :: "string \<Rightarrow> string \<Rightarrow> nft_table \<Rightarrow> bool" where
  "one_chain f ty t \<longleftrightarrow> table_family t = f \<and> (\<exists>c. table_chains t = [c] \<and> chain_type c = ty)"

lemma chains_of_four:
  assumes "one_chain (fam True) ''filter'' t1" "one_chain (fam True) ''nat'' t2"
    "one_chain (fam False) ''filter'' t3" "one_chain (fam False) ''nat'' t4"
  shows "chains_of [t1, t2, t3, t4] (fam is4) ''nat'' =
      (let t = (if is4 then t2 else t4) in [(t, hd (table_chains t))])"
    and "chains_of [t1, t2, t3, t4] (fam is4) ''filter'' =
      (let t = (if is4 then t1 else t3) in [(t, hd (table_chains t))])"
  using assms by (auto simp: chains_of_def one_chain_def fam_def)

lemma loopback_v4: "to4 (loopback is4) \<noteq> None \<longleftrightarrow> is4"
  by (cases is4; simp add: loopback_def to4_def v4_in_v6_prefix_def numeral_eq_Suc)

lemma redirected_v4 [simp]: "is_v4 (redirected p w) = is_v4 p"
  using loopback_v4 by (simp add: is_v4_def redirected_def)

lemma egress_four:
  assumes "one_chain (fam True) ''filter'' t1" "one_chain (fam True) ''nat'' t2"
    "one_chain (fam False) ''filter'' t3" "one_chain (fam False) ''nat'' t4"
  shows "egress [t1, t2, t3, t4] dyn p =
    (let (ls, q) = nat_step dyn p (if is_v4 p then t2 else t4);
         (ls', pass) = filter_step dyn q (if is_v4 p then t1 else t3)
     in (ls @ ls', if pass then Sent q else Dropped))"
proof -
  have f: "family_of p = fam (is_v4 p)" by (simp add: family_of_def fam_def)
  show ?thesis
    by (simp add: egress_def f chains_of_four [OF assms] Let_def nat_step_def filter_step_def
        redirected_def split: prod.splits option.splits nft_stmt.splits)
qed

lemma mode_one_chain:
  "one_chain (fam is4) ''filter'' (mode_filter E cfg is4)"
  "one_chain (fam is4) ''nat'' (mode_nat E cfg is4)"
  "one_chain f ty t \<Longrightarrow> one_chain f ty (audit_table t)"
  by (auto simp: one_chain_def mode_filter_def mode_nat_def Let_def table_defs filter_table_def nat_table_def
      audit_table_def audit_chain_def)

definition ruleset_egress :: "string \<Rightarrow> dyn_sets \<Rightarrow> packet \<Rightarrow> (string list \<times> fate) option" where
  \<comment> \<open>what happens to a packet when the text is the whole ruleset of the host\<close>
  "ruleset_egress text dyn p = map_option (\<lambda>K. egress K dyn p) (apply_script [] text)"

definition packet_fate :: "nft_table \<Rightarrow> nft_table \<Rightarrow> dyn_sets \<Rightarrow> packet \<Rightarrow> string list \<times> fate" where
  "packet_fate flt tr dyn p =
     (let (ls, q) = nat_step dyn p tr; (ls', pass) = filter_step dyn q flt
      in (ls @ ls', if pass then Sent q else Dropped))"

lemma ruleset_egress_tables:
  assumes "wf_config cfg"
  shows "ruleset_egress (generate_ruleset E cfg) dyn p =
    Some (let au = (if Audit cfg then audit_table else id)
          in packet_fate (au (mode_filter E cfg (is_v4 p))) (au (mode_nat E cfg (is_v4 p))) dyn p)"
proof -
  have "apply_script [] (generate_ruleset E cfg) = Some (ruleset_tables E cfg)"
    using apply_ruleset_tables [of "[]" E cfg] ruleset_reads [OF assms, of E]
    by (simp add: apply_script_def)
  then show ?thesis
    by (simp add: ruleset_egress_def ruleset_tables_def both_def Let_def egress_four mode_one_chain
        packet_fate_def)
qed

subsection \<open>Evaluating the rules\<close>

lemma oif_lo: \<open>(''"lo"'' = CHR 0x22 # oif @ [CHR 0x22]) = (oif = ''lo'')\<close>
  by auto

lemma parse_lo: "parse_ip (lo_text is4) = Some (loopback is4)"
  by (cases is4; simp add: lo_text_def loopback_def; code_simp)

lemma port_is_itoa: "0 \<le> p \<Longrightarrow> port_is (itoa p) n = (n = nat p)"
  by (auto simp: port_is_def itoa_def digits_val_nat_digits)

lemma digits_val_itoa: "0 \<le> p \<Longrightarrow> digits_val 0 (itoa p) = Some (nat p)"
  by (simp add: itoa_def digits_val_nat_digits)

lemma port_is_lit:
  "port_is ''80'' n = (n = 80)" "port_is ''443'' n = (n = 443)" "port_is ''53'' n = (n = 53)"
  by (auto simp: port_is_def digit_val_def is_digit_char_def)

lemma in_named_set_simps:
  "in_named_set dyn (interval_set is4 n es # ss) m d =
     (n = m \<and> listed es d \<or> in_named_set dyn ss m d)"
  "in_named_set dyn [] m d = False"
  by (auto simp: in_named_set_def interval_set_def)

lemma set_names:
  "allow_set a \<noteq> deny_set b" "deny_set a \<noteq> allow_set b" "allow_set a \<noteq> resolved_set b"
  "resolved_set a \<noteq> allow_set b"
  by (simp_all add: allow_set_def deny_set_def resolved_set_def)

definition external :: "packet \<Rightarrow> bool" where
  \<comment> \<open>the first packet of a connection of the host to some other host\<close>
  "external p \<longleftrightarrow> \<not> pk_established p \<and> pk_mark p \<noteq> 1 \<and> pk_oif p \<noteq> ''lo'' \<and>
     pk_dst p \<noteq> loopback (is_v4 p)"

definition to_proxy :: "packet \<Rightarrow> l4 \<Rightarrow> packet" where
  "to_proxy p port = p\<lparr>pk_dst := loopback (is_v4 p), pk_l4 := port\<rparr>"

lemma to_proxy_simps [simp]:
  "is_v4 (to_proxy p port) = is_v4 p" "pk_dst (to_proxy p port) = loopback (is_v4 p)"
  "pk_l4 (to_proxy p port) = port" "pk_oif (to_proxy p port) = pk_oif p"
  "pk_established (to_proxy p port) = pk_established p" "pk_mark (to_proxy p port) = pk_mark p"
  using loopback_v4 by (simp_all add: is_v4_def to_proxy_def)

lemma redirected_proxy:
  "0 \<le> n \<Longrightarrow> pk_l4 p = Tcp k \<Longrightarrow> redirected p (itoa n) = to_proxy p (Tcp (nat n))"
  "0 \<le> n \<Longrightarrow> pk_l4 p = Udp k \<Longrightarrow> redirected p (itoa n) = to_proxy p (Udp (nat n))"
  by (simp_all add: redirected_def to_proxy_def digits_val_itoa)

lemmas eval_defs = packet_fate_def nat_step_def filter_step_def table_defs filter_table_def nat_table_def
  rule_defs oif_lo parse_lo port_is_itoa port_is_lit in_named_set_simps set_names redirected_proxy

definition allowed :: "ruleset_config \<Rightarrow> packet \<Rightarrow> bool" where
  "allowed cfg p \<longleftrightarrow> listed (allow_entries cfg (is_v4 p)) (pk_dst p)"

definition https_deny_spec :: "ruleset_config \<Rightarrow> packet \<Rightarrow> string list \<times> fate" where
  \<open>https_deny_spec cfg p =
     (if allowed cfg p then
        (if pk_l4 p = Icmp ''echo-request'' then [] else [''"allowed"''], Sent p)
      else if pk_l4 p = Tcp 80 then ([''"redirected"''], Sent (to_proxy p (Tcp (nat (HTTPPort cfg)))))
      else if pk_l4 p = Tcp 443 then ([''"redirected"''], Sent (to_proxy p (Tcp (nat (HTTPSPort cfg)))))
      else ([''"blocked"''], Dropped))\<close>

definition dns_redirect :: "ruleset_config \<Rightarrow> packet \<Rightarrow> packet option" where
  "dns_redirect cfg p =
     (if pk_l4 p = Udp 53 then Some (to_proxy p (Udp (nat (DNSPort cfg))))
      else if pk_l4 p = Tcp 53 then Some (to_proxy p (Tcp (nat (DNSPort cfg))))
      else None)"

definition neighbour_discovery :: "packet \<Rightarrow> bool" where
  "neighbour_discovery p \<longleftrightarrow> \<not> is_v4 p \<and>
     pk_l4 p \<in> {Icmp ''nd-neighbor-solicit'', Icmp ''nd-neighbor-advert'',
                 Icmp ''nd-router-solicit'', Icmp ''nd-router-advert''}"

definition dns_strict_spec :: "ruleset_config \<Rightarrow> dyn_sets \<Rightarrow> packet \<Rightarrow> string list \<times> fate" where
  \<open>dns_strict_spec cfg dyn p =
     (case dns_redirect cfg p of
        Some q \<Rightarrow> ([''"dns_redirected"''], Sent q)
      | None \<Rightarrow>
          if neighbour_discovery p \<or> allowed cfg p \<and> pk_l4 p = Icmp ''echo-request'' then ([], Sent p)
          else if allowed cfg p \<or> dyn (resolved_set (is_v4 p)) (pk_dst p) then ([''"allowed"''], Sent p)
          else ([''"blocked"''], Dropped))\<close>

definition denied :: "ruleset_config \<Rightarrow> packet \<Rightarrow> bool" where
  "denied cfg p \<longleftrightarrow> \<not> allowed cfg p \<and> listed (deny_entries cfg (is_v4 p)) (pk_dst p)"

definition accepting_spec :: "env \<Rightarrow> ruleset_config \<Rightarrow> packet \<Rightarrow> string list \<times> fate" where
  \<open>accepting_spec E cfg p =
     (if ruleset_mode E cfg = mode_https then
        (if denied cfg p then ([''"blocked"''], Dropped)
         else if \<not> allowed cfg p \<and> pk_l4 p = Tcp 80
         then ([''"redirected"''], Sent (to_proxy p (Tcp (nat (HTTPPort cfg)))))
         else if \<not> allowed cfg p \<and> pk_l4 p = Tcp 443
         then ([''"redirected"''], Sent (to_proxy p (Tcp (nat (HTTPSPort cfg)))))
         else ([], Sent p))
      else
        (case dns_redirect cfg p of
           Some q \<Rightarrow> ([''"dns_redirected"''], Sent q)
         | None \<Rightarrow> if DefaultAllow cfg \<and> denied cfg p then ([''"blocked"''], Dropped) else ([], Sent p)))\<close>

lemma externalD:
  assumes "external p"
  shows "\<not> pk_established p" "pk_mark p \<noteq> Suc 0" "pk_oif p \<noteq> ''lo''" "''lo'' \<noteq> pk_oif p"
    "pk_dst p \<noteq> loopback (is_v4 p)" "loopback (is_v4 p) \<noteq> pk_dst p"
  using assms by (auto simp: external_def)

lemma https_deny_fate:
  assumes "wf_config cfg" "ruleset_mode E cfg = mode_https" "\<not> DefaultAllow cfg" "external p"
  shows "packet_fate (mode_filter E cfg (is_v4 p)) (mode_nat E cfg (is_v4 p)) dyn p = https_deny_spec cfg p"
proof -
  have p: "0 \<le> HTTPSPort cfg" "0 \<le> HTTPPort cfg" using assms(1) by (simp_all add: wf_config_def)
  show ?thesis
    using assms(2-3)
    by (cases "pk_l4 p"; cases "allowed cfg p")
      (auto simp: mode_filter_def mode_nat_def mode_defs Let_def
        externalD [OF assms(4)] https_deny_spec_def eval_defs p allowed_def)
qed

definition example_config :: "string \<Rightarrow> bool \<Rightarrow> ruleset_config" where
  "example_config mode dflt =
     \<lparr>AllowV4 = [''192.0.2.10'', ''198.51.100.0/24''], AllowV6 = [], DenyV4 = [''203.0.113.0/24''], DenyV6 = [],
      HTTPSPort = 8443, HTTPPort = 8080, DNSPort = 5353, Mode = mode, DefaultAllow = dflt, Audit = False\<rparr>"

definition example_packet :: "nat list \<Rightarrow> l4 \<Rightarrow> packet" where
  "example_packet d port =
     \<lparr>pk_dst = v4_in_v6_prefix @ d, pk_l4 = port, pk_oif = ''eth0'', pk_established = False, pk_mark = 0\<rparr>"

lemma example_facts:
  "wf_config (example_config mode dflt)"
  "external (example_packet [203, 0, 113, 7] port)"
  "\<not> allowed (example_config mode dflt) (example_packet [203, 0, 113, 7] port)"
  "denied (example_config mode dflt) (example_packet [203, 0, 113, 7] port)"
  "allowed (example_config mode dflt) (example_packet [198, 51, 100, 9] port)"
  "external (example_packet [198, 51, 100, 9] port)"
  "ruleset_mode ascii_env (example_config ''HTTPS'' dflt) = mode_https"
  "ruleset_mode ascii_env (example_config ''dns-strict'' dflt) = mode_dns_strict"
  by code_simp+

text \<open>C5: HTTPS mode, default deny: when the text of \<^verbatim>\<open>GenerateRuleset\<close> is loaded, the first
  packet of a connection to another host is let through unchanged exactly when its destination is
  allow-listed, is delivered to the local HTTP or HTTPS proxy when it is for port 80 or 443, and is
  logged and dropped otherwise. This holds for both address families; nothing else leaves.\<close>

theorem https_default_deny:
  assumes "wf_config cfg" "ruleset_mode E cfg = mode_https" "\<not> DefaultAllow cfg" "\<not> Audit cfg" "external p"
  shows "ruleset_egress (generate_ruleset E cfg) dyn p = Some (https_deny_spec cfg p)"
  using assms(4) by (simp add: ruleset_egress_tables [OF assms(1)] https_deny_fate [OF assms(1-3,5)])

theorem https_default_deny_witness:
  \<open>ruleset_egress (generate_ruleset ascii_env (example_config ''HTTPS'' False)) (\<lambda>n d. False)
      (example_packet [203, 0, 113, 7] (Tcp 443)) =
    Some ([''"redirected"''], Sent (to_proxy (example_packet [203, 0, 113, 7] (Tcp 443)) (Tcp 8443)))\<close>
proof -
  have "\<not> DefaultAllow (example_config ''HTTPS'' False)" "\<not> Audit (example_config ''HTTPS'' False)"
    by (simp_all add: example_config_def)
  from https_default_deny [OF example_facts(1) example_facts(7) this example_facts(2)]
  show ?thesis
    by (simp add: https_deny_spec_def example_facts(3)) (simp add: example_config_def example_packet_def)
qed

lemma example_dropped:
  "ruleset_egress (generate_ruleset ascii_env (example_config ''HTTPS'' False)) (\<lambda>n d. False)
      (example_packet [203, 0, 113, 7] (Udp 9)) = Some ([CHR 0x22 # ''blocked'' @ [CHR 0x22]], Dropped)"
proof -
  let ?p = "example_packet [203, 0, 113, 7] (Udp 9)"
  have f: "\<not> DefaultAllow (example_config ''HTTPS'' False)" by (simp add: example_config_def)
  have "https_deny_spec (example_config ''HTTPS'' False) ?p = ([CHR 0x22 # ''blocked'' @ [CHR 0x22]], Dropped)"
    by (simp add: https_deny_spec_def example_facts(3)) (simp add: example_packet_def)
  then show ?thesis
    unfolding ruleset_egress_tables [OF example_facts(1)]
    by (simp add: https_deny_fate [OF example_facts(1) example_facts(7) f example_facts(2)])
      (simp add: example_config_def)
qed

lemma timeout_set:
  "in_named_set dyn (\<lparr>set_name = n, set_type = ty, set_flags = ''timeout'', set_elements = []\<rparr> # ss) m d =
     (n = m \<and> dyn n d \<or> in_named_set dyn ss m d)"
  by (auto simp: in_named_set_def listed_def)

lemma nat_step_dns:
  assumes "0 \<le> DNSPort cfg" "external p" "is_v4 p = is4"
  shows \<open>nat_step dyn p (dns_nat is4 (DNSPort cfg)) =
    (case dns_redirect cfg p of Some q \<Rightarrow> ([''"dns_redirected"''], q) | None \<Rightarrow> ([], p))\<close>
  using assms externalD [OF assms(2)]
  by (cases "pk_l4 p") (auto simp: eval_defs dns_redirect_def)

lemma dns_redirect_cases:
  "dns_redirect cfg p = Some q \<Longrightarrow>
   q = to_proxy p (Udp (nat (DNSPort cfg))) \<or> q = to_proxy p (Tcp (nat (DNSPort cfg)))"
  by (auto simp: dns_redirect_def split: if_splits)

lemma dns_strict_filter_step:
  assumes "0 \<le> dp" "\<not> pk_established p" "pk_mark p \<noteq> 1" "pk_oif p \<noteq> ''lo''" "is_v4 p = is4"
  shows \<open>filter_step dyn p (dns_strict_filter is4 es dp) =
    (if pk_dst p = loopback is4 \<and> pk_l4 p \<in> {Udp (nat dp), Tcp (nat dp)} then ([], True)
     else if neighbour_discovery p \<or> listed es (pk_dst p) \<and> pk_l4 p = Icmp ''echo-request'' then ([], True)
     else if listed es (pk_dst p) \<or> dyn (resolved_set is4) (pk_dst p) then ([''"allowed"''], True)
     else ([''"blocked"''], False))\<close>
  using assms
  by (cases "pk_l4 p"; cases is4)
    (simp_all add: filter_step_def table_defs filter_table_def rule_defs oif_lo parse_lo port_is_itoa
      in_named_set_simps timeout_set set_names neighbour_discovery_def)

lemma dns_strict_fate:
  assumes p: "0 \<le> DNSPort cfg" and "external p"
  shows "packet_fate (dns_strict_filter (is_v4 p) (allow_entries cfg (is_v4 p)) (DNSPort cfg))
      (dns_nat (is_v4 p) (DNSPort cfg)) dyn p = dns_strict_spec cfg dyn p"
proof (cases "dns_redirect cfg p")
  case (Some q)
  then have "filter_step dyn q (dns_strict_filter (is_v4 p) (allow_entries cfg (is_v4 p)) (DNSPort cfg)) = ([], True)"
    using dns_redirect_cases [OF Some] dns_strict_filter_step [OF p, of q] externalD [OF assms(2)] by auto
  with Some show ?thesis
    by (simp add: packet_fate_def nat_step_dns [OF assms] dns_strict_spec_def)
next
  case None
  then show ?thesis
    using dns_strict_filter_step [OF p, of p] externalD [OF assms(2)]
    by (simp add: packet_fate_def nat_step_dns [OF assms] dns_strict_spec_def allowed_def)
qed

lemma dns_strict_egress:
  assumes "wf_config cfg" "ruleset_mode E cfg = mode_dns_strict" "\<not> DefaultAllow cfg" "\<not> Audit cfg" "external p"
  shows "ruleset_egress (generate_ruleset E cfg) dyn p = Some (dns_strict_spec cfg dyn p)"
  using assms(1-4) dns_strict_fate [OF _ assms(5), of cfg dyn]
  by (simp add: ruleset_egress_tables [OF assms(1)] mode_filter_def mode_nat_def mode_defs Let_def wf_config_def)

text \<open>Dns-strict mode: all DNS goes to the local DNS proxy, neighbour discovery passes, and any
  other first packet to another host leaves only when its destination is allow-listed or is at that
  time in the set of resolved addresses; everything else is logged and dropped.\<close>

theorem dns_strict_gate:
  assumes "wf_config cfg" "ruleset_mode E cfg = mode_dns_strict" "\<not> DefaultAllow cfg" "\<not> Audit cfg" "external p"
  shows "ruleset_egress (generate_ruleset E cfg) dyn p = Some (dns_strict_spec cfg dyn p)"
  using assms by (rule dns_strict_egress)

theorem dns_strict_gate_witness:
  \<open>ruleset_egress (generate_ruleset ascii_env (example_config ''dns-strict'' False)) (\<lambda>n d. False)
      (example_packet [203, 0, 113, 7] (Tcp 443)) = Some ([''"blocked"''], Dropped)\<close>
proof -
  have "\<not> DefaultAllow (example_config ''dns-strict'' False)" "\<not> Audit (example_config ''dns-strict'' False)"
    by (simp_all add: example_config_def)
  from dns_strict_gate [OF example_facts(1) example_facts(8) this example_facts(2)]
  show ?thesis
    by (simp add: dns_strict_spec_def dns_redirect_def neighbour_discovery_def example_facts(3))
      (simp add: example_packet_def)
qed

lemma dns_filter_step:
  assumes "\<not> pk_established p" "pk_mark p \<noteq> 1" "pk_oif p \<noteq> ''lo''"
  shows "filter_step dyn p (dns_filter is4 es dp) = ([], True)"
  using assms
  by (simp add: filter_step_def table_defs filter_table_def rule_defs)

lemma dns_filter_allow_step:
  assumes "0 \<le> dp" "\<not> pk_established p" "pk_mark p \<noteq> 1" "pk_oif p \<noteq> ''lo''" "is_v4 p = is4"
  shows \<open>filter_step dyn p (dns_filter_allow is4 es ds dp) =
    (if pk_dst p = loopback is4 \<and> pk_l4 p \<in> {Udp (nat dp), Tcp (nat dp)} then ([], True)
     else if \<not> listed es (pk_dst p) \<and> listed ds (pk_dst p) then ([''"blocked"''], False)
     else ([], True))\<close>
  using assms
  by (cases "pk_l4 p")
    (simp_all add: filter_step_def table_defs filter_table_def rule_defs oif_lo parse_lo port_is_itoa
      in_named_set_simps set_names)

lemma https_filter_allow_step:
  assumes "0 \<le> hp" "0 \<le> sp" "\<not> pk_established p" "pk_mark p \<noteq> 1" "pk_oif p \<noteq> ''lo''" "is_v4 p = is4"
  shows \<open>filter_step dyn p (https_filter_allow is4 es ds hp sp) =
    (if pk_dst p = loopback is4 \<and> pk_l4 p \<in> {Tcp (nat hp), Tcp (nat sp)} then ([], True)
     else if \<not> listed es (pk_dst p) \<and> listed ds (pk_dst p) then ([''"blocked"''], False)
     else ([], True))\<close>
  using assms
  by (cases "pk_l4 p")
    (simp_all add: filter_step_def table_defs filter_table_def rule_defs oif_lo parse_lo port_is_itoa
      in_named_set_simps set_names)

lemma https_nat_allow_step:
  assumes "0 \<le> hp" "0 \<le> sp" "\<not> pk_established p" "pk_mark p \<noteq> 1" "is_v4 p = is4"
  shows \<open>nat_step dyn p (https_nat_allow is4 es ds hp sp) =
    (if listed es (pk_dst p) \<or> listed ds (pk_dst p) then ([], p)
     else if pk_l4 p = Tcp 80 then ([''"redirected"''], to_proxy p (Tcp (nat hp)))
     else if pk_l4 p = Tcp 443 then ([''"redirected"''], to_proxy p (Tcp (nat sp)))
     else ([], p))\<close>
  using assms
  by (cases "pk_l4 p")
    (simp_all add: nat_step_def table_defs nat_table_def rule_defs port_is_lit redirected_proxy
      in_named_set_simps set_names)

lemma https_allow_fate:
  assumes "wf_config cfg" "ruleset_mode E cfg = mode_https" "DefaultAllow cfg" "external p"
  shows "packet_fate (mode_filter E cfg (is_v4 p)) (mode_nat E cfg (is_v4 p)) dyn p = accepting_spec E cfg p"
proof -
  have p: "0 \<le> HTTPPort cfg" "0 \<le> HTTPSPort cfg" using assms(1) by (simp_all add: wf_config_def)
  show ?thesis
    using assms(2,3) externalD [OF assms(4)]
    by (auto simp: packet_fate_def mode_filter_def mode_nat_def Let_def mode_defs accepting_spec_def
        https_nat_allow_step p https_filter_allow_step denied_def allowed_def)
qed



subsection \<open>The traffic of the proxies, and audit\<close>

definition audit_log :: "string \<Rightarrow> string" where
  \<open>audit_log l = (if l = ''"blocked"'' then ''"audit"'' else l)\<close>

lemma eval_audit:
  "eval_rules mem p (map (\<lambda>(ms, s). (ms, audit_stmt s)) rs) =
   (let (ls, v) = eval_rules mem p rs in (map audit_log ls, map_option audit_stmt v))"
  by (induction rs) (auto simp: audit_log_def Let_def split: nft_stmt.splits prod.splits)

lemma audit_stmt_accepts [simp]: "audit_stmt s \<noteq> Drop"
  by (cases s) auto

lemma filter_step_audit:
  assumes "one_chain f ty t"
  shows "filter_step dyn p (audit_table t) = (map audit_log (fst (filter_step dyn p t)), True)"
proof -
  obtain c where "table_chains t = [c]" using assms by (auto simp: one_chain_def)
  then show ?thesis
    by (auto simp: filter_step_def audit_table_def audit_chain_def eval_audit Let_def
        split: prod.splits option.splits nft_stmt.splits)
qed

lemma nat_step_audit:
  assumes "one_chain f ty t"
  shows "nat_step dyn p (audit_table t) = map_prod (map audit_log) id (nat_step dyn p t)"
proof -
  obtain c where "table_chains t = [c]" using assms by (auto simp: one_chain_def)
  then show ?thesis
    by (auto simp: nat_step_def audit_table_def audit_chain_def eval_audit Let_def
        split: prod.splits option.splits nft_stmt.splits)
qed

lemma packet_fate_audit:
  "packet_fate (audit_table (mode_filter E cfg is4)) (audit_table (mode_nat E cfg is4)) dyn p =
   (map audit_log (fst (packet_fate (mode_filter E cfg is4) (mode_nat E cfg is4) dyn p)),
    Sent (snd (nat_step dyn p (mode_nat E cfg is4))))"
  by (simp add: packet_fate_def filter_step_audit [OF mode_one_chain(1)] nat_step_audit [OF mode_one_chain(2)]
      Let_def split: prod.splits)

lemma packet_fate_sent:
  "packet_fate flt tr dyn p = (ls, Sent q) \<Longrightarrow> q = snd (nat_step dyn p tr)"
  by (auto simp: packet_fate_def Let_def split: prod.splits if_splits)

text \<open>C12: Audit is a dry run of the same ruleset: every packet is sent, to the same place the
  enforcing ruleset sends it if it sends it at all, and the log lines are the same except that
  "blocked" reads "audit".\<close>

theorem audit_is_dry_run:
  assumes "wf_config cfg"
    and "ruleset_egress (generate_ruleset E (cfg\<lparr>Audit := False\<rparr>)) dyn p = Some (ls, v)"
  shows "\<exists>q. ruleset_egress (generate_ruleset E (cfg\<lparr>Audit := True\<rparr>)) dyn p = Some (map audit_log ls, Sent q) \<and>
    (\<forall>r. v = Sent r \<longrightarrow> q = r)"
proof -
  have wf: "wf_config (cfg\<lparr>Audit := b\<rparr>)" for b using assms(1) by (simp add: wf_config_def)
  have same: "mode_filter E (cfg\<lparr>Audit := b\<rparr>) = mode_filter E cfg" "mode_nat E (cfg\<lparr>Audit := b\<rparr>) = mode_nat E cfg"
    for b
    by (simp_all add: fun_eq_iff mode_filter_def mode_nat_def allow_entries_def deny_entries_def
        ruleset_mode_def Let_def)
  have "packet_fate (mode_filter E cfg (is_v4 p)) (mode_nat E cfg (is_v4 p)) dyn p = (ls, v)"
    using assms(2) by (simp add: ruleset_egress_tables [OF wf] same)
  then show ?thesis
    by (auto simp: ruleset_egress_tables [OF wf] same packet_fate_audit dest: packet_fate_sent)
qed

theorem audit_is_dry_run_witness:
  "\<exists>q. ruleset_egress (generate_ruleset ascii_env ((example_config ''HTTPS'' False)\<lparr>Audit := True\<rparr>)) (\<lambda>n d. False)
      (example_packet [203, 0, 113, 7] (Udp 9)) = Some ([CHR 0x22 # ''audit'' @ [CHR 0x22]], Sent q)"
proof -
  let ?p = "example_packet [203, 0, 113, 7] (Udp 9)"
  have "(example_config ''HTTPS'' False)\<lparr>Audit := False\<rparr> = example_config ''HTTPS'' False"
    by (simp add: example_config_def)
  with example_dropped have "ruleset_egress (generate_ruleset ascii_env ((example_config ''HTTPS'' False)\<lparr>Audit := False\<rparr>))
      (\<lambda>n d. False) ?p = Some ([CHR 0x22 # ''blocked'' @ [CHR 0x22]], Dropped)"
    by (simp only:)
  from audit_is_dry_run [OF example_facts(1) this] obtain q where
    "ruleset_egress (generate_ruleset ascii_env ((example_config ''HTTPS'' False)\<lparr>Audit := True\<rparr>)) (\<lambda>n d. False) ?p
      = Some (map audit_log [CHR 0x22 # ''blocked'' @ [CHR 0x22]], Sent q)"
    by blast
  moreover have "map audit_log [CHR 0x22 # ''blocked'' @ [CHR 0x22]] = [CHR 0x22 # ''audit'' @ [CHR 0x22]]"
    by (simp add: audit_log_def)
  ultimately show ?thesis by metis
qed

lemma marked_steps:
  assumes "pk_mark p = 1"
  shows "filter_step dyn p (mode_filter E cfg is4) = ([], True)" "nat_step dyn p (mode_nat E cfg is4) = ([], p)"
  using assms
  by (auto simp: filter_step_def nat_step_def mode_filter_def mode_nat_def Let_def table_defs filter_table_def
      nat_table_def guards_def)

text \<open>The proxies' own connections carry the mark 1: no ruleset, in any mode, redirects, drops
  or logs them, so what a proxy dials never comes back to a proxy.\<close>

theorem own_traffic_untouched:
  assumes "wf_config cfg" "pk_mark p = 1"
  shows "ruleset_egress (generate_ruleset E cfg) dyn p = Some ([], Sent p)"
proof -
  have "packet_fate (mode_filter E cfg is4) (mode_nat E cfg is4) dyn p = ([], Sent p)" for is4
    by (simp add: packet_fate_def marked_steps [OF assms(2)])
  then show ?thesis
    by (simp add: ruleset_egress_tables [OF assms(1)] packet_fate_audit marked_steps [OF assms(2)])
qed

theorem own_traffic_untouched_witness:
  "let p = (example_packet [203, 0, 113, 7] (Tcp 443))\<lparr>pk_mark := 1\<rparr>
   in ruleset_egress (generate_ruleset ascii_env (example_config ''HTTPS'' False)) (\<lambda>n d. False) p = Some ([], Sent p)"
  unfolding Let_def by (rule own_traffic_untouched [OF example_facts(1)]) simp

subsection \<open>The whole application\<close>

definition config_of ::
  "env \<Rightarrow> (string \<Rightarrow> string) \<Rightarrow> policy_rules \<Rightarrow> int \<Rightarrow> int \<Rightarrow> int \<Rightarrow> ruleset_config" where
  "config_of E getenv rules hs hp dp =
     (let mode = to_lower E (trim_space (getenv ''FILTER_MODE''));
          allow = split_by_family (or_default ''127.0.0.1'' (RuleAllowIPs rules));
          deny = split_by_family (RuleDenyIPs rules)
      in \<lparr>AllowV4 = fst allow, AllowV6 = snd allow, DenyV4 = fst deny, DenyV6 = snd deny,
          HTTPSPort = hs, HTTPPort = hp, DNSPort = dp, Mode = (if mode = [] then mode_https else mode),
          DefaultAllow = RuleDefaultAllow rules, Audit = RuleAudit rules\<rparr>)"

lemma split_plain: "plain_entries (fst (split_by_family es))" "plain_entries (snd (split_by_family es))"
  using split_by_family_entries [of es] family_entry_chars
  by (auto simp: plain_entries_def list_all_iff)

lemma has_suffix_unlines: "has_suffix (newline # unlines ls) [newline]"
proof -
  have "last (newline # unlines ls) = newline"
    by (induction ls) auto
  then have "newline # unlines ls = butlast (newline # unlines ls) @ [newline]"
    by (metis append_butlast_last_id list.distinct(1))
  then show ?thesis unfolding has_suffix_iff by blast
qed

lemma generate_ruleset_newline:
  assumes "wf_config cfg"
  shows "has_suffix (generate_ruleset E cfg) [newline]"
proof -
  obtain ls where t: "generate_enforcing_ruleset E cfg = newline # unlines ls"
    and ok: "list_all line_ok ls" "isolated (Rule ([], Drop)) (map item_of ls)"
    using enforcing_puts [OF assms, of E] by (auto simp: puts_def lines_put_def)
  show ?thesis
    using has_suffix_unlines audit_ruleset_lines [OF ok] by (simp add: generate_ruleset_def t Let_def)
qed

lemma policy_ruleset_text:
  assumes "policy_ruleset E getenv rules a b c = Inr text"
  shows "\<exists>hs hp dp. parse_port a ''HTTPS'' = Inr hs \<and> parse_port b ''HTTP'' = Inr hp \<and>
    parse_port c ''DNS'' = Inr dp \<and> wf_config (config_of E getenv rules hs hp dp) \<and>
    text = atomic_replace_preamble @ generate_ruleset E (config_of E getenv rules hs hp dp)"
proof -
  obtain hs hp dp where ports: "parse_port a ''HTTPS'' = Inr hs" "parse_port b ''HTTP'' = Inr hp"
    "parse_port c ''DNS'' = Inr dp"
    using assms by (auto simp: policy_ruleset_def Let_def bind_res_Inr)
  have wf: "wf_config (config_of E getenv rules hs hp dp)"
    using ports by (auto simp: wf_config_def config_of_def Let_def split_plain dest!: parse_port_range)
  have "text = atomic_replace_preamble @ generate_ruleset E (config_of E getenv rules hs hp dp)"
    using assms ports generate_ruleset_newline [OF wf, of E]
    by (auto simp: policy_ruleset_def Let_def config_of_def or_default_def split: prod.splits if_splits)
  with ports wf show ?thesis by blast
qed

lemma apply_transaction:
  assumes "wf_config cfg"
  shows "apply_script K (atomic_replace_preamble @ generate_ruleset E cfg) =
    Some (filter (\<lambda>t. \<not> managed t) K @ ruleset_tables E cfg)"
  using preamble_reads [OF ruleset_reads [OF assms, of E]]
    apply_ruleset_tables [of "filter (\<lambda>t. \<not> managed t) K" E cfg]
  by (simp add: apply_script_def filter_managed)

lemma policy_ruleset_ok:
  assumes "parse_port a ''HTTPS'' = Inr hs" "parse_port b ''HTTP'' = Inr hp" "parse_port c ''DNS'' = Inr dp"
  shows "\<exists>tx. policy_ruleset E getenv rules a b c = Inr tx"
  by (simp add: policy_ruleset_def Let_def assms split: prod.split)

text \<open>C13: A successful application runs \<^verbatim>\<open>nft\<close> twice on one text, first as a dry run, and loading
  that text replaces exactly the four managed tables by those of the policy: whatever tables the
  kernel had, every other table is untouched and no managed rule survives or is doubled.\<close>

theorem policy_rules_replace:
  assumes "apply_policy_rules_with_context E getenv nft rules a b c = (runs, None)"
  shows "\<exists>tx hs hp dp. runs = [([''-c'', ''-f'', ''-''], tx), ([''-f'', ''-''], tx)] \<and>
    parse_port a ''HTTPS'' = Inr hs \<and> parse_port b ''HTTP'' = Inr hp \<and> parse_port c ''DNS'' = Inr dp \<and>
    apply_script K tx =
      Some (filter (\<lambda>t. \<not> managed t) K @ ruleset_tables E (config_of E getenv rules hs hp dp))"
proof -
  obtain tx where t: "policy_ruleset E getenv rules a b c = Inr tx"
    and runs: "runs = [([''-c'', ''-f'', ''-''], tx), ([''-f'', ''-''], tx)]"
    using assms
    by (auto simp: apply_policy_rules_with_context_def validate_and_parse_ruleset_def apply_ruleset_def
        Let_def split: sum.splits option.splits)
  from policy_ruleset_text [OF t] runs apply_transaction show ?thesis by metis
qed

definition example_rules :: policy_rules where
  "example_rules =
     \<lparr>RuleAllowIPs = [''192.0.2.10''], RuleDenyIPs = [], RuleDefaultAllow = False, RuleAudit = False\<rparr>"

theorem policy_rules_replace_witness:
  "\<exists>runs tx hs hp dp.
    apply_policy_rules_with_context ascii_env (\<lambda>_. []) (\<lambda>_. None) example_rules ''8443'' ''8080'' ''53'' = (runs, None) \<and>
    length runs = 2 \<and>
    apply_script [] tx = Some (ruleset_tables ascii_env (config_of ascii_env (\<lambda>_. []) example_rules hs hp dp))"
proof -
  have ports: "parse_port ''8443'' ''HTTPS'' = Inr 8443" "parse_port ''8080'' ''HTTP'' = Inr 8080"
    "parse_port ''53'' ''DNS'' = Inr 53"
    by code_simp+
  obtain tx where tx: "policy_ruleset ascii_env (\<lambda>_. []) example_rules ''8443'' ''8080'' ''53'' = Inr tx"
    using policy_ruleset_ok [OF ports] by blast
  have r: "apply_policy_rules_with_context ascii_env (\<lambda>_. []) (\<lambda>_. None) example_rules ''8443'' ''8080'' ''53'' =
      ([([''-c'', ''-f'', ''-''], tx), ([''-f'', ''-''], tx)], None)"
    by (simp add: apply_policy_rules_with_context_def tx validate_and_parse_ruleset_def apply_ruleset_def)
  obtain tx' hs hp dp where "apply_script [] tx' =
      Some (filter (\<lambda>t. \<not> managed t) [] @ ruleset_tables ascii_env (config_of ascii_env (\<lambda>_. []) example_rules hs hp dp))"
    using policy_rules_replace [OF r, of "[]"] by blast
  with r show ?thesis by (intro exI conjI) (rule r, simp, simp)
qed

text \<open>When the application fails before its last step (a bad port, or a ruleset the dry run
  rejects), \<^verbatim>\<open>nft\<close> was run at most as a dry run: the tables in the kernel stay as they are.\<close>

theorem failed_dry_run_changes_nothing:
  assumes "apply_policy_rules_with_context E getenv nft rules a b c = (runs, Some e)"
  shows "(\<exists>out. e = ApplyFailed out) \<or> (\<forall>run \<in> set runs. ''-c'' \<in> set (fst run))"
  using assms
  by (auto simp: apply_policy_rules_with_context_def validate_and_parse_ruleset_def apply_ruleset_def
      Let_def split: sum.splits option.splits)

theorem failed_dry_run_changes_nothing_witness:
  "(\<exists>out. PortOutOfRange ''DNS'' 0 = ApplyFailed out) \<or> (\<forall>run \<in> set ([] :: nft_run list). ''-c'' \<in> set (fst run))"
proof -
  have ports: "parse_port ''8443'' ''HTTPS'' = Inr 8443" "parse_port ''8080'' ''HTTP'' = Inr 8080"
    "parse_port ''0'' ''DNS'' = Inl (PortOutOfRange ''DNS'' 0)"
    by code_simp+
  have "apply_policy_rules_with_context ascii_env (\<lambda>_. []) (\<lambda>_. None) example_rules ''8443'' ''8080'' ''0'' =
      ([], Some (PortOutOfRange ''DNS'' 0))"
    by (simp add: apply_policy_rules_with_context_def policy_ruleset_def Let_def ports)
  from failed_dry_run_changes_nothing [OF this] show ?thesis .
qed

end
