(* ===== verification/FilterCommon.thy ===== *)
theory FilterCommon
  imports Matcher Flow
begin

text \<open>
  The rest of \<^verbatim>\<open>internal/filter/common.go\<close>: log lines, process attribution, addresses of
  connections, the original destination of a redirected connection, synthetic events and the
  decision log.

  A log line is a value. Every handler returns the lines it writes at the levels info, warning and
  error, and the synthetic events, which are the records the rest of the system consumes; the other
  debug lines are left out. The kernel's answer to \<^verbatim>\<open>getsockopt\<close> is a parameter.
\<close>

subsection \<open>Log lines\<close>

datatype val = VS string | VI int | VB bool | VL "string list"

type_synonym fields = "(string \<times> val) list"

datatype level = Debug | Info | Warn | Error

record log_line =
  lg_level :: level
  lg_msg :: string
  lg_fields :: fields

definition log_line :: "level \<Rightarrow> string \<Rightarrow> fields \<Rightarrow> log_line" where
  "log_line l m fs = \<lparr>lg_level = l, lg_msg = m, lg_fields = fs\<rparr>"

definition field :: "string \<Rightarrow> fields \<Rightarrow> val option" where
  "field k fs = map_of fs k"

definition proc_fields :: "options \<Rightarrow> string \<Rightarrow> int \<Rightarrow> string \<Rightarrow> fields" where
  "proc_fields opts sourceIP sourcePort proto =
     (case ProcInfo opts of
        None \<Rightarrow> []
      | Some lookup \<Rightarrow>
          (case lookup sourceIP sourcePort proto of
             None \<Rightarrow> [(''process_name'', VS unknown_value)]
           | Some info \<Rightarrow>
               [(''pid'', VI (PID info)), (''process_name'', VS (Name info)),
                (''cmdline'', VS (Cmdline info)), (''executable'', VS (Executable info))]))"

subsection \<open>Addresses\<close>

definition atoi_value :: "string \<Rightarrow> int" where
  \<comment> \<open>the number \<^verbatim>\<open>strconv.Atoi\<close> returns beside its error: 0 on a syntax error, the nearest
    64-bit number when out of range\<close>
  "atoi_value s =
     (let neg = has_prefix s ''-'';
          ds = (if neg \<or> has_prefix s ''+'' then drop 1 s else s)
      in case (if ds = [] then None else digits_val 0 ds) of
           None \<Rightarrow> 0
         | Some n \<Rightarrow> if neg then max (- (2 ^ 63)) (- int n) else min (2 ^ 63 - 1) (int n))"

definition parse_host_port :: "string \<Rightarrow> string \<times> int" where
  "parse_host_port s =
     (case split_host_port s of None \<Rightarrow> (s, 0) | Some (host, port) \<Rightarrow> (host, atoi_value port))"

text \<open>A connection, as far as the decision is concerned: the text of its remote address, None for a
  nil connection or address.\<close>

type_synonym conn = "string option"

definition source_addr :: "conn \<Rightarrow> string \<times> int" where
  "source_addr c =
     (case c of
        None \<Rightarrow> ([], 0)
      | Some remote \<Rightarrow>
          (case split_host_port remote of
             Some (host, port) \<Rightarrow> (host, atoi_value port)
           | None \<Rightarrow> (remote, 0)))"

text \<open>What \<^verbatim>\<open>SYS_GETSOCKOPT\<close> leaves in the socket address: its length, the family, the
  address bytes and the two bytes of the port in memory. None is an error of the call.\<close>

record sockaddr =
  sa_optlen :: nat
  sa_family :: nat
  sa_addr :: "nat list"
  sa_port :: "nat \<times> nat"

datatype dst_error = ErrSyscallConn | ErrGetsockopt | ErrEINVAL | ErrEAFNOSUPPORT

definition sockaddr_inet4_size :: nat where "sockaddr_inet4_size = 16"
definition sockaddr_inet6_size :: nat where "sockaddr_inet6_size = 28"
definition af_inet :: nat where "af_inet = 2"
definition af_inet6 :: nat where "af_inet6 = 10"

definition build_host_port :: "nat list \<Rightarrow> nat \<times> nat \<Rightarrow> string" where
  "build_host_port addrBytes port =
     join_host_port (ip_string addrBytes) (itoa (int (256 * fst port + snd port)))"

definition get_original_dst_v4 :: "sockaddr option \<Rightarrow> dst_error + string" where
  "get_original_dst_v4 res =
     (case res of
        None \<Rightarrow> Inl ErrGetsockopt
      | Some sa \<Rightarrow>
          if sa_optlen sa < sockaddr_inet4_size then Inl ErrEINVAL
          else if sa_family sa \<noteq> af_inet then Inl ErrEAFNOSUPPORT
          else Inr (build_host_port (sa_addr sa) (sa_port sa)))"

definition get_original_dst_v6 :: "sockaddr option \<Rightarrow> dst_error + string" where
  "get_original_dst_v6 res =
     (case res of
        None \<Rightarrow> Inl ErrGetsockopt
      | Some sa \<Rightarrow>
          if sa_optlen sa < sockaddr_inet6_size then Inl ErrEINVAL
          else if sa_family sa \<noteq> af_inet6 then Inl ErrEAFNOSUPPORT
          else Inr (build_host_port (sa_addr sa) (sa_port sa)))"

record kernel_dst =
  syscall_conn_ok :: bool
  so_original_dst :: "sockaddr option"
  ip6t_so_original_dst :: "sockaddr option"

definition original_dst_tcp :: "kernel_dst \<Rightarrow> dst_error + string" where
  "original_dst_tcp k =
     (if \<not> syscall_conn_ok k then Inl ErrSyscallConn
      else (case get_original_dst_v4 (so_original_dst k) of
              Inr out \<Rightarrow> Inr out
            | Inl _ \<Rightarrow> get_original_dst_v6 (ip6t_so_original_dst k)))"

subsection \<open>Timeouts\<close>

definition milliseconds :: "int \<Rightarrow> nanos" where "milliseconds n = n * 1000000"

definition timeout_from_options :: "options \<Rightarrow> nanos \<Rightarrow> nanos" where
  "timeout_from_options opts dflt =
     (if DialTimeout opts \<le> 0 then dflt else milliseconds (DialTimeout opts))"

definition set_conn_timeouts :: "nanos \<Rightarrow> options \<Rightarrow> (nanos \<times> nanos) option" where
  \<comment> \<open>the deadlines set on the client and the backend connection, if any\<close>
  "set_conn_timeouts now opts =
     (if IdleTimeout opts > 0
      then Some (now + milliseconds (IdleTimeout opts), now + milliseconds (IdleTimeout opts))
      else None)"

subsection \<open>Synthetic events\<close>

type_synonym clock = "nanos \<times> nanos" \<comment> \<open>the two readings \<^verbatim>\<open>MarkSynthetic\<close> makes\<close>

definition emit_synthetic ::
  "env \<Rightarrow> clock \<Rightarrow> bool \<Rightarrow> string \<Rightarrow> conn \<Rightarrow> string \<Rightarrow> synthetic \<Rightarrow>
   string \<times> log_line list \<times> synthetic" where
  "emit_synthetic E now has_logger component c target st =
     (if \<not> has_logger \<or> target = [] then ([], [], st)
      else
        (let (destIP, destPort) = parse_host_port target;
             (sourceIP, sourcePort) = source_addr c;
             fid = flow_id E sourceIP sourcePort destIP destPort ''tcp''
         in (fid,
             [log_line Debug ''nflog.synthetic''
                [(''component'', VS component), (''action'', VS action_redirected),
                 (''protocol'', VS ''TCP''), (''prefix'', VS ''redirected''),
                 (''source_ip'', VS sourceIP), (''source_port'', VI sourcePort),
                 (''destination_ip'', VS destIP), (''destination_port'', VI destPort),
                 (''src'', VS (sourceIP @ '':'' @ itoa sourcePort)),
                 (''dst'', VS (destIP @ '':'' @ itoa destPort)), (''flow_id'', VS fid)]],
             mark_synthetic (fst now) (snd now) fid st)))"

definition emit_synthetic_udp ::
  "env \<Rightarrow> clock \<Rightarrow> bool \<Rightarrow> string \<Rightarrow> string \<Rightarrow> int \<Rightarrow> string \<Rightarrow> synthetic \<Rightarrow>
   string \<times> log_line list \<times> synthetic" where
  "emit_synthetic_udp E now has_logger component sourceIP sourcePort dst st =
     (if \<not> has_logger \<or> dst = [] then ([], [], st)
      else
        (let (destIP, destPort) = parse_host_port dst;
             fid = flow_id E sourceIP sourcePort destIP destPort ''udp''
         in (fid,
             [log_line Debug ''nflog.synthetic''
                [(''component'', VS component), (''action'', VS action_redirected),
                 (''protocol'', VS ''UDP''), (''prefix'', VS ''dns_redirected''),
                 (''source_ip'', VS sourceIP), (''source_port'', VI sourcePort),
                 (''destination_ip'', VS destIP), (''destination_port'', VI destPort),
                 (''src'', VS (sourceIP @ '':'' @ itoa sourcePort)), (''dst'', VS dst),
                 (''flow_id'', VS fid)]],
             mark_synthetic (fst now) (snd now) fid st)))"

subsection \<open>The decision log\<close>

definition component_https :: string where "component_https = ''https''"
definition component_http :: string where "component_http = ''http''"

definition base_log_fields :: "string \<Rightarrow> string \<Rightarrow> string \<Rightarrow> string \<Rightarrow> int \<Rightarrow> fields" where
  "base_log_fields component action identifier sourceIP sourcePort =
     [(''component'', VS component), (''action'', VS action),
      (if component = component_https then component_https
       else if component = component_http then ''host'' else ''identifier'', VS identifier),
      (''source_ip'', VS sourceIP), (''source_port'', VI sourcePort)]"

definition dest_fields :: "env \<Rightarrow> string \<Rightarrow> int \<Rightarrow> string \<Rightarrow> int \<Rightarrow> fields" where
  \<comment> \<open>the fields both decision logs append for a known destination\<close>
  "dest_fields E sourceIP sourcePort destIP destPort =
     [(''destination_ip'', VS destIP), (''destination_port'', VI destPort),
      (''dst'', VS (join_host_port destIP (itoa destPort))),
      (''flow_id'', VS (flow_id E sourceIP sourcePort destIP destPort ''tcp''))]"

definition log_allowed_connection ::
  "env \<Rightarrow> options \<Rightarrow> string \<Rightarrow> string \<Rightarrow> string \<Rightarrow> conn \<Rightarrow> log_line list" where
  "log_allowed_connection E opts component target identifier c =
     (if \<not> HasLogger opts then []
      else
        (let (sourceIP, sourcePort) = source_addr c;
             (destIP, destPort) = parse_host_port target
         in [log_line Info (component @ ''.allowed'')
               (base_log_fields component action_allowed identifier sourceIP sourcePort
                @ dest_fields E sourceIP sourcePort destIP destPort
                @ proc_fields opts sourceIP sourcePort ''tcp'')]))"

definition log_policy_violation ::
  "env \<Rightarrow> options \<Rightarrow> string \<Rightarrow> string \<Rightarrow> string \<Rightarrow> string \<Rightarrow> conn \<Rightarrow> string \<Rightarrow> int \<Rightarrow> log_line list" where
  "log_policy_violation E opts component action reason identifier c destIP destPort =
     (if \<not> HasLogger opts then []
      else
        (let (sourceIP, sourcePort) = source_addr c
         in [log_line Warn (component @ ''.'' @ to_lower E action)
               (base_log_fields component action identifier sourceIP sourcePort
                @ [(''reason'', VS reason)]
                @ (if destIP \<noteq> [] then dest_fields E sourceIP sourcePort destIP destPort else [])
                @ proc_fields opts sourceIP sourcePort ''tcp'')]))"

definition log_blocked_connection ::
  "env \<Rightarrow> options \<Rightarrow> string \<Rightarrow> string \<Rightarrow> string \<Rightarrow> conn \<Rightarrow> string \<Rightarrow> int \<Rightarrow> log_line list" where
  "log_blocked_connection E opts component reason identifier c destIP destPort =
     log_policy_violation E opts component action_blocked reason identifier c destIP destPort"

definition log_audited_connection ::
  "env \<Rightarrow> options \<Rightarrow> string \<Rightarrow> string \<Rightarrow> string \<Rightarrow> conn \<Rightarrow> string \<Rightarrow> int \<Rightarrow> log_line list" where
  "log_audited_connection E opts component reason identifier c destIP destPort =
     log_policy_violation E opts component action_audit reason identifier c destIP destPort"

definition log_dst_conn_dial_error ::
  "options \<Rightarrow> string \<Rightarrow> conn \<Rightarrow> string \<Rightarrow> string \<Rightarrow> log_line list" where
  "log_dst_conn_dial_error opts component c target err =
     (if \<not> HasLogger opts then []
      else
        (let (sourceIP, sourcePort) = source_addr c;
             (destIP, destPort) = parse_host_port target
         in [log_line Warn (component @ ''.dst_conn_dial_error'')
               [(''component'', VS component), (''destination_ip'', VS destIP),
                (''destination_port'', VI destPort),
                (''dst'', VS (join_host_port destIP (itoa destPort))), (''err'', VS err),
                (''source_ip'', VS sourceIP), (''source_port'', VI sourcePort)]]))"

subsection \<open>Copying both ways\<close>

text \<open>What the backend and what the client receive, given the bytes the client still sends and the
  bytes the backend sends. A reader is the buffer of peeked bytes, which the connection follows, or
  a reader of its own. A \<open>wire\<close> says for each byte of one direction when it would be carried over and
  whether both connections still work then. A copy ends at the first byte that comes after the deadline
  of the connections or finds one of them broken; what is copied afterwards fails at the same place.\<close>

type_synonym wire = "nat \<Rightarrow> nanos \<times> bool"

definition passes :: "nanos option \<Rightarrow> nanos \<times> bool \<Rightarrow> bool" where
  "passes deadline x \<longleftrightarrow> snd x \<and> (case deadline of None \<Rightarrow> True | Some d \<Rightarrow> fst x < d)"

fun io_copy :: "nanos option \<Rightarrow> wire \<Rightarrow> nat \<Rightarrow> string \<Rightarrow> string \<times> nat" where
  \<comment> \<open>the bytes written, and how many of this direction there are now; the error is ignored\<close>
  "io_copy dl w k [] = ([], k)"
| "io_copy dl w k (c # s) =
     (if passes dl (w k) then (let (out, k') = io_copy dl w (Suc k) s in (c # out, k')) else ([], k))"

datatype copy_reader = Peeked string | Stream string

definition bidirectional_copy ::
  "nanos option \<Rightarrow> wire \<Rightarrow> wire \<Rightarrow> string \<Rightarrow> string \<Rightarrow> copy_reader \<Rightarrow> string \<times> string" where
  "bidirectional_copy dl up down from_client from_backend reader =
     (case reader of
        Peeked buf \<Rightarrow>
          (let (peeked, k) = io_copy dl up 0 buf; (rest, _) = io_copy dl up k from_client in peeked @ rest)
      | Stream s \<Rightarrow> fst (io_copy dl up 0 s),
      fst (io_copy dl down 0 from_backend))"

definition bidirectional_copy_with_buffered_reader ::
  "nanos option \<Rightarrow> wire \<Rightarrow> nat \<Rightarrow> wire \<Rightarrow> string \<Rightarrow> string \<Rightarrow> string \<Rightarrow> string \<times> string" where
  \<comment> \<open>the number says how many bytes went to the backend before\<close>
  "bidirectional_copy_with_buffered_reader dl up k0 down from_client from_backend buffered =
     (let (first, k) = (if length buffered > 0 then io_copy dl up k0 buffered else ([], k0));
          (rest, _) = io_copy dl up k from_client
      in (first @ rest, fst (io_copy dl down 0 from_backend)))"

definition carried :: "nanos option \<Rightarrow> wire \<Rightarrow> string \<Rightarrow> string" where
  \<comment> \<open>the bytes before the first one that is late or finds a connection broken\<close>
  "carried dl w s = take (length (takeWhile (\<lambda>i. passes dl (w i)) [0 ..< length s])) s"

lemma io_copy_append:
  "io_copy dl w k (s @ t) =
     (let (a, k') = io_copy dl w k s; (b, k'') = io_copy dl w k' t in (a @ b, k''))"
proof (induction s arbitrary: k)
  case Nil
  then show ?case by (simp add: case_prod_unfold)
next
  case (Cons c s)
  show ?case
  proof (cases "passes dl (w k)")
    case True
    then show ?thesis using Cons.IH [of "Suc k"] by (simp add: Let_def case_prod_unfold)
  next
    case False
    then show ?thesis by (cases t) simp_all
  qed
qed

lemma io_copy_from:
  "fst (io_copy dl w k s) = take (length (takeWhile (\<lambda>i. passes dl (w i)) [k ..< k + length s])) s"
proof (induction s arbitrary: k)
  case (Cons c s)
  have "[k ..< k + length (c # s)] = k # [Suc k ..< Suc k + length s]" by (subst upt_conv_Cons) simp_all
  then show ?case using Cons.IH [of "Suc k"] by (simp add: case_prod_unfold del: upt_Suc)
qed simp

lemma io_copy_carried: "fst (io_copy dl w 0 s) = carried dl w s"
  using io_copy_from [of dl w 0 s] by (simp add: carried_def)

lemma carried_all:
  assumes "\<And>i. i < length s \<Longrightarrow> passes dl (w i)"
  shows "carried dl w s = s"
proof -
  have "takeWhile (\<lambda>i. passes dl (w i)) [0 ..< length s] = [0 ..< length s]"
    using assms by (intro takeWhile_eq_all_conv [THEN iffD2]) auto
  then show ?thesis unfolding carried_def by (metis diff_zero length_upt order_refl take_all)
qed

subsection \<open>The original destination\<close>

lemma nat_digits_set: "2 \<le> b \<Longrightarrow> b \<le> 16 \<Longrightarrow> set (nat_digits b n) \<subseteq> set digit_chars"
proof (induction b n rule: nat_digits.induct)
  case (1 b n)
  have "length digit_chars = 16" by (simp add: digit_chars_def)
  moreover have "n mod b < b" using "1.prems" by simp
  ultimately have "n mod b < length digit_chars" using "1.prems"(2) by linarith
  then have "digit_chars ! (n mod b) \<in> set digit_chars" by (rule nth_mem)
  with 1 show ?case by (subst nat_digits.simps) auto
qed

lemma set_join_with: "set (join_with sep ws) \<subseteq> set sep \<union> \<Union> (set ` set ws)"
  by (induction sep ws rule: join_with.induct) auto

lemma ip_string_chars:
  assumes "length bs = 4 \<or> length bs = 16"
  shows "set (ip_string bs) \<subseteq> set digit_chars \<union> {CHR ''.'', CHR '':''}"
proof -
  have dec: "set (itoa (int b)) \<subseteq> set digit_chars" for b
    using nat_digits_set [of 10 b] by (simp add: itoa_def)
  have hex: "set (format_hex g) \<subseteq> set digit_chars" for g
    using nat_digits_set [of 16 g] by (simp add: format_hex_def)
  have "set (v4_text fs) \<subseteq> set digit_chars \<union> {CHR ''.''}" for fs
    using set_join_with [of "''.''" "map (\<lambda>b. itoa (int b)) fs"] dec
    by (auto simp: v4_text_def)
  moreover have j: "set (join_with '':'' (map format_hex gs)) \<subseteq> set digit_chars \<union> {CHR '':''}" for gs
    using set_join_with [of "'':''" "map format_hex gs"] hex by auto
  have "set (v6_text gs) \<subseteq> set digit_chars \<union> {CHR '':''}" for gs
    using j by (auto simp: v6_text_def split: option.splits prod.splits)
  ultimately show ?thesis
    using assms by (auto simp: ip_string_def to4_def split: option.splits)
qed

lemma atoi_value_itoa:
  assumes "0 \<le> i" "i < 2 ^ 63"
  shows "atoi_value (itoa i) = i"
  using assms digit_not_sign [OF nat_digits_chars nat_digits_nonempty, of "nat i"]
  by (simp add: atoi_value_def itoa_def Let_def digits_val_nat_digits nat_digits_nonempty)

definition sockaddr_wf :: "nat \<Rightarrow> sockaddr \<Rightarrow> bool" where
  \<comment> \<open>what the kernel fills in: an address of the right length, a two-byte port\<close>
  "sockaddr_wf len sa \<longleftrightarrow> length (sa_addr sa) = len \<and> fst (sa_port sa) < 256 \<and> snd (sa_port sa) < 256"

lemma parse_build_host_port:
  assumes "length bs = 4 \<or> length bs = 16" "fst port < 256" "snd port < 256"
  shows "parse_host_port (build_host_port bs port) = (ip_string bs, int (256 * fst port + snd port))"
proof -
  let ?p = "int (256 * fst port + snd port)"
  have "list_all is_digit_char (itoa ?p)" by (rule itoa_nonneg_chars) simp
  then have digits: "CHR '':'' \<notin> set (itoa ?p)" "CHR ''['' \<notin> set (itoa ?p)" "CHR '']'' \<notin> set (itoa ?p)"
    by (auto simp: list_all_iff is_digit_char_def)
  moreover have "CHR ''['' \<notin> set (ip_string bs)" "CHR '']'' \<notin> set (ip_string bs)"
    using ip_string_chars [OF assms(1)] by (auto simp: digit_chars_def)
  ultimately have "split_host_port (build_host_port bs port) = Some (ip_string bs, itoa ?p)"
    unfolding build_host_port_def by (intro split_join_host_port) auto
  moreover have "?p < 2 ^ 63" using assms(2,3) by simp
  then have "atoi_value (itoa ?p) = ?p" by (intro atoi_value_itoa) simp_all
  ultimately show ?thesis by (simp add: parse_host_port_def)
qed

text \<open>The destination the filter dials is the one the kernel recorded. When the lookup
  succeeds, the text it returns parses back, brackets and all, to the address and the port of the
  IPv4 answer, or of the IPv6 answer when there is no IPv4 one.\<close>

theorem original_dst_roundtrip:
  assumes "original_dst_tcp k = Inr t"
    and "\<And>sa. so_original_dst k = Some sa \<Longrightarrow> sockaddr_wf 4 sa"
    and "\<And>sa. ip6t_so_original_dst k = Some sa \<Longrightarrow> sockaddr_wf 16 sa"
  shows "\<exists>sa. (so_original_dst k = Some sa \<and> sa_family sa = af_inet \<or>
        ip6t_so_original_dst k = Some sa \<and> sa_family sa = af_inet6) \<and>
    parse_host_port t = (ip_string (sa_addr sa), int (256 * fst (sa_port sa) + snd (sa_port sa)))"
proof -
  have "(\<exists>sa. so_original_dst k = Some sa \<and> sa_family sa = af_inet \<and>
      t = build_host_port (sa_addr sa) (sa_port sa)) \<or>
    (\<exists>sa. ip6t_so_original_dst k = Some sa \<and> sa_family sa = af_inet6 \<and>
      t = build_host_port (sa_addr sa) (sa_port sa))"
    using assms(1)
    by (auto simp: original_dst_tcp_def get_original_dst_v4_def get_original_dst_v6_def
        split: if_splits option.splits sum.splits)
  then show ?thesis
    using assms(2,3) parse_build_host_port by (fastforce simp: sockaddr_wf_def)
qed

lemma original_dst_roundtrip_witness:
  "\<exists>t. original_dst_tcp
      \<lparr>syscall_conn_ok = True,
       so_original_dst = Some \<lparr>sa_optlen = 16, sa_family = 2, sa_addr = [10, 0, 0, 1], sa_port = (1, 187)\<rparr>,
       ip6t_so_original_dst = None\<rparr> = Inr t \<and> snd (parse_host_port t) = 443"
proof -
  let ?sa = "\<lparr>sa_optlen = 16, sa_family = 2, sa_addr = [10, 0, 0, 1], sa_port = (1, 187)\<rparr>"
  let ?k = "\<lparr>syscall_conn_ok = True, so_original_dst = Some ?sa, ip6t_so_original_dst = None\<rparr>"
  let ?t = "build_host_port [10, 0, 0, 1] (1, 187)"
  have "original_dst_tcp ?k = Inr ?t"
    by (simp add: original_dst_tcp_def get_original_dst_v4_def sockaddr_inet4_size_def af_inet_def)
  from original_dst_roundtrip [OF this] have "snd (parse_host_port ?t) = 443"
    by (auto simp: sockaddr_wf_def)
  with \<open>original_dst_tcp ?k = Inr ?t\<close> show ?thesis by blast
qed

subsection \<open>Suppressing the kernel's duplicate\<close>

text \<open>The flow table as an interface: the filters mark a flow when they log its redirect, the
  nflog reader asks before it logs the same flow again.\<close>

locale flow_marks =
  fixes mark :: "nanos \<Rightarrow> nanos \<Rightarrow> string \<Rightarrow> 's \<Rightarrow> 's"
    and recent :: "nanos \<Rightarrow> string \<Rightarrow> 's \<Rightarrow> bool"
    and inv :: "'s \<Rightarrow> bool"
    and window :: nanos
  assumes mark_inv: "inv s \<Longrightarrow> inv (mark t t' f s)"
    and recent_mark: "inv s \<Longrightarrow> f \<noteq> [] \<Longrightarrow> t \<le> t' \<Longrightarrow> t' \<le> u \<Longrightarrow>
      recent u g (mark t t' f s) \<longleftrightarrow> (if g = f then u - t \<le> window else recent u g s)"
begin

text \<open>After any sequence of marks in time order, a flow is recent exactly when its last mark lies
  within the window, or it was never marked and is recent in the state before.\<close>

lemma recent_mark_all:
  "inv s \<Longrightarrow> sorted (map fst ms) \<Longrightarrow> \<forall>(t, f) \<in> set ms. t \<le> u \<and> f \<noteq> [] \<Longrightarrow>
   recent u g (foldl (\<lambda>s (t, f). mark t t f s) s ms) \<longleftrightarrow>
     (case map_of (map (\<lambda>(t, f). (f, t)) (rev ms)) g of
        Some t \<Rightarrow> u - t \<le> window | None \<Rightarrow> recent u g s)"
proof (induction ms arbitrary: s)
  case Nil
  then show ?case by simp
next
  case (Cons m ms)
  obtain t f where m: "m = (t, f)" by (cases m)
  have "recent u g (foldl (\<lambda>s (t, f). mark t t f s) (mark t t f s) ms) \<longleftrightarrow>
     (case map_of (map (\<lambda>(t, f). (f, t)) (rev ms)) g of
        Some t \<Rightarrow> u - t \<le> window | None \<Rightarrow> recent u g (mark t t f s))"
    using Cons m by (intro Cons.IH) (auto intro: mark_inv)
  moreover have "recent u g (mark t t f s) \<longleftrightarrow> (if g = f then u - t \<le> window else recent u g s)"
    using Cons.prems m by (intro recent_mark) auto
  ultimately show ?case
    using m by (auto simp: map_add_def split: option.splits)
qed

end

interpretation marks: flow_marks mark_synthetic is_synthetic_recent synthetic_wf suppress_window
proof unfold_locales
  fix s t t' f u g
  show "synthetic_wf s \<Longrightarrow> synthetic_wf (mark_synthetic t t' f s)" by (rule mark_synthetic_wf)
  assume "synthetic_wf s" "f \<noteq> []" "t \<le> t'" "t' \<le> u"
  then show "is_synthetic_recent u g (mark_synthetic t t' f s) \<longleftrightarrow>
      (if g = f then u - t \<le> suppress_window else is_synthetic_recent u g s)"
    by (rule synthetic_after_mark)
qed

text \<open>The table of synthetic events is exact, pruning included. After any sequence of marks in
  time order, however long, a flow counts as recent exactly when it was marked and its last mark is
  at most five seconds old.\<close>

theorem synthetic_marks_exact:
  assumes "sorted (map fst ms)" "\<forall>(t, f) \<in> set ms. t \<le> u \<and> f \<noteq> []"
  shows "is_synthetic_recent u g (foldl (\<lambda>s (t, f). mark_synthetic t t f s) synthetic_init ms) \<longleftrightarrow>
    (\<exists>t. map_of (map (\<lambda>(t, f). (f, t)) (rev ms)) g = Some t \<and> u - t \<le> suppress_window)"
  unfolding marks.recent_mark_all [OF synthetic_init_wf assms]
  by (auto simp: is_synthetic_recent_def synthetic_init_def split: option.splits)

lemma synthetic_marks_exact_witness:
  "\<not> is_synthetic_recent (10 * second) ''f''
     (foldl (\<lambda>s (t, f). mark_synthetic t t f s) synthetic_init [(second, ''f''), (9 * second, ''g'')])"
  using synthetic_marks_exact [of "[(second, ''f''), (9 * second, ''g'')]" "10 * second" "''f''"]
  by (simp add: suppress_window_def)

end
