(* ===== verification/TextProto.thy ===== *)
theory TextProto
  imports FilterCommon
begin

text \<open>
  The part of Go's \<^verbatim>\<open>net/textproto\<close> that \<^verbatim>\<open>readHeadWithTextproto\<close> in
  \<^verbatim>\<open>internal/filter/http_filter.go\<close> uses: reading a line, reading a MIME header with its
  continuation lines and checks, and \<^verbatim>\<open>MIMEHeader.Get\<close>; then that function itself.

  The input is the string of the bytes the client sends before it stops; the functions return the
  rest of it. How many bytes the buffered readers fetch beyond the head is a matter of their
  buffer sizes and is a parameter of the connection in TcpFilters.
\<close>

definition newline :: char where "newline = CHR 0x0A"
definition carriage :: char where "carriage = CHR 0x0D"

subsection \<open>Lines\<close>

definition read_line_slice :: "string \<Rightarrow> (string \<times> string) option" where
  \<comment> \<open>None at the end of the input; a last line without a newline is a line\<close>
  "read_line_slice s =
     (if s = [] then None
      else if newline \<in> set s then
        (let l = takeWhile (\<lambda>c. c \<noteq> newline) s
         in Some (trim_suffix l [carriage], drop (Suc (length l)) s))
      else Some (s, []))"

lemma read_line_shorter: "read_line_slice s = Some (l, r) \<Longrightarrow> length r < length s"
  by (cases s) (auto simp: read_line_slice_def Let_def split: if_splits)

definition is_blank :: "char \<Rightarrow> bool" where
  "is_blank c \<longleftrightarrow> c = CHR '' '' \<or> c = CHR 0x09"

definition trim_blanks :: "string \<Rightarrow> string" where
  "trim_blanks s = rev (dropWhile is_blank (rev (dropWhile is_blank s)))"

definition skip_space :: "string \<Rightarrow> nat \<times> string" where
  "skip_space s = (length (takeWhile is_blank s), dropWhile is_blank s)"

function continuation :: "string \<Rightarrow> string \<Rightarrow> string \<times> string" where
  \<comment> \<open>the loop over continuation lines: the line so far, the rest of the input\<close>
  "continuation acc s =
     (let (n, s1) = skip_space s
      in if n = 0 then (acc, s1)
         else (case read_line_slice s1 of
                 None \<Rightarrow> (acc @ '' '', s1)
               | Some (line, s2) \<Rightarrow> continuation (acc @ '' '' @ trim_blanks line) s2))"
  by pat_completeness auto
termination
proof (relation "measure (\<lambda>(acc, s). length s)", goal_cases)
  case (2 acc s p n s1 q line s2)
  have "length s1 \<le> length s"
    using 2(1,2) by (auto simp: skip_space_def length_dropWhile_le)
  with read_line_shorter 2 show ?case by fastforce
qed simp

declare continuation.simps [simp del]

datatype head_error = ErrRequestLine | ErrMIMEHeader

definition read_continued_line :: "string \<Rightarrow> head_error + (string \<times> string)" where
  "read_continued_line s =
     (case read_line_slice s of
        None \<Rightarrow> Inl ErrMIMEHeader
      | Some (line, r) \<Rightarrow>
          if line = [] then Inr ([], r)
          else if CHR '':'' \<notin> set line then Inl ErrMIMEHeader
          else Inr (continuation (trim_blanks line) r))"

lemma continuation_shorter: "continuation acc s = (l, r) \<Longrightarrow> length r \<le> length s"
proof (induction acc s arbitrary: l r rule: continuation.induct)
  case (1 acc s)
  obtain n s1 where sk: "skip_space s = (n, s1)" by fastforce
  then have s1: "length s1 \<le> length s" by (auto simp: skip_space_def length_dropWhile_le)
  show ?case
  proof (cases "n = 0")
    case True
    with "1.prems" sk s1 show ?thesis by (simp add: continuation.simps [of acc s])
  next
    case False
    show ?thesis
    proof (cases "read_line_slice s1")
      case None
      with "1.prems" sk s1 False show ?thesis by (simp add: continuation.simps [of acc s])
    next
      case (Some p)
      obtain line s2 where p: "p = (line, s2)" by (cases p)
      have "continuation (acc @ '' '' @ trim_blanks line) s2 = (l, r)"
        using "1.prems" sk False Some p by (simp add: continuation.simps [of acc s])
      with "1.IH" [OF refl sk [symmetric] False Some p [symmetric]] have "length r \<le> length s2" by blast
      with read_line_shorter [of s1 line s2] Some p s1 show ?thesis by simp
    qed
  qed
qed

lemma read_continued_shorter: "read_continued_line s = Inr (kv, r) \<Longrightarrow> length r < length s"
  by (auto simp: read_continued_line_def dest!: read_line_shorter continuation_shorter
      split: option.splits if_splits prod.splits)

subsection \<open>Header fields\<close>

definition is_alpha_char :: "char \<Rightarrow> bool" where
  "is_alpha_char c \<longleftrightarrow> is_lower_char c \<or> is_upper_char c"

definition valid_header_field_byte :: "char \<Rightarrow> bool" where
  \<comment> \<open>the token characters of RFC 7230\<close>
  "valid_header_field_byte c \<longleftrightarrow>
     is_alpha_char c \<or> is_digit_char c \<or> c \<in> set ''!#$%&*+-.^_|~'' \<or> c = CHR 0x27 \<or> c = CHR 0x60"

definition valid_header_value_byte :: "char \<Rightarrow> bool" where
  "valid_header_value_byte c \<longleftrightarrow>
     c = CHR 0x09 \<or> 32 \<le> byte_of c \<and> byte_of c \<noteq> 127"

fun canonicalize :: "bool \<Rightarrow> string \<Rightarrow> string" where
  "canonicalize upper [] = []"
| "canonicalize upper (c # cs) =
     (let d = (if upper then upper_char c else lower_char c)
      in d # canonicalize (d = CHR ''-'') cs)"

definition canonical_mime_header_key :: "string \<Rightarrow> string option" where
  "canonical_mime_header_key a =
     (if a = [] then None
      else if \<not> list_all (\<lambda>c. valid_header_field_byte c \<or> c = CHR '' '') a then None
      else if CHR '' '' \<in> set a then Some a
      else Some (canonicalize True a))"

type_synonym mime_header = "(string \<times> string) list" \<comment> \<open>in the order of the lines\<close>

function read_fields :: "mime_header \<Rightarrow> string \<Rightarrow> head_error + (mime_header \<times> string)" where
  "read_fields m s =
     (case read_continued_line s of
        Inl e \<Rightarrow> Inl e
      | Inr (kv, r) \<Rightarrow>
          if kv = [] then Inr (m, r)
          else
            (case split_first CHR '':'' kv of
               None \<Rightarrow> Inl ErrMIMEHeader
             | Some (k, v) \<Rightarrow>
                 (case canonical_mime_header_key k of
                    None \<Rightarrow> Inl ErrMIMEHeader
                  | Some key \<Rightarrow>
                      if \<not> list_all valid_header_value_byte v then Inl ErrMIMEHeader
                      else read_fields (m @ [(key, dropWhile is_blank v)]) r)))"
  by pat_completeness auto
termination
  by (relation "measure (\<lambda>(m, s). length s)") (auto dest: read_continued_shorter)

declare read_fields.simps [simp del]

definition read_mime_header :: "string \<Rightarrow> head_error + (mime_header \<times> string)" where
  "read_mime_header s =
     (if s \<noteq> [] \<and> is_blank (hd s) then Inl ErrMIMEHeader else read_fields [] s)"

definition header_get :: "mime_header \<Rightarrow> string \<Rightarrow> string" where
  \<comment> \<open>the first value of the key, in canonical form already, or the empty string\<close>
  "header_get m key = (case map_of m key of None \<Rightarrow> [] | Some v \<Rightarrow> v)"

subsection \<open>The head of a request\<close>

definition normalize_host_header :: "env \<Rightarrow> string \<Rightarrow> string" where
  "normalize_host_header E host =
     (if host = [] then []
      else
        (let h = (case split_host_port host of Some (h, _) \<Rightarrow> h | None \<Rightarrow> host)
         in trim_suffix (to_lower E h) ''.''))"

definition read_head_with_textproto :: "env \<Rightarrow> string \<Rightarrow> string \<times> head_error option" where
  "read_head_with_textproto E s =
     (case read_line_slice s of
        None \<Rightarrow> ([], Some ErrRequestLine)
      | Some (_, r) \<Rightarrow>
          (case read_mime_header r of
             Inl e \<Rightarrow> ([], Some e)
           | Inr (mh, _) \<Rightarrow> (normalize_host_header E (header_get mh ''Host''), None)))"

subsection \<open>Reading what a client writes\<close>

definition crlf :: string where "crlf = [carriage, newline]"

definition header_line :: "string \<times> string \<Rightarrow> string" where
  "header_line kv = fst kv @ '': '' @ snd kv @ crlf"

definition request_head :: "string \<Rightarrow> (string \<times> string) list \<Rightarrow> string" where
  "request_head line hs = line @ crlf @ concat (map header_line hs) @ crlf"

definition header_ok :: "string \<times> string \<Rightarrow> bool" where
  "header_ok kv \<longleftrightarrow>
     fst kv \<noteq> [] \<and> list_all valid_header_field_byte (fst kv) \<and>
     snd kv \<noteq> [] \<and> list_all valid_header_value_byte (snd kv) \<and>
     \<not> is_blank (hd (snd kv)) \<and> \<not> is_blank (last (snd kv))"

lemma read_line_crlf: "newline \<notin> set l \<Longrightarrow> read_line_slice (l @ crlf @ r) = Some (l, r)"
proof -
  assume l: "newline \<notin> set l"
  have cr: "newline \<noteq> carriage" by (simp add: newline_def carriage_def)
  have "takeWhile (\<lambda>c. c \<noteq> newline) ((l @ [carriage]) @ newline # r) = l @ [carriage]"
    using l cr by (subst takeWhile_append2) auto
  then have "takeWhile (\<lambda>c. c \<noteq> newline) (l @ crlf @ r) = l @ [carriage]"
    by (simp add: crlf_def)
  moreover have "drop (Suc (length (l @ [carriage]))) (l @ crlf @ r) = r"
    by (simp add: crlf_def)
  moreover have "trim_suffix (l @ [carriage]) [carriage] = l" by (simp add: trim_suffix_def)
  ultimately show ?thesis by (simp add: read_line_slice_def crlf_def Let_def)
qed

lemma trim_blanks_id: "s \<noteq> [] \<Longrightarrow> \<not> is_blank (hd s) \<Longrightarrow> \<not> is_blank (last s) \<Longrightarrow> trim_blanks s = s"
proof -
  assume s: "s \<noteq> []" "\<not> is_blank (hd s)" "\<not> is_blank (last s)"
  then have "dropWhile is_blank s = s" by (cases s) auto
  moreover have "dropWhile is_blank (rev s) = rev s"
    using s by (cases s rule: rev_cases) auto
  ultimately show ?thesis by (simp add: trim_blanks_def)
qed

lemma continuation_stop: "s = [] \<or> \<not> is_blank (hd s) \<Longrightarrow> continuation acc s = (acc, s)"
  by (cases s) (auto simp: continuation.simps skip_space_def)

lemma field_byte_props:
  assumes "valid_header_field_byte c"
  shows "\<not> is_blank c" "c \<noteq> CHR '':''" "c \<noteq> newline" "c \<noteq> carriage"
  using assms by (auto simp: valid_header_field_byte_def is_blank_def newline_def carriage_def
      is_alpha_char_def char_defs)

lemma value_byte_no_newline: "valid_header_value_byte c \<Longrightarrow> c \<noteq> newline"
  by (auto simp: valid_header_value_byte_def newline_def)

lemma read_fields_lines:
  assumes "\<forall>kv \<in> set hs. header_ok kv"
  shows "read_fields m (concat (map header_line hs) @ crlf @ r) =
    Inr (m @ map (\<lambda>(k, v). (canonicalize True k, v)) hs, r)"
  using assms
proof (induction hs arbitrary: m)
  case Nil
  have "read_line_slice (crlf @ r) = Some ([], r)" using read_line_crlf [of "[]" r] by simp
  then show ?case by (simp add: read_fields.simps read_continued_line_def)
next
  case (Cons kv hs)
  obtain k v where kv: "kv = (k, v)" by (cases kv)
  have ok: "k \<noteq> []" "list_all valid_header_field_byte k" "v \<noteq> []" "list_all valid_header_value_byte v"
    "\<not> is_blank (hd v)" "\<not> is_blank (last v)"
    using Cons.prems kv by (auto simp: header_ok_def)
  let ?line = "k @ '': '' @ v"
  let ?rest = "concat (map header_line hs) @ crlf @ r"
  have nl: "newline \<notin> set ?line"
    using ok(2,4) field_byte_props(3) value_byte_no_newline
    by (auto simp: list_all_iff newline_def)
  have "read_line_slice (?line @ crlf @ ?rest) = Some (?line, ?rest)"
    by (rule read_line_crlf [OF nl])
  moreover have "\<not> is_blank (hd k)"
    using ok(1,2) field_byte_props(1) by (cases k) auto
  then have "trim_blanks ?line = ?line" using ok by (intro trim_blanks_id) auto
  moreover have "?rest = [] \<or> \<not> is_blank (hd ?rest)"
  proof (cases hs)
    case Nil
    then show ?thesis by (simp add: crlf_def is_blank_def carriage_def)
  next
    case (Cons kv' hs')
    then have "header_ok kv'" using Cons.prems by simp
    then show ?thesis using Cons field_byte_props(1)
      by (cases "fst kv'") (auto simp: header_ok_def header_line_def)
  qed
  ultimately have line: "read_continued_line (?line @ crlf @ ?rest) = Inr (?line, ?rest)"
    using continuation_stop [of ?rest ?line] by (simp add: read_continued_line_def)
  have "CHR '':'' \<notin> set k" using ok(2) field_byte_props(2) by (auto simp: list_all_iff)
  then have split: "split_first CHR '':'' ?line = Some (k, '' '' @ v)"
    using split_first_at [of "CHR '':''" k "'' '' @ v"] by simp
  have sp: "\<not> valid_header_field_byte CHR '' ''"
    using field_byte_props(1) [of "CHR '' ''"] by (auto simp: is_blank_def)
  have key: "canonical_mime_header_key k = Some (canonicalize True k)"
    using ok(1,2) sp by (auto simp: canonical_mime_header_key_def list_all_iff)
  have val: "list_all valid_header_value_byte ('' '' @ v)" "dropWhile is_blank ('' '' @ v) = v"
    using ok(3-5) by (auto simp: valid_header_value_byte_def is_blank_def split: list.splits)
      (cases v; auto simp: is_blank_def)
  have "concat (map header_line (kv # hs)) @ crlf @ r = ?line @ crlf @ ?rest"
    using kv by (simp add: header_line_def)
  then show ?case
    using line split key val Cons.IH [of "m @ [(canonicalize True k, v)]"] Cons.prems kv
    by (subst read_fields.simps) simp
qed

lemma map_of_find:
  "map_of (map (\<lambda>(k, v). (f k, v)) hs) x = map_option snd (find (\<lambda>(k, v). f k = x) hs)"
  by (induction hs) auto

lemma first_host_field:
  assumes "newline \<notin> set line" "\<forall>kv \<in> set hs. header_ok kv"
  shows "read_head_with_textproto E (request_head line hs @ body) =
    (normalize_host_header E
       (case find (\<lambda>(k, v). canonicalize True k = ''Host'') hs of None \<Rightarrow> [] | Some kv \<Rightarrow> snd kv), None)"
proof -
  let ?fields = "concat (map header_line hs) @ crlf @ body"
  have line: "read_line_slice (request_head line hs @ body) = Some (line, ?fields)"
    using read_line_crlf [OF assms(1), of ?fields] by (simp add: request_head_def)
  have start: "\<not> (?fields \<noteq> [] \<and> is_blank (hd ?fields))"
  proof (cases hs)
    case Nil
    then show ?thesis by (simp add: crlf_def is_blank_def carriage_def)
  next
    case (Cons kv hs')
    then have "header_ok kv" using assms(2) by simp
    then show ?thesis using Cons field_byte_props(1)
      by (cases "fst kv") (auto simp: header_ok_def header_line_def)
  qed
  let ?mh = "map (\<lambda>(k, v). (canonicalize True k, v)) hs"
  have "read_mime_header ?fields = Inr (?mh, body)"
    using start read_fields_lines [OF assms(2), of "[]" body] by (simp only: read_mime_header_def if_False) simp
  then have "read_head_with_textproto E (request_head line hs @ body) =
      (normalize_host_header E (header_get ?mh ''Host''), None)"
    by (simp add: read_head_with_textproto_def line)
  moreover have "map_of ?mh ''Host'' =
      map_option snd (find (\<lambda>(k, v). canonicalize True k = ''Host'') hs)"
    by (rule map_of_find)
  then have "header_get ?mh ''Host'' =
      (case find (\<lambda>(k, v). canonicalize True k = ''Host'') hs of None \<Rightarrow> [] | Some kv \<Rightarrow> snd kv)"
    by (simp add: header_get_def split: option.split)
  ultimately show ?thesis by simp
qed

lemma canonicalize_lower: "map lower_char (canonicalize u k) = map lower_char k"
  by (induction k arbitrary: u) (simp_all add: Let_def)

lemma canonical_host: "canonicalize True k = ''Host'' \<longleftrightarrow> map lower_char k = ''host''"
proof
  have h: "map lower_char ''Host'' = ''host''" by code_simp
  assume "canonicalize True k = ''Host''"
  then show "map lower_char k = ''host''" by (metis canonicalize_lower h)
next
  assume "map lower_char k = ''host''"
  then obtain a b c d where k: "k = [a, b, c, d]"
    and l: "lower_char a = CHR ''h''" "lower_char b = CHR ''o''" "lower_char c = CHR ''s''" "lower_char d = CHR ''t''"
    by (auto simp: map_eq_Cons_conv)
  have "upper_char CHR ''h'' = CHR ''H''" by code_simp
  then have "upper_char a = CHR ''H''" using upper_lower_char [of a] by (simp only: l(1))
  then show "canonicalize True k = ''Host''" by (simp add: k l)
qed

text \<open>The value of the field, as RFC 9110 writes it: a name, perhaps with a final dot, or an address in
  brackets, with or without a port.\<close>

definition authority :: "string \<Rightarrow> bool \<Rightarrow> string option \<Rightarrow> string" where
  "authority h dot port =
     h @ (if dot then ''.'' else []) @ (case port of None \<Rightarrow> [] | Some p \<Rightarrow> '':'' @ p)"

definition free_of :: "string \<Rightarrow> string \<Rightarrow> bool" where
  "free_of cs s \<longleftrightarrow> (\<forall>c \<in> set cs. c \<notin> set s)"

definition host_text :: "string \<Rightarrow> bool" where
  "host_text h \<longleftrightarrow> h \<noteq> [] \<and> ascii_string h \<and> free_of ''[]'' h \<and> last h \<noteq> CHR ''.''"

definition port_text :: "string option \<Rightarrow> bool" where
  "port_text port \<longleftrightarrow> (\<forall>p. port = Some p \<longrightarrow> free_of '':[]'' p)"

lemma lower_dot: "lower_char c = CHR ''.'' \<longleftrightarrow> c = CHR ''.''"
proof (cases "is_upper_char c")
  case True
  then have "byte_of (lower_char c) = byte_of c + 32" "65 \<le> byte_of c"
    by (auto simp: lower_char_def is_upper_char_def byte_of_char_of)
  then have "byte_of (lower_char c) \<noteq> byte_of CHR ''.''" "byte_of c \<noteq> byte_of CHR ''.''" by auto
  then show ?thesis by metis
qed (simp add: lower_char_def)

lemma trim_final_dot:
  assumes "host_text h"
  shows "trim_suffix (to_lower E (h @ (if dot then ''.'' else []))) ''.'' = map lower_char h"
proof -
  have dot: "lower_char CHR ''.'' = CHR ''.''" "is_ascii CHR ''.''" by code_simp+
  have l: "lower_char (last h) \<noteq> CHR ''.''"
    using assms by (simp add: lower_dot host_text_def)
  have "h \<noteq> []" "ascii_string h" using assms by (simp_all add: host_text_def)
  then show ?thesis
    using l dot by (cases h rule: rev_cases) (auto simp: to_lower_def trim_suffix_def has_suffix_def)
qed

lemma split_authority:
  assumes "host_text h" "free_of '':'' h" "port_text port"
  shows "(case split_host_port (authority h dot port) of Some (x, _) \<Rightarrow> x | None \<Rightarrow> authority h dot port) =
    h @ (if dot then ''.'' else [])"
proof (cases port)
  case None
  let ?s = "h @ (if dot then ''.'' else [])"
  have "CHR '':'' \<notin> set ?s" using assms(2) by (simp add: free_of_def)
  then have "split_host_port ?s = None" by (simp add: split_host_port_def split_last_def split_first_def)
  then show ?thesis by (simp add: authority_def None)
next
  case (Some p)
  let ?s = "h @ (if dot then ''.'' else [])"
  have "CHR '':'' \<notin> set ?s" using assms(2) by (simp add: free_of_def)
  then have "authority h dot port = join_host_port ?s p" by (simp add: authority_def join_host_port_def Some)
  moreover have "split_host_port (join_host_port ?s p) = Some (?s, p)"
    using assms(1,3) Some by (intro split_join_host_port) (simp_all add: port_text_def free_of_def host_text_def)
  ultimately show ?thesis by simp
qed

lemma normalize_authority:
  assumes "host_text h" "free_of '':'' h" "port_text port"
  shows "normalize_host_header E (authority h dot port) = map lower_char h"
proof -
  have "authority h dot port \<noteq> []" using assms(1) by (simp add: authority_def host_text_def)
  then show ?thesis
    unfolding normalize_host_header_def split_authority [OF assms] Let_def trim_final_dot [OF assms(1)] by simp
qed

lemma normalize_v6_authority:
  assumes "host_text h" "CHR '':'' \<in> set h" "port_text (Some p)"
  shows "normalize_host_header E (''['' @ h @ '']:'' @ p) = map lower_char h"
proof -
  have "''['' @ h @ '']:'' @ p = join_host_port h p" using assms(2) by (simp add: join_host_port_def)
  moreover have "split_host_port (join_host_port h p) = Some (h, p)"
    using assms by (intro split_join_host_port) (simp_all add: port_text_def free_of_def host_text_def)
  moreover have "join_host_port h p \<noteq> []" by (simp add: join_host_port_def)
  ultimately show ?thesis
    using trim_final_dot [OF assms(1), of E False] by (simp add: normalize_host_header_def del: append_Cons)
qed

text \<open>C21: The HTTP filter decides on the host the client asked for. For a request line, any
  well-formed header fields and any bytes after them, the host is the one named by the first field
  whose name is \<^verbatim>\<open>host\<close> without regard to case: for a value \<^verbatim>\<open>name\<close>, \<^verbatim>\<open>name.\<close>, \<^verbatim>\<open>name:port\<close>,
  \<^verbatim>\<open>name.:port\<close> or \<^verbatim>\<open>[address]:port\<close> it is the name or the address in lower case. It is empty when
  there is no such field.\<close>

theorem http_host_extracted:
  assumes "newline \<notin> set line" "\<forall>kv \<in> set hs. header_ok kv"
    and "R = read_head_with_textproto E (request_head line hs @ body)"
    and "found = find (\<lambda>(k, v). map lower_char k = ''host'') hs"
  shows "(found = None \<longrightarrow> R = ([], None)) \<and>
    (\<forall>k h dot port. found = Some (k, authority h dot port) \<longrightarrow> host_text h \<longrightarrow> free_of '':'' h \<longrightarrow> port_text port \<longrightarrow>
       R = (map lower_char h, None)) \<and>
    (\<forall>k h p. found = Some (k, ''['' @ h @ '']:'' @ p) \<longrightarrow> host_text h \<longrightarrow> CHR '':'' \<in> set h \<longrightarrow> port_text (Some p) \<longrightarrow>
       R = (map lower_char h, None))"
proof -
  have res: "R = (normalize_host_header E (case found of None \<Rightarrow> [] | Some kv \<Rightarrow> snd kv), None)"
    unfolding assms(3,4) first_host_field [OF assms(1,2)] canonical_host ..
  show ?thesis
    unfolding res
    by (auto simp: normalize_authority normalize_v6_authority [simplified] normalize_host_header_def [of E "[]"])
qed

lemma http_host_extracted_witness:
  "read_head_with_textproto ascii_env
     (request_head ''GET / HTTP/1.1'' [(''Accept'', ''text''), (''hOST'', ''WWW.a.example.:8080'')] @ ''body'') =
   (''www.a.example'', None)"
proof -
  let ?hs = "[(''Accept'', ''text''), (''hOST'', ''WWW.a.example.:8080'')]"
  have h: "\<forall>kv \<in> set ?hs. header_ok kv"
    by (simp add: header_ok_def valid_header_field_byte_def valid_header_value_byte_def is_alpha_char_def
        is_blank_def go_unfold)
  have n: "newline \<notin> set ''GET / HTTP/1.1''" by (simp add: newline_def)
  have f: "find (\<lambda>(k, v). map lower_char k = ''host'') ?hs =
      Some (''hOST'', authority ''WWW.a.example'' True (Some ''8080''))"
    by (simp add: authority_def go_unfold)
  have w: "host_text ''WWW.a.example''" "free_of '':'' ''WWW.a.example''" "port_text (Some ''8080'')"
    by (simp_all add: host_text_def free_of_def port_text_def go_unfold)
  have "map lower_char ''WWW.a.example'' = ''www.a.example''" by code_simp
  then show ?thesis
    using http_host_extracted [OF n h refl refl, of ascii_env "''body''"] f w by metis
qed

end
