(* ===== verification/ClientHello.thy ===== *)
theory ClientHello
  imports GoText
begin

text \<open>
  \<^verbatim>\<open>internal/filter/clienthello.go\<close>: reassembly of a TLS ClientHello from records and
  extraction of its server name. Bytes are characters.

  The reader is a parameter, the function \<^verbatim>\<open>io.ReadFull\<close> computes on it: the bytes asked
  for, or None when the stream ends first. The locale \<open>byte_source\<close> states what the parser relies
  on. It is interpreted on a stream in memory, on a connection that delivers its bytes in segments,
  and on the tee reader the HTTPS filter puts in front of the parser to keep what was read.

  The loop over records is bounded by fuel. Each turn adds at least one byte to a buffer that
  never needs more than 65540 bytes, so \<open>hello_fuel\<close> turns are enough: see \<open>hello_fuel_enough\<close>.
\<close>

subsection \<open>Big-endian numbers\<close>

unbundle bit_operations_syntax

definition be16 :: "char \<Rightarrow> char \<Rightarrow> nat" where
  "be16 a b = push_bit 8 (byte_of a) OR byte_of b"

definition be24 :: "char \<Rightarrow> char \<Rightarrow> char \<Rightarrow> nat" where
  "be24 a b c = push_bit 16 (byte_of a) OR push_bit 8 (byte_of b) OR byte_of c"

lemma or_low: "b < 2 ^ n \<Longrightarrow> push_bit n a OR b = a * 2 ^ n + (b :: nat)"
proof -
  assume b: "b < 2 ^ n"
  have "take_bit n b = b" using b by (simp add: take_bit_nat_eq_self)
  then have low: "\<not> bit b m" if "n \<le> m" for m using that by (metis bit_take_bit_iff leD)
  have "push_bit n a AND b = 0"
    using low by (intro bit_eqI) (auto simp: bit_and_iff bit_push_bit_iff)
  then have "push_bit n a OR b = push_bit n a + b" by (rule disjunctive_add_eq_or [symmetric])
  then show ?thesis by (simp add: push_bit_eq_mult)
qed

lemma byte_lt: "byte_of c \<le> (255 :: nat)"
  using nat_of_char_less_256 [of c] by linarith

lemma be16_eq: "be16 a b = 256 * byte_of a + byte_of b"
  using or_low [of "byte_of b" 8 "byte_of a"] by (simp add: be16_def)

lemma be24_eq: "be24 a b c = 65536 * byte_of a + 256 * byte_of b + byte_of c"
proof -
  have 1: "push_bit 8 (byte_of b) OR byte_of c = 256 * byte_of b + byte_of c"
    using or_low [of "byte_of c" 8 "byte_of b"] by simp
  have "(256 :: nat) * byte_of b + byte_of c < 2 ^ 16"
    using byte_lt [of b] byte_lt [of c] by (simp del: byte_of_char_of)
  from or_low [OF this, of "byte_of a"] 1 show ?thesis
    by (simp add: be24_def or.assoc)
qed

subsection \<open>The parser\<close>

definition record_header_len :: nat where "record_header_len = 5"
definition record_type_handshake :: nat where "record_type_handshake = 22"
definition handshake_type_client_hello :: nat where "handshake_type_client_hello = 1"
definition handshake_header_len :: nat where "handshake_header_len = 4"
definition ext_type_server_name :: nat where "ext_type_server_name = 0"
definition name_type_host_name :: nat where "name_type_host_name = 0"
definition max_record_size :: nat where "max_record_size = 16384 + 2048"
definition max_client_hello_size :: nat where "max_client_hello_size = 65536"

lemmas hello_consts = record_header_len_def record_type_handshake_def
  handshake_type_client_hello_def handshake_header_len_def ext_type_server_name_def
  name_type_host_name_def max_record_size_def max_client_hello_size_def

declare hello_consts [go_unfold]

datatype hello_error =
    ErrReadHeader | ErrReadPayload
  | ErrNotHandshake | ErrNotClientHello | ErrRecordLength | ErrClientHelloTooBig
  | ErrMalformedHello | ErrMalformedExtension
  | Out_of_fuel \<comment> \<open>not an error of the code: see \<open>hello_fuel_enough\<close>\<close>

type_synonym 'r read_full = "nat \<Rightarrow> 'r \<Rightarrow> string option \<times> 'r"

definition read_record :: "'r read_full \<Rightarrow> 'r \<Rightarrow> (hello_error + string) \<times> 'r" where
  "read_record read_full r =
     (case read_full record_header_len r of
        (None, r1) \<Rightarrow> (Inl ErrReadHeader, r1)
      | (Some hdr, r1) \<Rightarrow>
          if byte_of (hdr ! 0) \<noteq> record_type_handshake then (Inl ErrNotHandshake, r1)
          else
            (let recLen = be16 (hdr ! 3) (hdr ! 4)
             in if recLen = 0 \<or> recLen > max_record_size then (Inl ErrRecordLength, r1)
                else (case read_full recLen r1 of
                        (None, r2) \<Rightarrow> (Inl ErrReadPayload, r2)
                      | (Some payload, r2) \<Rightarrow> (Inr payload, r2))))"

text \<open>The \<^verbatim>\<open>cryptobyte.String\<close> operations: None is a failed read.\<close>

definition cb_skip :: "nat \<Rightarrow> string \<Rightarrow> string option" where
  "cb_skip n s = (if length s < n then None else Some (drop n s))"

definition cb_bytes :: "nat \<Rightarrow> string \<Rightarrow> (string \<times> string) option" where
  "cb_bytes n s = (if length s < n then None else Some (take n s, drop n s))"

definition read_u8 :: "string \<Rightarrow> (nat \<times> string) option" where
  "read_u8 s = (case s of a # r \<Rightarrow> Some (byte_of a, r) | _ \<Rightarrow> None)"

definition read_u16 :: "string \<Rightarrow> (nat \<times> string) option" where
  "read_u16 s = (case s of a # b # r \<Rightarrow> Some (be16 a b, r) | _ \<Rightarrow> None)"

definition read_u8_prefixed :: "string \<Rightarrow> (string \<times> string) option" where
  "read_u8_prefixed s = (case read_u8 s of None \<Rightarrow> None | Some (n, r) \<Rightarrow> cb_bytes n r)"

definition read_u16_prefixed :: "string \<Rightarrow> (string \<times> string) option" where
  "read_u16_prefixed s = (case read_u16 s of None \<Rightarrow> None | Some (n, r) \<Rightarrow> cb_bytes n r)"

lemma read_u16_shorter: "read_u16 s = Some (n, r) \<Longrightarrow> length r < length s"
  by (auto simp: read_u16_def split: list.splits)

lemma read_u8_shorter: "read_u8 s = Some (n, r) \<Longrightarrow> length r < length s"
  by (auto simp: read_u8_def split: list.splits)

lemma read_u16_prefixed_shorter: "read_u16_prefixed s = Some (d, r) \<Longrightarrow> length r < length s"
  by (auto simp: read_u16_prefixed_def cb_bytes_def dest!: read_u16_shorter
      split: option.splits if_splits)

function names_loop :: "string \<Rightarrow> hello_error + string" where
  "names_loop names =
     (if names = [] then Inr []
      else
        (case read_u8 names of
           None \<Rightarrow> Inl ErrMalformedExtension
         | Some (nameType, r1) \<Rightarrow>
             (case read_u16_prefixed r1 of
                None \<Rightarrow> Inl ErrMalformedExtension
              | Some (name, r2) \<Rightarrow>
                  if nameType = name_type_host_name then Inr name else names_loop r2)))"
  by pat_completeness auto
termination
  by (relation "measure length") (auto dest!: read_u8_shorter read_u16_prefixed_shorter)

declare names_loop.simps [simp del]

definition sni_from_server_name_ext :: "string \<Rightarrow> hello_error + string" where
  "sni_from_server_name_ext extData =
     (case read_u16_prefixed extData of
        None \<Rightarrow> Inl ErrMalformedExtension
      | Some (names, _) \<Rightarrow> names_loop names)"

function sni_from_extensions :: "string \<Rightarrow> hello_error + string" where
  "sni_from_extensions extensions =
     (if extensions = [] then Inr []
      else
        (case read_u16 extensions of
           None \<Rightarrow> Inl ErrMalformedExtension
         | Some (extType, r1) \<Rightarrow>
             (case read_u16_prefixed r1 of
                None \<Rightarrow> Inl ErrMalformedExtension
              | Some (extData, r2) \<Rightarrow>
                  if extType = ext_type_server_name then sni_from_server_name_ext extData
                  else sni_from_extensions r2)))"
  by pat_completeness auto
termination
  by (relation "measure length") (auto dest!: read_u16_shorter read_u16_prefixed_shorter)

declare sni_from_extensions.simps [simp del]

definition read_hello_head :: "string \<Rightarrow> string option" where
  \<comment> \<open>the chain of reads of \<^verbatim>\<open>parseClientHelloSNI\<close>; the rest of the body\<close>
  "read_hello_head body =
     (case cb_skip (2 + 32) body of
        None \<Rightarrow> None
      | Some s1 \<Rightarrow>
          (case read_u8_prefixed s1 of
             None \<Rightarrow> None
           | Some (_, s2) \<Rightarrow>
               (case read_u16_prefixed s2 of
                  None \<Rightarrow> None
                | Some (_, s3) \<Rightarrow> map_option snd (read_u8_prefixed s3))))"

definition parse_client_hello_sni :: "string \<Rightarrow> hello_error + string" where
  "parse_client_hello_sni body =
     (case read_hello_head body of
        None \<Rightarrow> Inl ErrMalformedHello
      | Some s \<Rightarrow>
          if s = [] then Inr []
          else (case read_u16_prefixed s of
                  None \<Rightarrow> Inl ErrMalformedHello
                | Some (extensions, _) \<Rightarrow> sni_from_extensions extensions))"

fun hello_loop ::
  "'r read_full \<Rightarrow> nat \<Rightarrow> string \<Rightarrow> nat option \<Rightarrow> 'r \<Rightarrow> (hello_error + string) \<times> 'r" where
  \<comment> \<open>fuel, handshake bytes so far, bytes required (None while unknown)\<close>
  "hello_loop read_full 0 handshake need r = (Inl Out_of_fuel, r)"
| "hello_loop read_full (Suc n) handshake need r =
     (if need \<noteq> None \<and> the need \<le> length handshake
      then (parse_client_hello_sni (drop handshake_header_len (take (the need) handshake)), r)
      else
        (case read_record read_full r of
           (Inl e, r1) \<Rightarrow> (Inl e, r1)
         | (Inr payload, r1) \<Rightarrow>
             (let hs = handshake @ payload
              in if need = None \<and> handshake_header_len \<le> length hs then
                   (if byte_of (hs ! 0) \<noteq> handshake_type_client_hello
                    then (Inl ErrNotClientHello, r1)
                    else
                      (let bodyLen = be24 (hs ! 1) (hs ! 2) (hs ! 3)
                       in if bodyLen > max_client_hello_size then (Inl ErrClientHelloTooBig, r1)
                          else hello_loop read_full n hs (Some (handshake_header_len + bodyLen)) r1))
                 else hello_loop read_full n hs need r1)))"

definition hello_fuel :: nat where "hello_fuel = 65542"

definition read_client_hello_sni :: "'r read_full \<Rightarrow> 'r \<Rightarrow> (hello_error + string) \<times> 'r" where
  "read_client_hello_sni read_full r = hello_loop read_full hello_fuel [] None r"

subsection \<open>Sources of bytes\<close>

lemma names_loop_fuel: "names_loop names \<noteq> Inl Out_of_fuel"
  by (induction names rule: names_loop.induct)
     (subst names_loop.simps, auto split: option.splits prod.splits)

lemma sni_from_extensions_fuel: "sni_from_extensions exts \<noteq> Inl Out_of_fuel"
  by (induction exts rule: sni_from_extensions.induct)
     (subst sni_from_extensions.simps, auto simp: sni_from_server_name_ext_def names_loop_fuel
       split: option.splits prod.splits)

lemma parse_client_hello_fuel: "parse_client_hello_sni body \<noteq> Inl Out_of_fuel"
  by (auto simp: parse_client_hello_sni_def sni_from_extensions_fuel split: option.splits prod.splits)

locale byte_source =
  fixes read_full :: "'r read_full"
    and content :: "'r \<Rightarrow> string"
  assumes read_ok: "n \<le> length (content r) \<Longrightarrow>
      \<exists>r'. read_full n r = (Some (take n (content r)), r') \<and> content r' = drop n (content r)"
    and read_eof: "length (content r) < n \<Longrightarrow>
      fst (read_full n r) = None \<and> content (snd (read_full n r)) = []"
begin

lemma read_full_cases:
  obtains (ok) r' where "n \<le> length (content r)"
      "read_full n r = (Some (take n (content r)), r')" "content r' = drop n (content r)"
    | (eof) r' where "length (content r) < n" "read_full n r = (None, r')" "content r' = []"
proof (cases "n \<le> length (content r)")
  case True
  with read_ok [OF this] ok show thesis by blast
next
  case False
  with read_eof [of r n] eof show thesis by (cases "read_full n r") auto
qed

lemma read_record_cases:
  obtains (err) e r' where "read_record read_full r = (Inl e, r')" "e \<noteq> Out_of_fuel"
    | (payload) p r' where "read_record read_full r = (Inr p, r')" "p \<noteq> []"
        "length p \<le> max_record_size" "content r = take 5 (content r) @ p @ content r'"
proof (cases rule: read_full_cases [of record_header_len r])
  case (eof r')
  then show thesis using err [of ErrReadHeader r'] by (simp add: read_record_def)
next
  case (ok r1)
  let ?h = "take record_header_len (content r)"
  let ?n = "be16 (?h ! 3) (?h ! 4)"
  show thesis
  proof (cases "byte_of (?h ! 0) \<noteq> record_type_handshake \<or> ?n = 0 \<or> ?n > max_record_size")
    case True
    then have "\<exists>e. read_record read_full r = (Inl e, r1) \<and> e \<noteq> Out_of_fuel"
      using ok by (auto simp: read_record_def Let_def)
    then show thesis using err by blast
  next
    case False
    show thesis
    proof (cases rule: read_full_cases [of ?n r1])
      case (eof r2)
      with ok False show thesis using err [of ErrReadPayload r2] by (simp add: read_record_def)
    next
      case r2: (ok r2)
      have "content r = take 5 (content r) @ drop 5 (content r)" by simp
      also have "drop 5 (content r) = content r1" using ok by (simp add: record_header_len_def)
      also have "content r1 = take ?n (content r1) @ content r2" using r2 by simp
      finally have "content r = take 5 (content r) @ take ?n (content r1) @ content r2" .
      moreover have "read_record read_full r = (Inr (take ?n (content r1)), r2)"
        using ok r2 False by (simp add: read_record_def)
      moreover have "take ?n (content r1) \<noteq> []" using False r2 by (auto simp: take_eq_Nil)
      moreover have "length (take ?n (content r1)) \<le> max_record_size" using False by (simp add: min.coboundedI2)
      ultimately show thesis using payload by blast
    qed
  qed
qed

lemma read_record_consumes:
  "length (content r) \<le> length (content (snd (read_record read_full r))) + (5 + max_record_size)"
proof (cases rule: read_full_cases [of record_header_len r])
  case (eof r')
  then show ?thesis by (simp add: read_record_def record_header_len_def)
next
  case (ok r1)
  let ?h = "take record_header_len (content r)"
  let ?n = "be16 (?h ! 3) (?h ! 4)"
  have 1: "length (content r) \<le> 5 + length (content r1)"
    using ok by (simp add: record_header_len_def)
  show ?thesis
  proof (cases "byte_of (?h ! 0) \<noteq> record_type_handshake \<or> ?n = 0 \<or> ?n > max_record_size")
    case True
    then have "snd (read_record read_full r) = r1"
      using ok by (auto simp: read_record_def Let_def)
    with 1 show ?thesis by simp
  next
    case False
    have "length (content r1) \<le> length (content (snd (read_full ?n r1))) + max_record_size"
      by (cases rule: read_full_cases [of ?n r1]) (use False in auto)
    moreover have "snd (read_record read_full r) = snd (read_full ?n r1)"
      using ok(2) False by (auto simp: read_record_def Let_def split: prod.splits option.splits)
    ultimately show ?thesis using 1 by simp
  qed
qed

lemma hello_loop_consumes:
  assumes "case need of None \<Rightarrow> length hs < 4 | Some k \<Rightarrow> k \<le> 65540"
  shows "length (content r) \<le> length (content (snd (hello_loop read_full n hs need r)))
    + (6 * (65540 - length hs) + (5 + max_record_size))"
  using assms
proof (induction n arbitrary: hs need r)
  case 0
  then show ?case by simp
next
  case (Suc n)
  show ?case
  proof (cases "need \<noteq> None \<and> the need \<le> length hs")
    case True
    then show ?thesis by simp
  next
    case more: False
    show ?thesis
    proof (cases rule: read_record_cases [of r])
      case (err e r')
      then show ?thesis using more read_record_consumes [of r] by auto
    next
      case (payload p r')
      let ?hs = "hs @ p"
      let ?b = "be24 (?hs ! 1) (?hs ! 2) (?hs ! 3)"
      let ?need = "if need = None \<and> 4 \<le> length ?hs then Some (4 + ?b) else need"
      obtain q where q: "length p = Suc q" using payload(2) by (cases p) simp_all
      have used: "length (content r) \<le> 5 + length p + length (content r')"
        using arg_cong [OF payload(4), of length] by simp
      have short: "length hs < 65540" using Suc.prems more by (auto split: option.splits)
      show ?thesis
      proof (cases "need = None \<and> 4 \<le> length ?hs \<and>
          (byte_of (?hs ! 0) \<noteq> handshake_type_client_hello \<or> ?b > max_client_hello_size)")
        case True
        then have "snd (hello_loop read_full (Suc n) hs need r) = r'"
          using payload by (auto simp: Let_def handshake_header_len_def)
        then show ?thesis using used payload(3) by simp
      next
        case False
        have step: "hello_loop read_full (Suc n) hs need r = hello_loop read_full n ?hs ?need r'"
          using False more payload by (auto simp: Let_def handshake_header_len_def)
        have "case ?need of None \<Rightarrow> length ?hs < 4 | Some k \<Rightarrow> k \<le> 65540"
          using Suc.prems False by (auto simp: max_client_hello_size_def split: option.splits)
        note ih = Suc.IH [OF this, of r']
        show ?thesis
        proof (cases "length ?hs < 65540")
          case True
          with ih used q short show ?thesis unfolding step by simp
        next
          case False: False
          then have "?need \<noteq> None \<and> the ?need \<le> length ?hs"
            using \<open>case ?need of None \<Rightarrow> length ?hs < 4 | Some k \<Rightarrow> k \<le> 65540\<close>
            by (auto split: option.splits)
          then have "snd (hello_loop read_full n ?hs ?need r') = r'"
            by (cases n) simp_all
          then show ?thesis using used payload(3) unfolding step by simp
        qed
      qed
    qed
  qed
qed

lemma hello_loop_fuel:
  assumes "case need of None \<Rightarrow> length hs < 4 \<and> 65542 \<le> n + length hs
           | Some k \<Rightarrow> k \<le> 65540 \<and> k < n + length hs \<and> 0 < n"
  shows "fst (hello_loop read_full n hs need r) \<noteq> Inl Out_of_fuel"
  using assms
proof (induction n arbitrary: hs need r)
  case 0
  then show ?case by (auto split: option.splits)
next
  case (Suc n)
  show ?case
  proof (cases "need \<noteq> None \<and> the need \<le> length hs")
    case True
    then show ?thesis by (simp add: parse_client_hello_fuel)
  next
    case False
    note more = this
    show ?thesis
    proof (cases rule: read_record_cases [of r])
      case (err e r')
      then show ?thesis using more by auto
    next
      case (payload p r')
      let ?hs = "hs @ p"
      obtain q where p: "length p = Suc q" using payload(2) by (cases p) simp_all
      show ?thesis
      proof (cases "need = None \<and> 4 \<le> length ?hs")
        case False
        have "case need of None \<Rightarrow> length ?hs < 4 \<and> 65542 \<le> n + length ?hs
            | Some k \<Rightarrow> k \<le> 65540 \<and> k < n + length ?hs \<and> 0 < n"
          using Suc.prems False more p by (auto split: option.splits)
        from Suc.IH [OF this, of r'] show ?thesis
          using more payload False by (auto simp: handshake_header_len_def)
      next
        case True
        let ?b = "be24 (?hs ! 1) (?hs ! 2) (?hs ! 3)"
        show ?thesis
        proof (cases "byte_of (?hs ! 0) \<noteq> handshake_type_client_hello \<or> ?b > max_client_hello_size")
          case True': True
          then show ?thesis
            using True payload by (auto simp: Let_def handshake_header_len_def)
        next
          case False': False
          have "case Some (4 + ?b) of None \<Rightarrow> length ?hs < 4 \<and> 65542 \<le> n + length ?hs
            | Some k \<Rightarrow> k \<le> 65540 \<and> k < n + length ?hs \<and> 0 < n"
            using Suc.prems True False' p by (auto simp: max_client_hello_size_def)
          from Suc.IH [OF this, of r'] show ?thesis
            using True False' payload by (simp add: Let_def handshake_header_len_def)
        qed
      qed
    qed
  qed
qed

lemma hello_fuel_enough: "fst (read_client_hello_sni read_full r) \<noteq> Inl Out_of_fuel"
  unfolding read_client_hello_sni_def by (rule hello_loop_fuel) (simp add: hello_fuel_def)

end

subsection \<open>Encoding\<close>

text \<open>What a client sends: records of any version around the pieces of a handshake message.\<close>

definition bytes16 :: "nat \<Rightarrow> string" where
  "bytes16 n = [char_of (n div 256), char_of (n mod 256)]"

definition bytes24 :: "nat \<Rightarrow> string" where
  "bytes24 n = [char_of (n div 65536), char_of (n div 256 mod 256), char_of (n mod 256)]"

definition vec8 :: "string \<Rightarrow> string" where
  "vec8 s = char_of (length s) # s"

definition vec16 :: "string \<Rightarrow> string" where
  "vec16 s = bytes16 (length s) @ s"

definition enc_record :: "char \<times> char \<Rightarrow> string \<Rightarrow> string" where
  "enc_record v p = [CHR 0x16, fst v, snd v] @ bytes16 (length p) @ p"

definition hello_msg :: "string \<Rightarrow> string" where
  "hello_msg body = CHR 0x01 # bytes24 (length body) @ body"

definition enc_ext :: "nat \<times> string \<Rightarrow> string" where
  "enc_ext e = bytes16 (fst e) @ vec16 (snd e)"

definition enc_name :: "nat \<times> string \<Rightarrow> string" where
  "enc_name e = char_of (fst e) # vec16 (snd e)"

definition hello_body :: "string \<Rightarrow> string \<Rightarrow> string \<Rightarrow> string \<Rightarrow> (nat \<times> string) list \<Rightarrow> string" where
  "hello_body rnd sid ciphers compr exts =
     rnd @ vec8 sid @ vec16 ciphers @ vec8 compr @ vec16 (concat (map enc_ext exts))"

lemma be16_bytes16: "n < 65536 \<Longrightarrow> be16 (char_of (n div 256)) (char_of n) = n"
  by (simp add: be16_eq)

lemma be24_bytes24:
  assumes "n < 16777216"
  shows "be24 (char_of (n div 65536)) (char_of (n div 256 mod 256)) (char_of (n mod 256)) = n"
proof -
  have "n div 65536 < 256" using assms by linarith
  then have "be24 (char_of (n div 65536)) (char_of (n div 256 mod 256)) (char_of (n mod 256)) =
    65536 * (n div 65536) + 256 * (n div 256 mod 256) + n mod 256"
    by (simp add: be24_eq byte_of_char_of)
  moreover have "256 * (n div 256) + n mod 256 = n" by simp
  moreover have "256 * (n div 256 div 256) + n div 256 mod 256 = n div 256" by simp
  moreover have "n div 256 div 256 = n div 65536" by (simp add: div_mult2_eq [symmetric])
  ultimately show ?thesis by linarith
qed

lemma read_vec8: "length s < 256 \<Longrightarrow> read_u8_prefixed (vec8 s @ r) = Some (s, r)"
  by (simp add: read_u8_prefixed_def vec8_def read_u8_def cb_bytes_def byte_of_char_of)

lemma read_vec16: "length s < 65536 \<Longrightarrow> read_u16_prefixed (vec16 s @ r) = Some (s, r)"
  by (simp add: read_u16_prefixed_def vec16_def bytes16_def read_u16_def cb_bytes_def be16_bytes16)

lemma read_bytes16: "n < 65536 \<Longrightarrow> read_u16 (bytes16 n @ r) = Some (n, r)"
  by (simp add: bytes16_def read_u16_def be16_bytes16)

lemma sni_from_extensions_enc:
  assumes "\<forall>e \<in> set exts. fst e < 65536 \<and> length (snd e) < 65536"
  shows "sni_from_extensions (concat (map enc_ext exts)) =
    (case find (\<lambda>e. fst e = 0) exts of None \<Rightarrow> Inr [] | Some e \<Rightarrow> sni_from_server_name_ext (snd e))"
  using assms
proof (induction exts)
  case Nil
  then show ?case by (simp add: sni_from_extensions.simps)
next
  case (Cons e exts)
  let ?rest = "concat (map enc_ext exts)"
  have "read_u16 (concat (map enc_ext (e # exts))) = Some (fst e, vec16 (snd e) @ ?rest)"
    using Cons.prems by (simp add: enc_ext_def read_bytes16)
  moreover have "enc_ext e \<noteq> []"
    by (simp add: enc_ext_def bytes16_def)
  moreover have "read_u16_prefixed (vec16 (snd e) @ ?rest) = Some (snd e, ?rest)"
    using Cons.prems by (simp add: read_vec16)
  ultimately show ?case
    using Cons by (subst sni_from_extensions.simps) (simp add: ext_type_server_name_def)
qed

lemma names_loop_enc:
  assumes "\<forall>e \<in> set names. fst e < 256 \<and> length (snd e) < 65536"
  shows "names_loop (concat (map enc_name names)) =
    Inr (case find (\<lambda>e. fst e = 0) names of None \<Rightarrow> [] | Some e \<Rightarrow> snd e)"
  using assms
proof (induction names)
  case Nil
  then show ?case by (simp add: names_loop.simps)
next
  case (Cons e names)
  let ?rest = "concat (map enc_name names)"
  have "read_u8 (concat (map enc_name (e # names))) = Some (fst e, vec16 (snd e) @ ?rest)"
    using Cons.prems by (simp add: enc_name_def read_u8_def byte_of_char_of)
  moreover have "enc_name e \<noteq> []"
    by (simp add: enc_name_def)
  moreover have "read_u16_prefixed (vec16 (snd e) @ ?rest) = Some (snd e, ?rest)"
    using Cons.prems by (simp add: read_vec16)
  ultimately show ?case
    using Cons by (subst names_loop.simps) (simp add: name_type_host_name_def)
qed

lemma parse_hello_body:
  assumes "length rnd = 34" "length sid < 256" "length ciphers < 65536" "length compr < 256"
    and "length (concat (map enc_ext exts)) < 65536"
    and "\<forall>e \<in> set exts. fst e < 65536 \<and> length (snd e) < 65536"
  shows "parse_client_hello_sni (hello_body rnd sid ciphers compr exts) =
    (case find (\<lambda>e. fst e = 0) exts of None \<Rightarrow> Inr [] | Some e \<Rightarrow> sni_from_server_name_ext (snd e))"
proof -
  let ?e = "vec16 (concat (map enc_ext exts))"
  have "read_hello_head (hello_body rnd sid ciphers compr exts) = Some ?e"
    using assms(1-4)
    by (simp add: read_hello_head_def hello_body_def cb_skip_def read_vec8 read_vec16)
  moreover have "read_u16_prefixed ?e = Some (concat (map enc_ext exts), [])"
    using read_vec16 [OF assms(5), of "[]"] by simp
  moreover have "?e \<noteq> []" by (simp add: vec16_def bytes16_def)
  ultimately show ?thesis
    by (simp add: parse_client_hello_sni_def sni_from_extensions_enc [OF assms(6)])
qed

subsection \<open>Reassembly\<close>

context byte_source begin

lemma read_record_enc:
  assumes "content r = enc_record v p @ s" "p \<noteq> []" "length p \<le> max_record_size"
  obtains r' where "read_record read_full r = (Inr p, r')" "content r' = s"
proof -
  have len: "be16 (char_of (length p div 256)) (char_of (length p)) = length p"
    using assms(3) by (intro be16_bytes16) (simp add: max_record_size_def)
  have c: "content r = [CHR 0x16, fst v, snd v, char_of (length p div 256), char_of (length p)] @ p @ s"
    using assms(1) by (simp add: enc_record_def bytes16_def)
  show ?thesis
  proof (cases rule: read_full_cases [of record_header_len r])
    case (eof r')
    then show ?thesis using c by (simp add: record_header_len_def)
  next
    case (ok r1)
    then have c1: "content r1 = p @ s" and h: "take record_header_len (content r) =
        [CHR 0x16, fst v, snd v, char_of (length p div 256), char_of (length p)]"
      using c by (simp_all add: record_header_len_def)
    show ?thesis
    proof (cases rule: read_full_cases [of "length p" r1])
      case (eof r2)
      then show ?thesis using c1 by simp
    next
      case r2: (ok r2)
      have "read_record read_full r = (Inr p, r2)"
        using ok(2) r2 h c1 len assms(2,3)
        by (simp add: read_record_def record_type_handshake_def)
      then show ?thesis using r2 c1 that by simp
    qed
  qed
qed

lemma hello_loop_reassembles:
  assumes "fst (hello_loop read_full n hs need r) \<noteq> Inl Out_of_fuel"
    and "content r = concat (map (\<lambda>(v, p). enc_record v p) recs) @ rest"
    and "hs @ concat (map snd recs) = hello_msg body @ extra"
    and "recs \<noteq> [] \<Longrightarrow> length hs + length (concat (map snd (butlast recs))) < 4 + length body"
    and "\<forall>x \<in> set recs. snd x \<noteq> [] \<and> length (snd x) \<le> max_record_size"
    and "length body \<le> max_client_hello_size"
    and "need = (if length hs < 4 then None else Some (4 + length body))"
  shows "\<exists>r'. hello_loop read_full n hs need r = (parse_client_hello_sni body, r') \<and> content r' = rest"
  using assms(1-5,7)
proof (induction n arbitrary: hs need r recs)
  case 0
  then show ?case by simp
next
  case (Suc n)
  have msg: "length (hello_msg body) = 4 + length body"
    by (simp add: hello_msg_def bytes24_def)
  show ?case
  proof (cases recs)
    case Nil
    have full: "hs = hello_msg body @ extra" using Suc.prems(3) Nil by simp
    then have "need = Some (4 + length body)" "4 + length body \<le> length hs"
      using Suc.prems(6) msg by simp_all
    moreover have "take (4 + length body) hs = hello_msg body"
      using full msg by (metis append_eq_conv_conj)
    then have "drop 4 (take (4 + length body) hs) = body"
      by (simp add: hello_msg_def bytes24_def)
    ultimately show ?thesis
      using Suc.prems(2) Nil by (simp add: handshake_header_len_def)
  next
    case (Cons x recs')
    obtain v p where x: "x = (v, p)" by (cases x)
    have p: "p \<noteq> []" "length p \<le> max_record_size" using Suc.prems(5) Cons x by simp_all
    have short: "length hs < 4 + length body" using Suc.prems(4) Cons by simp
    obtain r' where r': "read_record read_full r = (Inr p, r')"
      "content r' = concat (map (\<lambda>(v, p). enc_record v p) recs') @ rest"
      using read_record_enc [of r v p "concat (map (\<lambda>(v, p). enc_record v p) recs') @ rest"]
        Suc.prems(2) Cons x p by auto
    let ?hs = "hs @ p" and ?need = "if length (hs @ p) < 4 then None else Some (4 + length body)"
    have cat: "?hs @ concat (map snd recs') = hello_msg body @ extra"
      using Suc.prems(3) Cons x by simp
    have min: "recs' \<noteq> [] \<Longrightarrow> length ?hs + length (concat (map snd (butlast recs'))) < 4 + length body"
      using Suc.prems(4) Cons x by simp
    have step: "hello_loop read_full (Suc n) hs need r = hello_loop read_full n ?hs ?need r'"
    proof (cases "length hs < 4 \<and> 4 \<le> length ?hs")
      case True
      have "take 4 ?hs = take 4 (hello_msg body)"
        using arg_cong [OF cat, of "take 4"] True msg by simp
      also have "\<dots> = CHR 0x01 # bytes24 (length body)"
        by (simp add: hello_msg_def bytes24_def)
      finally have "take 4 ?hs = CHR 0x01 # bytes24 (length body)" .
      then have nth: "?hs ! k = (CHR 0x01 # bytes24 (length body)) ! k" if "k < 4" for k
        using nth_take [OF that, of ?hs] by simp
      have "?hs ! 0 = CHR 0x01" "?hs ! 1 = char_of (length body div 65536)"
        "?hs ! 2 = char_of (length body div 256 mod 256)" "?hs ! 3 = char_of (length body mod 256)"
        using nth [of 0] nth [of 1] nth [of 2] nth [of 3] by (simp_all add: bytes24_def)
      moreover have "be24 (char_of (length body div 65536)) (char_of (length body div 256 mod 256))
          (char_of (length body mod 256)) = length body"
        using assms(6) by (intro be24_bytes24) (simp add: max_client_hello_size_def)
      ultimately show ?thesis
        using True short r'(1) Suc.prems(6) assms(6)
        by (simp add: handshake_header_len_def handshake_type_client_hello_def Let_def)
    next
      case False
      then show ?thesis
        using short r'(1) Suc.prems(6) by (auto simp: handshake_header_len_def)
    qed
    show ?thesis
      unfolding step
    proof (rule Suc.IH [OF _ r'(2) cat min])
      show "fst (hello_loop read_full n ?hs ?need r') \<noteq> Inl Out_of_fuel"
        using Suc.prems(1) step by simp
      show "\<forall>x \<in> set recs'. snd x \<noteq> [] \<and> length (snd x) \<le> max_record_size"
        using Suc.prems(5) Cons by simp
    qed simp_all
  qed
qed

lemma read_client_hello_reassembles:
  assumes "content r = concat (map (\<lambda>(v, p). enc_record v p) recs) @ rest"
    and "concat (map snd recs) = hello_msg body @ extra"
    and "length (concat (map snd (butlast recs))) < 4 + length body"
    and "\<forall>x \<in> set recs. snd x \<noteq> [] \<and> length (snd x) \<le> max_record_size"
    and "length body \<le> max_client_hello_size"
  shows "\<exists>r'. read_client_hello_sni read_full r = (parse_client_hello_sni body, r') \<and> content r' = rest"
  unfolding read_client_hello_sni_def
  using hello_fuel_enough [of r, unfolded read_client_hello_sni_def] assms
  by (intro hello_loop_reassembles [of hello_fuel "[]" None r recs rest body extra]) simp_all

end

subsection \<open>Keeping what was read\<close>

locale captured_source = byte_source read_full content
  for read_full :: "'r read_full" and content :: "'r \<Rightarrow> string" +
  fixes captured :: "'r \<Rightarrow> string"
  assumes capture: "captured (snd (read_full n r)) @ content (snd (read_full n r)) =
      captured r @ content r"
begin

lemma read_record_capture:
  "captured (snd (read_record read_full r)) @ content (snd (read_record read_full r)) =
   captured r @ content r"
proof -
  have c: "captured r' @ content r' = captured q @ content q" if "read_full n q = (x, r')" for n q x r'
    using capture [of n q] that by simp
  show ?thesis
    by (auto simp: read_record_def Let_def dest!: c split: prod.splits option.splits)
qed

lemma hello_loop_capture:
  "captured (snd (hello_loop read_full n hs need r)) @ content (snd (hello_loop read_full n hs need r)) =
   captured r @ content r"
proof (induction n arbitrary: hs need r)
  case 0
  then show ?case by simp
next
  case (Suc n)
  obtain res r1 where rr: "read_record read_full r = (res, r1)" by fastforce
  then have "captured r1 @ content r1 = captured r @ content r"
    using read_record_capture [of r] by simp
  then show ?case
    using Suc.IH rr by (cases res) (auto simp: Let_def)
qed

lemma read_client_hello_capture:
  "read_client_hello_sni read_full r = (res, r') \<Longrightarrow>
   captured r' @ content r' = captured r @ content r"
  unfolding read_client_hello_sni_def by (metis hello_loop_capture snd_conv)

end

text \<open>A connection delivers its bytes in segments, and \<^verbatim>\<open>io.ReadFull\<close> reads until it has
  all it wants: \<open>conn_read_full\<close>, on the list of the segments still to come. A read past the end
  consumes what there is.\<close>

fun conn_read_full :: "string list read_full" where
  "conn_read_full n [] = (if n = 0 then Some [] else None, [])"
| "conn_read_full n (seg # segs) =
     (if n \<le> length seg then (Some (take n seg), drop n seg # segs)
      else (case conn_read_full (n - length seg) segs of
              (None, segs') \<Rightarrow> (None, segs')
            | (Some s, segs') \<Rightarrow> (Some (seg @ s), segs')))"

lemma conn_read_full_spec:
  "if n \<le> length (concat segs)
   then \<exists>segs'. conn_read_full n segs = (Some (take n (concat segs)), segs') \<and>
     concat segs' = drop n (concat segs)
   else conn_read_full n segs = (None, [])"
proof (induction n segs rule: conn_read_full.induct)
  case (1 n)
  then show ?case by simp
next
  case (2 n seg segs)
  show ?case
  proof (cases "n \<le> length seg")
    case True
    then show ?thesis by simp
  next
    case False
    show ?thesis
    proof (cases "n \<le> length (concat (seg # segs))")
      case True
      then obtain segs' where "conn_read_full (n - length seg) segs =
          (Some (take (n - length seg) (concat segs)), segs')"
        "concat segs' = drop (n - length seg) (concat segs)"
        using "2.IH" [OF False] by (auto split: if_splits)
      with False True show ?thesis by simp
    next
      case False': False
      then have "conn_read_full (n - length seg) segs = (None, [])"
        using "2.IH" [OF False] by (auto split: if_splits)
      with False False' show ?thesis by simp
    qed
  qed
qed

interpretation conn: byte_source conn_read_full concat
proof unfold_locales
  fix n :: nat and segs :: "string list"
  show "n \<le> length (concat segs) \<Longrightarrow>
      \<exists>r'. conn_read_full n segs = (Some (take n (concat segs)), r') \<and> concat r' = drop n (concat segs)"
    using conn_read_full_spec [of n segs] by simp
  show "length (concat segs) < n \<Longrightarrow>
      fst (conn_read_full n segs) = None \<and> concat (snd (conn_read_full n segs)) = []"
    using conn_read_full_spec [of n segs] by (simp split: if_splits)
qed

text \<open>\<^verbatim>\<open>io.TeeReader(conn, &buf)\<close>: whatever is read from the connection is appended to
  the buffer.\<close>

record tee =
  tee_conn :: "string list"
  tee_buf :: string

definition tee_read_full :: "tee read_full" where
  "tee_read_full n t =
     (case conn_read_full n (tee_conn t) of
        (Some s, segs) \<Rightarrow> (Some s, \<lparr>tee_conn = segs, tee_buf = tee_buf t @ s\<rparr>)
      | (None, segs) \<Rightarrow>
          (None, \<lparr>tee_conn = segs, tee_buf = tee_buf t @ concat (tee_conn t)\<rparr>))"

interpretation tee: captured_source tee_read_full "\<lambda>t. concat (tee_conn t)" tee_buf
proof unfold_locales
  fix n :: nat and t :: tee
  show "n \<le> length (concat (tee_conn t)) \<Longrightarrow>
      \<exists>t'. tee_read_full n t = (Some (take n (concat (tee_conn t))), t') \<and>
        concat (tee_conn t') = drop n (concat (tee_conn t))"
    using conn_read_full_spec [of n "tee_conn t"] by (auto simp: tee_read_full_def)
  show "length (concat (tee_conn t)) < n \<Longrightarrow>
      fst (tee_read_full n t) = None \<and> concat (tee_conn (snd (tee_read_full n t))) = []"
    using conn_read_full_spec [of n "tee_conn t"] by (auto simp: tee_read_full_def split: if_splits)
  show "tee_buf (snd (tee_read_full n t)) @ concat (tee_conn (snd (tee_read_full n t))) =
      tee_buf t @ concat (tee_conn t)"
    using conn_read_full_spec [of n "tee_conn t"]
    by (auto simp: tee_read_full_def split: if_splits)
qed

subsection \<open>Properties\<close>

text \<open>C11: the server name is found however the ClientHello travels. For every ClientHello with a
  server name extension (after any other extensions, before any others), cut into TLS records of
  any admissible sizes and delivered in any segments, the parser returns the first host name, stops
  right after the record that completes the message, and has captured exactly the records it read.\<close>

theorem client_hello_sni_roundtrip:
  assumes "concat segs = concat (map (\<lambda>(v, p). enc_record v p) recs) @ rest"
    and "concat (map snd recs) = hello_msg (hello_body rnd sid ciphers compr exts) @ extra"
    and "length (concat (map snd (butlast recs))) < 4 + length (hello_body rnd sid ciphers compr exts)"
    and "\<forall>x \<in> set recs. snd x \<noteq> [] \<and> length (snd x) \<le> max_record_size"
    and "length (hello_body rnd sid ciphers compr exts) \<le> max_client_hello_size"
    and "length rnd = 34" "length sid < 256" "length ciphers < 65536" "length compr < 256"
    and "length (concat (map enc_ext exts)) < 65536"
    and "\<forall>e \<in> set exts. fst e < 65536 \<and> length (snd e) < 65536"
    and "find (\<lambda>e. fst e = 0) exts = Some (0, vec16 (concat (map enc_name names)) @ junk)"
    and "\<forall>e \<in> set names. fst e < 256 \<and> length (snd e) < 65536"
    and "length (concat (map enc_name names)) < 65536"
  shows "\<exists>t'. read_client_hello_sni tee_read_full \<lparr>tee_conn = segs, tee_buf = []\<rparr> =
      (Inr (case find (\<lambda>e. fst e = 0) names of None \<Rightarrow> [] | Some e \<Rightarrow> snd e), t') \<and>
    concat (tee_conn t') = rest \<and>
    tee_buf t' = concat (map (\<lambda>(v, p). enc_record v p) recs)"
proof -
  let ?t = "\<lparr>tee_conn = segs, tee_buf = []\<rparr>"
  obtain t' where t': "read_client_hello_sni tee_read_full ?t =
      (parse_client_hello_sni (hello_body rnd sid ciphers compr exts), t')"
    "concat (tee_conn t') = rest"
    using tee.read_client_hello_reassembles [of ?t recs rest _ extra] assms(1-5) by auto
  have "tee_buf t' @ rest = concat segs"
    using tee.read_client_hello_capture [OF t'(1)] t'(2) by simp
  then have "tee_buf t' = concat (map (\<lambda>(v, p). enc_record v p) recs)"
    using assms(1) by simp
  moreover have "parse_client_hello_sni (hello_body rnd sid ciphers compr exts) =
      Inr (case find (\<lambda>e. fst e = 0) names of None \<Rightarrow> [] | Some e \<Rightarrow> snd e)"
    by (simp add: parse_hello_body [OF assms(6-11)] assms(12) sni_from_server_name_ext_def
        read_vec16 [OF assms(14)] names_loop_enc [OF assms(13)])
  ultimately show ?thesis using t' by auto
qed

definition sample_exts :: "(nat \<times> string) list" where
  "sample_exts = [(10, ''ab''), (0, vec16 (concat (map enc_name [(0, ''a.example'')])))]"

definition sample_hello :: string where
  "sample_hello =
     hello_body (replicate 34 CHR ''r'') [] [CHR 0x13, CHR 0x01] [CHR 0x00] sample_exts"

lemmas enc_defs = hello_body_def vec8_def vec16_def bytes16_def enc_ext_def enc_name_def

lemma client_hello_sni_roundtrip_witness:
  "\<exists>t'. read_client_hello_sni tee_read_full
      \<lparr>tee_conn = [enc_record (CHR 0x03, CHR 0x01) (take 3 (hello_msg sample_hello)),
         enc_record (CHR 0x03, CHR 0x03) (drop 3 (hello_msg sample_hello)), ''more''], tee_buf = []\<rparr> =
      (Inr ''a.example'', t') \<and> concat (tee_conn t') = ''more''"
proof -
  let ?v = "(CHR 0x03, CHR 0x01)" and ?w = "(CHR 0x03, CHR 0x03)"
  let ?m = "hello_msg sample_hello"
  have len: "length sample_hello = 67"
    by (simp add: sample_hello_def sample_exts_def enc_defs)
  have m: "length ?m = 71" using len by (simp add: hello_msg_def bytes24_def)
  have ne: "?m \<noteq> []" by (simp add: hello_msg_def)
  have exts: "length (concat (map enc_ext sample_exts)) < 65536"
    "\<forall>e \<in> set sample_exts. fst e < 65536 \<and> length (snd e) < 65536"
    "find (\<lambda>e. fst e = 0) sample_exts = Some (0, vec16 (concat (map enc_name [(0, ''a.example'')])) @ [])"
    by (simp_all add: sample_exts_def enc_defs)
  have names: "\<forall>e \<in> set [(0 :: nat, ''a.example'')]. fst e < 256 \<and> length (snd e) < 65536"
    "length (concat (map enc_name [(0, ''a.example'')])) < 65536"
    by (simp_all add: enc_defs)
  have "\<exists>t'. read_client_hello_sni tee_read_full
      \<lparr>tee_conn = [enc_record ?v (take 3 ?m), enc_record ?w (drop 3 ?m), ''more''], tee_buf = []\<rparr> =
      (Inr (case find (\<lambda>e. fst e = 0) [(0 :: nat, ''a.example'')] of None \<Rightarrow> [] | Some e \<Rightarrow> snd e), t') \<and>
    concat (tee_conn t') = ''more'' \<and>
    tee_buf t' = concat (map (\<lambda>(v, p). enc_record v p) [(?v, take 3 ?m), (?w, drop 3 ?m)])"
    by (rule client_hello_sni_roundtrip [OF _ _ _ _ _ _ _ _ _ exts names,
          where rnd = "replicate 34 CHR ''r''" and sid = "[]" and ciphers = "[CHR 0x13, CHR 0x01]"
            and compr = "[CHR 0x00]" and extra = "[]"])
       (use len m ne in \<open>simp_all add: sample_hello_def [symmetric] max_record_size_def
          max_client_hello_size_def\<close>)
  then show ?thesis by auto
qed

text \<open>C17: whatever the peer sends, the parser ends with an answer or a protocol error, no byte is
  lost (what was captured followed by what is still to come is the original stream, so the
  connection can be replayed to the backend), and at most 411677 bytes are buffered.\<close>

theorem client_hello_peek_safe:
  "let (res, t') = read_client_hello_sni tee_read_full \<lparr>tee_conn = segs, tee_buf = []\<rparr>
   in res \<noteq> Inl Out_of_fuel \<and> tee_buf t' @ concat (tee_conn t') = concat segs \<and>
      length (tee_buf t') \<le> 411677"
proof -
  let ?t = "\<lparr>tee_conn = segs, tee_buf = []\<rparr>"
  obtain res t' where r: "read_client_hello_sni tee_read_full ?t = (res, t')" by fastforce
  have cap: "tee_buf t' @ concat (tee_conn t') = concat segs"
    using tee.read_client_hello_capture [OF r] by simp
  have "length (concat segs) \<le> length (concat (tee_conn t')) + 411677"
    using tee.hello_loop_consumes [of "[]" None ?t hello_fuel] r
    by (simp add: read_client_hello_sni_def max_record_size_def)
  moreover have "length (concat segs) = length (tee_buf t') + length (concat (tee_conn t'))"
    unfolding cap [symmetric] by simp
  ultimately show ?thesis using r cap tee.hello_fuel_enough [of ?t] by simp
qed

end
