(* ===== verification/TcpFilters.thy ===== *)
theory TcpFilters
  imports TextProto ClientHello
begin

text \<open>
  \<^verbatim>\<open>internal/filter/http_filter.go\<close> and \<^verbatim>\<open>https_filter.go\<close>: what the two filters do with one
  accepted connection. A handler returns the trace of its effects and the table of synthetic
  events.

  The connection record holds what the outside decides: the remote address, the kernel's answers
  about the original destination, the segments the client sends (up to its close or the read
  deadline of the peek) and what it sends later, the fate of the bytes of both directions, and, for
  HTTP, how many bytes the two buffered readers fetched. \<open>dial\<close> is the network: None for a failed
  dial, else what the backend sends.
\<close>

record tcp_conn =
  c_is_tcp :: bool
  c_addr :: conn
  c_kernel :: kernel_dst
  c_segs :: "string list"
  c_late :: string \<comment> \<open>what the client sends after the read deadline of the peek\<close>
  c_up :: wire
  c_down :: wire
  c_head :: nat \<comment> \<open>bytes the inner reader took (the captured head)\<close>
  c_buffered :: nat \<comment> \<open>bytes the outer reader holds beyond them\<close>

datatype tcp_event =
    Tlog log_line
  | Tlearn string string
  | Tdial string
  | Tdeadlines nanos nanos
  | Tto_backend string
  | Tto_client string
  | Tlinger
  | Tclose

type_synonym network = "string \<Rightarrow> string option"

abbreviation client_bytes :: "tcp_conn \<Rightarrow> string" where
  "client_bytes c \<equiv> concat (c_segs c)"

definition sent_bytes :: "tcp_conn \<Rightarrow> string" where
  "sent_bytes c = client_bytes c @ c_late c"

definition violation_reason :: "options \<Rightarrow> string" where
  "violation_reason opts = (if DefaultAllow opts then ''denylisted'' else ''not-allowlisted'')"

subsection \<open>HTTPS\<close>

definition peek_client_hello :: "string list \<Rightarrow> (hello_error + string) \<times> tee" where
  "peek_client_hello segs =
     read_client_hello_sni tee_read_full \<lparr>tee_conn = segs, tee_buf = []\<rparr>"

definition sni_of :: "env \<Rightarrow> string \<Rightarrow> string" where
  \<comment> \<open>from the name on the wire to the name the policy sees; empty when it is not a host\<close>
  "sni_of E rawSNI =
     (case sanitize_host (trim_suffix (to_lower E rawSNI) ''.'') of None \<Rightarrow> [] | Some s \<Rightarrow> s)"

definition extract_sni_from_connection ::
  "env \<Rightarrow> clock \<Rightarrow> tcp_conn \<Rightarrow> options \<Rightarrow> synthetic \<Rightarrow>
   (string \<times> tee) \<times> tcp_event list \<times> synthetic" where
  "extract_sni_from_connection E now c opts syn =
     (case peek_client_hello (c_segs c) of
        (Inl _, t) \<Rightarrow> (([], t), [], syn)
      | (Inr rawSNI, t) \<Rightarrow>
          (let sni = sni_of E rawSNI
           in if HasLogger opts \<and> sni \<noteq> [] \<and> c_is_tcp c then
                (case original_dst_tcp (c_kernel c) of
                   Inl _ \<Rightarrow> ((sni, t), [], syn)
                 | Inr target \<Rightarrow>
                     (let (_, logs, syn') =
                            emit_synthetic E now (HasLogger opts) component_https (c_addr c) target syn
                      in ((sni, t), map Tlog logs, syn')))
              else ((sni, t), [], syn)))"

definition https_violation_context ::
  "env \<Rightarrow> clock \<Rightarrow> tcp_conn \<Rightarrow> string \<Rightarrow> options \<Rightarrow> synthetic \<Rightarrow>
   (string \<times> string \<times> int) \<times> tcp_event list \<times> synthetic" where
  "https_violation_context E now c sni opts syn =
     (let reason = (if sni = [] then ''no-sni'' else violation_reason opts)
      in case original_dst_tcp (c_kernel c) of
           Inl _ \<Rightarrow> ((reason, [], 0), [], syn)
         | Inr tgt \<Rightarrow>
             (let (destIP, destPort) = parse_host_port tgt;
                  (_, logs, syn') =
                    (if sni = [] then
                       emit_synthetic E now (HasLogger opts) component_https (c_addr c) tgt syn
                     else ([], [], syn))
              in ((reason, destIP, destPort), map Tlog logs, syn')))"

definition log_blocked_https ::
  "env \<Rightarrow> clock \<Rightarrow> tcp_conn \<Rightarrow> string \<Rightarrow> options \<Rightarrow> synthetic \<Rightarrow> tcp_event list \<times> synthetic" where
  "log_blocked_https E now c sni opts syn =
     (let ((reason, destIP, destPort), evs, syn') = https_violation_context E now c sni opts syn
      in (evs @ map Tlog (log_blocked_connection E opts component_https reason sni (c_addr c) destIP destPort),
          syn'))"

definition log_audited_https ::
  "env \<Rightarrow> clock \<Rightarrow> tcp_conn \<Rightarrow> string \<Rightarrow> options \<Rightarrow> synthetic \<Rightarrow> tcp_event list \<times> synthetic" where
  "log_audited_https E now c sni opts syn =
     (let ((reason, destIP, destPort), evs, syn') = https_violation_context E now c sni opts syn
      in (evs @ map Tlog (log_audited_connection E opts component_https reason sni (c_addr c) destIP destPort),
          syn'))"

definition handle_blocked_https ::
  "env \<Rightarrow> clock \<Rightarrow> tcp_conn \<Rightarrow> string \<Rightarrow> options \<Rightarrow> synthetic \<Rightarrow> tcp_event list \<times> synthetic" where
  "handle_blocked_https E now c sni opts syn =
     (let (evs, syn') = log_blocked_https E now c sni opts syn
      in (evs @ (if DropWithRST opts then [Tlinger] else []), syn'))"

definition deadline_events :: "nanos \<Rightarrow> options \<Rightarrow> tcp_event list" where
  "deadline_events now opts =
     (case set_conn_timeouts now opts of None \<Rightarrow> [] | Some (a, b) \<Rightarrow> [Tdeadlines a b])"

definition connect_and_splice_https ::
  "network \<Rightarrow> nanos \<Rightarrow> tcp_conn \<Rightarrow> tee \<Rightarrow> string \<Rightarrow> options \<Rightarrow> tcp_event list" where
  "connect_and_splice_https dial now c t target opts =
     Tdial target #
     (case dial target of
        None \<Rightarrow> map Tlog (log_dst_conn_dial_error opts component_https (c_addr c) target ''dial'')
      | Some backend \<Rightarrow>
          (let dl = map_option fst (set_conn_timeouts now opts);
               (up, down) = bidirectional_copy dl (c_up c) (c_down c) (concat (tee_conn t) @ c_late c) backend
                 (Peeked (tee_buf t))
           in deadline_events now opts @ [Tto_backend up, Tto_client down]))"

definition handle_allowed_https ::
  "env \<Rightarrow> network \<Rightarrow> nanos \<Rightarrow> tcp_conn \<Rightarrow> tee \<Rightarrow> string \<Rightarrow> options \<Rightarrow> bool \<Rightarrow> tcp_event list" where
  "handle_allowed_https E dial now c t sni opts logAllowed =
     (case original_dst_tcp (c_kernel c) of
        Inl _ \<Rightarrow> if HasLogger opts then [Tlog (log_line Warn ''https.orig_dst_error'' [])] else []
      | Inr target \<Rightarrow>
          (if sni = [] then map (\<lambda>(k, v). Tlearn k v) (maybe_learn_ip (fst (parse_host_port target)) opts)
           else [])
          @ (if HasLogger opts \<and> logAllowed
             then map Tlog (log_allowed_connection E opts component_https target sni (c_addr c)) else [])
          @ connect_and_splice_https dial now c t target opts)"

definition handle_https ::
  "env \<Rightarrow> network \<Rightarrow> clock \<Rightarrow> tcp_conn \<Rightarrow> host_matcher \<Rightarrow> options \<Rightarrow> synthetic \<Rightarrow>
   tcp_event list \<times> synthetic" where
  "handle_https E dial now c allowlist opts syn =
     (if \<not> c_is_tcp c then ([Tclose], syn)
      else
        (let ((sni, t), evs1, syn1) = extract_sni_from_connection E now c opts syn;
             permitted = host_permitted_by E sni allowlist opts;
             wasAudited = audited permitted opts
         in if \<not> wasAudited \<and> \<not> permitted then
              (let (evs2, syn2) = handle_blocked_https E now c sni opts syn1
               in (evs1 @ evs2 @ [Tclose], syn2))
            else
              (let (evs2, syn2) =
                     (if wasAudited then log_audited_https E now c sni opts syn1 else ([], syn1))
               in (evs1 @ evs2
                   @ map (\<lambda>(k, v). Tlearn k v) (maybe_learn_host_by E sni allowlist opts)
                   @ handle_allowed_https E dial (snd now) c t sni opts (\<not> wasAudited)
                   @ [Tclose], syn2))))"

definition serve443_setup :: "env \<Rightarrow> string list \<Rightarrow> options \<Rightarrow> host_matcher \<times> options" where
  \<comment> \<open>\<^verbatim>\<open>Serve443\<close> up to the accept loop: the matcher and the options of every connection\<close>
  "serve443_setup E allowlist opts =
     (let deny = normalize_patterns E (Denylist opts)
      in (new_matcher E allowlist,
          opts\<lparr>ListenAddr := (if ListenAddr opts = [] then '':8443'' else ListenAddr opts),
               Denylist := deny, denyMatcher := Some (new_matcher E deny)\<rparr>))"

subsection \<open>HTTP\<close>

definition validate_and_sanitize_host :: "string \<Rightarrow> string" where
  "validate_and_sanitize_host host = (case sanitize_host host of None \<Rightarrow> [] | Some s \<Rightarrow> s)"

definition parse_and_validate_http ::
  "env \<Rightarrow> clock \<Rightarrow> tcp_conn \<Rightarrow> options \<Rightarrow> synthetic \<Rightarrow>
   (string \<times> head_error option) \<times> tcp_event list \<times> synthetic" where
  "parse_and_validate_http E now c opts syn =
     (let (rawHost, err) = read_head_with_textproto E (client_bytes c);
          host = validate_and_sanitize_host rawHost
      in if HasLogger opts \<and> host \<noteq> [] \<and> err = None then
           (case original_dst_tcp (c_kernel c) of
              Inl _ \<Rightarrow> ((host, err), [], syn)
            | Inr target \<Rightarrow>
                (let (_, logs, syn') =
                       emit_synthetic E now (HasLogger opts) component_http (c_addr c) target syn
                 in ((host, err), map Tlog logs, syn')))
         else ((host, err), [], syn))"

definition http_violation_reason :: "string \<Rightarrow> head_error option \<Rightarrow> options \<Rightarrow> string" where
  "http_violation_reason host parseErr opts =
     (if host = [] then ''no-host'' else if parseErr \<noteq> None then ''parse-failed''
      else violation_reason opts)"

definition get_destination_info ::
  "env \<Rightarrow> clock \<Rightarrow> tcp_conn \<Rightarrow> string \<Rightarrow> options \<Rightarrow> synthetic \<Rightarrow>
   (string \<times> int) \<times> tcp_event list \<times> synthetic" where
  "get_destination_info E now c host opts syn =
     (case original_dst_tcp (c_kernel c) of
        Inl _ \<Rightarrow> (([], 0), [], syn)
      | Inr tgt \<Rightarrow>
          (let (_, logs, syn') =
                 (if host = [] then
                    emit_synthetic E now (HasLogger opts) component_http (c_addr c) tgt syn
                  else ([], [], syn))
           in (parse_host_port tgt, map Tlog logs, syn')))"

definition log_blocked_http ::
  "env \<Rightarrow> clock \<Rightarrow> tcp_conn \<Rightarrow> string \<Rightarrow> head_error option \<Rightarrow> options \<Rightarrow> synthetic \<Rightarrow>
   tcp_event list \<times> synthetic" where
  "log_blocked_http E now c host parseErr opts syn =
     (let ((destIP, destPort), evs, syn') = get_destination_info E now c host opts syn
      in (evs @ map Tlog (log_blocked_connection E opts component_http
            (http_violation_reason host parseErr opts) host (c_addr c) destIP destPort), syn'))"

definition log_audited_http ::
  "env \<Rightarrow> clock \<Rightarrow> tcp_conn \<Rightarrow> string \<Rightarrow> head_error option \<Rightarrow> options \<Rightarrow> synthetic \<Rightarrow>
   tcp_event list \<times> synthetic" where
  "log_audited_http E now c host parseErr opts syn =
     (let ((destIP, destPort), evs, syn') = get_destination_info E now c host opts syn
      in (evs @ map Tlog (log_audited_connection E opts component_http
            (http_violation_reason host parseErr opts) host (c_addr c) destIP destPort), syn'))"

definition handle_blocked_http ::
  "env \<Rightarrow> clock \<Rightarrow> tcp_conn \<Rightarrow> string \<Rightarrow> head_error option \<Rightarrow> options \<Rightarrow> synthetic \<Rightarrow>
   tcp_event list \<times> synthetic" where
  "handle_blocked_http E now c host parseErr opts syn =
     (let (evs, syn') = log_blocked_http E now c host parseErr opts syn
      in (evs @ (if DropWithRST opts then [Tlinger] else []), syn'))"

definition connect_and_splice_http ::
  "network \<Rightarrow> nanos \<Rightarrow> tcp_conn \<Rightarrow> string \<Rightarrow> options \<Rightarrow> tcp_event list" where
  \<comment> \<open>the captured head, then what the outer reader holds, then the connection\<close>
  "connect_and_splice_http dial now c target opts =
     Tdial target #
     (case dial target of
        None \<Rightarrow> map Tlog (log_dst_conn_dial_error opts component_http (c_addr c) target ''dial'')
      | Some backend \<Rightarrow>
          (let dl = map_option fst (set_conn_timeouts now opts);
               headBytes = take (c_head c) (client_bytes c);
               rest = drop (c_head c) (client_bytes c);
               (head, k) = (if length headBytes > 0 then io_copy dl (c_up c) 0 headBytes else ([], 0));
               (up, down) = bidirectional_copy_with_buffered_reader dl (c_up c) k (c_down c)
                 (drop (c_buffered c) rest @ c_late c) backend (take (c_buffered c) rest)
           in deadline_events now opts
              @ (if length headBytes > 0 then [Tto_backend head] else [])
              @ [Tto_backend up, Tto_client down]))"

definition handle_allowed_http ::
  "env \<Rightarrow> network \<Rightarrow> nanos \<Rightarrow> tcp_conn \<Rightarrow> string \<Rightarrow> options \<Rightarrow> bool \<Rightarrow> tcp_event list" where
  "handle_allowed_http E dial now c host opts logAllowed =
     (case original_dst_tcp (c_kernel c) of
        Inl _ \<Rightarrow> if HasLogger opts then [Tlog (log_line Warn ''http.orig_dst_error'' [])] else []
      | Inr target \<Rightarrow>
          (if host = [] then map (\<lambda>(k, v). Tlearn k v) (maybe_learn_ip (fst (parse_host_port target)) opts)
           else [])
          @ (if HasLogger opts \<and> logAllowed
             then map Tlog (log_allowed_connection E opts component_http target host (c_addr c)) else [])
          @ connect_and_splice_http dial now c target opts)"

definition handle_http ::
  "env \<Rightarrow> network \<Rightarrow> clock \<Rightarrow> tcp_conn \<Rightarrow> host_matcher \<Rightarrow> options \<Rightarrow> synthetic \<Rightarrow>
   tcp_event list \<times> synthetic" where
  "handle_http E dial now c allowlist opts syn =
     (if \<not> c_is_tcp c then ([Tclose], syn)
      else
        (let ((host, parseErr), evs1, syn1) = parse_and_validate_http E now c opts syn;
             permitted = host_permitted_by E host allowlist opts;
             wasAudited = audited permitted opts
         in if \<not> wasAudited \<and> \<not> permitted then
              (let (evs2, syn2) = handle_blocked_http E now c host parseErr opts syn1
               in (evs1 @ evs2 @ [Tclose], syn2))
            else
              (let (evs2, syn2) =
                     (if wasAudited then log_audited_http E now c host parseErr opts syn1 else ([], syn1))
               in (evs1 @ evs2
                   @ map (\<lambda>(k, v). Tlearn k v) (maybe_learn_host_by E host allowlist opts)
                   @ handle_allowed_http E dial (snd now) c host opts (\<not> wasAudited)
                   @ [Tclose], syn2))))"

definition serve80_setup :: "env \<Rightarrow> string list \<Rightarrow> options \<Rightarrow> host_matcher \<times> options" where
  "serve80_setup E allowlist opts =
     (let deny = normalize_patterns E (Denylist opts)
      in (new_matcher E allowlist,
          opts\<lparr>ListenAddr := (if ListenAddr opts = [] then '':8080'' else ListenAddr opts),
               Denylist := deny, denyMatcher := Some (new_matcher E deny)\<rparr>))"

subsection \<open>Observations on a trace\<close>

fun dial_of :: "tcp_event \<Rightarrow> string list" where
  "dial_of (Tdial t) = [t]" | "dial_of _ = []"

fun up_of :: "tcp_event \<Rightarrow> string" where
  "up_of (Tto_backend s) = s" | "up_of _ = []"

fun down_of :: "tcp_event \<Rightarrow> string" where
  "down_of (Tto_client s) = s" | "down_of _ = []"

definition verdict_line :: "log_line \<Rightarrow> string list" where
  \<comment> \<open>the action of a decision log line; redirect events are not decisions\<close>
  "verdict_line l =
     (case field ''action'' (lg_fields l) of
        Some (VS a) \<Rightarrow> if a = action_redirected then [] else [a]
      | _ \<Rightarrow> [])"

fun verdict_of :: "tcp_event \<Rightarrow> string list" where
  "verdict_of (Tlog l) = verdict_line l" | "verdict_of _ = []"

definition dials :: "tcp_event list \<Rightarrow> string list" where "dials evs = concat (map dial_of evs)"
definition to_backend :: "tcp_event list \<Rightarrow> string" where "to_backend evs = concat (map up_of evs)"
definition to_client :: "tcp_event list \<Rightarrow> string" where "to_client evs = concat (map down_of evs)"
definition verdicts :: "tcp_event list \<Rightarrow> string list" where "verdicts evs = concat (map verdict_of evs)"

named_theorems obs \<open>what the parts of a trace contribute to the observations\<close>

lemma obs_append [obs]:
  "dials (a @ b) = dials a @ dials b" "to_backend (a @ b) = to_backend a @ to_backend b"
  "to_client (a @ b) = to_client a @ to_client b" "verdicts (a @ b) = verdicts a @ verdicts b"
  by (simp_all add: dials_def to_backend_def to_client_def verdicts_def)

lemma obs_basic [obs]:
  "dials [] = []" "to_backend [] = []" "to_client [] = []" "verdicts [] = []"
  "dials (e # evs) = dial_of e @ dials evs" "to_backend (e # evs) = up_of e @ to_backend evs"
  "to_client (e # evs) = down_of e @ to_client evs" "verdicts (e # evs) = verdict_of e @ verdicts evs"
  by (simp_all add: dials_def to_backend_def to_client_def verdicts_def)

lemma obs_logs [obs]:
  "dials (map Tlog ls) = []" "to_backend (map Tlog ls) = []" "to_client (map Tlog ls) = []"
  "verdicts (map Tlog ls) = concat (map verdict_line ls)"
  by (simp_all add: dials_def to_backend_def to_client_def verdicts_def comp_def)

lemma obs_learn [obs]:
  "dials (map (\<lambda>(k, v). Tlearn k v) xs) = []" "to_backend (map (\<lambda>(k, v). Tlearn k v) xs) = []"
  "to_client (map (\<lambda>(k, v). Tlearn k v) xs) = []" "verdicts (map (\<lambda>(k, v). Tlearn k v) xs) = []"
  by (induction xs) (auto simp: obs_basic)

lemma obs_deadline [obs]:
  "dials (deadline_events now opts) = []" "to_backend (deadline_events now opts) = []"
  "to_client (deadline_events now opts) = []" "verdicts (deadline_events now opts) = []"
  by (auto simp: deadline_events_def obs_basic split: option.splits)

lemma emit_synthetic_verdicts [obs]:
  "emit_synthetic E now b cmp c t syn = (f, logs, syn') \<Longrightarrow> concat (map verdict_line logs) = []"
  by (auto simp: emit_synthetic_def Let_def verdict_line_def field_def log_line_def split: if_splits prod.splits)

lemma log_blocked_verdicts [obs]:
  "concat (map verdict_line (log_blocked_connection E opts cmp reason ident c ip p)) =
   (if HasLogger opts then [action_blocked] else [])"
  by (auto simp: log_blocked_connection_def log_policy_violation_def Let_def verdict_line_def field_def
      log_line_def base_log_fields_def action_defs split: prod.splits)

lemma log_audited_verdicts [obs]:
  "concat (map verdict_line (log_audited_connection E opts cmp reason ident c ip p)) =
   (if HasLogger opts then [action_audit] else [])"
  by (auto simp: log_audited_connection_def log_policy_violation_def Let_def verdict_line_def field_def
      log_line_def base_log_fields_def action_defs split: prod.splits)

lemma log_allowed_verdicts [obs]:
  "concat (map verdict_line (log_allowed_connection E opts cmp target ident c)) =
   (if HasLogger opts then [action_allowed] else [])"
  by (auto simp: log_allowed_connection_def Let_def verdict_line_def field_def
      log_line_def base_log_fields_def action_defs split: prod.splits)

lemma dial_error_verdicts [obs]:
  "concat (map verdict_line (log_dst_conn_dial_error opts cmp c target err)) = []"
  by (auto simp: log_dst_conn_dial_error_def Let_def verdict_line_def field_def log_line_def
      split: prod.splits)

lemma orig_dst_error_verdict [obs]: "verdict_line (log_line Warn m []) = []"
  by (simp add: verdict_line_def field_def log_line_def)

definition only_verdict :: "string list \<Rightarrow> tcp_event list \<Rightarrow> bool" where
  \<comment> \<open>nothing on the network, and these decisions\<close>
  "only_verdict v evs \<longleftrightarrow>
     dials evs = [] \<and> to_backend evs = [] \<and> to_client evs = [] \<and> verdicts evs = v"

definition idle_deadline :: "nanos \<Rightarrow> options \<Rightarrow> nanos option" where
  \<comment> \<open>the moment after which nothing is carried any more\<close>
  "idle_deadline now opts = (if IdleTimeout opts > 0 then Some (now + IdleTimeout opts * 1000000) else None)"

definition spliced :: "tcp_conn \<Rightarrow> network \<Rightarrow> nanos \<Rightarrow> options \<Rightarrow> bool \<Rightarrow> tcp_event list \<Rightarrow> bool" where
  \<comment> \<open>one connection to the original destination, if that is known, and the bytes of both sides\<close>
  "spliced c dial now opts la evs \<longleftrightarrow>
     (case original_dst_tcp (c_kernel c) of
        Inl _ \<Rightarrow> only_verdict [] evs
      | Inr target \<Rightarrow>
          dials evs = [target] \<and>
          verdicts evs = (if HasLogger opts \<and> la then [action_allowed] else []) \<and>
          to_backend evs = (if dial target = None then []
            else carried (idle_deadline now opts) (c_up c) (sent_bytes c)) \<and>
          to_client evs = (case dial target of None \<Rightarrow> []
            | Some b \<Rightarrow> carried (idle_deadline now opts) (c_down c) b))"

lemma copy_deadline: "map_option fst (set_conn_timeouts now opts) = idle_deadline now opts"
  by (simp add: set_conn_timeouts_def idle_deadline_def milliseconds_def)

subsection \<open>The contract of a filter\<close>

text \<open>The two filters share their contract: a name is taken from the connection, the policy is
  asked, and the connection is dropped or spliced to its original destination. The properties of a
  filter follow from the contract.\<close>

locale tcp_filter =
  fixes handle :: "env \<Rightarrow> network \<Rightarrow> clock \<Rightarrow> tcp_conn \<Rightarrow> host_matcher \<Rightarrow> options \<Rightarrow> synthetic \<Rightarrow>
      tcp_event list \<times> synthetic"
    and name :: "env \<Rightarrow> tcp_conn \<Rightarrow> string"
  assumes blocked_shape: "c_is_tcp c \<Longrightarrow> \<not> host_permitted_by E (name E c) al opts \<Longrightarrow> \<not> AuditMode opts \<Longrightarrow>
      \<exists>evs1 evs2. fst (handle E dial now c al opts syn) = evs1 @ evs2 @ [Tclose] \<and>
        only_verdict [] evs1 \<and> only_verdict (if HasLogger opts then [action_blocked] else []) evs2"
    and passed_shape: "c_is_tcp c \<Longrightarrow> host_permitted_by E (name E c) al opts \<or> AuditMode opts \<Longrightarrow>
      \<exists>evs1 evs2 ls rest. fst (handle E dial now c al opts syn) =
          evs1 @ evs2 @ map (\<lambda>(k, v). Tlearn k v) ls @ rest @ [Tclose] \<and>
        only_verdict [] evs1 \<and>
        only_verdict (if HasLogger opts \<and> \<not> host_permitted_by E (name E c) al opts
          then [action_audit] else []) evs2 \<and>
        spliced c dial (snd now) opts (host_permitted_by E (name E c) al opts) rest"
begin

lemma dials_permitted:
  assumes "c_is_tcp c"
  shows "dials (fst (handle E dial now c al opts syn)) =
    (if host_permitted_by E (name E c) al opts \<or> AuditMode opts
     then (case original_dst_tcp (c_kernel c) of Inl _ \<Rightarrow> [] | Inr target \<Rightarrow> [target])
     else [])"
proof (cases "host_permitted_by E (name E c) al opts \<or> AuditMode opts")
  case False
  then show ?thesis using blocked_shape [OF assms, of E al opts dial now syn]
    by (auto simp: only_verdict_def obs)
next
  case True
  then show ?thesis using passed_shape [OF assms True, of dial now syn]
    by (auto simp: only_verdict_def spliced_def obs split: sum.splits)
qed

lemma transparent:
  assumes "c_is_tcp c"
  shows "let evs = fst (handle E dial now c al opts syn)
    in case dials evs of
         [] \<Rightarrow> to_backend evs = [] \<and> to_client evs = []
       | target # _ \<Rightarrow>
           (case dial target of
              None \<Rightarrow> to_backend evs = [] \<and> to_client evs = []
            | Some b \<Rightarrow> to_backend evs = carried (idle_deadline (snd now) opts) (c_up c) (sent_bytes c) \<and>
                to_client evs = carried (idle_deadline (snd now) opts) (c_down c) b)"
proof (cases "host_permitted_by E (name E c) al opts \<or> AuditMode opts")
  case False
  then show ?thesis using blocked_shape [OF assms, of E al opts dial now syn]
    by (auto simp: only_verdict_def obs)
next
  case True
  let ?evs = "fst (handle E dial now c al opts syn)"
  obtain rest where r: "dials ?evs = dials rest" "to_backend ?evs = to_backend rest"
    "to_client ?evs = to_client rest" "spliced c dial (snd now) opts (host_permitted_by E (name E c) al opts) rest"
    using passed_shape [OF assms True, of dial now syn] by (auto simp: only_verdict_def obs)
  show ?thesis
  proof (cases "original_dst_tcp (c_kernel c)")
    case (Inl e)
    then show ?thesis using r by (simp add: spliced_def only_verdict_def)
  next
    case (Inr target)
    then show ?thesis using r by (cases "dial target") (simp_all add: spliced_def)
  qed
qed

lemma one_verdict:
  assumes "c_is_tcp c" "HasLogger opts"
  shows "verdicts (fst (handle E dial now c al opts syn)) =
    (if host_permitted_by E (name E c) al opts
     then (case original_dst_tcp (c_kernel c) of Inl _ \<Rightarrow> [] | Inr _ \<Rightarrow> [action_allowed])
     else if AuditMode opts then [action_audit] else [action_blocked])"
proof (cases "host_permitted_by E (name E c) al opts \<or> AuditMode opts")
  case False
  then show ?thesis using assms(2) blocked_shape [OF assms(1), of E al opts dial now syn]
    by (auto simp: only_verdict_def obs)
next
  case True
  then show ?thesis using assms(2) passed_shape [OF assms(1) True, of dial now syn]
    by (auto simp: only_verdict_def spliced_def obs split: sum.splits)
qed

end

subsection \<open>The HTTPS filter keeps the contract\<close>

definition https_name :: "env \<Rightarrow> tcp_conn \<Rightarrow> string" where
  \<comment> \<open>the name the policy is asked about: empty when the ClientHello has none, cannot be parsed, or
    carries something that is no host name\<close>
  "https_name E c =
     (case fst (peek_client_hello (c_segs c)) of Inl _ \<Rightarrow> [] | Inr raw \<Rightarrow> sni_of E raw)"

lemma extract_sni_result:
  assumes "extract_sni_from_connection E now c opts syn = ((sni, t), evs, syn')"
  shows "sni = https_name E c \<and> tee_buf t @ concat (tee_conn t) = client_bytes c \<and> only_verdict [] evs"
proof -
  obtain r t0 where p: "peek_client_hello (c_segs c) = (r, t0)" by fastforce
  have cap: "tee_buf t0 @ concat (tee_conn t0) = client_bytes c"
    using tee.read_client_hello_capture [of "\<lparr>tee_conn = c_segs c, tee_buf = []\<rparr>" r t0] p
    by (simp add: peek_client_hello_def)
  have "t = t0 \<and> sni = https_name E c"
    using assms p
    by (auto simp: extract_sni_from_connection_def https_name_def Let_def
        split: sum.splits if_splits prod.splits)
  moreover have "only_verdict [] evs"
    using assms p
    by (auto simp: extract_sni_from_connection_def Let_def only_verdict_def obs
        split: sum.splits if_splits prod.splits)
  ultimately show ?thesis using cap by simp
qed

lemma https_context_silent:
  "https_violation_context E now c sni opts syn = (ctx, evs, syn') \<Longrightarrow> only_verdict [] evs"
  by (auto simp: https_violation_context_def Let_def only_verdict_def obs
      split: sum.splits if_splits prod.splits)

lemma blocked_https_obs:
  assumes "handle_blocked_https E now c sni opts syn = (evs, syn')"
  shows "only_verdict (if HasLogger opts then [action_blocked] else []) evs"
  using assms
  by (auto simp: handle_blocked_https_def log_blocked_https_def Let_def obs only_verdict_def
      dest!: https_context_silent split: prod.splits if_splits)

lemma audited_https_obs:
  assumes "log_audited_https E now c sni opts syn = (evs, syn')"
  shows "only_verdict (if HasLogger opts then [action_audit] else []) evs"
  using assms
  by (auto simp: log_audited_https_def Let_def obs only_verdict_def
      dest!: https_context_silent split: prod.splits if_splits)

lemma allowed_https_spliced:
  assumes "tee_buf t @ concat (tee_conn t) = client_bytes c"
  shows "spliced c dial now opts la (handle_allowed_https E dial now c t sni opts la)"
proof -
  let ?dl = "idle_deadline now opts"
  have "tee_buf t @ (concat (tee_conn t) @ c_late c) = sent_bytes c"
    using assms by (simp add: sent_bytes_def)
  then have "bidirectional_copy ?dl (c_up c) (c_down c) (concat (tee_conn t) @ c_late c) b (Peeked (tee_buf t)) =
      (carried ?dl (c_up c) (sent_bytes c), carried ?dl (c_down c) b)" for b
    using io_copy_append [of ?dl "c_up c" 0 "tee_buf t" "concat (tee_conn t) @ c_late c"]
    by (simp add: bidirectional_copy_def io_copy_carried [symmetric] case_prod_unfold Let_def)
  then show ?thesis
    by (auto simp: handle_allowed_https_def connect_and_splice_https_def copy_deadline spliced_def only_verdict_def obs
        Let_def split: sum.splits option.splits)
qed

interpretation https: tcp_filter handle_https https_name
proof unfold_locales
  fix c :: tcp_conn and E :: env and al :: host_matcher and opts :: options
    and dial :: network and now :: clock and syn :: synthetic
  assume tcp: "c_is_tcp c"
  obtain sni t evs1 syn1 where x: "extract_sni_from_connection E now c opts syn = ((sni, t), evs1, syn1)"
    by (metis prod.exhaust)
  note x' = extract_sni_result [OF x]
  let ?p = "host_permitted_by E (https_name E c) al opts"
  {
    assume n: "\<not> ?p" "\<not> AuditMode opts"
    obtain evs2 syn2 where b: "handle_blocked_https E now c sni opts syn1 = (evs2, syn2)" by fastforce
    have "fst (handle_https E dial now c al opts syn) = evs1 @ evs2 @ [Tclose]"
      using tcp x x' b n by (simp add: handle_https_def audited_def)
    then show "\<exists>evs1 evs2. fst (handle_https E dial now c al opts syn) = evs1 @ evs2 @ [Tclose] \<and>
        only_verdict [] evs1 \<and> only_verdict (if HasLogger opts then [action_blocked] else []) evs2"
      using x' blocked_https_obs [OF b] by blast
  next
    assume y: "?p \<or> AuditMode opts"
    obtain evs2 syn2 where a: "(if audited ?p opts then log_audited_https E now c sni opts syn1
        else ([], syn1)) = (evs2, syn2)" by fastforce
    have full: "\<not> audited ?p opts \<longleftrightarrow> ?p" using y by (auto simp: audited_def)
    have f1: "fst (handle_https E dial now c al opts syn) = evs1 @ evs2
        @ map (\<lambda>(k, v). Tlearn k v) (maybe_learn_host_by E sni al opts)
        @ handle_allowed_https E dial (snd now) c t sni opts ?p @ [Tclose]"
      using tcp x x' a y full by (auto simp: handle_https_def audited_def)
    have f2: "only_verdict (if HasLogger opts \<and> \<not> ?p then [action_audit] else []) evs2"
      using a full by (auto simp: only_verdict_def obs split: if_splits dest!: audited_https_obs)
    have f3: "spliced c dial (snd now) opts ?p (handle_allowed_https E dial (snd now) c t sni opts ?p)"
      using x' allowed_https_spliced by simp
    have f4: "only_verdict [] evs1" using x' by simp
    show "\<exists>evs1 evs2 ls rest. fst (handle_https E dial now c al opts syn) =
          evs1 @ evs2 @ map (\<lambda>(k, v). Tlearn k v) ls @ rest @ [Tclose] \<and> only_verdict [] evs1 \<and>
        only_verdict (if HasLogger opts \<and> \<not> ?p then [action_audit] else []) evs2 \<and>
        spliced c dial (snd now) opts ?p rest"
      using f1 f2 f3 f4 by (intro exI conjI)
  }
qed

subsection \<open>The HTTP filter keeps the contract\<close>

definition http_name :: "env \<Rightarrow> tcp_conn \<Rightarrow> string" where
  "http_name E c = validate_and_sanitize_host (fst (read_head_with_textproto E (client_bytes c)))"

lemma parse_http_result:
  assumes "parse_and_validate_http E now c opts syn = ((host, err), evs, syn')"
  shows "host = http_name E c \<and> only_verdict [] evs"
  using assms
  by (auto simp: parse_and_validate_http_def http_name_def Let_def only_verdict_def obs
      split: sum.splits if_splits prod.splits)

lemma http_destination_silent:
  "get_destination_info E now c host opts syn = (dst, evs, syn') \<Longrightarrow> only_verdict [] evs"
  by (auto simp: get_destination_info_def Let_def only_verdict_def obs
      split: sum.splits if_splits prod.splits)

lemma blocked_http_obs:
  assumes "handle_blocked_http E now c host err opts syn = (evs, syn')"
  shows "only_verdict (if HasLogger opts then [action_blocked] else []) evs"
  using assms
  by (auto simp: handle_blocked_http_def log_blocked_http_def Let_def obs only_verdict_def
      dest!: http_destination_silent split: prod.splits if_splits)

lemma audited_http_obs:
  assumes "log_audited_http E now c host err opts syn = (evs, syn')"
  shows "only_verdict (if HasLogger opts then [action_audit] else []) evs"
  using assms
  by (auto simp: log_audited_http_def Let_def obs only_verdict_def
      dest!: http_destination_silent split: prod.splits if_splits)

lemma replayed_bytes:
  "take n s @ take m (drop n s) @ drop m (drop n s) = s"
  by (metis append_take_drop_id)

lemma replayed_copy:
  assumes "(if length (take n s) > 0 then io_copy dl w 0 (take n s) else ([], 0)) = (h, k)"
    and "bidirectional_copy_with_buffered_reader dl w k down (drop m (drop n s) @ late) b (take m (drop n s)) = (u, d)"
  shows "h @ u = carried dl w (s @ late) \<and> d = carried dl down b"
proof -
  have e: "(if length x > 0 then io_copy dl w j x else ([], j)) = io_copy dl w j x" for x j by (cases x) simp_all
  obtain u1 k1 where u1: "io_copy dl w k (take m (drop n s)) = (u1, k1)" by fastforce
  obtain u2 k2 where u2: "io_copy dl w k1 (drop m (drop n s) @ late) = (u2, k2)" by fastforce
  have r: "u = u1 @ u2" "d = carried dl down b"
    using assms(2) unfolding bidirectional_copy_with_buffered_reader_def e unfolding u1 Let_def prod.case u2
    by (simp_all add: io_copy_carried)
  have "io_copy dl w 0 (take n s @ take m (drop n s) @ drop m (drop n s) @ late) = (h @ u1 @ u2, k2)"
    using assms(1) u1 u2 unfolding e
    by (simp only: io_copy_append [of dl w 0 "take n s"] io_copy_append [of dl w k "take m (drop n s)"] Let_def prod.case)
  moreover have "take n s @ take m (drop n s) @ drop m (drop n s) @ late = s @ late"
    using replayed_bytes [of n s m] by (metis append.assoc)
  ultimately have "io_copy dl w 0 (s @ late) = (h @ u1 @ u2, k2)" by (simp only:)
  then show ?thesis using r io_copy_carried [of dl w "s @ late"] by simp
qed

lemma allowed_http_spliced:
  "spliced c dial now opts la (handle_allowed_http E dial now c host opts la)"
proof (cases "original_dst_tcp (c_kernel c)")
  case (Inl e)
  then show ?thesis by (simp add: handle_allowed_http_def spliced_def only_verdict_def obs)
next
  case (Inr target)
  show ?thesis
  proof (cases "dial target")
    case None
    with Inr show ?thesis
      by (simp add: handle_allowed_http_def connect_and_splice_http_def spliced_def obs)
  next
    case (Some b)
    let ?dl = "idle_deadline now opts" and ?s = "client_bytes c"
    define hb where "hb = take (c_head c) ?s"
    obtain h k where h: "(if length hb > 0 then io_copy ?dl (c_up c) 0 hb else ([], 0)) = (h, k)" by fastforce
    obtain u d where u: "bidirectional_copy_with_buffered_reader ?dl (c_up c) k (c_down c)
        (drop (c_buffered c) (drop (c_head c) ?s) @ c_late c) b (take (c_buffered c) (drop (c_head c) ?s)) = (u, d)"
      by fastforce
    have bytes: "h @ u = carried ?dl (c_up c) (sent_bytes c)" "d = carried ?dl (c_down c) b"
      using replayed_copy [OF h [unfolded hb_def] u] by (simp_all add: sent_bytes_def)
    have "hb = [] \<Longrightarrow> h = []" using h by simp
    then have sent: "to_backend (if length hb > 0 then [Tto_backend h] else []) = h" by (simp add: obs)
    have "connect_and_splice_http dial now c target opts =
        Tdial target # deadline_events now opts @ (if length hb > 0 then [Tto_backend h] else []) @ [Tto_backend u, Tto_client d]"
      by (simp only: connect_and_splice_http_def Some option.case copy_deadline Let_def hb_def [symmetric] h u prod.case)
    then have "to_backend (connect_and_splice_http dial now c target opts) = carried ?dl (c_up c) (sent_bytes c)"
      "dials (connect_and_splice_http dial now c target opts) = [target]"
      "verdicts (connect_and_splice_http dial now c target opts) = []"
      "to_client (connect_and_splice_http dial now c target opts) = carried ?dl (c_down c) b"
      using sent bytes by (simp_all add: obs)
    then show ?thesis
      using Inr Some by (simp add: handle_allowed_http_def spliced_def obs)
  qed
qed

interpretation http: tcp_filter handle_http http_name
proof unfold_locales
  fix c :: tcp_conn and E :: env and al :: host_matcher and opts :: options
    and dial :: network and now :: clock and syn :: synthetic
  assume tcp: "c_is_tcp c"
  obtain host err evs1 syn1 where x: "parse_and_validate_http E now c opts syn = ((host, err), evs1, syn1)"
    by (metis prod.exhaust)
  note x' = parse_http_result [OF x]
  let ?p = "host_permitted_by E (http_name E c) al opts"
  {
    assume n: "\<not> ?p" "\<not> AuditMode opts"
    obtain evs2 syn2 where b: "handle_blocked_http E now c host err opts syn1 = (evs2, syn2)" by fastforce
    have "fst (handle_http E dial now c al opts syn) = evs1 @ evs2 @ [Tclose]"
      using tcp x x' b n by (simp add: handle_http_def audited_def)
    then show "\<exists>evs1 evs2. fst (handle_http E dial now c al opts syn) = evs1 @ evs2 @ [Tclose] \<and>
        only_verdict [] evs1 \<and> only_verdict (if HasLogger opts then [action_blocked] else []) evs2"
      using x' blocked_http_obs [OF b] by blast
  next
    assume y: "?p \<or> AuditMode opts"
    obtain evs2 syn2 where a: "(if audited ?p opts then log_audited_http E now c host err opts syn1
        else ([], syn1)) = (evs2, syn2)" by fastforce
    have full: "\<not> audited ?p opts \<longleftrightarrow> ?p" using y by (auto simp: audited_def)
    have f1: "fst (handle_http E dial now c al opts syn) = evs1 @ evs2
        @ map (\<lambda>(k, v). Tlearn k v) (maybe_learn_host_by E host al opts)
        @ handle_allowed_http E dial (snd now) c host opts ?p @ [Tclose]"
      using tcp x x' a y full by (auto simp: handle_http_def audited_def)
    have f2: "only_verdict (if HasLogger opts \<and> \<not> ?p then [action_audit] else []) evs2"
      using a full by (auto simp: only_verdict_def obs split: if_splits dest!: audited_http_obs)
    have f3: "spliced c dial (snd now) opts ?p (handle_allowed_http E dial (snd now) c host opts ?p)"
      by (rule allowed_http_spliced)
    have f4: "only_verdict [] evs1" using x' by simp
    show "\<exists>evs1 evs2 ls rest. fst (handle_http E dial now c al opts syn) =
          evs1 @ evs2 @ map (\<lambda>(k, v). Tlearn k v) ls @ rest @ [Tclose] \<and> only_verdict [] evs1 \<and>
        only_verdict (if HasLogger opts \<and> \<not> ?p then [action_audit] else []) evs2 \<and>
        spliced c dial (snd now) opts ?p rest"
      using f1 f2 f3 f4 by (intro exI conjI)
  }
qed

subsection \<open>Properties of the filters\<close>

text \<open>C9: the HTTPS filter connects exactly where it may. A TLS connection is dialled out if and
  only if its original destination is known and the policy permits its server name (the empty name
  when the ClientHello has none, cannot be parsed, or carries something that is no host name) or
  audit mode is on. It is dialled once, to the original destination and nowhere else.\<close>

theorem https_dials_permitted:
  assumes "c_is_tcp c"
  shows "dials (fst (handle_https E dial now c allowlist opts syn)) =
    (if host_permitted_by E (https_name E c) allowlist opts \<or> AuditMode opts
     then (case original_dst_tcp (c_kernel c) of Inl _ \<Rightarrow> [] | Inr target \<Rightarrow> [target])
     else [])"
  by (rule https.dials_permitted [OF assms])

definition sample_conn :: "string list \<Rightarrow> tcp_conn" where
  "sample_conn segs =
     \<lparr>c_is_tcp = True, c_addr = Some ''10.0.0.2:5000'',
      c_kernel = \<lparr>syscall_conn_ok = True,
        so_original_dst = Some \<lparr>sa_optlen = 16, sa_family = 2, sa_addr = [192, 0, 2, 7], sa_port = (1, 187)\<rparr>,
        ip6t_so_original_dst = None\<rparr>,
      c_segs = segs, c_late = [], c_up = (\<lambda>i. (int i * second, True)), c_down = (\<lambda>i. (0, True)),
      c_head = 7, c_buffered = 3\<rparr>"

lemma https_dials_permitted_witness:
  "dials (fst (handle_https ascii_env (\<lambda>_. None) (0, 0) (sample_conn []) \<lparr>exact = [], patterns = []\<rparr>
     plain_options synthetic_init)) = []"
proof -
  have "c_is_tcp (sample_conn [])" by (simp add: sample_conn_def)
  moreover have fuel: "hello_fuel = Suc 65541" by (simp add: hello_fuel_def)
  have "fst (read_client_hello_sni tee_read_full \<lparr>tee_conn = [], tee_buf = []\<rparr>) = Inl ErrReadHeader"
    unfolding read_client_hello_sni_def fuel hello_loop.simps(2)
    by (simp add: read_record_def tee_read_full_def record_header_len_def)
  then have "https_name ascii_env (sample_conn []) = []"
    by (simp add: https_name_def peek_client_hello_def sample_conn_def)
  ultimately show ?thesis
    by (simp add: https_dials_permitted host_permitted_by_def plain_options_def)
qed

text \<open>C16: The HTTPS filter is transparent, as long as the deadline of the connection is not over and
  both connections work. When a connection passes, the backend receives the client's bytes in order and
  unchanged, the ClientHello that was read to find the name included, and the client receives the
  backend's bytes; in each direction the transfer ends with the first byte that comes after the idle
  timeout, counted from the start of the transfer, or finds a connection broken, and every byte before
  that one is delivered. When it does not pass, neither side receives a byte.\<close>

theorem https_transparent:
  assumes "c_is_tcp c"
  shows "let evs = fst (handle_https E dial now c allowlist opts syn)
    in case dials evs of
         [] \<Rightarrow> to_backend evs = [] \<and> to_client evs = []
       | target # _ \<Rightarrow>
           (case dial target of
              None \<Rightarrow> to_backend evs = [] \<and> to_client evs = []
            | Some b \<Rightarrow> to_backend evs = carried (idle_deadline (snd now) opts) (c_up c) (sent_bytes c) \<and>
                to_client evs = carried (idle_deadline (snd now) opts) (c_down c) b)"
  by (rule https.transparent [OF assms])

lemma https_transparent_witness:
  "let evs = fst (handle_https ascii_env (\<lambda>_. Some ''hi'') (0, 0) (sample_conn [''x'', ''yz''])
       \<lparr>exact = [], patterns = []\<rparr> (plain_options\<lparr>DefaultAllow := True, IdleTimeout := 2000\<rparr>) synthetic_init)
   in case dials evs of
        [] \<Rightarrow> to_backend evs = [] \<and> to_client evs = []
      | target # _ \<Rightarrow> to_backend evs = ''xy'' \<and> to_client evs = ''hi''"
proof -
  let ?opts = "plain_options\<lparr>DefaultAllow := True, IdleTimeout := 2000\<rparr>" and ?c = "sample_conn [''x'', ''yz'']"
  have "c_is_tcp ?c" by (simp add: sample_conn_def)
  moreover have "idle_deadline 0 ?opts = Some (2 * second)" by (simp add: idle_deadline_def)
  moreover have "carried (Some (2 * second)) (c_up ?c) (sent_bytes ?c) = ''xy''" by code_simp
  moreover have "carried (Some (2 * second)) (c_down ?c) ''hi'' = ''hi''" by code_simp
  ultimately show ?thesis
    using https_transparent [of ?c ascii_env "\<lambda>_. Some ''hi''" "(0, 0)" "\<lparr>exact = [], patterns = []\<rparr>" ?opts synthetic_init]
    by (simp add: Let_def split: list.splits)
qed

text \<open>The deadline does not move while bytes flow: a transfer that is never idle is cut all the same.\<close>

lemma active_transfer_cut:
  assumes "0 < IdleTimeout opts" "\<And>i. snd (c_up c i)" "fst (c_up c n) \<ge> now + IdleTimeout opts * 1000000"
    and "n < length (sent_bytes c)"
  shows "length (carried (idle_deadline now opts) (c_up c) (sent_bytes c)) \<le> n"
proof -
  have bad: "\<not> passes (idle_deadline now opts) (c_up c n)"
    using assms(1,3) by (simp add: passes_def idle_deadline_def)
  have "[0 ..< length (sent_bytes c)] = [0 ..< n] @ n # [Suc n ..< length (sent_bytes c)]"
    using assms(4) upt_add_eq_append [of 0 n "length (sent_bytes c) - n"] upt_conv_Cons [of n "length (sent_bytes c)"] by simp
  then have "length (takeWhile (\<lambda>i. passes (idle_deadline now opts) (c_up c i)) [0 ..< length (sent_bytes c)]) \<le> n"
    using bad length_takeWhile_le [of "\<lambda>i. passes (idle_deadline now opts) (c_up c i)" "[0 ..< n]"]
    by (simp add: takeWhile_tail takeWhile_append)
  then show ?thesis by (simp add: carried_def)
qed

text \<open>The log tells what happened. With a logger, every HTTP connection whose original
  destination is known gets exactly one verdict: ALLOWED when the policy permits its host, AUDIT when
  only audit mode lets it through, BLOCKED otherwise. A connection that is blocked gets its verdict
  even when the destination is unknown.\<close>

theorem http_one_verdict:
  assumes "c_is_tcp c" "HasLogger opts"
  shows "verdicts (fst (handle_http E dial now c allowlist opts syn)) =
    (if host_permitted_by E (http_name E c) allowlist opts
     then (case original_dst_tcp (c_kernel c) of Inl _ \<Rightarrow> [] | Inr _ \<Rightarrow> [action_allowed])
     else if AuditMode opts then [action_audit] else [action_blocked])"
  by (rule http.one_verdict [OF assms])

lemma http_one_verdict_witness:
  "verdicts (fst (handle_http ascii_env (\<lambda>_. None) (0, 0) (sample_conn []) \<lparr>exact = [], patterns = []\<rparr>
     plain_options synthetic_init)) = [action_blocked]"
proof -
  have "c_is_tcp (sample_conn [])" "HasLogger plain_options" "\<not> AuditMode plain_options"
    by (simp_all add: sample_conn_def plain_options_def)
  moreover have "http_name ascii_env (sample_conn []) = []"
    by (simp add: http_name_def sample_conn_def read_head_with_textproto_def read_line_slice_def
        validate_and_sanitize_host_def go_unfold)
  then have "\<not> host_permitted_by ascii_env (http_name ascii_env (sample_conn []))
      \<lparr>exact = [], patterns = []\<rparr> plain_options"
    by (simp add: host_permitted_by_def plain_options_def)
  ultimately show ?thesis by (simp add: http_one_verdict)
qed

end
