(* ===== verification/Gateway.thy ===== *)
theory Gateway
  imports App Firewall TcpFilters
begin

text \<open>
  The running program as a whole: what becomes of a connection attempt of a client when the ruleset in
  the kernel and the proxies that run are those of \<^verbatim>\<open>internal/g0efilter/app.go\<close>. The first
  packet is refused, leaves unchanged, or is handed to the service that listens at the port of the
  redirect; that service handles the connection and may dial out.
\<close>

subsection \<open>Addresses of the policy\<close>

definition ip_in :: "string list \<Rightarrow> ip \<Rightarrow> bool" where
  \<comment> \<open>one of the entries is the address or a range that contains it\<close>
  "ip_in es d \<longleftrightarrow> listed (map trim_space es) d"

lemma byte_255_unmasked:
  assumes "b < 256" "k \<le> 8" "b - b mod 2 ^ (8 - k) = (255 :: nat)"
  shows "k = 8"
proof (rule ccontr)
  assume "k \<noteq> 8"
  then obtain j where j: "8 - k = Suc j" using assms(2) by (cases "8 - k") auto
  have "b = 255" using assms(1,3) by linarith
  with assms(3) have "(255 :: nat) mod 2 ^ Suc j = 0" using j by simp
  then have "(2 :: nat) dvd 255" by (metis dvd_def dvd_trans mod_0_imp_dvd power_Suc)
  then show False by simp
qed

lemma masked_mapped:
  assumes "length d = 16" "\<forall>b \<in> set d. b < 256" "take 12 (mask_bytes n d) = v4_in_v6_prefix"
  shows "take 12 d = v4_in_v6_prefix"
proof -
  have at: "mask_bytes n d ! i = v4_in_v6_prefix ! i" if "i < 12" for i
    using arg_cong [OF assms(3), of "\<lambda>l. l ! i"] that by simp
  have m: "mask_bytes n d ! i = d ! i - d ! i mod 2 ^ (8 - min 8 (n - 8 * i))" if "i < 12" for i
    using that assms(1) by (simp add: mask_bytes_def Let_def)
  have "d ! 11 - d ! 11 mod 2 ^ (8 - min 8 (n - 8 * 11)) = 255"
    using at [of 11] m [of 11] by (simp add: v4_in_v6_prefix_def nth_append)
  moreover have "d ! 11 < 256" using assms(1,2) by (simp add: all_set_conv_all_nth)
  ultimately have "min 8 (n - 8 * 11) = 8" by (intro byte_255_unmasked) auto
  then have n: "96 \<le> n" by linarith
  have "d ! i = v4_in_v6_prefix ! i" if "i < 12" for i
  proof -
    have "min 8 (n - 8 * i) = 8" using n that by linarith
    then show ?thesis using at [OF that] m [OF that] by simp
  qed
  then show ?thesis using assms(1) by (intro nth_equalityI) (simp_all add: v4_in_v6_prefix_def)
qed

lemma element_family:
  assumes "element_matches d e" "length d = 16" "\<forall>b \<in> set d. b < 256" "trim_space e = e"
  shows "family_entry (to4 d \<noteq> None) e"
proof (cases "CHR ''/'' \<in> set e")
  case False
  then show ?thesis using assms(1,4) by (auto simp: element_matches_def family_entry_def)
next
  case True
  then obtain a net n where c: "parse_cidr e = Some (a, net)"
    and m: "case to4 d of Some d4 \<Rightarrow> length net = 4 \<and> mask_bytes n d4 = net
      | None \<Rightarrow> length net = 16 \<and> mask_bytes n d = net"
    using assms(1) by (auto simp: element_matches_def split: option.splits prod.splits)
  have "(to4 net \<noteq> None) = (to4 d \<noteq> None)"
  proof (cases "to4 d")
    case None
    then have "length net = 16" "mask_bytes n d = net" using m by auto
    moreover have "take 12 d \<noteq> v4_in_v6_prefix" using None assms(2) by (simp add: to4_def split: if_splits)
    ultimately show ?thesis using None masked_mapped [OF assms(2,3), of n] by (auto simp: to4_def)
  next
    case (Some d4)
    then show ?thesis using m by (simp add: to4_def)
  qed
  then show ?thesis using True c assms(4) by (simp add: family_entry_def)
qed

lemma listed_family:
  assumes "length d = 16" "\<forall>b \<in> set d. b < 256"
  shows "listed (filter (family_entry (to4 d \<noteq> None)) (map trim_space es)) d \<longleftrightarrow> ip_in es d"
  using element_family [OF _ assms] by (fastforce simp: ip_in_def listed_def list_ex_iff)

lemma split_family:
  "(if is4 then fst (split_by_family es) else snd (split_by_family es)) = filter (family_entry is4) (map trim_space es)"
  by (simp add: split_by_family_exact)

definition wf_packet :: "packet \<Rightarrow> bool" where
  "wf_packet p \<longleftrightarrow> length (pk_dst p) = 16 \<and> (\<forall>b \<in> set (pk_dst p). b < 256)"

lemma config_entries:
  "allow_entries (config_of E getenv rules hs hp dp) is4 =
     or_default (lo_text is4) (filter (family_entry is4) (map trim_space (or_default ''127.0.0.1'' (RuleAllowIPs rules))))"
  "deny_entries (config_of E getenv rules hs hp dp) is4 = filter (family_entry is4) (map trim_space (RuleDenyIPs rules))"
  unfolding split_family [symmetric] by (simp_all add: allow_entries_def deny_entries_def config_of_def Let_def)

lemma listed_packet:
  "wf_packet p \<Longrightarrow> listed (filter (family_entry (is_v4 p)) (map trim_space es)) (pk_dst p) \<longleftrightarrow> ip_in es (pk_dst p)"
  using listed_family [of "pk_dst p" es] by (simp add: wf_packet_def is_v4_def)

lemma allowed_policy:
  assumes "wf_packet p" "external p"
  shows "allowed (config_of E getenv rules hs hp dp) p \<longleftrightarrow> ip_in (RuleAllowIPs rules) (pk_dst p)"
proof -
  let ?es = "or_default ''127.0.0.1'' (RuleAllowIPs rules)"
  have lo: "\<not> element_matches (pk_dst p) (lo_text (is_v4 p))"
    using externalD(6) [OF assms(2)]
    by (simp add: element_matches_def parse_lo) (simp add: lo_text_def)
  have "listed (or_default (lo_text (is_v4 p)) es) (pk_dst p) \<longleftrightarrow> listed es (pk_dst p)" for es
    using lo by (simp add: or_default_def listed_def)
  then have "allowed (config_of E getenv rules hs hp dp) p \<longleftrightarrow> ip_in ?es (pk_dst p)"
    by (simp add: allowed_def config_entries listed_packet [OF assms(1)])
  also have "\<dots> \<longleftrightarrow> ip_in (RuleAllowIPs rules) (pk_dst p)"
  proof (cases "RuleAllowIPs rules = []")
    case True
    have t: "trim_space ''127.0.0.1'' = lo_text True" by code_simp
    have "\<not> element_matches (pk_dst p) (lo_text True)"
    proof (cases "is_v4 p")
      case True
      then show ?thesis using lo by simp
    next
      case False
      then have "pk_dst p \<noteq> loopback True" using loopback_v4 [of True] by (auto simp: is_v4_def)
      then show ?thesis by (simp add: element_matches_def parse_lo) (simp add: lo_text_def)
    qed
    then show ?thesis using True by (simp add: or_default_def ip_in_def listed_def t)
  qed (simp add: or_default_def)
  finally show ?thesis .
qed

lemma denied_policy:
  assumes "wf_packet p" "external p"
  shows "denied (config_of E getenv rules hs hp dp) p \<longleftrightarrow>
    \<not> ip_in (RuleAllowIPs rules) (pk_dst p) \<and> ip_in (RuleDenyIPs rules) (pk_dst p)"
  by (simp add: denied_def allowed_policy [OF assms] config_entries listed_packet [OF assms(1)])

subsection \<open>A connection attempt\<close>

datatype route = Refused | Direct | Via service

definition l4_port :: "l4 \<Rightarrow> nat" where
  "l4_port x = (case x of Tcp n \<Rightarrow> n | Udp n \<Rightarrow> n | _ \<Rightarrow> 0)"

definition listen_port :: "service \<Rightarrow> int option" where
  \<comment> \<open>of a listen address without a host\<close>
  "listen_port svc =
     (let a = ListenAddr (case svc of Service53 ds o1 \<Rightarrow> o1 | Service443 ds o1 \<Rightarrow> o1 | Service80 ds o1 \<Rightarrow> o1)
      in case a of c # s \<Rightarrow> if c = CHR '':'' then atoi s else None | [] \<Rightarrow> None)"

definition route_of :: "app_state \<Rightarrow> dyn_sets \<Rightarrow> packet \<Rightarrow> route option" where
  \<comment> \<open>None: the text in the kernel is no ruleset\<close>
  "route_of s dyn p =
     (case as_kernel s of
        None \<Rightarrow> Some Direct
      | Some rtext \<Rightarrow>
          (case ruleset_egress rtext dyn p of
             None \<Rightarrow> None
           | Some (_, Dropped) \<Rightarrow> Some Refused
           | Some (_, Sent q) \<Rightarrow>
               if q = p then Some Direct
               else (case find (\<lambda>svc. listen_port svc = Some (int (l4_port (pk_l4 q)))) (as_services s) of
                       Some svc \<Rightarrow> Some (Via svc)
                     | None \<Rightarrow> Some Refused)))"

definition proxied :: "env \<Rightarrow> network \<Rightarrow> clock \<Rightarrow> service \<Rightarrow> tcp_conn \<Rightarrow> synthetic \<Rightarrow> tcp_event list" where
  \<comment> \<open>what the service does with a TCP connection; DNS over TCP is no connection to elsewhere\<close>
  "proxied E dial now svc c syn =
     (case svc of
        Service443 ds o1 \<Rightarrow> (let (m, o2) = serve443_setup E ds o1 in fst (handle_https E dial now c m o2 syn))
      | Service80 ds o1 \<Rightarrow> (let (m, o2) = serve80_setup E ds o1 in fst (handle_http E dial now c m o2 syn))
      | Service53 ds o1 \<Rightarrow> [])"

definition dst_text :: "packet \<Rightarrow> string" where
  "dst_text p =
     join_host_port (ip_string (case to4 (pk_dst p) of Some a \<Rightarrow> a | None \<Rightarrow> pk_dst p)) (itoa (int (l4_port (pk_l4 p))))"

definition reaches ::
  "env \<Rightarrow> network \<Rightarrow> clock \<Rightarrow> app_state \<Rightarrow> dyn_sets \<Rightarrow> packet \<Rightarrow> tcp_conn \<Rightarrow> synthetic \<Rightarrow> string list" where
  \<comment> \<open>the remote endpoints the attempt gets to, by itself or through a proxy\<close>
  "reaches E dial now s dyn p c syn =
     (case route_of s dyn p of
        Some Direct \<Rightarrow> [dst_text p]
      | Some (Via svc) \<Rightarrow> dials (proxied E dial now svc c syn)
      | _ \<Rightarrow> [])"

subsection \<open>What the policy says\<close>

definition name_ok :: "env \<Rightarrow> bool \<Rightarrow> policy \<Rightarrow> string \<Rightarrow> bool" where
  "name_ok E dflt pol host =
     (if dflt
      then host = [] \<or> matches_any E host (AllowDomains pol) \<or> \<not> matches_any E host (normalize_patterns E (DenyDomains pol))
      else host \<noteq> [] \<and> matches_any E host (AllowDomains pol))"

definition policy_permits :: "env \<Rightarrow> bool \<Rightarrow> policy \<Rightarrow> packet \<Rightarrow> tcp_conn \<Rightarrow> bool" where
  \<comment> \<open>addresses first, then names where there is one to look at, then the stance\<close>
  "policy_permits E dflt pol p c =
     (if ip_in (AllowIPs pol) (pk_dst p) then True
      else if dflt \<and> ip_in (DenyIPs pol) (pk_dst p) then False
      else if pk_l4 p = Tcp 443 then name_ok E dflt pol (https_name E c)
      else if pk_l4 p = Tcp 80 then name_ok E dflt pol (http_name E c)
      else dflt)"

subsection \<open>The kernel and the proxies in concert\<close>

lemma kernel_text_egress:
  assumes "wf_config cfg"
  shows "ruleset_egress (atomic_replace_preamble @ generate_ruleset E cfg) dyn p =
    ruleset_egress (generate_ruleset E cfg) dyn p"
  using apply_transaction [OF assms, of "[]" E] apply_ruleset_tables [of "[]" E cfg] ruleset_reads [OF assms, of E]
  by (simp add: ruleset_egress_def) (simp add: apply_script_def)

lemma not_proxied [simp]: "external p \<Longrightarrow> to_proxy p x \<noteq> p"
  using externalD(5) to_proxy_simps(2) [of p x] by metis

lemma port_fields:
  "ac_http_port (setup_proc_info E getenv cfg) = ac_http_port cfg"
  "ac_http_port (setup_learning cfg) = ac_http_port cfg"
  "ac_http_port (resolve_policy_path getenv fs fb cfg) = ac_http_port cfg"
  "ac_http_port (normalize_mode cfg) = ac_http_port cfg"
  "ac_https_port (setup_proc_info E getenv cfg) = ac_https_port cfg"
  "ac_https_port (setup_learning cfg) = ac_https_port cfg"
  "ac_https_port (resolve_policy_path getenv fs fb cfg) = ac_https_port cfg"
  "ac_https_port (normalize_mode cfg) = ac_https_port cfg"
  "ac_dns_port (setup_proc_info E getenv cfg) = ac_dns_port cfg"
  "ac_dns_port (setup_learning cfg) = ac_dns_port cfg"
  "ac_dns_port (resolve_policy_path getenv fs fb cfg) = ac_dns_port cfg"
  "ac_dns_port (normalize_mode cfg) = ac_dns_port cfg"
  by (simp_all add: setup_proc_info_def setup_learning_def resolve_policy_path_def normalize_mode_def Let_def)

lemma loaded_ports:
  "ac_http_port (load_app_config E getenv pd) = getenv_default getenv ''HTTP_PORT'' ''8080''"
  "ac_https_port (load_app_config E getenv pd) = getenv_default getenv ''HTTPS_PORT'' ''8443''"
  "ac_dns_port (load_app_config E getenv pd) = getenv_default getenv ''DNS_PORT'' ''53''"
  by (simp_all add: load_app_config_def Let_def)

lemma ports_trimmed:
  assumes "run_config E getenv pd fs = Inr cfg"
  shows "trim_space (ac_http_port cfg) = ac_http_port cfg" "trim_space (ac_https_port cfg) = ac_https_port cfg"
    "trim_space (ac_dns_port cfg) = ac_dns_port cfg"
proof -
  have get: "trim_space (getenv_default getenv k d) = getenv_default getenv k d" if "trim_space d = d" for k d
    using that by (simp add: getenv_default_def Let_def)
  have d: "trim_space ''8080'' = ''8080''" "trim_space ''8443'' = ''8443''" "trim_space ''53'' = ''53''"
    by code_simp+
  have c: "cfg = setup_proc_info E getenv (setup_learning (resolved_config E getenv pd fs))"
    using assms by (simp add: run_config_def Let_def bind_res_Inr)
  have "ac_http_port cfg = getenv_default getenv ''HTTP_PORT'' ''8080''"
    "ac_https_port cfg = getenv_default getenv ''HTTPS_PORT'' ''8443''"
    "ac_dns_port cfg = getenv_default getenv ''DNS_PORT'' ''53''"
    unfolding c resolved_config_def port_fields loaded_ports by (rule refl)+
  then show "trim_space (ac_http_port cfg) = ac_http_port cfg" "trim_space (ac_https_port cfg) = ac_https_port cfg"
    "trim_space (ac_dns_port cfg) = ac_dns_port cfg"
    by (simp_all add: get d)
qed

lemma parse_port_value:
  assumes "parse_port s n = Inr k" "trim_space s = s"
  shows "atoi s = Some k" "0 \<le> k"
  using assms parse_port_range [OF assms(1)] by (auto simp: parse_port_def split: option.splits if_splits)

definition https_service :: "(string \<Rightarrow> int \<Rightarrow> string \<Rightarrow> proc_info option) \<Rightarrow> app_config \<Rightarrow> policy \<Rightarrow> service" where
  "https_service lookup cfg pol =
     Service443 (AllowDomains pol) (service_options lookup cfg pol\<lparr>ListenAddr := '':'' @ ac_https_port cfg\<rparr>)"

definition http_service :: "(string \<Rightarrow> int \<Rightarrow> string \<Rightarrow> proc_info option) \<Rightarrow> app_config \<Rightarrow> policy \<Rightarrow> service" where
  "http_service lookup cfg pol =
     Service80 (AllowDomains pol) (service_options lookup cfg pol\<lparr>ListenAddr := '':'' @ ac_http_port cfg\<rparr>)"

lemma https_services:
  "ac_mode cfg = mode_https \<Longrightarrow>
   start_services lookup cfg pol = [https_service lookup cfg pol, http_service lookup cfg pol]"
  by (simp add: start_services_def start_https_services_def https_service_def http_service_def is_dns_mode_def
      mode_defs Let_def)

lemma listen_ports:
  "listen_port (https_service lookup cfg pol) = atoi (ac_https_port cfg)"
  "listen_port (http_service lookup cfg pol) = atoi (ac_http_port cfg)"
  by (simp_all add: listen_port_def https_service_def http_service_def Let_def)

lemma https_fate:
  assumes "wf_config rs" "ruleset_mode E rs = mode_https" "\<not> Audit rs" "external p"
  shows "map_option snd (ruleset_egress (generate_ruleset E rs) dyn p) =
    Some (if allowed rs p then Sent p
          else if ruleset_config.DefaultAllow rs \<and> denied rs p then Dropped
          else if pk_l4 p = Tcp 80 then Sent (to_proxy p (Tcp (nat (HTTPPort rs))))
          else if pk_l4 p = Tcp 443 then Sent (to_proxy p (Tcp (nat (HTTPSPort rs))))
          else if ruleset_config.DefaultAllow rs then Sent p else Dropped)"
proof (cases "ruleset_config.DefaultAllow rs")
  case True
  show ?thesis
    using True assms(2)
    by (simp add: ruleset_egress_tables [OF assms(1)] assms(3) https_allow_fate [OF assms(1,2) True assms(4)]
        accepting_spec_def) (simp add: denied_def)
next
  case False
  show ?thesis
    by (simp add: ruleset_egress_tables [OF assms(1)] assms(3) https_deny_fate [OF assms(1,2) False assms(4)]
        https_deny_spec_def False)
qed

lemma route_from_fate:
  assumes "as_kernel s = Some rtext"
  shows "route_of s dyn p =
    (case map_option snd (ruleset_egress rtext dyn p) of
       None \<Rightarrow> None
     | Some Dropped \<Rightarrow> Some Refused
     | Some (Sent q) \<Rightarrow>
         if q = p then Some Direct
         else (case find (\<lambda>svc. listen_port svc = Some (int (l4_port (pk_l4 q)))) (as_services s) of
                 Some svc \<Rightarrow> Some (Via svc)
               | None \<Rightarrow> Some Refused))"
  by (auto simp: route_of_def assms split: option.split fate.split)

text \<open>Between reloads the kernel has the ruleset of one policy and the services are those of that policy.\<close>

lemma app_setting:
  assumes step: "in_step E getenv lookup cfg s pol" "as_reload s = None"
    and m: "to_lower E (to_lower E m) = to_lower E m" "m = trim_space (getenv ''FILTER_MODE'')"
    and cfg: "run_config E getenv pd fs = Inr cfg"
  obtains hs hp dp rs where "rs = config_of E getenv (app_policy_rules cfg pol) hs hp dp"
    "as_kernel s = Some (atomic_replace_preamble @ generate_ruleset E rs)"
    "wf_config rs" "ruleset_mode E rs = ac_mode cfg" "as_services s = start_services lookup cfg pol"
    "atoi (ac_https_port cfg) = Some (HTTPSPort rs)" "0 \<le> HTTPSPort rs"
    "atoi (ac_http_port cfg) = Some (HTTPPort rs)" "0 \<le> HTTPPort rs"
    "atoi (ac_dns_port cfg) = Some (DNSPort rs)" "0 \<le> DNSPort rs"
proof -
  let ?rules = "app_policy_rules cfg pol"
  obtain rtext where rt: "as_kernel s = Some rtext"
    "policy_ruleset E getenv ?rules (ac_https_port cfg) (ac_http_port cfg) (ac_dns_port cfg) = Inr rtext"
    and svcs: "as_services s = start_services lookup cfg pol"
    using step by (auto simp: in_step_def ruleset_of_def)
  obtain hs hp dp where ports: "parse_port (ac_https_port cfg) ''HTTPS'' = Inr hs" "parse_port (ac_http_port cfg) ''HTTP'' = Inr hp"
      "parse_port (ac_dns_port cfg) ''DNS'' = Inr dp"
    and wf: "wf_config (config_of E getenv ?rules hs hp dp)"
    and tx: "rtext = atomic_replace_preamble @ generate_ruleset E (config_of E getenv ?rules hs hp dp)"
    using policy_ruleset_text [OF rt(2)] by blast
  let ?rs = "config_of E getenv ?rules hs hp dp"
  note trim = ports_trimmed [OF cfg(1)]
  note parse_port_value [OF ports(1) trim(2)] parse_port_value [OF ports(2) trim(1)] parse_port_value [OF ports(3) trim(3)]
  moreover have f: "Mode ?rs = env_mode E getenv" "HTTPSPort ?rs = hs" "HTTPPort ?rs = hp" "DNSPort ?rs = dp"
    by (simp_all add: config_of_def Let_def env_mode_def)
  moreover have "ruleset_mode E ?rs = ac_mode cfg"
    using ruleset_mode_env [OF m f(1)] run_config_mode [OF cfg(1)] by simp
  ultimately show thesis using rt(1) svcs wf tx by (intro that [of ?rs hs hp dp]) simp_all
qed

lemma config_stance:
  assumes "\<not> ac_learning_mode cfg"
  shows "ruleset_config.DefaultAllow (config_of E getenv (app_policy_rules cfg pol) hs hp dp) \<longleftrightarrow>
      effective_default_allow cfg (Some pol)"
    "Audit (config_of E getenv (app_policy_rules cfg pol) hs hp dp) \<longleftrightarrow> ac_audit_mode cfg"
    "RuleAllowIPs (app_policy_rules cfg pol) = AllowIPs pol" "RuleDenyIPs (app_policy_rules cfg pol) = DenyIPs pol"
  using assms by (simp_all add: config_of_def Let_def app_policy_rules_def)

text \<open>With enforcement.\<close>

lemma https_route:
  assumes step: "in_step E getenv lookup cfg s pol" "as_reload s = None"
    and m: "to_lower E (to_lower E m) = to_lower E m" "m = trim_space (getenv ''FILTER_MODE'')"
    and cfg: "run_config E getenv pd fs = Inr cfg" "ac_mode cfg = mode_https" "\<not> ac_learning_mode cfg"
      "\<not> ac_audit_mode cfg" "atoi (ac_http_port cfg) \<noteq> atoi (ac_https_port cfg)"
    and p: "external p" "wf_packet p"
  shows "route_of s dyn p =
    Some (if ip_in (AllowIPs pol) (pk_dst p) then Direct
          else if effective_default_allow cfg (Some pol) \<and> ip_in (DenyIPs pol) (pk_dst p) then Refused
          else if pk_l4 p = Tcp 80 then Via (http_service lookup cfg pol)
          else if pk_l4 p = Tcp 443 then Via (https_service lookup cfg pol)
          else if effective_default_allow cfg (Some pol) then Direct else Refused)"
proof -
  obtain hs hp dp rs where rs: "rs = config_of E getenv (app_policy_rules cfg pol) hs hp dp"
    and k: "as_kernel s = Some (atomic_replace_preamble @ generate_ruleset E rs)"
    and wf: "wf_config rs" and mode: "ruleset_mode E rs = ac_mode cfg"
    and svcs: "as_services s = start_services lookup cfg pol"
    and l: "atoi (ac_https_port cfg) = Some (HTTPSPort rs)" "0 \<le> HTTPSPort rs"
      "atoi (ac_http_port cfg) = Some (HTTPPort rs)" "0 \<le> HTTPPort rs"
    by (rule app_setting [OF step m cfg(1)])
  note rules = config_stance [OF cfg(3)]
  have stance: "ruleset_config.DefaultAllow rs = effective_default_allow cfg (Some pol)" and audit: "\<not> Audit rs"
    using cfg(4) by (simp_all add: rs rules)
  note fate = https_fate [OF wf trans [OF mode cfg(2)] audit p(1)]
  have ip: "allowed rs p = ip_in (AllowIPs pol) (pk_dst p)"
    "denied rs p = (\<not> ip_in (AllowIPs pol) (pk_dst p) \<and> ip_in (DenyIPs pol) (pk_dst p))"
    unfolding rs by (simp_all add: allowed_policy [OF p(2,1)] denied_policy [OF p(2,1)] rules)
  have "HTTPPort rs \<noteq> HTTPSPort rs" using l cfg(5) by simp
  then show ?thesis
    unfolding route_from_fate [OF k] kernel_text_egress [OF wf] fate
    using p(1) l by (simp add: ip stance svcs https_services [OF cfg(2)] listen_ports l4_port_def)
qed

lemma service_options_fields:
  "options.DefaultAllow (service_options lookup cfg pol) = effective_default_allow cfg (Some pol)"
  "LearningMode (service_options lookup cfg pol) = ac_learning_mode cfg"
  "AuditMode (service_options lookup cfg pol) = ac_audit_mode cfg"
  "Denylist (service_options lookup cfg pol) = DenyDomains pol"
  by (simp_all add: service_options_def Let_def)

lemma setup_permits:
  assumes "Denylist opts = DenyDomains pol" "\<not> LearningMode opts"
  shows "host_permitted_by E host (new_matcher E (AllowDomains pol))
      (opts\<lparr>ListenAddr := a, Denylist := d, denyMatcher := Some (new_matcher E (normalize_patterns E (Denylist opts)))\<rparr>) \<longleftrightarrow>
    name_ok E (options.DefaultAllow opts) pol host"
  using assms by (auto simp: host_permitted_by_def name_ok_def allows_new_matcher Let_def)

lemma proxied_dials:
  assumes "c_is_tcp c" "\<not> ac_learning_mode cfg" "\<not> ac_audit_mode cfg" "original_dst_tcp (c_kernel c) = Inr dst"
  shows "dials (proxied E dial now (https_service lookup cfg pol) c syn) =
      (if name_ok E (effective_default_allow cfg (Some pol)) pol (https_name E c) then [dst] else [])"
    "dials (proxied E dial now (http_service lookup cfg pol) c syn) =
      (if name_ok E (effective_default_allow cfg (Some pol)) pol (http_name E c) then [dst] else [])"
  using assms setup_permits [of "service_options lookup cfg pol\<lparr>ListenAddr := a\<rparr>" pol E for a]
  by (simp_all add: proxied_def https_service_def http_service_def serve443_setup_def serve80_setup_def Let_def
      https.dials_permitted http.dials_permitted service_options_fields)

text \<open>C1: The program as a whole enforces the policy that was loaded last. In HTTPS mode, in every
  state the running program can be in (between reloads), the policy in force is the one that is read
  from the files as the latest successful load found them, and a connection attempt of a client to
  another host gets to the endpoint it asked for when that policy permits it, and to no endpoint at all
  otherwise: by its address (allowed, or denied under default allow), else, at ports 443 and 80, by the
  name in the ClientHello or in the request head, else by the stance. This composes the ruleset text and
  its meaning, the redirect to the ports of the proxies, the parsers and the policy decision.\<close>

theorem gateway_enforces_policy:
  assumes run: "loaded_run E Y getenv sha256 lookup cfg s F" "as_reload s = None"
    and m: "to_lower E (to_lower E m) = to_lower E m" "m = trim_space (getenv ''FILTER_MODE'')"
    and cfg: "run_config E getenv pd fs = Inr cfg" "ac_mode cfg = mode_https" "\<not> ac_learning_mode cfg"
      "\<not> ac_audit_mode cfg" "atoi (ac_http_port cfg) \<noteq> atoi (ac_https_port cfg)"
    and p: "external p" "wf_packet p"
    and c: "c_is_tcp c" "original_dst_tcp (c_kernel c) = Inr (dst_text p)"
  shows "\<exists>pol. read E Y getenv F (ac_policy_path cfg) = Inr pol \<and>
    reaches E dial now s dyn p c syn =
      (if policy_permits E (effective_default_allow cfg (Some pol)) pol p c then [dst_text p] else [])"
proof -
  obtain pol where pol: "in_step E getenv lookup cfg s pol" "read E Y getenv F (ac_policy_path cfg) = Inr pol"
    using loaded_in_step [OF run(1)] by blast
  note r = https_route [OF pol(1) run(2) m cfg p, of dyn]
  note d = proxied_dials [OF c(1) cfg(3,4) c(2), of E dial now lookup pol syn]
  have "reaches E dial now s dyn p c syn =
      (if policy_permits E (effective_default_allow cfg (Some pol)) pol p c then [dst_text p] else [])"
    by (simp add: reaches_def r d policy_permits_def)
  with pol(2) show ?thesis by blast
qed

subsection \<open>Learning and audit block nothing\<close>

lemma https_nat_fate:
  assumes "wf_config rs" "ruleset_mode E rs = mode_https" "external p"
  shows "snd (nat_step dyn p (mode_nat E rs (is_v4 p))) \<in>
    {p, to_proxy p (Tcp (nat (HTTPPort rs))), to_proxy p (Tcp (nat (HTTPSPort rs)))}"
proof -
  have p: "0 \<le> HTTPSPort rs" "0 \<le> HTTPPort rs" using assms(1) by (simp_all add: wf_config_def)
  show ?thesis
  proof (cases "ruleset_config.DefaultAllow rs")
    case True
    then show ?thesis
      using assms(2) externalD [OF assms(3)] p
      by (simp add: mode_nat_def mode_defs Let_def https_nat_allow_step)
  next
    case False
    then show ?thesis
      using assms(2) externalD [OF assms(3)] p
      by (cases "pk_l4 p") (auto simp: mode_nat_def mode_defs Let_def eval_defs)
  qed
qed

lemma https_open_fate:
  assumes "wf_config rs" "ruleset_mode E rs = mode_https" "external p"
    and "Audit rs \<or> ruleset_config.DefaultAllow rs \<and> DenyV4 rs = [] \<and> DenyV6 rs = []"
  shows "\<exists>q \<in> {p, to_proxy p (Tcp (nat (HTTPPort rs))), to_proxy p (Tcp (nat (HTTPSPort rs)))}.
    map_option snd (ruleset_egress (generate_ruleset E rs) dyn p) = Some (Sent q)"
proof (cases "Audit rs")
  case True
  then show ?thesis
    using https_nat_fate [OF assms(1-3), of dyn] by (simp add: ruleset_egress_tables [OF assms(1)] packet_fate_audit)
next
  case False
  then have "ruleset_config.DefaultAllow rs" "\<not> denied rs p"
    using assms(4) by (auto simp: denied_def deny_entries_def listed_def)
  then show ?thesis by (simp add: https_fate [OF assms(1,2) False assms(3)])
qed

lemma observing_dials:
  assumes "c_is_tcp c" "ac_learning_mode cfg \<or> ac_audit_mode cfg" "original_dst_tcp (c_kernel c) = Inr dst"
  shows "dials (proxied E dial now (https_service lookup cfg pol) c syn) = [dst]"
    "dials (proxied E dial now (http_service lookup cfg pol) c syn) = [dst]"
  using assms
  by (auto simp: proxied_def https_service_def http_service_def serve443_setup_def serve80_setup_def Let_def
      https.dials_permitted http.dials_permitted service_options_fields host_permitted_by_def)

text \<open>C3: Learning and audit mode block nothing. In HTTPS mode with learning or audit on, whatever
  the policy says, every connection attempt to another host gets to the endpoint it asked for, directly
  or through the proxy.\<close>

theorem observing_blocks_nothing:
  assumes run: "app_run E Y getenv sha256 lookup cfg s" "as_reload s = None"
    and m: "to_lower E (to_lower E m) = to_lower E m" "m = trim_space (getenv ''FILTER_MODE'')"
    and cfg: "run_config E getenv pd fs = Inr cfg" "ac_mode cfg = mode_https"
      "ac_learning_mode cfg \<or> ac_audit_mode cfg"
    and p: "external p" and c: "c_is_tcp c" "original_dst_tcp (c_kernel c) = Inr (dst_text p)"
  shows "reaches E dial now s dyn p c syn = [dst_text p]"
proof -
  obtain pol where step: "in_step E getenv lookup cfg s pol" using run_in_step [OF run(1)] by blast
  obtain hs hp dp rs where rs: "rs = config_of E getenv (app_policy_rules cfg pol) hs hp dp"
    and k: "as_kernel s = Some (atomic_replace_preamble @ generate_ruleset E rs)"
    and wf: "wf_config rs" and mode: "ruleset_mode E rs = ac_mode cfg"
    and svcs: "as_services s = start_services lookup cfg pol"
    and l: "atoi (ac_https_port cfg) = Some (HTTPSPort rs)" "0 \<le> HTTPSPort rs"
      "atoi (ac_http_port cfg) = Some (HTTPPort rs)" "0 \<le> HTTPPort rs"
    by (rule app_setting [OF step run(2) m cfg(1)])
  have "Audit rs \<or> ruleset_config.DefaultAllow rs \<and> DenyV4 rs = [] \<and> DenyV6 rs = []"
    using cfg(3) by (auto simp: rs config_of_def app_policy_rules_def Let_def)
  then obtain q where "q \<in> {p, to_proxy p (Tcp (nat (HTTPPort rs))), to_proxy p (Tcp (nat (HTTPSPort rs)))}"
    "map_option snd (ruleset_egress (generate_ruleset E rs) dyn p) = Some (Sent q)"
    using https_open_fate [OF wf trans [OF mode cfg(2)] p, of dyn] by blast
  then show ?thesis
    using l p
    by (auto simp: reaches_def route_from_fate [OF k] kernel_text_egress [OF wf] svcs https_services [OF cfg(2)] listen_ports
        l4_port_def observing_dials [OF c(1) cfg(3) c(2)])
qed

subsection \<open>An example\<close>

definition gate_env :: "string \<Rightarrow> string \<Rightarrow> string" where
  "gate_env enforce k = (if k = ''ENFORCE'' then enforce else if k = ''POLICY_PATH'' then ''/p'' else if k = ''ALLOWLIST_DOMAINS'' then ''a.example'' else [])"

definition gate_policy :: policy where
  "gate_policy = \<lparr>DefaultAction = [], AllowIPs = [], AllowDomains = [''a.example''], DenyIPs = [], DenyDomains = []\<rparr>"

definition gate_config :: "string \<Rightarrow> app_config" where
  "gate_config enforce = projr (run_config ascii_env (gate_env enforce) (\<lambda>_. None) (\<lambda>_. None))"

definition gate_packet :: packet where
  "gate_packet = example_packet [192, 0, 2, 7] (Tcp 80)"

definition gate_conn :: "string \<Rightarrow> tcp_conn" where
  "gate_conn host =
     \<lparr>c_is_tcp = True, c_addr = Some ''10.0.0.2:5000'',
      c_kernel = \<lparr>syscall_conn_ok = True,
        so_original_dst = Some \<lparr>sa_optlen = 16, sa_family = 2, sa_addr = [192, 0, 2, 7], sa_port = (0, 80)\<rparr>,
        ip6t_so_original_dst = None\<rparr>,
      c_segs = [''GET / HTTP/1.1'' @ [CHR 0x0D, CHR 0x0A] @ ''Host: '' @ host @
        [CHR 0x0D, CHR 0x0A, CHR 0x0D, CHR 0x0A]],
      c_late = [], c_up = (\<lambda>i. (0, True)), c_down = (\<lambda>i. (0, True)), c_head = 7, c_buffered = 3\<rparr>"

lemma gate_texts:
  "trim_space ''a.example'' = ''a.example''" "trim_space [] = []" "trim_space ''/p'' = ''/p''"
  "trim_space ''block'' = ''block''" "trim_space ''audit'' = ''audit''"
  "parse_comma_separated ''a.example'' = [''a.example'']" "parse_comma_separated [] = []"
  "validate_domain ascii_env ''a.example'' = Inr ()" "equal_fold ascii_env ''false'' ''true'' = False"
  "equal_fold ascii_env ''block'' ''audit'' = False" "equal_fold ascii_env ''audit'' ''audit''"
  "to_lower ascii_env ''https'' = ''https''" "to_lower ascii_env ''deny'' = ''deny''"
  by code_simp+

lemma gate_read: "read ascii_env Y (gate_env enforce) fs ''/p'' = Inr gate_policy"
  by (simp add: read_def gate_env_def gate_texts load_from_env_def gate_policy_def validate_lists_def Let_def)

lemma gate_facts:
  assumes "enforce = ''block'' \<or> enforce = ''audit''"
  shows "ac_policy_path (gate_config enforce) = ''/p''" "ac_https_port (gate_config enforce) = ''8443''"
    "ac_http_port (gate_config enforce) = ''8080''" "ac_dns_port (gate_config enforce) = ''53''"
    "ac_mode (gate_config enforce) = mode_https" "ac_learning_mode (gate_config enforce) = False"
    "ac_audit_mode (gate_config enforce) = (enforce = ''audit'')"
    "run_config ascii_env (gate_env enforce) (\<lambda>_. None) (\<lambda>_. None) = Inr (gate_config enforce)"
proof -
  have e: "trim_space enforce = enforce" "enforce \<noteq> []" "equal_fold ascii_env enforce ''audit'' = (enforce = ''audit'')"
    using assms by (auto simp: gate_texts)
  show "ac_policy_path (gate_config enforce) = ''/p''" "ac_https_port (gate_config enforce) = ''8443''"
    "ac_http_port (gate_config enforce) = ''8080''" "ac_dns_port (gate_config enforce) = ''53''"
    "ac_mode (gate_config enforce) = mode_https" "ac_learning_mode (gate_config enforce) = False"
    "ac_audit_mode (gate_config enforce) = (enforce = ''audit'')"
    "run_config ascii_env (gate_env enforce) (\<lambda>_. None) (\<lambda>_. None) = Inr (gate_config enforce)"
  by (simp_all add: e gate_config_def run_config_def resolved_config_def validate_ports_def load_app_config_def
      getenv_default_def gate_env_def gate_texts setup_proc_info_def setup_learning_def resolve_policy_path_def
      normalize_mode_def mode_defs is_dns_mode_def default_action_deny_def default_action_allow_def Let_def)
qed

lemma gate_mode: "[] = trim_space (gate_env enforce ''FILTER_MODE'')"
  by (simp add: gate_env_def gate_texts)

lemma gate_run:
  assumes "enforce = ''block'' \<or> enforce = ''audit''"
  shows "\<exists>s. loaded_run ascii_env sample_yaml (gate_env enforce) (\<lambda>b. b) no_proc (gate_config enforce) s (\<lambda>_. None) \<and>
    as_reload s = None"
proof -
  note facts = gate_facts [OF assms]
  obtain rtext where r: "ruleset_of ascii_env (gate_env enforce) (gate_config enforce) gate_policy = Inr rtext"
    by (simp add: ruleset_of_def facts policy_ruleset_def sample_ports Let_def case_prod_unfold)
  have "load_and_apply_policy ascii_env sample_yaml (gate_env enforce) (\<lambda>_. None) (\<lambda>_. None) (gate_config enforce) =
    ([([''-c'', ''-f'', ''-''], rtext), ([''-f'', ''-''], rtext)], Inr gate_policy)"
    using r by (simp add: load_and_apply_policy_def facts gate_read apply_policy_rules_with_context_def
        ruleset_of_def validate_and_parse_ruleset_def apply_ruleset_def)
  then obtain s where "app_start ascii_env sample_yaml (gate_env enforce) (\<lambda>b. b) (\<lambda>_. None) (\<lambda>_. None) (\<lambda>_. None) no_proc
      (gate_config enforce) = Inr s" "as_reload s = None"
    by (simp add: app_start_def)
  then show ?thesis using loaded_start by blast
qed

lemma gate_packet_ok: "external gate_packet" "wf_packet gate_packet" "dst_text gate_packet = ''192.0.2.7:80''"
  by code_simp+

lemma gate_conn_ok: "c_is_tcp (gate_conn host)" "original_dst_tcp (c_kernel (gate_conn host)) = Inr (dst_text gate_packet)"
proof -
  have "original_dst_tcp (c_kernel (gate_conn [])) = Inr ''192.0.2.7:80''" by code_simp
  then show "original_dst_tcp (c_kernel (gate_conn host)) = Inr (dst_text gate_packet)"
    by (simp add: gate_packet_ok gate_conn_def)
qed (simp add: gate_conn_def)

lemma gate_lower: "to_lower ascii_env (to_lower ascii_env []) = to_lower ascii_env []"
  by simp

text \<open>A request for the only name of the allowlist gets through to the server the client meant.\<close>

theorem gateway_enforces_policy_witness:
  "\<exists>s. loaded_run ascii_env sample_yaml (gate_env ''block'') (\<lambda>b. b) no_proc (gate_config ''block'') s (\<lambda>_. None) \<and>
    reaches ascii_env (\<lambda>_. None) (0, 0) s (\<lambda>n d. False) gate_packet (gate_conn ''a.example'') synthetic_init =
      [''192.0.2.7:80'']"
proof -
  let ?c = "gate_conn ''a.example''"
  note facts = gate_facts [OF disjI1 [OF refl]]
  obtain s where s: "loaded_run ascii_env sample_yaml (gate_env ''block'') (\<lambda>b. b) no_proc (gate_config ''block'') s (\<lambda>_. None)"
    "as_reload s = None"
    using gate_run by blast
  have a: "atoi (ac_http_port (gate_config ''block'')) \<noteq> atoi (ac_https_port (gate_config ''block''))"
    unfolding facts by code_simp
  have off: "\<not> ac_learning_mode (gate_config ''block'')" "\<not> ac_audit_mode (gate_config ''block'')"
    by (simp_all add: facts)
  obtain pol where pol: "read ascii_env sample_yaml (gate_env ''block'') (\<lambda>_. None) ''/p'' = Inr pol"
    "reaches ascii_env (\<lambda>_. None) (0, 0) s (\<lambda>n d. False) gate_packet ?c synthetic_init =
      (if policy_permits ascii_env (effective_default_allow (gate_config ''block'') (Some pol)) pol gate_packet ?c
       then [dst_text gate_packet] else [])"
    using gateway_enforces_policy [OF s gate_lower gate_mode facts(8,5) off a gate_packet_ok(1,2) gate_conn_ok,
        of "\<lambda>_. None" "(0, 0)" "\<lambda>n d. False" "''a.example''" synthetic_init]
    unfolding facts by blast
  have "pol = gate_policy" using pol(1) by (simp add: gate_read)
  moreover have "http_name ascii_env ?c = ''a.example''" "matches_any ascii_env ''a.example'' [''a.example'']"
    by code_simp+
  then have "policy_permits ascii_env d gate_policy gate_packet ?c" for d
    by (simp add: policy_permits_def name_ok_def gate_policy_def ip_in_def listed_def)
      (simp add: gate_packet_def example_packet_def)
  ultimately show ?thesis using s(1) pol(2) by (auto simp: gate_packet_ok)
qed

theorem observing_blocks_nothing_witness:
  "\<exists>s. app_run ascii_env sample_yaml (gate_env ''audit'') (\<lambda>b. b) no_proc (gate_config ''audit'') s \<and>
    reaches ascii_env (\<lambda>_. None) (0, 0) s (\<lambda>n d. False) gate_packet (gate_conn ''b.example'') synthetic_init =
      [''192.0.2.7:80'']"
proof -
  note facts = gate_facts [OF disjI2 [OF refl]]
  obtain s where s: "app_run ascii_env sample_yaml (gate_env ''audit'') (\<lambda>b. b) no_proc (gate_config ''audit'') s"
    "as_reload s = None"
    using gate_run [OF disjI2 [OF refl]] by (meson loaded_app_run)
  have on: "ac_learning_mode (gate_config ''audit'') \<or> ac_audit_mode (gate_config ''audit'')" by (simp add: facts)
  from observing_blocks_nothing [OF s gate_lower gate_mode facts(8,5) on gate_packet_ok(1) gate_conn_ok,
      of "\<lambda>_. None" "(0, 0)" "\<lambda>n d. False" "''b.example''" synthetic_init] s(1)
  show ?thesis by (auto simp: gate_packet_ok)
qed

end
