(* ===== verification/Clock.thy ===== *)
theory Clock
  imports Complex_Main Prelude
begin

text \<open>
  Go's \<^verbatim>\<open>time.Time\<close> and \<^verbatim>\<open>time.Duration\<close>, as far as the rate limiters use them: a time
  is the number of nanoseconds since 1970, the zero time is the first of January of the year 1, and
  \<^verbatim>\<open>Sub\<close> saturates at the ends of a 64-bit duration. Seconds are rational numbers where the
  code has floating-point ones.
\<close>

definition zero_time :: nanos where "zero_time = - 62135596800 * second"

definition max_duration :: nanos where "max_duration = 2 ^ 63 - 1"

definition time_sub :: "nanos \<Rightarrow> nanos \<Rightarrow> nanos" where
  "time_sub a b = max (- (2 ^ 63)) (min max_duration (a - b))"

definition seconds_of :: "nanos \<Rightarrow> rat" where
  "seconds_of d = of_int d / 1000000000"

lemma time_sub_exact: "0 \<le> b \<Longrightarrow> b \<le> a \<Longrightarrow> a \<le> max_duration \<Longrightarrow> time_sub a b = a - b"
  by (simp add: time_sub_def max_duration_def)

lemma time_sub_zero: "0 \<le> a \<Longrightarrow> time_sub a zero_time = max_duration"
  by (simp add: time_sub_def zero_time_def max_duration_def)

lemma seconds_of_add: "seconds_of a + seconds_of b = seconds_of (a + b)"
  by (simp add: seconds_of_def add_divide_distrib)

lemma seconds_of_mono: "a \<le> b \<Longrightarrow> 0 \<le> q \<Longrightarrow> seconds_of a * q \<le> seconds_of b * q"
  by (intro mult_right_mono) (simp_all add: seconds_of_def divide_right_mono)

lemma seconds_of_nonneg: "0 \<le> d \<Longrightarrow> 0 \<le> seconds_of d"
  by (simp add: seconds_of_def)

end
