(* ===== verification/DnsHardening.thy ===== *)
theory DnsHardening
  imports Clock FilterCommon
begin

text \<open>
  \<^verbatim>\<open>internal/filter/dns_hardening.go\<close>: the shapes of tunnelling queries and answers, and the
  per-source token bucket.

  DNS messages are those of \<^verbatim>\<open>github.com/miekg/dns\<close>, reduced to the fields the sources use; the
  wire length of a message is a parameter (\<open>msg_len\<close>). Token counts are floating-point numbers
  in the code and rational numbers here: the bounds below are those of exact arithmetic.
\<close>

subsection \<open>Messages\<close>

record rr_hdr =
  rr_name :: string
  rr_ttl :: "32 word"

datatype rr =
    RR_A rr_hdr "ip option"
  | RR_AAAA rr_hdr "ip option"
  | RR_TXT rr_hdr "string list"
  | RR_NULL rr_hdr
  | RR_Other rr_hdr

record dns_question =
  q_name :: string
  q_type :: nat

record dns_msg =
  question :: "dns_question list"
  answer :: "rr list"
  rcode :: int
  truncated :: bool

definition type_a :: nat where "type_a = 1"
definition type_ns :: nat where "type_ns = 2"
definition type_cname :: nat where "type_cname = 5"
definition type_null :: nat where "type_null = 10"
definition type_mx :: nat where "type_mx = 15"
definition type_txt :: nat where "type_txt = 16"
definition type_aaaa :: nat where "type_aaaa = 28"
definition type_srv :: nat where "type_srv = 33"

lemmas dns_types = type_a_def type_ns_def type_cname_def type_null_def type_mx_def type_txt_def
  type_aaaa_def type_srv_def

declare dns_types [go_unfold]

subsection \<open>Tunnel shapes\<close>

definition exfil_max_qname :: nat where "exfil_max_qname = 220"
definition exfil_max_label :: nat where "exfil_max_label = 56"
definition max_txt_payload_bytes :: nat where "max_txt_payload_bytes = 1024"
definition max_response_bytes :: nat where "max_response_bytes = 4096"

lemmas exfil_limits = exfil_max_qname_def exfil_max_label_def max_txt_payload_bytes_def
  max_response_bytes_def

declare exfil_limits [go_unfold]

definition check_exfil_query :: "string \<Rightarrow> nat \<Rightarrow> string" where
  "check_exfil_query qname qtype =
     (if qtype = type_null then ''null-query''
      else if length qname > exfil_max_qname then ''qname-too-long''
      else if list_ex (\<lambda>label. length label > exfil_max_label) (split_on CHR ''.'' qname)
      then ''label-too-long''
      else [])"

fun exfil_answer_loop :: "rr list \<Rightarrow> nat \<Rightarrow> string" where
  "exfil_answer_loop [] txtBytes =
     (if txtBytes > max_txt_payload_bytes then ''txt-payload-too-large'' else [])"
| "exfil_answer_loop (r # rest) txtBytes =
     (case r of
        RR_NULL _ \<Rightarrow> ''null-record''
      | RR_TXT _ txt \<Rightarrow> exfil_answer_loop rest (txtBytes + sum_list (map length txt))
      | _ \<Rightarrow> exfil_answer_loop rest txtBytes)"

definition check_exfil_response :: "(dns_msg \<Rightarrow> nat) \<Rightarrow> dns_msg option \<Rightarrow> string" where
  "check_exfil_response msg_len resp =
     (case resp of
        None \<Rightarrow> []
      | Some m \<Rightarrow>
          if msg_len m > max_response_bytes then ''response-too-large''
          else exfil_answer_loop (answer m) 0)"

declare check_exfil_query_def [go_unfold] check_exfil_response_def [go_unfold]

subsection \<open>The token bucket\<close>

definition dns_rate_limit_qps :: rat where "dns_rate_limit_qps = 50"
definition dns_rate_limit_burst :: rat where "dns_rate_limit_burst = 100"
definition rate_limiter_max_sources :: nat where "rate_limiter_max_sources = 4096"
definition rate_limiter_idle_evict :: nanos where "rate_limiter_idle_evict = minute"

record token_bucket =
  tokens :: rat
  last_at :: nanos

record dns_rate_limiter =
  buckets :: "(string, token_bucket) gomap"
  qps :: rat
  burst :: rat

definition new_dns_rate_limiter :: "int \<Rightarrow> int \<Rightarrow> dns_rate_limiter" where
  "new_dns_rate_limiter q b =
     \<lparr>buckets = [],
      qps = (if q > 0 then of_int q else dns_rate_limit_qps),
      burst = (if b > 0 then of_int b else dns_rate_limit_burst)\<rparr>"

definition prune_locked :: "nanos \<Rightarrow> dns_rate_limiter \<Rightarrow> dns_rate_limiter" where
  "prune_locked now l =
     l\<lparr>buckets := filter (\<lambda>(src, b). \<not> now - last_at b > rate_limiter_idle_evict) (buckets l)\<rparr>"

definition evict_scan :: "string \<times> nanos \<Rightarrow> string \<times> token_bucket \<Rightarrow> string \<times> nanos" where
  "evict_scan old e =
     (if fst old = [] \<or> last_at (snd e) < snd old then (fst e, last_at (snd e)) else old)"

definition evict_oldest_locked :: "dns_rate_limiter \<Rightarrow> dns_rate_limiter" where
  "evict_oldest_locked l =
     (let oldest = foldl evict_scan ([], 0) (buckets l)
      in if fst oldest \<noteq> [] then l\<lparr>buckets := AList.delete (fst oldest) (buckets l)\<rparr> else l)"

definition make_room :: "nanos \<Rightarrow> dns_rate_limiter \<Rightarrow> dns_rate_limiter" where
  \<comment> \<open>what \<^verbatim>\<open>allow\<close> does before it adds a bucket\<close>
  "make_room now l =
     (let l1 = (if rate_limiter_max_sources \<le> length (buckets l) then prune_locked now l else l)
      in if rate_limiter_max_sources \<le> length (buckets l1) then evict_oldest_locked l1 else l1)"

definition take_token ::
  "nanos \<Rightarrow> string \<Rightarrow> token_bucket \<Rightarrow> dns_rate_limiter \<Rightarrow> bool \<times> dns_rate_limiter" where
  \<comment> \<open>the second half of \<^verbatim>\<open>allow\<close>: refill, cap, spend\<close>
  "take_token now source bucket l =
     (let refilled = tokens bucket + seconds_of (now - last_at bucket) * qps l;
          capped = (if refilled > burst l then burst l else refilled);
          ok = (\<not> capped < 1);
          left = (if ok then capped - 1 else capped)
      in (ok, l\<lparr>buckets := AList.update source \<lparr>tokens = left, last_at = now\<rparr> (buckets l)\<rparr>))"

definition allow :: "nanos \<Rightarrow> string \<Rightarrow> dns_rate_limiter \<Rightarrow> bool \<times> dns_rate_limiter" where
  "allow now source l =
     (case map_of (buckets l) source of
        Some b \<Rightarrow> take_token now source b l
      | None \<Rightarrow> take_token now source \<lparr>tokens = burst l, last_at = now\<rparr> (make_room now l))"

declare new_dns_rate_limiter_def [go_unfold] dns_rate_limit_qps_def [go_unfold]
  dns_rate_limit_burst_def [go_unfold]

subsection \<open>Invariant\<close>

definition bucket_wf :: "rat \<Rightarrow> nanos \<Rightarrow> token_bucket \<Rightarrow> bool" where
  "bucket_wf mx now b \<longleftrightarrow> 0 \<le> tokens b \<and> tokens b \<le> mx \<and> last_at b \<le> now"

definition limiter_wf :: "nanos \<Rightarrow> dns_rate_limiter \<Rightarrow> bool" where
  "limiter_wf now l \<longleftrightarrow>
     wf_map (buckets l) \<and> 0 < qps l \<and> 1 \<le> burst l \<and>
     (\<forall>(k, b) \<in> set (buckets l). bucket_wf (burst l) now b)"

lemma new_limiter_wf [inv_intro]: "limiter_wf now (new_dns_rate_limiter q b)"
  by (auto simp: limiter_wf_def new_dns_rate_limiter_def dns_rate_limit_qps_def
      dns_rate_limit_burst_def)

lemma bucket_wf_mono: "bucket_wf mx now b \<Longrightarrow> now \<le> now' \<Longrightarrow> bucket_wf mx now' b"
  by (simp add: bucket_wf_def)

lemma limiter_wf_mono: "limiter_wf now l \<Longrightarrow> now \<le> now' \<Longrightarrow> limiter_wf now' l"
  by (fastforce simp: limiter_wf_def intro: bucket_wf_mono)

lemma make_room_same: "qps (make_room now l) = qps l" "burst (make_room now l) = burst l"
  by (simp_all add: make_room_def Let_def prune_locked_def evict_oldest_locked_def)

lemma evict_subset: "set (buckets (evict_oldest_locked l)) \<subseteq> set (buckets l)"
  by (simp add: evict_oldest_locked_def Let_def set_delete_subset)

lemma prune_subset: "set (buckets (prune_locked now l)) \<subseteq> set (buckets l)"
  by (auto simp: prune_locked_def)

lemma make_room_subset: "set (buckets (make_room now l)) \<subseteq> set (buckets l)"
  by (simp add: make_room_def Let_def) (meson evict_subset prune_subset subset_trans)

lemma make_room_map: "wf_map (buckets l) \<Longrightarrow> wf_map (buckets (make_room now l))"
  by (simp add: make_room_def Let_def prune_locked_def evict_oldest_locked_def)

lemma make_room_wf: "limiter_wf now l \<Longrightarrow> limiter_wf now (make_room now l)"
  unfolding limiter_wf_def make_room_same
  using make_room_map make_room_subset by (metis (no_types, lifting) subsetD)

lemma refill_bounds:
  assumes "0 < q" "bucket_wf mx now b" "1 \<le> mx"
  shows "0 \<le> (if tokens b + seconds_of (now - last_at b) * q > mx then mx
      else tokens b + seconds_of (now - last_at b) * q)"
  using assms by (auto simp: bucket_wf_def seconds_of_def)

lemma take_token_wf:
  assumes "limiter_wf now l" "bucket_wf (burst l) now b"
  shows "limiter_wf now (snd (take_token now source b l))"
proof -
  define c where "c = (if tokens b + seconds_of (now - last_at b) * qps l > burst l then burst l
      else tokens b + seconds_of (now - last_at b) * qps l)"
  have c: "0 \<le> c" "c \<le> burst l"
    using refill_bounds [OF _ assms(2), of "qps l"] assms(1)
    by (simp_all add: c_def limiter_wf_def)
  let ?left = "if \<not> c < 1 then c - 1 else c"
  have "bucket_wf (burst l) now \<lparr>tokens = ?left, last_at = now\<rparr>"
    using c by (simp add: bucket_wf_def)
  moreover have "snd (take_token now source b l) =
      l\<lparr>buckets := AList.update source \<lparr>tokens = ?left, last_at = now\<rparr> (buckets l)\<rparr>"
    by (simp add: take_token_def c_def Let_def)
  ultimately show ?thesis
    using assms(1) set_update_subset [of source "\<lparr>tokens = ?left, last_at = now\<rparr>" "buckets l"]
    unfolding limiter_wf_def by auto
qed

lemma allow_wf [inv_intro]:
  assumes "limiter_wf t l" "t \<le> now"
  shows "limiter_wf now (snd (allow now source l))"
proof -
  have wf: "limiter_wf now l" using assms by (rule limiter_wf_mono)
  show ?thesis
  proof (cases "map_of (buckets l) source")
    case (Some b)
    then have "bucket_wf (burst l) now b"
      using wf map_of_SomeD [OF Some] by (auto simp: limiter_wf_def)
    with Some show ?thesis by (simp add: allow_def take_token_wf [OF wf])
  next
    case None
    have "bucket_wf (burst (make_room now l)) now \<lparr>tokens = burst l, last_at = now\<rparr>"
      using wf by (simp add: make_room_same limiter_wf_def bucket_wf_def)
    with None show ?thesis
      by (simp add: allow_def take_token_wf [OF make_room_wf [OF wf]])
  qed
qed

subsection \<open>The table stays bounded\<close>

lemma evict_scan_key:
  assumes "\<forall>e \<in> set m. fst e \<noteq> []"
  shows "fst (foldl evict_scan old m) = fst old \<and> (fst old \<noteq> [] \<or> m = []) \<or>
    fst (foldl evict_scan old m) \<in> fst ` set m"
  using assms
proof (induction m arbitrary: old)
  case Nil
  then show ?case by simp
next
  case (Cons e m)
  have "fst (evict_scan old e) = fst old \<and> fst old \<noteq> [] \<or> fst (evict_scan old e) = fst e"
    by (auto simp: evict_scan_def)
  then show ?case
    using Cons.IH [of "evict_scan old e"] Cons.prems by auto
qed

lemma evict_oldest_shrinks:
  assumes "[] \<notin> fst ` set (buckets l)" "buckets l \<noteq> []"
  shows "length (buckets (evict_oldest_locked l)) < length (buckets l)"
proof -
  let ?o = "foldl evict_scan ([], 0) (buckets l)"
  have ne: "\<forall>e \<in> set (buckets l). fst e \<noteq> []"
    using assms(1) by (metis image_eqI)
  have k: "fst ?o \<in> fst ` set (buckets l)"
    using evict_scan_key [OF ne, of "([], 0)"] assms(2) by simp
  then have "fst ?o \<noteq> []" using assms(1) by metis
  then show ?thesis
    using k by (simp add: evict_oldest_locked_def Let_def length_delete_less)
qed

lemma make_room_length:
  assumes "[] \<notin> fst ` set (buckets l)" "length (buckets l) \<le> rate_limiter_max_sources"
  shows "length (buckets (make_room now l)) < rate_limiter_max_sources"
proof -
  define l1 where "l1 = (if rate_limiter_max_sources \<le> length (buckets l) then prune_locked now l else l)"
  have l1: "[] \<notin> fst ` set (buckets l1)" "length (buckets l1) \<le> rate_limiter_max_sources"
    using assms by (auto simp: l1_def prune_locked_def intro: le_trans [OF length_filter_le])
  show ?thesis
  proof (cases "rate_limiter_max_sources \<le> length (buckets l1)")
    case True
    then have "buckets l1 \<noteq> []" by (auto simp: rate_limiter_max_sources_def)
    with evict_oldest_shrinks [OF l1(1)] True l1(2) show ?thesis
      by (simp add: make_room_def l1_def [symmetric] Let_def)
  next
    case False
    then show ?thesis by (simp add: make_room_def l1_def [symmetric] Let_def)
  qed
qed

lemma allow_keys:
  "fst ` set (buckets (snd (allow now s l))) \<subseteq> insert s (fst ` set (buckets l))"
  using make_room_subset [of now l]
  by (auto simp: allow_def take_token_def Let_def dom_update split: option.splits)

lemma allow_length:
  assumes "[] \<notin> fst ` set (buckets l)" "length (buckets l) \<le> rate_limiter_max_sources"
  shows "length (buckets (snd (allow now s l))) \<le> rate_limiter_max_sources"
proof (cases "map_of (buckets l) s")
  case (Some b)
  then show ?thesis using assms(2)
    by (simp add: allow_def take_token_def Let_def length_update_old)
next
  case None
  have "length (AList.update s v m) \<le> Suc (length m)" for v and m :: "(string \<times> token_bucket) list"
    by (cases "map_of m s") (simp_all add: length_update_new length_update_old)
  then have "length (buckets (snd (allow now s l))) \<le> Suc (length (buckets (make_room now l)))"
    using None by (simp add: allow_def take_token_def Let_def)
  with make_room_length [OF assms, of now] show ?thesis by simp
qed

fun serve_queries :: "(nanos \<times> string) list \<Rightarrow> dns_rate_limiter \<Rightarrow> dns_rate_limiter" where
  "serve_queries [] l = l"
| "serve_queries ((t, s) # es) l = serve_queries es (snd (allow t s l))"

lemma serve_queries_length:
  "[] \<notin> fst ` set (buckets l) \<Longrightarrow> length (buckets l) \<le> rate_limiter_max_sources \<Longrightarrow>
   [] \<notin> snd ` set es \<Longrightarrow>
   length (buckets (serve_queries es l)) \<le> rate_limiter_max_sources"
proof (induction es l rule: serve_queries.induct)
  case (1 l)
  then show ?case by simp
next
  case (2 t s es l)
  have "[] \<notin> fst ` set (buckets (snd (allow t s l)))"
    using allow_keys [of t s l] "2.prems"(1,3) by auto
  moreover have "length (buckets (snd (allow t s l))) \<le> rate_limiter_max_sources"
    using "2.prems"(1,2) by (rule allow_length)
  ultimately show ?case using "2.IH" "2.prems"(3) by simp
qed

text \<open>The memory of the DNS rate limiter is bounded. A flood of queries from any number of
  (nonempty) source addresses, at any times, leaves at most 4096 buckets.\<close>

theorem rate_limiter_bounded:
  assumes "[] \<notin> snd ` set es"
  shows "length (buckets (serve_queries es (new_dns_rate_limiter q b))) \<le> 4096"
  using serve_queries_length [OF _ _ assms, of "new_dns_rate_limiter q b"]
  by (simp add: new_dns_rate_limiter_def rate_limiter_max_sources_def)

lemma rate_limiter_bounded_witness:
  "length (buckets (serve_queries [(0, ''10.0.0.1''), (5, ''10.0.0.2'')] (new_dns_rate_limiter 0 0))) \<le> 4096"
  by (rule rate_limiter_bounded) simp

text \<open>The restriction to nonempty sources is needed: the eviction uses the empty string for "none
  found yet", and does nothing when the empty source is visited last and is the oldest.\<close>

lemma evict_oldest_sentinel:
  "evict_oldest_locked \<lparr>buckets = [(''a'', \<lparr>tokens = 1, last_at = 5\<rparr>), ([], \<lparr>tokens = 1, last_at = 1\<rparr>)],
     qps = 1, burst = 1\<rparr> =
   \<lparr>buckets = [(''a'', \<lparr>tokens = 1, last_at = 5\<rparr>), ([], \<lparr>tokens = 1, last_at = 1\<rparr>)],
     qps = 1, burst = 1\<rparr>"
  by (simp add: evict_oldest_locked_def evict_scan_def)

subsection \<open>The rate is bounded\<close>

fun admitted :: "string \<Rightarrow> (nanos \<times> string) list \<Rightarrow> dns_rate_limiter \<Rightarrow> nat" where
  \<comment> \<open>how many queries of one source pass\<close>
  "admitted s [] l = 0"
| "admitted s ((t, src) # es) l =
     (if src = s \<and> fst (allow t src l) then 1 else 0) + admitted s es (snd (allow t src l))"

definition credit :: "string \<Rightarrow> nanos \<Rightarrow> nanos \<Rightarrow> dns_rate_limiter \<Rightarrow> rat" where
  \<comment> \<open>what a source can still spend up to time \<open>te\<close>, when its next query is not before \<open>t0\<close>\<close>
  "credit s t0 te l =
     (case map_of (buckets l) s of
        Some b \<Rightarrow> tokens b + seconds_of (te - last_at b) * qps l
      | None \<Rightarrow> burst l + seconds_of (te - t0) * qps l)"

lemma take_token_credit:
  "(if fst (take_token t s b l) then 1 else 0) + credit s t te (snd (take_token t s b l))
   \<le> tokens b + seconds_of (te - last_at b) * qps l"
proof -
  have "seconds_of (t - last_at b) * qps l + seconds_of (te - t) * qps l =
      seconds_of (te - last_at b) * qps l"
    using seconds_of_add [of "t - last_at b" "te - t"] by (simp add: distrib_right [symmetric])
  then show ?thesis
    by (auto simp: take_token_def credit_def Let_def update_conv')
qed

lemma no_room_needed:
  assumes "wf_map (buckets l)" "fst ` set (buckets l) \<union> {s} \<subseteq> S" "finite S"
    "card S \<le> rate_limiter_max_sources" "map_of (buckets l) s = None"
  shows "make_room now l = l"
proof -
  have "s \<notin> fst ` set (buckets l)" using assms(5) by (simp add: map_of_eq_None_iff)
  then have "card (fst ` set (buckets l)) < card S"
    using assms(2,3) by (intro psubset_card_mono) auto
  moreover have "length (buckets l) = card (fst ` set (buckets l))"
    using assms(1) by (metis distinct_card length_map list.set_map wf_map_def)
  ultimately show ?thesis using assms(4) by (simp add: make_room_def)
qed

lemma allow_credit:
  assumes "wf_map (buckets l)" "fst ` set (buckets l) \<union> {src} \<subseteq> S" "finite S"
    "card S \<le> rate_limiter_max_sources" "t0 \<le> t" "0 \<le> qps l"
  shows "(if src = s \<and> fst (allow t src l) then 1 else 0) + credit s t te (snd (allow t src l))
    \<le> credit s t0 te l"
proof (cases "src = s")
  case False
  have "map_of (buckets (snd (allow t src l))) s = map_of (buckets l) s"
    "qps (snd (allow t src l)) = qps l" "burst (snd (allow t src l)) = burst l"
    using False no_room_needed [OF assms(1-4)]
    by (auto simp: allow_def take_token_def Let_def update_conv' split: option.splits)
  moreover have "seconds_of (te - t) * qps l \<le> seconds_of (te - t0) * qps l"
    using assms(5,6) by (intro seconds_of_mono) simp_all
  ultimately show ?thesis using False by (simp add: credit_def split: option.splits)
next
  case True
  show ?thesis
  proof (cases "map_of (buckets l) s")
    case (Some b)
    then show ?thesis
      using True take_token_credit [of t s b l te] by (simp add: allow_def credit_def)
  next
    case None
    have "seconds_of (te - t) * qps l \<le> seconds_of (te - t0) * qps l"
      using assms(5,6) by (intro seconds_of_mono) simp_all
    then show ?thesis
      using True None no_room_needed [OF assms(1-4)]
        take_token_credit [of t s "\<lparr>tokens = burst l, last_at = t\<rparr>" l te]
      by (simp add: allow_def credit_def)
  qed
qed

lemma credit_nonneg:
  assumes "limiter_wf t0 l" "t0 \<le> te"
  shows "0 \<le> credit s t0 te l"
proof (cases "map_of (buckets l) s")
  case None
  then show ?thesis using assms by (simp add: credit_def limiter_wf_def seconds_of_def)
next
  case (Some b)
  then have "bucket_wf (burst l) t0 b" using map_of_SomeD [OF Some] assms(1) by (auto simp: limiter_wf_def)
  with Some show ?thesis
    using assms by (simp add: credit_def limiter_wf_def seconds_of_def bucket_wf_def)
qed

lemma admitted_credit:
  assumes "limiter_wf t0 l" "sorted (t0 # map fst es)" "\<forall>e \<in> set es. fst e \<le> te" "t0 \<le> te"
    "fst ` set (buckets l) \<union> snd ` set es \<subseteq> S" "finite S" "card S \<le> rate_limiter_max_sources"
  shows "of_nat (admitted s es l) \<le> credit s t0 te l"
  using assms(1-5)
proof (induction es arbitrary: t0 l)
  case Nil
  then show ?case by (simp add: credit_nonneg)
next
  case (Cons e es)
  obtain t src where e: "e = (t, src)" by (cases e)
  let ?l = "snd (allow t src l)"
  have "limiter_wf t ?l" using Cons.prems(1,2) e by (auto intro: allow_wf)
  moreover have "fst ` set (buckets ?l) \<union> snd ` set es \<subseteq> S"
    using allow_keys [of t src l] Cons.prems(5) e by auto
  ultimately have "of_nat (admitted s es ?l) \<le> credit s t te ?l"
    using Cons.prems(2,3) e by (intro Cons.IH) auto
  moreover have "(if src = s \<and> fst (allow t src l) then 1 else 0) + credit s t te ?l \<le> credit s t0 te l"
    using Cons.prems e assms(6,7)
    by (intro allow_credit [where S = S]) (auto simp: limiter_wf_def)
  ultimately show ?case using e by (auto split: if_splits)
qed

text \<open>C31: the rate limit holds, while no bucket has to be evicted. From a fresh limiter and with
  queries from at most 4096 different sources in all, the queries of one source that pass between the
  times \<open>t0\<close> and \<open>te\<close>, however the queries of all of them are spaced, are at most the burst plus the
  rate times the duration. (With more sources than that an evicted source starts again with a full
  bucket, and the bound is not claimed.)\<close>

theorem rate_limiter_rate:
  assumes "sorted (t0 # map fst es)" "\<forall>e \<in> set es. fst e \<le> te" "t0 \<le> te"
    and "card (snd ` set es) \<le> 4096"
  shows "of_nat (admitted s es (new_dns_rate_limiter q b)) \<le>
    burst (new_dns_rate_limiter q b) + seconds_of (te - t0) * qps (new_dns_rate_limiter q b)"
proof -
  have "of_nat (admitted s es (new_dns_rate_limiter q b)) \<le> credit s t0 te (new_dns_rate_limiter q b)"
    using assms
    by (intro admitted_credit [where S = "snd ` set es"] new_limiter_wf)
       (simp_all add: new_dns_rate_limiter_def rate_limiter_max_sources_def)
  then show ?thesis by (simp add: credit_def new_dns_rate_limiter_def)
qed

lemma rate_limiter_rate_witness:
  "of_nat (admitted ''a'' [(0, ''a''), (0, ''a''), (second, ''b'')] (new_dns_rate_limiter 1 1)) \<le> (2 :: rat)"
proof -
  have "card (snd ` set [(0 :: nanos, ''a''), (0, ''a''), (second, ''b'')]) \<le> 4096" by simp
  from rate_limiter_rate [OF _ _ _ this, of 0 second "''a''" 1 1] show ?thesis
    by (simp add: new_dns_rate_limiter_def seconds_of_def)
qed

end
