(* ===== verification/DnsFilter.thy ===== *)
theory DnsFilter
  imports DnsHardening
begin

text \<open>
  \<^verbatim>\<open>internal/filter/dns_filter.go\<close>: the DNS proxy. A request is handled by \<open>handle_dns\<close>, which
  returns the trace of what the code does, in order: log lines, exchanges with upstream servers,
  addresses handed to the resolved set, learned hosts, and the message written to the client. The
  mutable state is the rate limiter and the table of synthetic events.

  Parameters: the message library (\<open>dns_lib\<close>) and what an upstream answers to an exchange
  (\<open>xchg\<close>: transport, attempt, server, request; None for an error or a nil message). The
  servers' sockets and their shutdown are not modelled.
\<close>

record dns_lib =
  set_reply :: "dns_msg \<Rightarrow> dns_msg" \<comment> \<open>\<^verbatim>\<open>Msg.SetReply\<close> on a new message\<close>
  msg_len :: "dns_msg \<Rightarrow> nat" \<comment> \<open>\<^verbatim>\<open>Msg.Len\<close>\<close>
  type_to_string :: "nat \<Rightarrow> string"
  rcode_to_string :: "int \<Rightarrow> string"

record dns_handler =
  h_allowlist :: host_matcher
  h_opts :: options
  h_upstreams :: "string list"
  h_timeout :: nanos

record dns_state =
  ds_limiter :: "dns_rate_limiter option"
  ds_synthetic :: synthetic

record dns_writer =
  w_remote :: "string option"
  w_local :: "string option"

record dns_request =
  rq_writer :: dns_writer
  rq_msg :: dns_msg
  rq_now :: nanos
  rq_clock :: clock

datatype dns_event =
    Dlog log_line
  | Dexchange string string dns_msg
  | Dresolved "string list" "32 word"
  | Dlearn string string
  | Dreply dns_msg

type_synonym exchange = "string \<Rightarrow> nat \<Rightarrow> string \<Rightarrow> dns_msg \<Rightarrow> dns_msg option"

definition rcode_success :: int where "rcode_success = 0"
definition rcode_format_error :: int where "rcode_format_error = 1"
definition rcode_server_failure :: int where "rcode_server_failure = 2"
definition rcode_name_error :: int where "rcode_name_error = 3"
definition rcode_not_implemented :: int where "rcode_not_implemented = 4"
definition rcode_refused :: int where "rcode_refused = 5"

lemmas rcodes = rcode_success_def rcode_format_error_def rcode_server_failure_def
  rcode_name_error_def rcode_not_implemented_def rcode_refused_def

definition default_ttl :: "32 word" where "default_ttl = 60"

subsection \<open>Setup\<close>

definition default_upstreams_from_env :: "(string \<Rightarrow> string) \<Rightarrow> string list" where
  "default_upstreams_from_env getenv =
     (let v = trim_space (getenv ''DNS_UPSTREAMS'');
          out = filter (\<lambda>p. p \<noteq> []) (map trim_space (split_on CHR '','' v))
      in if v \<noteq> [] \<and> length out > 0 then out else [''127.0.0.11:53''])"

definition create_dns_handler ::
  "env \<Rightarrow> (string \<Rightarrow> string) \<Rightarrow> string list \<Rightarrow> options \<Rightarrow> dns_handler \<times> dns_rate_limiter option" where
  "create_dns_handler E getenv allowlist opts =
     (let deny = normalize_patterns E (Denylist opts);
          opts' = opts\<lparr>Denylist := deny, denyMatcher := Some (new_matcher E deny)\<rparr>
      in (\<lparr>h_allowlist = new_matcher E allowlist, h_opts = opts',
           h_upstreams = default_upstreams_from_env getenv,
           h_timeout = timeout_from_options opts' (3 * second)\<rparr>,
          if DNSHardening opts' then Some (new_dns_rate_limiter (DNSRateQPS opts') (DNSRateBurst opts'))
          else None))"

definition serve53_setup ::
  "env \<Rightarrow> (string \<Rightarrow> string) \<Rightarrow> string list \<Rightarrow> options \<Rightarrow> dns_handler \<times> dns_rate_limiter option" where
  \<comment> \<open>\<^verbatim>\<open>Serve53\<close> up to the start of the servers\<close>
  "serve53_setup E getenv allowlist opts =
     (let opts' = (if ListenAddr opts = [] then opts\<lparr>ListenAddr := '':53''\<rparr> else opts)
      in create_dns_handler E getenv (normalize_patterns E allowlist) opts')"

definition type_string :: "dns_lib \<Rightarrow> nat \<Rightarrow> string" where
  "type_string L t =
     (if t = type_a then ''A'' else if t = type_aaaa then ''AAAA'' else if t = type_cname then ''CNAME''
      else if t = type_mx then ''MX'' else if t = type_txt then ''TXT'' else if t = type_ns then ''NS''
      else if t = type_srv then ''SRV'' else ''TYPE'' @ type_to_string L t)"

definition rcode_string :: "dns_lib \<Rightarrow> int \<Rightarrow> string" where
  "rcode_string L rc =
     (if rc = rcode_success then ''NOERROR'' else if rc = rcode_format_error then ''FORMERR''
      else if rc = rcode_server_failure then ''SERVFAIL'' else if rc = rcode_name_error then ''NXDOMAIN''
      else if rc = rcode_not_implemented then ''NOTIMP'' else if rc = rcode_refused then ''REFUSED''
      else ''RCODE'' @ rcode_to_string L rc)"

subsection \<open>The steps of a request\<close>

definition parse_remote_addr :: "dns_writer \<Rightarrow> string \<times> int" where
  "parse_remote_addr w =
     (case w_remote w of
        None \<Rightarrow> ([], 0)
      | Some remote \<Rightarrow>
          (case split_host_port remote of
             Some (host, port) \<Rightarrow> (host, case atoi port of Some p \<Rightarrow> p | None \<Rightarrow> 0)
           | None \<Rightarrow> (remote, 0)))"

definition emit_synthetic_event ::
  "env \<Rightarrow> dns_handler \<Rightarrow> clock \<Rightarrow> dns_writer \<Rightarrow> string \<Rightarrow> int \<Rightarrow> synthetic \<Rightarrow>
   string \<times> log_line list \<times> synthetic" where
  "emit_synthetic_event E h now w remoteAddr remotePort st =
     (if \<not> HasLogger (h_opts h) then ([], [], st)
      else
        (let dst0 = (case w_local w of None \<Rightarrow> [] | Some a \<Rightarrow> a);
             dst = (if dst0 = [] \<and> length (h_upstreams h) > 0 then hd (h_upstreams h) else dst0)
         in if dst \<noteq> [] then emit_synthetic_udp E now True ''dns'' remoteAddr remotePort dst st
            else ([], [], st)))"

definition respond_with_error :: "dns_lib \<Rightarrow> dns_msg \<Rightarrow> int \<Rightarrow> dns_event list" where
  "respond_with_error L request rc = [Dreply ((set_reply L request)\<lparr>rcode := rc\<rparr>)]"

definition sanitize_and_log_qname ::
  "env \<Rightarrow> dns_lib \<Rightarrow> dns_handler \<Rightarrow> string \<Rightarrow> nat \<Rightarrow> string \<Rightarrow> int \<Rightarrow> string option \<times> dns_event list" where
  "sanitize_and_log_qname E L h rawQname qtype remoteAddr remotePort =
     (let qname = trim_suffix rawQname ''.''
      in case sanitize_dns_qname E qname of
           Some s \<Rightarrow> (Some s, [])
         | None \<Rightarrow>
             if qname \<noteq> [] then
               (None,
                if HasLogger (h_opts h) then
                  [Dlog (log_line Info ''dns.qname_invalid''
                     [(''raw_qname'', VS qname), (''qtype'', VS (type_string L qtype)),
                      (''source_ip'', VS remoteAddr), (''source_port'', VI remotePort)])]
                else [])
             else (Some qname, []))"

definition rate_limited ::
  "dns_lib \<Rightarrow> dns_handler \<Rightarrow> dns_request \<Rightarrow> string \<Rightarrow> int \<Rightarrow> dns_rate_limiter option \<Rightarrow>
   (bool \<times> dns_event list) \<times> dns_rate_limiter option" where
  "rate_limited L h rq remoteAddr remotePort lmt =
     (case lmt of
        None \<Rightarrow> ((False, []), None)
      | Some l \<Rightarrow>
          (let (ok, l') = allow (rq_now rq) remoteAddr l
           in if ok then ((False, []), Some l')
              else ((True,
                     (if HasLogger (h_opts h) then
                        [Dlog (log_line Warn ''dns.rate_limited''
                           [(''component'', VS ''dns''), (''source_ip'', VS remoteAddr),
                            (''source_port'', VI remotePort)])]
                      else []) @ respond_with_error L (rq_msg rq) rcode_refused), Some l')))"

definition dns_log_fields ::
  "dns_lib \<Rightarrow> dns_handler \<Rightarrow> string \<Rightarrow> string \<Rightarrow> nat \<Rightarrow> string \<Rightarrow> int \<Rightarrow> string \<Rightarrow> fields" where
  "dns_log_fields L h action qname qtype remoteAddr remotePort fid =
     [(''component'', VS ''dns''), (''action'', VS action), (''qname'', VS qname),
      (''qtype'', VS (type_string L qtype)), (''source_ip'', VS remoteAddr),
      (''source_port'', VI remotePort), (''flow_id'', VS fid)]
     @ proc_fields (h_opts h) remoteAddr remotePort ''udp''"

text \<open>The names of a request in the handler, once it has been parsed.\<close>

record dns_ctx =
  cx_qname :: string
  cx_qtype :: nat
  cx_addr :: string
  cx_port :: int
  cx_flow :: string

definition cx_fields :: "dns_lib \<Rightarrow> dns_handler \<Rightarrow> dns_ctx \<Rightarrow> string \<Rightarrow> fields" where
  "cx_fields L h cx action =
     dns_log_fields L h action (cx_qname cx) (cx_qtype cx) (cx_addr cx) (cx_port cx) (cx_flow cx)"

definition hardening_enforced :: "dns_handler \<Rightarrow> bool" where
  "hardening_enforced h \<longleftrightarrow> \<not> AuditMode (h_opts h) \<and> \<not> LearningMode (h_opts h)"

definition hardening_log :: "dns_lib \<Rightarrow> dns_handler \<Rightarrow> dns_ctx \<Rightarrow> string \<Rightarrow> dns_event list" where
  "hardening_log L h cx reason =
     (if HasLogger (h_opts h) then
        [Dlog (log_line Warn ''dns.hardening''
           (cx_fields L h cx (if hardening_enforced h then ''BLOCKED'' else ''AUDIT'')
            @ [(''reason'', VS reason), (''note'', VS ''dns-hardening'')]))]
      else [])"

definition block_exfil_query ::
  "dns_lib \<Rightarrow> dns_handler \<Rightarrow> dns_msg \<Rightarrow> dns_ctx \<Rightarrow> bool \<times> dns_event list" where
  "block_exfil_query L h request cx =
     (if \<not> DNSHardening (h_opts h) \<or> cx_qname cx = [] then (False, [])
      else
        (let reason = check_exfil_query (cx_qname cx) (cx_qtype cx)
         in if reason = [] then (False, [])
            else if \<not> hardening_enforced h then (False, hardening_log L h cx reason)
            else (True, hardening_log L h cx reason @ respond_with_error L request rcode_refused)))"

definition block_exfil_response ::
  "dns_lib \<Rightarrow> dns_handler \<Rightarrow> dns_msg \<Rightarrow> dns_msg \<Rightarrow> dns_ctx \<Rightarrow> bool \<times> dns_event list" where
  "block_exfil_response L h request resp cx =
     (if \<not> DNSHardening (h_opts h) then (False, [])
      else
        (let reason = check_exfil_response (msg_len L) (Some resp)
         in if reason = [] then (False, [])
            else if \<not> hardening_enforced h then (False, hardening_log L h cx reason)
            else (True, hardening_log L h cx reason
                        @ respond_with_error L request rcode_server_failure)))"

definition log_audited_query :: "dns_lib \<Rightarrow> dns_handler \<Rightarrow> dns_ctx \<Rightarrow> dns_event list" where
  "log_audited_query L h cx =
     (if HasLogger (h_opts h) then
        [Dlog (log_line Warn ''dns.audit''
           (cx_fields L h cx ''AUDIT'' @ [(''note'', VS ''would-be-blocked'')]))]
      else [])"

definition handle_blocked_enforced_type ::
  "dns_lib \<Rightarrow> dns_handler \<Rightarrow> dns_msg \<Rightarrow> dns_ctx \<Rightarrow> dns_event list" where
  "handle_blocked_enforced_type L h request cx =
     (let m = set_reply L request;
          hdr = \<lparr>rr_name = q_name (hd (question request)), rr_ttl = default_ttl\<rparr>;
          m' = (if cx_qtype cx = type_a
                then m\<lparr>answer := answer m @ [RR_A hdr (Some (v4_in_v6_prefix @ [0, 0, 0, 0]))]\<rparr>
                else if cx_qtype cx = type_aaaa
                then m\<lparr>answer := answer m @ [RR_AAAA hdr (Some (replicate 16 0))]\<rparr>
                else m)
      in (if HasLogger (h_opts h) then
            [Dlog (log_line Warn ''dns.blocked''
               (cx_fields L h cx ''BLOCKED'' @ [(''note'', VS ''sinkholed-not-allowlisted'')]))]
          else []) @ [Dreply m'])"

definition handle_blocked_non_enforced_type ::
  "dns_lib \<Rightarrow> dns_handler \<Rightarrow> dns_msg \<Rightarrow> dns_ctx \<Rightarrow> dns_event list" where
  "handle_blocked_non_enforced_type L h request cx =
     (if HasLogger (h_opts h) then
        [Dlog (log_line Warn ''dns.blocked''
           (cx_fields L h cx ''BLOCKED'' @ [(''note'', VS ''nxdomain'')]))]
      else []) @ respond_with_error L request rcode_name_error"

subsection \<open>Forwarding\<close>

fun forward_loop :: "exchange \<Rightarrow> dns_msg \<Rightarrow> string list \<Rightarrow> dns_msg option \<times> dns_event list" where
  "forward_loop xchg request [] = (None, [])"
| "forward_loop xchg request (up # ups) =
     (let (in_msg, tried) =
            (case xchg ''udp'' 0 up request of
               Some m \<Rightarrow> (Some m, [Dexchange ''udp'' up request])
             | None \<Rightarrow> (xchg ''udp'' 1 up request,
                         [Dexchange ''udp'' up request, Dexchange ''udp'' up request]))
      in case in_msg of
           None \<Rightarrow> (let (r, evs) = forward_loop xchg request ups in (r, tried @ evs))
         | Some m \<Rightarrow>
             if \<not> truncated m then (Some m, tried)
             else
               (case xchg ''tcp'' 0 up request of
                  Some m' \<Rightarrow> (Some m', tried @ [Dexchange ''tcp'' up request])
                | None \<Rightarrow>
                    (let (r, evs) = forward_loop xchg request ups
                     in (r, tried @ Dexchange ''tcp'' up request # evs))))"

definition forward :: "dns_handler \<Rightarrow> exchange \<Rightarrow> dns_msg \<Rightarrow> dns_msg option \<times> dns_event list" where
  "forward h xchg request = forward_loop xchg request (h_upstreams h)"

fun rr_address :: "rr \<Rightarrow> (ip \<times> 32 word) option" where
  \<comment> \<open>the address and the TTL of an A or AAAA record with an address\<close>
  "rr_address (RR_A hdr (Some i)) = Some (i, rr_ttl hdr)"
| "rr_address (RR_AAAA hdr (Some i)) = Some (i, rr_ttl hdr)"
| "rr_address _ = None"

fun extract_loop :: "rr list \<Rightarrow> string list \<Rightarrow> 32 word \<Rightarrow> bool \<Rightarrow> string list \<times> 32 word" where
  "extract_loop [] ips minTTL haveTTL = (ips, minTTL)"
| "extract_loop (r # rest) ips minTTL haveTTL =
     (case rr_address r of
        None \<Rightarrow> extract_loop rest ips minTTL haveTTL
      | Some (i, ttl) \<Rightarrow>
          if \<not> haveTTL \<or> ttl < minTTL then extract_loop rest (ips @ [ip_string i]) ttl True
          else extract_loop rest (ips @ [ip_string i]) minTTL haveTTL)"

definition extract_answer_ips :: "dns_msg \<Rightarrow> string list \<times> 32 word" where
  "extract_answer_ips resp = extract_loop (answer resp) [] 0 False"

definition report_resolved_ips :: "dns_handler \<Rightarrow> dns_msg \<Rightarrow> dns_event list" where
  "report_resolved_ips h resp =
     (if \<not> OnResolved (h_opts h) then []
      else (let (ips, ttl) = extract_answer_ips resp
            in if length ips = 0 then [] else [Dresolved ips ttl]))"

definition handle_allowed_request ::
  "dns_lib \<Rightarrow> dns_handler \<Rightarrow> exchange \<Rightarrow> dns_msg \<Rightarrow> dns_ctx \<Rightarrow> bool \<Rightarrow> dns_event list" where
  "handle_allowed_request L h xchg request cx fullyPermitted =
     (case forward h xchg request of
        (None, evs) \<Rightarrow>
          evs @
          (if HasLogger (h_opts h) then
             [Dlog (log_line Warn ''dns.upstream_error''
                [(''component'', VS ''dns''), (''action'', VS ''ERROR''), (''qname'', VS (cx_qname cx)),
                 (''qtype'', VS (type_string L (cx_qtype cx))), (''source_ip'', VS (cx_addr cx)),
                 (''source_port'', VI (cx_port cx))])]
           else []) @ respond_with_error L request rcode_server_failure
      | (Some resp, evs) \<Rightarrow>
          (let (stop, evs2) = block_exfil_response L h request resp cx
           in if stop then evs @ evs2
              else evs @ evs2
                @ (if fullyPermitted then report_resolved_ips h resp else [])
                @ (if HasLogger (h_opts h) \<and> fullyPermitted then
                     [Dlog (log_line Info ''dns.allowed''
                        (cx_fields L h cx ''ALLOWED'' @ [(''rcode'', VS (rcode_string L (rcode resp)))]))]
                   else [])
                @ [Dreply resp]))"

subsection \<open>The handler\<close>

definition decide_query ::
  "env \<Rightarrow> dns_lib \<Rightarrow> dns_handler \<Rightarrow> exchange \<Rightarrow> dns_msg \<Rightarrow> dns_ctx \<Rightarrow> dns_event list" where
  \<comment> \<open>\<^verbatim>\<open>handle\<close> from the policy check on\<close>
  "decide_query E L h xchg request cx =
     (let enforce = (cx_qtype cx = type_a \<or> cx_qtype cx = type_aaaa);
          permitted = host_permitted_by E (cx_qname cx) (h_allowlist h) (h_opts h);
          wasAudited = audited permitted (h_opts h)
      in if \<not> wasAudited \<and> \<not> permitted then
           (if enforce then handle_blocked_enforced_type L h request cx
            else handle_blocked_non_enforced_type L h request cx)
         else
           (if wasAudited then log_audited_query L h cx else [])
           @ map (\<lambda>(k, v). Dlearn k v) (maybe_learn_host_by E (cx_qname cx) (h_allowlist h) (h_opts h))
           @ handle_allowed_request L h xchg request cx (\<not> wasAudited))"

definition handle_dns ::
  "env \<Rightarrow> dns_lib \<Rightarrow> dns_handler \<Rightarrow> exchange \<Rightarrow> dns_request \<Rightarrow> dns_state \<Rightarrow>
   dns_event list \<times> dns_state" where
  "handle_dns E L h xchg rq st =
     (let request = rq_msg rq;
          (addr, port) = parse_remote_addr (rq_writer rq);
          ((limited, evs), lmt) = rate_limited L h rq addr port (ds_limiter st);
          st1 = st\<lparr>ds_limiter := lmt\<rparr>
      in if limited then (evs, st1)
         else
           (let (fid, syn, tab) = emit_synthetic_event E h (rq_clock rq) (rq_writer rq) addr port (ds_synthetic st1);
                st2 = st1\<lparr>ds_synthetic := tab\<rparr>;
                pre = map Dlog syn
            in case question request of
                 [] \<Rightarrow> (pre @ respond_with_error L request rcode_format_error, st2)
               | q # _ \<Rightarrow>
                   (let (name, evs1) = sanitize_and_log_qname E L h (q_name q) (q_type q) addr port
                    in case name of
                         None \<Rightarrow> (pre @ evs1 @ respond_with_error L request rcode_refused, st2)
                       | Some qname \<Rightarrow>
                           (let cx = \<lparr>cx_qname = qname, cx_qtype = q_type q, cx_addr = addr,
                                      cx_port = port, cx_flow = fid\<rparr>;
                                (stop, evs2) = block_exfil_query L h request cx
                            in if stop then (pre @ evs1 @ evs2, st2)
                               else (pre @ evs1 @ evs2 @ decide_query E L h xchg request cx, st2)))))"

subsection \<open>Classifying events\<close>

fun is_reply :: "dns_event \<Rightarrow> bool" where
  "is_reply (Dreply _) = True" | "is_reply _ = False"

fun is_exchange :: "dns_event \<Rightarrow> bool" where
  "is_exchange (Dexchange _ _ _) = True" | "is_exchange _ = False"

fun is_resolved :: "dns_event \<Rightarrow> bool" where
  "is_resolved (Dresolved _ _) = True" | "is_resolved _ = False"

fun is_learn :: "dns_event \<Rightarrow> bool" where
  "is_learn (Dlearn _ _) = True" | "is_learn _ = False"

text \<open>A trace that only logs and answers, the answer being the last event.\<close>

definition quiet :: "dns_event list \<Rightarrow> bool" where
  "quiet evs \<longleftrightarrow> (\<exists>ls m. evs = map Dlog ls @ [Dreply m])"

definition only_logs :: "dns_event list \<Rightarrow> bool" where
  "only_logs evs \<longleftrightarrow> (\<exists>ls. evs = map Dlog ls)"

lemma only_logs_append: "only_logs a \<Longrightarrow> only_logs b \<Longrightarrow> only_logs (a @ b)"
  unfolding only_logs_def by (metis map_append)

lemma only_logs_quiet: "only_logs a \<Longrightarrow> quiet b \<Longrightarrow> quiet (a @ b)"
  unfolding only_logs_def quiet_def by (metis append.assoc map_append)

lemma only_logs_basic [simp]: "only_logs []" "only_logs [Dlog l]" "only_logs (map Dlog ls)"
  unfolding only_logs_def by (metis list.simps(8), metis list.simps(8) list.simps(9), blast)

lemma quiet_Cons [simp]: "quiet (Dlog l # b) \<longleftrightarrow> quiet b"
proof
  assume "quiet (Dlog l # b)"
  then obtain ls m where e: "Dlog l # b = map Dlog ls @ [Dreply m]" by (auto simp: quiet_def)
  then obtain k ls' where "ls = k # ls'" by (cases ls) auto
  with e show "quiet b" by (auto simp: quiet_def)
next
  assume "quiet b"
  then show "quiet (Dlog l # b)" using only_logs_quiet [of "[Dlog l]" b] by simp
qed

text \<open>A trace that only logs and answers with an error code.\<close>

definition refusal :: "dns_lib \<Rightarrow> dns_msg \<Rightarrow> dns_event list \<Rightarrow> bool" where
  "refusal L request evs \<longleftrightarrow> (\<exists>logs rc. only_logs logs \<and> evs = logs @ respond_with_error L request rc)"

lemma respond_quiet [simp]: "quiet (respond_with_error L request rc)"
  unfolding quiet_def respond_with_error_def by (metis append_Nil list.simps(8))

lemma reply_quiet [simp]: "quiet [Dreply m]"
  unfolding quiet_def by (metis append_Nil list.simps(8))

lemma refusal_respond [simp]: "refusal L request (respond_with_error L request rc)"
  unfolding refusal_def using only_logs_basic(1) by fastforce

lemma only_logs_refusal: "only_logs a \<Longrightarrow> refusal L request b \<Longrightarrow> refusal L request (a @ b)"
  unfolding refusal_def by (metis append.assoc only_logs_append)

lemma refusal_Cons [simp]: "refusal L request b \<Longrightarrow> refusal L request (Dlog l # b)"
  using only_logs_refusal [of "[Dlog l]" L request b] by simp

lemma refusal_quiet: "refusal L request evs \<Longrightarrow> quiet evs"
  by (auto simp: refusal_def only_logs_quiet)

lemma quiet_events:
  assumes "quiet evs"
  shows "filter is_exchange evs = []" "filter is_resolved evs = []" "filter is_learn evs = []"
    "length (filter is_reply evs) = 1" "is_reply (last evs)"
proof -
  obtain ls m where "evs = map Dlog ls @ [Dreply m]" using assms by (auto simp: quiet_def)
  then show "filter is_exchange evs = []" "filter is_resolved evs = []" "filter is_learn evs = []"
    "length (filter is_reply evs) = 1" "is_reply (last evs)"
    by (auto simp: filter_empty_conv)
qed

lemma hardening_log_only [simp]: "only_logs (hardening_log L h cx reason)"
  by (simp add: hardening_log_def)

lemma log_audited_only [simp]: "only_logs (log_audited_query L h cx)"
  by (simp add: log_audited_query_def)

lemma sanitize_log_only: "only_logs (snd (sanitize_and_log_qname E L h n t a p))"
  by (simp add: sanitize_and_log_qname_def Let_def split: option.split)

lemma blocked_quiet:
  "quiet (handle_blocked_enforced_type L h request cx)"
  "quiet (handle_blocked_non_enforced_type L h request cx)"
  by (auto simp: handle_blocked_enforced_type_def handle_blocked_non_enforced_type_def Let_def
      intro!: only_logs_quiet)

lemma block_exfil_query_events:
  "block_exfil_query L h request cx = (stop, evs) \<Longrightarrow>
   if stop then refusal L request evs else only_logs evs"
  by (auto simp: block_exfil_query_def Let_def intro!: only_logs_refusal split: if_splits)

lemma block_exfil_response_events:
  "block_exfil_response L h request resp cx = (stop, evs) \<Longrightarrow> if stop then quiet evs else only_logs evs"
  by (auto simp: block_exfil_response_def Let_def intro!: only_logs_quiet split: if_splits)

lemma rate_limited_events:
  "rate_limited L h rq a p lmt = ((limited, evs), lmt') \<Longrightarrow>
   if limited then refusal L (rq_msg rq) evs else evs = []"
  by (auto simp: rate_limited_def Let_def intro!: only_logs_refusal split: if_splits option.splits prod.splits)

subsection \<open>The trace of a request\<close>

text \<open>Everything that \<open>handle_dns\<close> does before the decision: either the request ends with logs and
  one reply, or it reaches \<open>decide_query\<close> with a checked name.\<close>

lemma handle_dns_cases:
  assumes "handle_dns E L h xchg rq st = (evs, st')"
  obtains (ended) "refusal L (rq_msg rq) evs"
    | (decided) pre q qs cx where "evs = pre @ decide_query E L h xchg (rq_msg rq) cx" "only_logs pre"
        "question (rq_msg rq) = q # qs" "cx_qtype cx = q_type q"
        "cx_qname cx = [] \<and> trim_suffix (q_name q) ''.'' = [] \<or>
         sanitize_dns_qname E (trim_suffix (q_name q) ''.'') = Some (cx_qname cx)"
        "DNSHardening (h_opts h) \<Longrightarrow> hardening_enforced h \<Longrightarrow> cx_qname cx \<noteq> [] \<Longrightarrow>
         check_exfil_query (cx_qname cx) (cx_qtype cx) = []"
proof -
  obtain addr port where a: "parse_remote_addr (rq_writer rq) = (addr, port)" by fastforce
  obtain limited evs0 lmt where r:
    "rate_limited L h rq addr port (ds_limiter st) = ((limited, evs0), lmt)" by (metis prod.exhaust)
  note rl = rate_limited_events [OF r]
  show thesis
  proof (cases limited)
    case True
    then have "evs = evs0" using assms a r by (simp add: handle_dns_def)
    then show thesis using True rl ended by simp
  next
    case False
    obtain fid syn tab where s: "emit_synthetic_event E h (rq_clock rq) (rq_writer rq) addr port
        (ds_synthetic (st\<lparr>ds_limiter := lmt\<rparr>)) = (fid, syn, tab)" by (metis prod.exhaust)
    show thesis
    proof (cases "question (rq_msg rq)")
      case Nil
      then have "evs = map Dlog syn @ respond_with_error L (rq_msg rq) rcode_format_error"
        using assms a r s False by (simp add: handle_dns_def)
      then show thesis using ended only_logs_refusal by simp
    next
      case (Cons q qs)
      obtain name evs1 where n: "sanitize_and_log_qname E L h (q_name q) (q_type q) addr port =
          (name, evs1)" by fastforce
      have logs1: "only_logs evs1"
        using sanitize_log_only [of E L h "q_name q" "q_type q" addr port] n by simp
      show thesis
      proof (cases name)
        case None
        then have "evs = map Dlog syn @ evs1 @ respond_with_error L (rq_msg rq) rcode_refused"
          using assms a r s False Cons n by (simp add: handle_dns_def)
        then show thesis using ended only_logs_refusal logs1 by simp
      next
        case (Some qname)
        let ?cx = "\<lparr>cx_qname = qname, cx_qtype = q_type q, cx_addr = addr, cx_port = port, cx_flow = fid\<rparr>"
        obtain stop evs2 where b: "block_exfil_query L h (rq_msg rq) ?cx = (stop, evs2)" by fastforce
        note b' = block_exfil_query_events [OF b]
        show thesis
        proof (cases stop)
          case True
          then have "evs = map Dlog syn @ evs1 @ evs2"
            using assms a r s False Cons n Some b by (simp add: handle_dns_def)
          then show thesis using ended only_logs_refusal logs1 b' True by simp
        next
          case go: False
          have "evs = (map Dlog syn @ evs1 @ evs2) @ decide_query E L h xchg (rq_msg rq) ?cx"
            using assms a r s False Cons n Some b go by (simp add: handle_dns_def)
          moreover have "only_logs (map Dlog syn @ evs1 @ evs2)"
            using logs1 b' go by (simp add: only_logs_append)
          moreover have "qname = [] \<and> trim_suffix (q_name q) ''.'' = [] \<or>
              sanitize_dns_qname E (trim_suffix (q_name q) ''.'') = Some qname"
            using n Some by (auto simp: sanitize_and_log_qname_def Let_def split: option.splits if_splits)
          moreover have "check_exfil_query qname (q_type q) = []"
            if "DNSHardening (h_opts h)" "hardening_enforced h" "qname \<noteq> []"
            using b go that by (auto simp: block_exfil_query_def Let_def split: if_splits)
          ultimately show thesis
            using decided [of "map Dlog syn @ evs1 @ evs2" ?cx q qs] Cons by auto
        qed
      qed
    qed
  qed
qed

lemma forward_loop_events:
  "forward_loop xchg request ups = (r, evs) \<Longrightarrow> set ups \<subseteq> U \<Longrightarrow>
   (\<forall>e \<in> set evs. \<exists>p up. e = Dexchange p up request \<and> up \<in> U) \<and>
   length evs \<le> 3 * length ups \<and>
   (\<forall>m. r = Some m \<longrightarrow> (\<exists>p a up. up \<in> U \<and> xchg p a up request = Some m))"
proof (induction ups arbitrary: r evs)
  case Nil
  then show ?case by simp
next
  case (Cons up ups)
  obtain r0 evs0 where rest: "forward_loop xchg request ups = (r0, evs0)" by fastforce
  have ih: "\<forall>e \<in> set evs0. \<exists>p up. e = Dexchange p up request \<and> up \<in> U"
    "length evs0 \<le> 3 * length ups"
    "\<forall>m. r0 = Some m \<longrightarrow> (\<exists>p a up. up \<in> U \<and> xchg p a up request = Some m)"
    using Cons.IH [OF rest] Cons.prems(2) by auto
  have up: "up \<in> U" using Cons.prems(2) by simp
  show ?case
  proof (cases "xchg ''udp'' 0 up request")
    case (Some m)
    then show ?thesis using Cons.prems(1) rest ih up
      by (cases "xchg ''tcp'' 0 up request") (auto split: if_splits)
  next
    case None
    show ?thesis
    proof (cases "xchg ''udp'' 1 up request")
      case (Some m)
      then show ?thesis using None Cons.prems(1) rest ih up
        by (cases "xchg ''tcp'' 0 up request") (auto split: if_splits)
    next
      case None': None
      then show ?thesis using None Cons.prems(1) rest ih up by auto
    qed
  qed
qed

lemma forward_events:
  assumes "forward h xchg request = (r, evs)"
  shows "filter is_reply evs = []" "filter is_resolved evs = []" "filter is_learn evs = []"
    "\<forall>m. r = Some m \<longrightarrow> (\<exists>p a up. up \<in> set (h_upstreams h) \<and> xchg p a up request = Some m)"
    "\<forall>e \<in> set evs. \<exists>p up. e = Dexchange p up request \<and> up \<in> set (h_upstreams h)"
  using forward_loop_events [OF assms [unfolded forward_def] subset_refl]
  by (auto simp: filter_empty_conv)

lemma only_logs_events:
  assumes "only_logs evs"
  shows "filter is_exchange evs = []" "filter is_resolved evs = []" "filter is_learn evs = []"
    "filter is_reply evs = []"
  using assms by (auto simp: only_logs_def filter_empty_conv)

lemma report_resolved_filter:
  "filter is_reply (report_resolved_ips h resp) = []" "filter is_exchange (report_resolved_ips h resp) = []"
  "filter is_learn (report_resolved_ips h resp) = []"
  by (auto simp: report_resolved_ips_def split: prod.splits)

lemma report_resolved_mem: "Dexchange p up m \<notin> set (report_resolved_ips h resp)"
  by (auto simp: report_resolved_ips_def split: prod.splits)

text \<open>The shape of what an allowed request does.\<close>

lemma handle_allowed_request_cases:
  obtains (failed) evs fin where "handle_allowed_request L h xchg request cx full = evs @ fin"
      "forward h xchg request = (None, evs)" "quiet fin"
    | (rejected) evs fin resp where "handle_allowed_request L h xchg request cx full = evs @ fin"
      "forward h xchg request = (Some resp, evs)" "quiet fin"
    | (answered) evs logs logs' resp where "handle_allowed_request L h xchg request cx full =
        evs @ logs @ (if full then report_resolved_ips h resp else []) @ logs' @ [Dreply resp]"
      "forward h xchg request = (Some resp, evs)" "only_logs logs" "only_logs logs'"
      "DNSHardening (h_opts h) \<Longrightarrow> hardening_enforced h \<Longrightarrow>
       check_exfil_response (msg_len L) (Some resp) = []"
proof -
  obtain r evs where f: "forward h xchg request = (r, evs)" by fastforce
  show thesis
  proof (cases r)
    case None
    let ?fin = "(if HasLogger (h_opts h) then
             [Dlog (log_line Warn ''dns.upstream_error''
                [(''component'', VS ''dns''), (''action'', VS ''ERROR''), (''qname'', VS (cx_qname cx)),
                 (''qtype'', VS (type_string L (cx_qtype cx))), (''source_ip'', VS (cx_addr cx)),
                 (''source_port'', VI (cx_port cx))])]
           else []) @ respond_with_error L request rcode_server_failure"
    have "quiet ?fin" by simp
    then show thesis using failed [of evs ?fin] f None by (simp add: handle_allowed_request_def)
  next
    case (Some resp)
    obtain stop evs2 where b: "block_exfil_response L h request resp cx = (stop, evs2)" by fastforce
    note b' = block_exfil_response_events [OF b]
    show thesis
    proof (cases stop)
      case True
      then show thesis using rejected [of evs evs2 resp] f Some b b'
        by (simp add: handle_allowed_request_def)
    next
      case False
      let ?logs' = "if HasLogger (h_opts h) \<and> full then
                     [Dlog (log_line Info ''dns.allowed''
                        (cx_fields L h cx ''ALLOWED'' @ [(''rcode'', VS (rcode_string L (rcode resp)))]))]
                   else []"
      have "only_logs ?logs'" by simp
      moreover have "check_exfil_response (msg_len L) (Some resp) = []"
        if "DNSHardening (h_opts h)" "hardening_enforced h"
        using b False that by (auto simp: block_exfil_response_def Let_def split: if_splits)
      ultimately show thesis
        using answered [of evs evs2 resp ?logs'] f Some b b' False
        by (simp add: handle_allowed_request_def)
    qed
  qed
qed

lemma learn_filter:
  "filter is_reply (map (\<lambda>(k, v). Dlearn k v) xs) = []"
  "filter is_exchange (map (\<lambda>(k, v). Dlearn k v) xs) = []"
  "filter is_resolved (map (\<lambda>(k, v). Dlearn k v) xs) = []"
  by (auto simp: filter_empty_conv)

lemma decide_query_cases:
  obtains (blocked) "quiet (decide_query E L h xchg request cx)"
      "\<not> host_permitted_by E (cx_qname cx) (h_allowlist h) (h_opts h)" "\<not> AuditMode (h_opts h)"
    | (allowed) logs full where "decide_query E L h xchg request cx =
        logs @ map (\<lambda>(k, v). Dlearn k v) (maybe_learn_host_by E (cx_qname cx) (h_allowlist h) (h_opts h))
        @ handle_allowed_request L h xchg request cx full" "only_logs logs"
        "full \<longleftrightarrow> host_permitted_by E (cx_qname cx) (h_allowlist h) (h_opts h)"
        "full \<or> AuditMode (h_opts h)"
proof (cases "\<not> host_permitted_by E (cx_qname cx) (h_allowlist h) (h_opts h) \<and> \<not> AuditMode (h_opts h)")
  case True
  then show thesis using blocked blocked_quiet by (simp add: decide_query_def audited_def)
next
  case False
  let ?full = "host_permitted_by E (cx_qname cx) (h_allowlist h) (h_opts h)"
  show thesis
    using False allowed [of "if audited ?full (h_opts h) then log_audited_query L h cx else []" ?full]
    by (auto simp: decide_query_def audited_def Let_def)
qed

lemma handle_allowed_one_reply:
  "length (filter is_reply (handle_allowed_request L h xchg request cx full)) = 1 \<and>
   is_reply (last (handle_allowed_request L h xchg request cx full))"
proof -
  have fin: "fin \<noteq> [] \<and> length (filter is_reply fin) = 1 \<and> is_reply (last fin)" if "quiet fin" for fin
    using quiet_events [OF that] by (cases fin) auto
  show ?thesis
  proof (cases rule: handle_allowed_request_cases [of L h xchg request cx full])
    case (failed evs fin)
    then show ?thesis using fin [OF failed(3)] forward_events(1) [OF failed(2)] by simp
  next
    case (rejected evs fin resp)
    then show ?thesis using fin [OF rejected(3)] forward_events(1) [OF rejected(2)] by simp
  next
    case (answered evs logs logs' resp)
    then show ?thesis
      using forward_events(1) [OF answered(2)] only_logs_events(4) report_resolved_filter(1)
      by simp
  qed
qed

lemma decide_query_one_reply:
  "length (filter is_reply (decide_query E L h xchg request cx)) = 1 \<and>
   is_reply (last (decide_query E L h xchg request cx))"
proof -
  have ne: "handle_allowed_request L h xchg request cx full \<noteq> []" for full
    using handle_allowed_one_reply [of L h xchg request cx full] by auto
  show ?thesis
    using handle_allowed_one_reply [of L h xchg request cx] ne blocked_quiet [THEN quiet_events(4)]
      blocked_quiet [THEN quiet_events(5)] learn_filter(1) only_logs_events(4) [OF log_audited_only]
    by (simp add: decide_query_def Let_def)
qed

text \<open>Every DNS request gets exactly one answer, and the answer is the last thing that happens.
  In particular the resolved addresses are pushed before the client sees them, and no path, be it a
  rate limit, a bad name, a refused shape, a failed upstream or a rejected answer, stays silent or
  answers twice.\<close>

theorem dns_one_reply:
  "length (filter is_reply (fst (handle_dns E L h xchg rq st))) = 1 \<and>
   is_reply (last (fst (handle_dns E L h xchg rq st)))"
proof -
  obtain evs st' where e: "handle_dns E L h xchg rq st = (evs, st')" by fastforce
  show ?thesis
  proof (cases rule: handle_dns_cases [OF e])
    case 1
    then show ?thesis using e quiet_events [OF refusal_quiet [OF 1]] by simp
  next
    case (2 pre q qs cx)
    have "decide_query E L h xchg (rq_msg rq) cx \<noteq> []"
      using decide_query_one_reply [of E L h xchg "rq_msg rq" cx] by auto
    then show ?thesis
      using e 2(1) only_logs_events(4) [OF 2(2)] decide_query_one_reply [of E L h xchg "rq_msg rq" cx]
      by simp
  qed
qed

lemma handle_allowed_exchanges:
  assumes "Dexchange p up m \<in> set (filter is_exchange (handle_allowed_request L h xchg request cx full))"
  shows "up \<in> set (h_upstreams h) \<and> m = request"
proof (cases rule: handle_allowed_request_cases [of L h xchg request cx full])
  case (failed evs fin)
  have "Dexchange p up m \<in> set (filter is_exchange evs)"
    using assms quiet_events(1) [OF failed(3)] by (simp add: failed(1))
  then show ?thesis using forward_events(5) [OF failed(2)] by fastforce
next
  case (rejected evs fin resp)
  have "Dexchange p up m \<in> set (filter is_exchange evs)"
    using assms quiet_events(1) [OF rejected(3)] by (simp add: rejected(1))
  then show ?thesis using forward_events(5) [OF rejected(2)] by fastforce
next
  case (answered evs logs logs' resp)
  have "Dexchange p up m \<in> set (filter is_exchange evs)"
    using assms only_logs_events(1) [OF answered(3)] only_logs_events(1) [OF answered(4)]
      report_resolved_mem by (simp add: answered(1) split: if_splits)
  then show ?thesis using forward_events(5) [OF answered(2)] by fastforce
qed

definition query_name_ok :: "env \<Rightarrow> dns_msg \<Rightarrow> string \<Rightarrow> bool" where
  \<comment> \<open>the name a request is decided on\<close>
  "query_name_ok E m name \<longleftrightarrow>
     (case question m of
        [] \<Rightarrow> False
      | q # _ \<Rightarrow>
          (let n = trim_suffix (q_name q) ''.''
           in name = [] \<and> n = [] \<or> sanitize_dns_qname E n = Some name))"

text \<open>C8: nothing leaves the proxy that the policy forbids. When a request is forwarded, it goes
  unchanged to a configured upstream, its name is a valid DNS name (or the root), the policy permits
  the name or audit mode is on, and, unless the mode only observes, the name passed the tunnel
  checks.\<close>

theorem dns_forward_permitted:
  assumes "Dexchange p up m \<in> set (fst (handle_dns E L h xchg rq st))"
  shows "up \<in> set (h_upstreams h) \<and> m = rq_msg rq \<and>
    (\<exists>name. query_name_ok E m name \<and>
      (host_permitted_by E name (h_allowlist h) (h_opts h) \<or> AuditMode (h_opts h)) \<and>
      (DNSHardening (h_opts h) \<and> hardening_enforced h \<and> name \<noteq> [] \<longrightarrow>
        check_exfil_query name (q_type (hd (question m))) = []))"
proof -
  obtain evs st' where e: "handle_dns E L h xchg rq st = (evs, st')" by fastforce
  have mem: "Dexchange p up m \<in> set (filter is_exchange evs)" using assms e by simp
  show ?thesis
  proof (cases rule: handle_dns_cases [OF e])
    case 1
    then show ?thesis using mem quiet_events(1) [OF refusal_quiet [OF 1]] by simp
  next
    case (2 pre q qs cx)
    have mem2: "Dexchange p up m \<in> set (filter is_exchange (decide_query E L h xchg (rq_msg rq) cx))"
      using mem 2(1) only_logs_events(1) [OF 2(2)] by simp
    show ?thesis
    proof (cases rule: decide_query_cases [of E L h xchg "rq_msg rq" cx])
      case blocked
      then show ?thesis using mem2 quiet_events(1) [OF blocked(1)] by (metis empty_iff empty_set)
    next
      case (allowed logs full)
      have "Dexchange p up m \<in> set (filter is_exchange (handle_allowed_request L h xchg (rq_msg rq) cx full))"
        using mem2 allowed(1) learn_filter(2) only_logs_events(1) [OF allowed(2)] by simp
      with handle_allowed_exchanges have "up \<in> set (h_upstreams h) \<and> m = rq_msg rq" by blast
      moreover have "query_name_ok E (rq_msg rq) (cx_qname cx)"
        using 2(3,5) by (auto simp: query_name_ok_def Let_def)
      ultimately show ?thesis using allowed(3,4) 2(3,4,6) by auto
    qed
  qed
qed

text \<open>A concrete proxy for the examples: one upstream, default deny with one allowed name.\<close>

definition sample_lib :: dns_lib where
  "sample_lib =
     \<lparr>set_reply = (\<lambda>m. m\<lparr>answer := [], rcode := 0, truncated := False\<rparr>), msg_len = (\<lambda>_. 64),
      type_to_string = (\<lambda>_. []), rcode_to_string = (\<lambda>_. [])\<rparr>"

definition sample_handler :: dns_handler where
  "sample_handler =
     \<lparr>h_allowlist = \<lparr>exact = [''a.example''], patterns = []\<rparr>, h_opts = plain_options,
      h_upstreams = [''127.0.0.11:53''], h_timeout = second\<rparr>"

definition sample_query :: "string \<Rightarrow> dns_request" where
  "sample_query n =
     \<lparr>rq_writer = \<lparr>w_remote = None, w_local = None\<rparr>,
      rq_msg = \<lparr>question = [\<lparr>q_name = n, q_type = 1\<rparr>], answer = [], rcode = 0, truncated = False\<rparr>,
      rq_now = 0, rq_clock = (0, 0)\<rparr>"

definition sample_answer :: dns_msg where
  "sample_answer =
     \<lparr>question = [], answer = [RR_A \<lparr>rr_name = ''a.example'', rr_ttl = 300\<rparr> (Some [192, 0, 2, 1])],
      rcode = 0, truncated = False\<rparr>"

definition sample_state :: dns_state where
  "sample_state = \<lparr>ds_limiter = None, ds_synthetic = synthetic_init\<rparr>"

lemmas sample_defs = sample_lib_def sample_handler_def sample_query_def sample_answer_def
  sample_state_def

abbreviation sample_upstream :: exchange where
  "sample_upstream \<equiv> \<lambda>_ _ _ _. Some sample_answer"

definition permits_sample :: "dns_handler \<Rightarrow> bool" where
  "permits_sample h \<longleftrightarrow>
     host_permitted_by ascii_env ''a.example'' (h_allowlist h) (h_opts h) \<and> \<not> LearningMode (h_opts h) \<and>
     OnResolved (h_opts h) \<and> HasLogger (h_opts h) \<and> h_upstreams h = [''127.0.0.11:53'']"

lemma sample_allowed:
  assumes "cx_qname cx = ''a.example''" "permits_sample h"
  shows "decide_query ascii_env sample_lib h sample_upstream m cx =
    [Dexchange ''udp'' ''127.0.0.11:53'' m, Dresolved [''192.0.2.1''] 300,
     Dlog (log_line Info ''dns.allowed''
       (cx_fields sample_lib h cx ''ALLOWED'' @ [(''rcode'', VS ''NOERROR'')])),
     Dreply sample_answer]"
proof -
  note h = assms(2) [unfolded permits_sample_def]
  have "check_exfil_response (msg_len sample_lib) (Some sample_answer) = []"
    by (simp add: sample_lib_def sample_answer_def go_unfold)
  then have r: "block_exfil_response sample_lib h m sample_answer cx = (False, [])"
    by (simp add: block_exfil_response_def)
  have f: "forward h sample_upstream m = (Some sample_answer, [Dexchange ''udp'' ''127.0.0.11:53'' m])"
    using h by (simp add: forward_def sample_answer_def)
  have ip: "ip_string [192, 0, 2, 1] = ''192.0.2.1''"
    by (simp add: ip_string_def to4_def v4_text_def itoa_def) (simp add: nat_digits.simps digit_chars_def)
  have "report_resolved_ips h sample_answer = [Dresolved [''192.0.2.1''] 300]"
    using h by (simp add: report_resolved_ips_def extract_answer_ips_def sample_answer_def ip del: One_nat_def)
  moreover have "maybe_learn_host_by ascii_env ''a.example'' (h_allowlist h) (h_opts h) = []"
    "rcode_string sample_lib (rcode sample_answer) = ''NOERROR''"
    using h by (simp_all add: maybe_learn_host_by_def rcode_string_def sample_answer_def rcodes)
  ultimately show ?thesis
    using h r assms(1) by (simp add: decide_query_def handle_allowed_request_def f audited_def)
qed

lemma sample_trace:
  assumes "permits_sample h"
  shows "\<exists>pre cx. fst (handle_dns ascii_env sample_lib h sample_upstream (sample_query ''A.example.'') sample_state) =
     map Dlog pre @ [Dexchange ''udp'' ''127.0.0.11:53'' (rq_msg (sample_query ''A.example.'')),
       Dresolved [''192.0.2.1''] 300,
       Dlog (log_line Info ''dns.allowed''
         (cx_fields sample_lib h cx ''ALLOWED'' @ [(''rcode'', VS ''NOERROR'')])), Dreply sample_answer]"
proof -
  have q: "sanitize_dns_qname ascii_env ''A.example'' = Some ''a.example''"
    by (simp add: go_unfold Let_def)
  have "check_exfil_query ''a.example'' 1 = []" by (simp add: go_unfold)
  then have b: "block_exfil_query sample_lib h m
      \<lparr>cx_qname = ''a.example'', cx_qtype = 1, cx_addr = [], cx_port = 0, cx_flow = f\<rparr> = (False, [])" for f m
    by (simp add: block_exfil_query_def)
  obtain fid syn tab where s: "emit_synthetic_event ascii_env h (0, 0)
      \<lparr>w_remote = None, w_local = None\<rparr> [] 0 synthetic_init = (fid, syn, tab)" by (metis prod.exhaust)
  let ?cx = "\<lparr>cx_qname = ''a.example'', cx_qtype = 1, cx_addr = [], cx_port = 0, cx_flow = fid\<rparr>"
  have "fst (handle_dns ascii_env sample_lib h sample_upstream (sample_query ''A.example.'') sample_state) =
     map Dlog syn @ decide_query ascii_env sample_lib h sample_upstream (rq_msg (sample_query ''A.example.'')) ?cx"
    using q b s
    by (simp add: handle_dns_def sample_query_def sample_state_def parse_remote_addr_def
        rate_limited_def sanitize_and_log_qname_def trim_suffix_def has_suffix_def Let_def)
  then show ?thesis by (intro exI [of _ syn] exI [of _ ?cx]) (simp add: sample_allowed [OF _ assms])
qed

lemma sample_handler_permits: "permits_sample sample_handler"
proof -
  have "trim_space ''a.example'' = ''a.example''" by code_simp
  then show ?thesis by (simp add: permits_sample_def sample_handler_def plain_options_def go_unfold)
qed

lemma sample_events:
  "Dexchange ''udp'' ''127.0.0.11:53'' (rq_msg (sample_query ''A.example.''))
     \<in> set (fst (handle_dns ascii_env sample_lib sample_handler sample_upstream
         (sample_query ''A.example.'') sample_state))"
  "Dresolved [''192.0.2.1''] 300
     \<in> set (fst (handle_dns ascii_env sample_lib sample_handler sample_upstream
         (sample_query ''A.example.'') sample_state))"
  using sample_trace [OF sample_handler_permits] by auto

lemma dns_forward_permitted_witness:
  "''127.0.0.11:53'' \<in> set (h_upstreams sample_handler)"
  using dns_forward_permitted [OF sample_events(1)] by blast

subsection \<open>The resolved set\<close>

definition addresses :: "dns_msg \<Rightarrow> (ip \<times> 32 word) list" where
  "addresses m = List.map_filter rr_address (answer m)"

lemma extract_loop_spec:
  "extract_loop rs ips m h =
     (ips @ map (ip_string \<circ> fst) (List.map_filter rr_address rs),
      fold (\<lambda>ttl best. min ttl best) (map snd (List.map_filter rr_address rs))
        (if h then m else (case List.map_filter rr_address rs of [] \<Rightarrow> m | (_, t) # _ \<Rightarrow> t)))"
proof (induction rs ips m h rule: extract_loop.induct)
  case (1 ips m h)
  then show ?case by simp
next
  case (2 r rs ips m h)
  show ?case
  proof (cases "rr_address r")
    case None
    then show ?thesis using 2 by simp
  next
    case (Some a)
    obtain i t where a: "a = (i, t)" by (cases a)
    show ?thesis
    proof (cases "\<not> h \<or> t < m")
      case True
      then show ?thesis using Some a 2 by (auto simp: min_def)
    next
      case False
      then show ?thesis using Some a 2 by (auto simp: min_def)
    qed
  qed
qed

lemma fold_min_spec:
  "fold (\<lambda>t best. min t best) ts m \<le> m \<and> (\<forall>t \<in> set ts. fold (\<lambda>t best. min t best) ts m \<le> t) \<and>
   fold (\<lambda>t best. min t best) ts m \<in> insert m (set ts)" for m :: "'a :: linorder"
proof (induction ts arbitrary: m)
  case Nil
  then show ?case by simp
next
  case (Cons t ts)
  have "min t m \<le> t" "min t m \<le> m" "min t m \<in> {t, m}" by (auto simp: min_def)
  then show ?case using Cons.IH [of "min t m"] by (auto intro: order_trans)
qed

lemma extract_answer_ips_spec:
  assumes "extract_answer_ips m = (ips, ttl)" "ips \<noteq> []"
  shows "ips = map (ip_string \<circ> fst) (addresses m) \<and> (\<exists>i. (i, ttl) \<in> set (addresses m)) \<and>
    (\<forall>(i, t) \<in> set (addresses m). ttl \<le> t)"
proof -
  have ips: "ips = map (ip_string \<circ> fst) (addresses m)" and ttl: "ttl = fold (\<lambda>t best. min t best)
      (map snd (addresses m)) (case addresses m of [] \<Rightarrow> 0 | (_, t) # _ \<Rightarrow> t)"
    using assms(1) by (auto simp: extract_answer_ips_def extract_loop_spec addresses_def)
  obtain i t rest where a: "addresses m = (i, t) # rest"
    using assms(2) ips by (cases "addresses m") auto
  have "ttl \<in> insert t (set (map snd (addresses m)))" "\<forall>x \<in> set (map snd (addresses m)). ttl \<le> x"
    using fold_min_spec [of "map snd (addresses m)" t] ttl a by simp_all
  then show ?thesis using ips a by auto
qed

lemma handle_allowed_resolved:
  assumes "Dresolved ips ttl \<in> set (filter is_resolved (handle_allowed_request L h xchg request cx full))"
  shows "full \<and> (\<exists>resp p a up. up \<in> set (h_upstreams h) \<and> xchg p a up request = Some resp \<and>
    last (handle_allowed_request L h xchg request cx full) = Dreply resp \<and>
    extract_answer_ips resp = (ips, ttl) \<and> ips \<noteq> [])"
proof (cases rule: handle_allowed_request_cases [of L h xchg request cx full])
  case (failed evs fin)
  then show ?thesis using assms forward_events(2) [OF failed(2)] quiet_events(2) [OF failed(3)] by simp
next
  case (rejected evs fin resp)
  then show ?thesis using assms forward_events(2) [OF rejected(2)] quiet_events(2) [OF rejected(3)] by simp
next
  case (answered evs logs logs' resp)
  have "full \<and> Dresolved ips ttl \<in> set (report_resolved_ips h resp)"
    using assms forward_events(2) [OF answered(2)] only_logs_events(2) [OF answered(3)]
      only_logs_events(2) [OF answered(4)]
    by (simp add: answered(1) filter_empty_conv split: if_splits)
  then show ?thesis
    using answered(1) forward_events(4) [OF answered(2)]
    by (auto simp: report_resolved_ips_def split: prod.splits if_splits)
qed

lemma resolved_from_answer:
  assumes "Dresolved ips ttl \<in> set (fst (handle_dns E L h xchg rq st))"
  shows "\<exists>name resp p a up. query_name_ok E (rq_msg rq) name \<and>
    host_permitted_by E name (h_allowlist h) (h_opts h) \<and>
    up \<in> set (h_upstreams h) \<and> xchg p a up (rq_msg rq) = Some resp \<and>
    last (fst (handle_dns E L h xchg rq st)) = Dreply resp \<and>
    ips = map (ip_string \<circ> fst) (addresses resp) \<and>
    (\<exists>i. (i, ttl) \<in> set (addresses resp)) \<and> (\<forall>(i, t) \<in> set (addresses resp). ttl \<le> t)"
proof -
  obtain evs st' where e: "handle_dns E L h xchg rq st = (evs, st')" by fastforce
  have mem: "Dresolved ips ttl \<in> set (filter is_resolved evs)" using assms e by simp
  show ?thesis
  proof (cases rule: handle_dns_cases [OF e])
    case 1
    then show ?thesis using mem quiet_events(2) [OF refusal_quiet [OF 1]] by simp
  next
    case (2 pre q qs cx)
    have mem2: "Dresolved ips ttl \<in> set (filter is_resolved (decide_query E L h xchg (rq_msg rq) cx))"
      using mem 2(1) only_logs_events(2) [OF 2(2)] by simp
    show ?thesis
    proof (cases rule: decide_query_cases [of E L h xchg "rq_msg rq" cx])
      case blocked
      then show ?thesis using mem2 quiet_events(2) [OF blocked(1)] by (metis empty_iff empty_set)
    next
      case (allowed logs full)
      let ?a = "handle_allowed_request L h xchg (rq_msg rq) cx full"
      have "Dresolved ips ttl \<in> set (filter is_resolved ?a)"
        using mem2 allowed(1) learn_filter(3) only_logs_events(2) [OF allowed(2)] by simp
      from handle_allowed_resolved [OF this] obtain resp p a up where full: "full" and
        r: "up \<in> set (h_upstreams h)" "xchg p a up (rq_msg rq) = Some resp" "last ?a = Dreply resp"
        "extract_answer_ips resp = (ips, ttl)" "ips \<noteq> []" by blast
      have "?a \<noteq> []" using handle_allowed_one_reply [of L h xchg "rq_msg rq" cx full] by auto
      then have "last evs = Dreply resp" using 2(1) allowed(1) r(3) by simp
      moreover have "query_name_ok E (rq_msg rq) (cx_qname cx)"
        using 2(3,5) by (auto simp: query_name_ok_def Let_def)
      ultimately show ?thesis
        using full allowed(3) r extract_answer_ips_spec [OF r(4,5)] e by auto
    qed
  qed
qed

text \<open>Only permitted answers open the firewall in dns-strict mode. Addresses are handed to the
  kernel's resolved set only for a name the policy permits (never for one that only audit mode let
  through), they are exactly the addresses of the A and AAAA records of the upstream's answer that
  the client then receives, and their lifetime is the smallest TTL among those records.\<close>

theorem dns_resolved_sound:
  assumes "Dresolved ips ttl \<in> set (fst (handle_dns E L h xchg rq st))"
  shows "\<exists>name resp p a up. query_name_ok E (rq_msg rq) name \<and>
    host_permitted_by E name (h_allowlist h) (h_opts h) \<and>
    up \<in> set (h_upstreams h) \<and> xchg p a up (rq_msg rq) = Some resp \<and>
    last (fst (handle_dns E L h xchg rq st)) = Dreply resp \<and>
    ips = map (ip_string \<circ> fst) (addresses resp) \<and>
    (\<exists>i. (i, ttl) \<in> set (addresses resp)) \<and> (\<forall>(i, t) \<in> set (addresses resp). ttl \<le> t)"
  using assms by (rule resolved_from_answer)

lemma dns_resolved_sound_witness:
  "\<exists>name. query_name_ok ascii_env (rq_msg (sample_query ''A.example.'')) name \<and>
     host_permitted_by ascii_env name (h_allowlist sample_handler) plain_options"
  using dns_resolved_sound [OF sample_events(2)] by (auto simp: sample_handler_def)

subsection \<open>Blocked names\<close>

lemma blocked_answer:
  assumes "\<And>m. answer (set_reply L m) = []"
  shows "\<exists>ls m. handle_blocked_enforced_type L h request cx = map Dlog ls @ [Dreply m] \<and>
      (\<forall>(i, t) \<in> set (addresses m). i = v4_in_v6_prefix @ [0, 0, 0, 0] \<or> i = replicate 16 0)"
    and "\<exists>ls m. handle_blocked_non_enforced_type L h request cx = map Dlog ls @ [Dreply m] \<and>
      (\<forall>(i, t) \<in> set (addresses m). i = v4_in_v6_prefix @ [0, 0, 0, 0] \<or> i = replicate 16 0)"
proof -
  have logs: "\<exists>ls. (if b then [Dlog l] else []) = map Dlog ls" for b l
    by (metis list.simps(8) list.simps(9))
  show "\<exists>ls m. handle_blocked_enforced_type L h request cx = map Dlog ls @ [Dreply m] \<and>
      (\<forall>(i, t) \<in> set (addresses m). i = v4_in_v6_prefix @ [0, 0, 0, 0] \<or> i = replicate 16 0)"
    using logs assms
    by (auto simp: handle_blocked_enforced_type_def Let_def addresses_def)
  show "\<exists>ls m. handle_blocked_non_enforced_type L h request cx = map Dlog ls @ [Dreply m] \<and>
      (\<forall>(i, t) \<in> set (addresses m). i = v4_in_v6_prefix @ [0, 0, 0, 0] \<or> i = replicate 16 0)"
    using logs assms
    by (auto simp: handle_blocked_non_enforced_type_def respond_with_error_def addresses_def)
qed

text \<open>C15: a blocked name is answered by the proxy itself. When the policy forbids the name of a
  request and audit mode is off, no upstream is asked, and the answer contains no address other than
  the sinkhole addresses \<^verbatim>\<open>0.0.0.0\<close> and \<^verbatim>\<open>::\<close>; nothing is learned and nothing is added to the
  resolved set. The assumption is that \<^verbatim>\<open>SetReply\<close> starts from an empty answer section.\<close>

theorem dns_blocked_sinkholed:
  assumes "\<And>m. answer (set_reply L m) = []"
    and "\<And>name. query_name_ok E (rq_msg rq) name \<Longrightarrow>
           \<not> host_permitted_by E name (h_allowlist h) (h_opts h)"
    and "\<not> AuditMode (h_opts h)"
  shows "\<exists>ls m. fst (handle_dns E L h xchg rq st) = map Dlog ls @ [Dreply m] \<and>
    (\<forall>(i, t) \<in> set (addresses m). i = v4_in_v6_prefix @ [0, 0, 0, 0] \<or> i = replicate 16 0)"
proof -
  obtain evs st' where e: "handle_dns E L h xchg rq st = (evs, st')" by fastforce
  show ?thesis
  proof (cases rule: handle_dns_cases [OF e])
    case 1
    then obtain ls rc where "evs = map Dlog ls @ respond_with_error L (rq_msg rq) rc"
      by (auto simp: refusal_def only_logs_def)
    then show ?thesis using e assms(1) by (auto simp: respond_with_error_def addresses_def)
  next
    case (2 pre q qs cx)
    have "query_name_ok E (rq_msg rq) (cx_qname cx)"
      using 2(3,5) by (auto simp: query_name_ok_def Let_def)
    then have "\<not> host_permitted_by E (cx_qname cx) (h_allowlist h) (h_opts h)" by (rule assms(2))
    then have "decide_query E L h xchg (rq_msg rq) cx =
        (if cx_qtype cx = type_a \<or> cx_qtype cx = type_aaaa
         then handle_blocked_enforced_type L h (rq_msg rq) cx
         else handle_blocked_non_enforced_type L h (rq_msg rq) cx)"
      using assms(3) by (simp add: decide_query_def audited_def)
    then obtain ls m where d: "decide_query E L h xchg (rq_msg rq) cx = map Dlog ls @ [Dreply m]"
      "\<forall>(i, t) \<in> set (addresses m). i = v4_in_v6_prefix @ [0, 0, 0, 0] \<or> i = replicate 16 0"
      using blocked_answer [OF assms(1), where h = h and request = "rq_msg rq" and cx = cx]
      by (cases "cx_qtype cx = type_a \<or> cx_qtype cx = type_aaaa") auto
    obtain ls' where "pre = map Dlog ls'" using 2(2) by (auto simp: only_logs_def)
    then have "evs = map Dlog (ls' @ ls) @ [Dreply m]" using 2(1) d(1) by simp
    then show ?thesis
      using e d(2) by (intro exI [of _ "ls' @ ls"] exI [of _ m]) simp
  qed
qed

lemma dns_blocked_sinkholed_witness:
  "\<exists>ls m. fst (handle_dns ascii_env sample_lib sample_handler sample_upstream
      (sample_query ''evil.example.'') sample_state) = map Dlog ls @ [Dreply m]"
proof -
  have t: "trim_space ''evil.example'' = ''evil.example''" by code_simp
  have s: "sanitize_dns_qname ascii_env ''evil.example'' = Some ''evil.example''"
    by (simp add: go_unfold Let_def)
  have p: "\<not> host_permitted_by ascii_env ''evil.example'' (h_allowlist sample_handler) plain_options"
    by (simp add: sample_handler_def t go_unfold)
  have "\<not> host_permitted_by ascii_env name (h_allowlist sample_handler) (h_opts sample_handler)"
    if "query_name_ok ascii_env (rq_msg (sample_query ''evil.example.'')) name" for name
  proof -
    have "name = ''evil.example''"
      using that s by (auto simp: query_name_ok_def sample_query_def trim_suffix_def has_suffix_def)
    with p show ?thesis by (simp add: sample_handler_def)
  qed
  moreover have "answer (set_reply sample_lib m) = []" for m by (simp add: sample_lib_def)
  moreover have "\<not> AuditMode (h_opts sample_handler)" by (simp add: sample_handler_def plain_options_def)
  ultimately show ?thesis
    using dns_blocked_sinkholed [of sample_lib ascii_env "sample_query ''evil.example.''" sample_handler]
    by blast
qed

end
