(* ===== verification/Resolved.thy ===== *)
theory Resolved
  imports FilterCommon Firewall
begin

text \<open>
  \<^verbatim>\<open>internal/nftables/resolved.go\<close>: addresses that the DNS proxy resolved for allowed domains
  are added to the timeout sets of the dns-strict ruleset. \<^verbatim>\<open>nft\<close> is a parameter that acts on
  the state of the kernel.
\<close>

definition min_resolved_ttl :: nanos where "min_resolved_ttl = 60 * second"
definition max_resolved_ttl :: nanos where "max_resolved_ttl = 24 * hour"

definition clamp_ttl :: "nanos \<Rightarrow> nanos" where
  "clamp_ttl ttl =
     (if ttl < min_resolved_ttl then min_resolved_ttl
      else if ttl > max_resolved_ttl then max_resolved_ttl else ttl)"

datatype resolved_error =
    InvalidResolvedIP string
  | NftFailed string string \<comment> \<open>the first two arguments and the output\<close>

definition resolved_element_args :: "string \<Rightarrow> string \<Rightarrow> nanos \<Rightarrow> resolved_error + string list" where
  "resolved_element_args verb ip ttl =
     (case parse_ip (trim_space ip) of
        None \<Rightarrow> Inl (InvalidResolvedIP ip)
      | Some parsed \<Rightarrow>
          (let (family, tab, set) =
                 (if to4 parsed = None then (''ip6'', ''g0efilter_v6'', ''resolved_allow_v6'')
                  else (''ip'', ''g0efilter_v4'', ''resolved_allow_v4''));
               element = ip_string parsed @
                 (if verb = ''add'' then '' timeout '' @ itoa (clamp_ttl ttl div second) @ ''s'' else [])
           in Inr [verb, ''element'', family, tab, set, ''{ '' @ element @ '' }'']))"

text \<open>\<open>nft k args\<close>: the state of the kernel after the run, and the output if the run failed.\<close>

type_synonym 'k nft_cmd_prog = "'k \<Rightarrow> string list \<Rightarrow> 'k \<times> string option"

definition run_nft :: "'k nft_cmd_prog \<Rightarrow> 'k \<Rightarrow> string list \<Rightarrow> 'k \<times> resolved_error option" where
  "run_nft nft k args =
     (case nft k args of
        (k', None) \<Rightarrow> (k', None)
      | (k', Some out) \<Rightarrow> (k', Some (NftFailed (join_with '' '' (take 2 args)) (trim_space out))))"

definition add_resolved_element ::
  "'k nft_cmd_prog \<Rightarrow> 'k \<Rightarrow> string \<Rightarrow> nanos \<Rightarrow> 'k \<times> resolved_error option" where
  "add_resolved_element nft k ip ttl =
     (case resolved_element_args ''add'' ip ttl of
        Inl e \<Rightarrow> (k, Some e)
      | Inr addArgs \<Rightarrow>
          (case run_nft nft k addArgs of
             (k1, None) \<Rightarrow> (k1, None)
           | (k1, Some _) \<Rightarrow>
               (case resolved_element_args ''delete'' ip 0 of
                  Inl e \<Rightarrow> (k1, Some e)
                | Inr delArgs \<Rightarrow> run_nft nft (fst (run_nft nft k1 delArgs)) addArgs)))"

fun add_resolved_ips ::
  "'k nft_cmd_prog \<Rightarrow> 'k \<Rightarrow> string list \<Rightarrow> nanos \<Rightarrow> 'k \<times> resolved_error list" where
  \<comment> \<open>the errors that are joined; none is a nil error\<close>
  "add_resolved_ips nft k [] ttl = (k, [])"
| "add_resolved_ips nft k (ip # ips) ttl =
     (let (k1, err) = add_resolved_element nft k ip ttl;
          (k2, errs) = add_resolved_ips nft k1 ips ttl
      in (k2, (case err of None \<Rightarrow> errs | Some e \<Rightarrow> e # errs)))"

subsection \<open>What nft does with a timeout set\<close>

text \<open>\<open>view k (s, e)\<close> is the moment at which element \<open>e\<close> of set \<open>s\<close> disappears, \<open>clock k\<close> the time.
  nft(8): \<^verbatim>\<open>add element\<close> puts an absent element into the set; only \<^verbatim>\<open>create element\<close> is documented
  to fail for one that is present. What \<^verbatim>\<open>add\<close> does then is left open: it may fail, as the comment
  in the source says, or succeed with or without a new timeout. \<^verbatim>\<open>delete element\<close> removes a present
  element and fails for an absent one. A failed command changes nothing. Elements are single words.\<close>

type_synonym deadlines = "string \<times> string \<Rightarrow> nanos option"

definition element_text :: "string \<Rightarrow> int \<Rightarrow> string" where
  "element_text e n = ''{ '' @ e @ '' timeout '' @ itoa n @ ''s'' @ '' }''"

definition add_command :: "bool \<Rightarrow> string \<Rightarrow> int \<Rightarrow> string list" where
  "add_command is4 e n =
     [''add'', ''element'', fam is4, table_name (dns_strict_filter is4 [] 0), resolved_set is4, element_text e n]"

definition delete_command :: "bool \<Rightarrow> string \<Rightarrow> string list" where
  "delete_command is4 e =
     [''delete'', ''element'', fam is4, table_name (dns_strict_filter is4 [] 0), resolved_set is4, ''{ '' @ e @ '' }'']"

definition nft_elements :: "'k nft_cmd_prog \<Rightarrow> ('k \<Rightarrow> deadlines) \<Rightarrow> ('k \<Rightarrow> nanos) \<Rightarrow> bool" where
  "nft_elements nft view clock \<longleftrightarrow>
     (\<forall>k four e n. CHR '' '' \<notin> set e \<longrightarrow> 0 < n \<longrightarrow> n \<le> 86400 \<longrightarrow>
        (let x = (resolved_set four, e); new = (view k)(x := Some (clock k + n * second))
         in case nft k (add_command four e n) of
              (k', None) \<Rightarrow> clock k' = clock k \<and> (view k' = new \<or> view k x \<noteq> None \<and> view k' = view k)
            | (k', Some _) \<Rightarrow> clock k' = clock k \<and> view k x \<noteq> None \<and> view k' = view k)) \<and>
     (\<forall>k four e. CHR '' '' \<notin> set e \<longrightarrow>
        (let x = (resolved_set four, e)
         in case nft k (delete_command four e) of
              (k', None) \<Rightarrow> clock k' = clock k \<and> view k x \<noteq> None \<and> view k' = (view k)(x := None)
            | (k', Some _) \<Rightarrow> clock k' = clock k \<and> view k x = None \<and> view k' = view k))"

text \<open>For the safety of the gate less is enough: whatever a command answers, it adds no more than it
  was asked for.\<close>

definition nft_sound :: "'k nft_cmd_prog \<Rightarrow> ('k \<Rightarrow> deadlines) \<Rightarrow> ('k \<Rightarrow> nanos) \<Rightarrow> bool" where
  "nft_sound nft view clock \<longleftrightarrow>
     (\<forall>k four e n y d. CHR '' '' \<notin> set e \<longrightarrow> 0 < n \<longrightarrow> n \<le> 86400 \<longrightarrow>
        (let k' = fst (nft k (add_command four e n))
         in clock k' = clock k \<and>
            (view k' y = Some d \<longrightarrow> view k y = Some d \<or> y = (resolved_set four, e) \<and> d = clock k + n * second))) \<and>
     (\<forall>k four e y d. CHR '' '' \<notin> set e \<longrightarrow>
        (let k' = fst (nft k (delete_command four e))
         in clock k' = clock k \<and> (view k' y = Some d \<longrightarrow> view k y = Some d)))"

definition resolved_key :: "string \<Rightarrow> string \<times> string" where
  "resolved_key ip =
     (case parse_ip (trim_space ip) of
        None \<Rightarrow> ([], [])
      | Some a \<Rightarrow> (resolved_set (to4 a \<noteq> None), ip_string a))"

definition ttl_seconds :: "nanos \<Rightarrow> int" where
  "ttl_seconds ttl = clamp_ttl ttl div second"

lemma clamp_ttl_range: "60 \<le> ttl_seconds ttl \<and> ttl_seconds ttl \<le> 86400"
  by (auto simp: ttl_seconds_def clamp_ttl_def min_resolved_ttl_def max_resolved_ttl_def)

lemma dns_strict_table_name:
  "table_name (dns_strict_filter is4 es dp) = (if is4 then ''g0efilter_v4'' else ''g0efilter_v6'')"
  by (simp add: dns_strict_filter_def filter_table_def)

lemma add_args:
  assumes "parse_ip (trim_space ip) = Some a"
  shows "resolved_element_args ''add'' ip ttl = Inr (add_command (to4 a \<noteq> None) (ip_string a) (ttl_seconds ttl))"
    and "resolved_element_args ''delete'' ip ttl = Inr (delete_command (to4 a \<noteq> None) (ip_string a))"
  using assms
  by (auto simp: resolved_element_args_def Let_def dns_strict_table_name fam_def resolved_set_def
      element_text_def ttl_seconds_def add_command_def delete_command_def)

lemma element_word:
  assumes "parse_ip s = Some a"
  shows "CHR '' '' \<notin> set (ip_string a)"
proof -
  have "length a = 4 \<or> length a = 16" using parse_ip_wf [OF assms] by blast
  from ip_string_chars [OF this] show ?thesis by (auto simp: digit_chars_def)
qed

lemma nft_add:
  assumes "nft_elements nft view clock" "CHR '' '' \<notin> set e" "0 < n" "n \<le> 86400" "nft k (add_command is4 e n) = (k', r)"
  defines "x \<equiv> (resolved_set is4, e)"
  shows "clock k' = clock k \<and>
    (if r = None then view k' = (view k)(x := Some (clock k + n * second)) \<or> view k x \<noteq> None \<and> view k' = view k
     else view k x \<noteq> None \<and> view k' = view k)"
  using assms(1) [unfolded nft_elements_def, THEN conjunct1, rule_format, where e = e and n = n and k = k and four = is4] assms(2-5)
  by (cases r) (simp_all add: x_def Let_def)

lemma nft_delete:
  assumes "nft_elements nft view clock" "CHR '' '' \<notin> set e" "nft k (delete_command is4 e) = (k', r)"
  defines "x \<equiv> (resolved_set is4, e)"
  shows "clock k' = clock k \<and>
    (if r = None then view k x \<noteq> None \<and> view k' = (view k)(x := None) else view k x = None \<and> view k' = view k)"
  using assms(1) [unfolded nft_elements_def, THEN conjunct2, rule_format, where e = e and k = k and four = is4] assms(2,3)
  by (cases r) (simp_all add: x_def Let_def)

lemma nft_elements_sound: "nft_elements nft view clock \<Longrightarrow> nft_sound nft view clock"
  unfolding nft_sound_def Let_def
proof (intro conjI allI impI)
  fix k is4 e n y d
  assume n: "nft_elements nft view clock" "CHR '' '' \<notin> set e" "(0 :: int) < n" "n \<le> 86400"
  obtain k' r where k': "nft k (add_command is4 e n) = (k', r)" by fastforce
  note add = nft_add [OF n k']
  show "clock (fst (nft k (add_command is4 e n))) = clock k" using add k' by simp
  show "view (fst (nft k (add_command is4 e n))) y = Some d \<Longrightarrow>
      view k y = Some d \<or> y = (resolved_set is4, e) \<and> d = clock k + n * second"
    using add k' by (auto split: if_splits)
next
  fix k is4 e y d
  assume n: "nft_elements nft view clock" "CHR '' '' \<notin> set e"
  obtain k' r where k': "nft k (delete_command is4 e) = (k', r)" by fastforce
  note del = nft_delete [OF n k']
  show "clock (fst (nft k (delete_command is4 e))) = clock k" using del k' by simp
  show "view (fst (nft k (delete_command is4 e))) y = Some d \<Longrightarrow> view k y = Some d"
    using del k' by (auto split: if_splits)
qed

definition deadline :: "nanos \<Rightarrow> nanos \<Rightarrow> nanos" where
  "deadline now ttl = now + ttl_seconds ttl * second"

lemma add_resolved_element_ok:
  assumes n: "nft_elements nft view clock" and p: "parse_ip (trim_space ip) = Some a"
  shows "\<exists>k'. add_resolved_element nft k ip ttl = (k', None) \<and> clock k' = clock k \<and>
    (view k' = (view k)(resolved_key ip := Some (deadline (clock k) ttl)) \<or>
     view k (resolved_key ip) \<noteq> None \<and> view k' = view k)"
proof -
  let ?is4 = "to4 a \<noteq> None" and ?e = "ip_string a"
  let ?x = "(resolved_set ?is4, ?e)"
  let ?add = "add_command ?is4 ?e (ttl_seconds ttl)" and ?del = "delete_command ?is4 ?e"
  have key: "resolved_key ip = ?x" by (simp add: resolved_key_def p)
  have pos: "0 < ttl_seconds ttl" "ttl_seconds ttl \<le> 86400" using clamp_ttl_range [of ttl] by linarith+
  obtain k1 r1 where a1: "nft k ?add = (k1, r1)" by fastforce
  obtain k2 r2 where d: "nft k1 ?del = (k2, r2)" by fastforce
  obtain k3 r3 where a3: "nft k2 ?add = (k3, r3)" by fastforce
  note args = add_args [OF p] and w = element_word [OF p]
  show ?thesis
  proof (cases r1)
    case None
    then show ?thesis
      using nft_add [OF n w pos a1] a1 by (simp add: add_resolved_element_def args run_nft_def key deadline_def)
  next
    case (Some out)
    have v1: "view k ?x \<noteq> None" "view k1 = view k" "clock k1 = clock k" using nft_add [OF n w pos a1] Some by auto
    with nft_delete [OF n w d] have v2: "view k2 = (view k)(?x := None)" "clock k2 = clock k"
      by (simp_all split: if_splits)
    with nft_add [OF n w pos a3] have v3: "r3 = None" "view k3 = (view k)(?x := Some (deadline (clock k) ttl))"
      "clock k3 = clock k"
      by (simp_all add: deadline_def split: if_splits)
    have "add_resolved_element nft k ip ttl = (k3, None)"
      using a1 d a3 Some v3(1)
      by (cases r2) (simp_all add: add_resolved_element_def args run_nft_def)
    with v3 key show ?thesis by simp
  qed
qed

lemma add_resolved_ips_view:
  assumes n: "nft_elements nft view clock" and ok: "\<forall>ip \<in> set ips. parse_ip (trim_space ip) \<noteq> None"
  shows "\<exists>k'. add_resolved_ips nft k ips ttl = (k', []) \<and> clock k' = clock k \<and>
    (\<forall>x. if x \<in> resolved_key ` set ips
         then view k' x = Some (deadline (clock k) ttl) \<or> view k x \<noteq> None \<and> view k' x = view k x
         else view k' x = view k x)"
  using ok
proof (induction ips arbitrary: k)
  case Nil
  then show ?case by simp
next
  case (Cons ip ips)
  then obtain a where "parse_ip (trim_space ip) = Some a" by auto
  from add_resolved_element_ok [OF n this] obtain k1 where k1: "add_resolved_element nft k ip ttl = (k1, None)"
    "clock k1 = clock k"
    "view k1 = (view k)(resolved_key ip := Some (deadline (clock k) ttl)) \<or> view k (resolved_key ip) \<noteq> None \<and> view k1 = view k"
    by blast
  have "\<forall>ip \<in> set ips. parse_ip (trim_space ip) \<noteq> None" using Cons.prems by simp
  from Cons.IH [OF this, of k1] obtain k2 where k2: "add_resolved_ips nft k1 ips ttl = (k2, [])" "clock k2 = clock k1"
    and v: "\<And>x. if x \<in> resolved_key ` set ips
         then view k2 x = Some (deadline (clock k1) ttl) \<or> view k1 x \<noteq> None \<and> view k2 x = view k1 x
         else view k2 x = view k1 x"
    by blast
  have "\<forall>x. if x \<in> resolved_key ` set (ip # ips)
      then view k2 x = Some (deadline (clock k) ttl) \<or> view k x \<noteq> None \<and> view k2 x = view k x
      else view k2 x = view k x"
  proof
    show "if x \<in> resolved_key ` set (ip # ips)
      then view k2 x = Some (deadline (clock k) ttl) \<or> view k x \<noteq> None \<and> view k2 x = view k x
      else view k2 x = view k x" for x
      using v [of x] k1(2,3) by (auto split: if_splits)
  qed
  moreover have "add_resolved_ips nft k (ip # ips) ttl = (k2, [])" "clock k2 = clock k"
    using k1(1,2) k2 by simp_all
  ultimately show ?case by blast
qed

text \<open>Whatever \<^verbatim>\<open>nft\<close> answers, only what was asked for gets into the sets.\<close>

lemma add_resolved_element_sound:
  assumes n: "nft_sound nft view clock" and k': "k' = fst (add_resolved_element nft k ip ttl)"
  shows "clock k' = clock k \<and> (view k' y = Some d \<longrightarrow> view k y = Some d \<or>
    parse_ip (trim_space ip) \<noteq> None \<and> y = resolved_key ip \<and> d = deadline (clock k) ttl)"
proof (cases "parse_ip (trim_space ip)")
  case None
  then show ?thesis by (simp add: k' add_resolved_element_def resolved_element_args_def)
next
  case (Some a)
  let ?is4 = "to4 a \<noteq> None" and ?e = "ip_string a"
  let ?add = "add_command ?is4 ?e (ttl_seconds ttl)" and ?del = "delete_command ?is4 ?e"
  have key: "resolved_key ip = (resolved_set ?is4, ?e)" by (simp add: resolved_key_def Some)
  have pos: "0 < ttl_seconds ttl" "ttl_seconds ttl \<le> 86400" using clamp_ttl_range [of ttl] by linarith+
  note w = element_word [OF Some] and args = add_args [OF Some]
  have add: "clock (fst (nft q ?add)) = clock q \<and> (view (fst (nft q ?add)) y = Some d \<longrightarrow>
      view q y = Some d \<or> y = resolved_key ip \<and> d = deadline (clock q) ttl)" for q
    using n [unfolded nft_sound_def Let_def, THEN conjunct1, rule_format, OF w pos, where k = q and four = ?is4 and y = y and d = d]
    by (simp add: key deadline_def)
  have del: "clock (fst (nft q ?del)) = clock q \<and> (view (fst (nft q ?del)) y = Some d \<longrightarrow> view q y = Some d)" for q
    using n [unfolded nft_sound_def Let_def, THEN conjunct2, rule_format, OF w, where k = q and four = ?is4 and y = y and d = d] by simp
  have run: "fst (run_nft nft q args) = fst (nft q args)" for q args
    by (simp add: run_nft_def split: prod.split option.split)
  obtain k1 r1 where k1: "run_nft nft k ?add = (k1, r1)" by fastforce
  then have e1: "k1 = fst (nft k ?add)" using run [of k ?add] by simp
  show ?thesis
  proof (cases r1)
    case None
    then have "k' = k1" using k1 by (simp add: k' add_resolved_element_def args)
    then show ?thesis using add [of k] by (simp add: e1 Some)
  next
    case (Some err)
    then have "k' = fst (nft (fst (nft k1 ?del)) ?add)"
      using k1 by (simp add: k' add_resolved_element_def args run)
    then show ?thesis
      using add [of k] del [of k1] add [of "fst (nft k1 ?del)"] \<open>parse_ip (trim_space ip) = Some a\<close> by (auto simp: e1)
  qed
qed

lemma add_resolved_ips_sound:
  assumes "nft_sound nft view clock"
  shows "clock (fst (add_resolved_ips nft k ips ttl)) = clock k \<and>
    (view (fst (add_resolved_ips nft k ips ttl)) y = Some d \<longrightarrow> view k y = Some d \<or>
      (\<exists>ip \<in> set ips. parse_ip (trim_space ip) \<noteq> None \<and> y = resolved_key ip \<and> d = deadline (clock k) ttl))"
proof (induction ips arbitrary: k)
  case (Cons ip ips)
  let ?k1 = "fst (add_resolved_element nft k ip ttl)"
  have "fst (add_resolved_ips nft k (ip # ips) ttl) = fst (add_resolved_ips nft ?k1 ips ttl)"
    by (simp add: case_prod_unfold Let_def)
  then show ?case
    using Cons.IH [of ?k1] add_resolved_element_sound [OF assms refl, of k ip ttl y d] by auto
qed simp

text \<open>What goes into the kernel is bounded and inert. An address that passes is written into the
  set and table of its family as its canonical text, hexadecimal digits, dots and colons only, with
  a timeout between one minute and one day; anything that is not an address never reaches
  \<^verbatim>\<open>nft\<close>, although it comes from an untrusted DNS answer.\<close>

theorem resolved_element_safe:
  "case resolved_element_args ''add'' ip ttl of
     Inl e \<Rightarrow> e = InvalidResolvedIP ip \<and> parse_ip (trim_space ip) = None \<and>
       add_resolved_element nft k ip ttl = (k, Some e)
   | Inr args \<Rightarrow> (\<exists>a secs. parse_ip (trim_space ip) = Some a \<and> 60 \<le> secs \<and> secs \<le> 86400 \<and>
       set (ip_string a) \<subseteq> set digit_chars \<union> {CHR ''.'', CHR '':''} \<and>
       args = add_command (to4 a \<noteq> None) (ip_string a) secs)"
proof (cases "parse_ip (trim_space ip)")
  case None
  then show ?thesis by (simp add: resolved_element_args_def add_resolved_element_def)
next
  case (Some a)
  have "set (ip_string a) \<subseteq> set digit_chars \<union> {CHR ''.'', CHR '':''}"
    using ip_string_chars [of a] parse_ip_wf [OF Some] by blast
  with Some show ?thesis
    using clamp_ttl_range [of ttl]
    by (auto simp: add_args [OF Some])
qed

text \<open>C10: Resolving opens the gate. After \<^verbatim>\<open>AddResolvedIPs\<close> has run on addresses, some of them new and
  some already in the set, it reports no error, each of them is in its set, a new one with the clamped
  lifetime and a present one with that or with the lifetime it had, and every other entry is as before;
  a packet to one of them is then sent under the dns-strict ruleset, which would drop it otherwise.\<close>

theorem resolved_opens_gate:
  assumes n: "nft_elements nft view clock" and ok: "\<forall>ip \<in> set ips. parse_ip (trim_space ip) \<noteq> None"
    and cfg: "wf_config cfg" "ruleset_mode E cfg = mode_dns_strict" "\<not> DefaultAllow cfg" "\<not> Audit cfg"
    and pkt: "external p" "ip \<in> set ips" "parse_ip (trim_space ip) = Some (pk_dst p)"
    and x: "x = (resolved_set (is_v4 p), ip_string (pk_dst p))"
    and ttl: "secs = (if ttl < 60 * second then 60 else if ttl > 86400 * second then 86400 else ttl div second)"
  shows "\<exists>k' ls q. add_resolved_ips nft k ips ttl = (k', []) \<and>
    (if view k x = None then view k' x = Some (clock k + secs * second)
     else view k' x \<in> {view k x, Some (clock k + secs * second)}) \<and>
    (\<forall>y. y \<notin> resolved_key ` set ips \<longrightarrow> view k' y = view k y) \<and>
    ruleset_egress (generate_ruleset E cfg) (\<lambda>s a. view k' (s, ip_string a) \<noteq> None) p = Some (ls, Sent q)"
proof -
  obtain k' where k': "add_resolved_ips nft k ips ttl = (k', [])"
    "\<And>x. if x \<in> resolved_key ` set ips
         then view k' x = Some (deadline (clock k) ttl) \<or> view k x \<noteq> None \<and> view k' x = view k x
         else view k' x = view k x"
    using add_resolved_ips_view [OF n ok] by blast
  have "resolved_key ip = x" by (simp add: x resolved_key_def pkt(3) is_v4_def)
  then have key: "x \<in> resolved_key ` set ips" using pkt(2) by blast
  have "ttl_seconds ttl = secs"
    by (simp add: ttl ttl_seconds_def clamp_ttl_def min_resolved_ttl_def max_resolved_ttl_def)
  then have d: "deadline (clock k) ttl = clock k + secs * second" by (simp add: deadline_def)
  have v: "if view k x = None then view k' x = Some (clock k + secs * second)
      else view k' x \<in> {view k x, Some (clock k + secs * second)}"
    using k'(2) [of x] key by (auto simp: d)
  let ?dyn = "\<lambda>s a. view k' (s, ip_string a) \<noteq> None"
  have "?dyn (resolved_set (is_v4 p)) (pk_dst p)" using v by (auto simp: x split: if_splits)
  then have "\<exists>ls q. dns_strict_spec cfg ?dyn p = (ls, Sent q)"
    by (simp add: dns_strict_spec_def split: option.splits)
  moreover have "\<forall>y. y \<notin> resolved_key ` set ips \<longrightarrow> view k' y = view k y" using k'(2) by presburger
  ultimately show ?thesis
    using k'(1) v dns_strict_egress [OF cfg pkt(1), of ?dyn] by auto
qed

text \<open>When \<^verbatim>\<open>nft\<close> accepts the addition of a present element and keeps its timeout, as nft(8) allows,
  the element that is resolved again is not refreshed: the code deletes it only after a failure.\<close>

lemma refresh_lost:
  assumes "parse_ip (trim_space ip) = Some a"
    and "nft k (add_command (to4 a \<noteq> None) (ip_string a) (ttl_seconds ttl)) = (k, None)"
  shows "add_resolved_element nft k ip ttl = (k, None)"
  using assms(2) by (simp add: add_resolved_element_def add_args [OF assms(1)] run_nft_def)

text \<open>Two kinds of \<^verbatim>\<open>nft\<close> for the examples: one refuses to add a present element, the other keeps it.\<close>

definition example_nft :: "bool \<Rightarrow> (nanos \<times> deadlines) nft_cmd_prog" where
  "example_nft keeps k args =
     (case args of
        [verb, el, family, tab, s, x] \<Rightarrow>
          (case split_on CHR '' '' x of
             [lb, e, t, n, rb] \<Rightarrow>
               if snd k (s, e) = None
               then ((fst k, (snd k)((s, e) := Some (fst k + the (atoi (butlast n)) * second))), None)
               else (k, if keeps then None else Some ''exists'')
           | [lb, e, rb] \<Rightarrow>
               if snd k (s, e) = None then (k, Some ''absent'') else ((fst k, (snd k)((s, e) := None)), None)
           | _ \<Rightarrow> (k, Some ''syntax''))
      | _ \<Rightarrow> (k, Some ''syntax''))"

lemma example_nft_elements: "nft_elements (example_nft keeps) snd fst"
proof -
  have add: "split_on CHR '' '' (element_text e n) = [''{'', e, ''timeout'', itoa n @ ''s'', ''}'']"
    if "CHR '' '' \<notin> set e" "0 < n" for e n
  proof -
    have "list_all is_digit_char (itoa n)" using that(2) by (intro itoa_nonneg_chars) simp
    then have "CHR '' '' \<notin> set (itoa n)" by (auto simp: list_all_iff is_digit_char_def)
    then show ?thesis
      using that(1) split_on_append [of "CHR '' ''" "itoa n @ ''s''" "''}''"]
      by (simp add: element_text_def split_on_append)
  qed
  have del: "split_on CHR '' '' (''{ '' @ e @ '' }'') = [''{'', e, ''}'']" if "CHR '' '' \<notin> set e" for e
    using that by (simp add: split_on_append)
  have n: "the (atoi (itoa n)) = n" if "0 < n" "n \<le> 86400" for n
    using that by (simp add: atoi_itoa)
  show ?thesis
    unfolding nft_elements_def Let_def add_command_def delete_command_def
    by (simp add: example_nft_def add del [simplified] n)
qed

theorem resolved_opens_gate_witness:
  "\<exists>k' ls q. add_resolved_ips (example_nft True) (7, \<lambda>_. None) [''203.0.113.7'', '' 203.0.113.7''] (5 * second) = (k', []) \<and>
    snd k' (''resolved_allow_v4'', ''203.0.113.7'') = Some (7 + 60 * second) \<and>
    ruleset_egress (generate_ruleset ascii_env (example_config ''dns-strict'' False))
      (\<lambda>s a. snd k' (s, ip_string a) \<noteq> None) (example_packet [203, 0, 113, 7] (Tcp 443)) = Some (ls, Sent q)"
proof -
  let ?p = "example_packet [203, 0, 113, 7] (Tcp 443)"
  have e: "\<not> DefaultAllow (example_config ''dns-strict'' False)" "\<not> Audit (example_config ''dns-strict'' False)"
    by (simp_all add: example_config_def)
  have ip: "parse_ip (trim_space ''203.0.113.7'') = Some (pk_dst ?p)" "parse_ip (trim_space '' 203.0.113.7'') = Some (pk_dst ?p)"
    by code_simp+
  then have ok: "\<forall>ip \<in> set [''203.0.113.7'', '' 203.0.113.7'']. parse_ip (trim_space ip) \<noteq> None" by simp
  have d: "is_v4 ?p" "ip_string (pk_dst ?p) = ''203.0.113.7''" by code_simp+
  have m: "''203.0.113.7'' \<in> set [''203.0.113.7'', '' 203.0.113.7'']" by simp
  have r: "resolved_set (is_v4 ?p) = ''resolved_allow_v4''" by (simp add: d resolved_set_def)
  from resolved_opens_gate [OF example_nft_elements ok example_facts(1) example_facts(8) e example_facts(2) m ip(1) refl refl,
      of True "(7, \<lambda>_. None)" "5 * second", unfolded d(2) r]
  show ?thesis by auto
qed

end
