(* ===== verification/IpText.thy ===== *)
theory IpText
  imports FilterCommon
begin

text \<open>
  What \<^verbatim>\<open>IP.String\<close> prints, \<^verbatim>\<open>net.ParseIP\<close> reads back. The addresses of DNS answers go
  to the kernel as text, so the elements of the resolved sets are the addresses of the answers only
  because of this round trip.
\<close>

subsection \<open>IPv4\<close>

lemma v4_loop_digits:
  "n < 256 \<Longrightarrow> v4_loop (nat_digits 10 n @ rest) 0 0 fs = v4_loop rest (length (nat_digits 10 n)) n fs"
proof (induction "10 :: nat" n arbitrary: rest rule: nat_digits.induct)
  case (1 n)
  show ?case
  proof (cases "n < 10")
    case True
    then have "nat_digits 10 n = [digit_chars ! n]" by (subst nat_digits.simps) simp
    then show ?thesis using digit_char_val [OF True] True by simp
  next
    case False
    let ?d = "digit_chars ! (n mod 10)"
    have d: "nat_digits 10 n = nat_digits 10 (n div 10) @ [?d]" using False by (subst nat_digits.simps) simp
    have v: "is_digit_char ?d" "digit_val ?d = n mod 10" using digit_char_val [of "n mod 10"] by simp_all
    have "v4_loop (nat_digits 10 (n div 10) @ ?d # rest) 0 0 fs =
        v4_loop (?d # rest) (length (nat_digits 10 (n div 10))) (n div 10) fs"
      using 1 False by simp
    also have "\<dots> = v4_loop rest (length (nat_digits 10 n)) n fs" using False v "1.prems" div_greater_zero_iff [of n 10] by (simp add: d)
    finally show ?thesis by (simp add: d)
  qed
qed

lemma v4_loop_text:
  assumes "length bs = 4" "\<forall>b \<in> set bs. b < 256"
  shows "v4_loop (v4_text bs) 0 0 [] = Some bs"
proof -
  obtain a b c d where bs: "bs = [a, b, c, d]" using assms(1) by (auto simp: eval_nat_numeral length_Suc_conv)
  have dot: "\<not> is_digit_char (CHR ''.'')" by (simp add: is_digit_char_def)
  have "0 < length (nat_digits 10 n)" for n using nat_digits_nonempty by blast
  then show ?thesis
    using assms(2) v4_loop_digits [of d "[]" "[a, b, c]"]
    by (simp add: bs v4_text_def itoa_def v4_loop_digits dot nat_digits_nonempty)
qed

lemma not_special: "c \<in> set digit_chars \<Longrightarrow> c \<noteq> CHR ''.'' \<and> c \<noteq> CHR '':'' \<and> c \<noteq> CHR ''%''"
proof -
  have "\<forall>c \<in> set digit_chars. c \<noteq> CHR ''.'' \<and> c \<noteq> CHR '':'' \<and> c \<noteq> CHR ''%''" by (simp add: digit_chars_def)
  then show "c \<in> set digit_chars \<Longrightarrow> ?thesis" by blast
qed

lemma first_special_digits:
  "set s \<subseteq> set digit_chars \<Longrightarrow> first_special (s @ t) = first_special t"
  by (induction s) (simp_all add: not_special)

subsection \<open>IPv6\<close>

lemma hex_digit_val: "k < 16 \<Longrightarrow> hex_val (digit_chars ! k) = Some k"
proof -
  have "\<forall>k \<in> set [0 ..< 16]. hex_val (digit_chars ! k) = Some k"
    by (simp add: upt_rec digit_chars_def hex_val_def is_digit_char_def digit_val_def)
  then show "k < 16 \<Longrightarrow> ?thesis" by simp
qed

lemma hex_digits_length: "n < 16 ^ Suc k \<Longrightarrow> length (nat_digits 16 n) \<le> Suc k"
proof (induction k arbitrary: n)
  case 0
  then show ?case by (subst nat_digits.simps) simp
next
  case (Suc k)
  show ?case
  proof (cases "n < 16")
    case True
    then show ?thesis by (subst nat_digits.simps) simp
  next
    case False
    have "n div 16 < 16 ^ Suc k" using Suc.prems by (simp add: div_less_iff_less_mult mult.commute)
    from Suc.IH [OF this] False show ?thesis by (subst nat_digits.simps) simp
  qed
qed

lemma hex_run_digits:
  "n < 16 ^ Suc k \<Longrightarrow> k \<le> 3 \<Longrightarrow>
   hex_run (nat_digits 16 n @ rest) 0 0 = hex_run rest (length (nat_digits 16 n)) n"
proof (induction k arbitrary: n rest)
  case 0
  then have "nat_digits 16 n = [digit_chars ! n]" by (subst nat_digits.simps) simp
  then show ?case using hex_digit_val [of n] 0 by simp
next
  case (Suc k)
  show ?case
  proof (cases "n < 16")
    case True
    then have "nat_digits 16 n = [digit_chars ! n]" by (subst nat_digits.simps) simp
    then show ?thesis using hex_digit_val [OF True] by simp
  next
    case False
    let ?d = "digit_chars ! (n mod 16)"
    have d: "nat_digits 16 n = nat_digits 16 (n div 16) @ [?d]" using False by (subst nat_digits.simps) simp
    have n: "n div 16 < 16 ^ Suc k" using Suc.prems(1) by (simp add: div_less_iff_less_mult mult.commute)
    have l: "length (nat_digits 16 (n div 16)) \<le> 3" using hex_digits_length [OF n] Suc.prems(2) by linarith
    have "hex_run (nat_digits 16 (n div 16) @ ?d # rest) 0 0 =
        hex_run (?d # rest) (length (nat_digits 16 (n div 16))) (n div 16)"
      using Suc.IH [OF n] Suc.prems(2) by simp
    also have "\<dots> = hex_run rest (length (nat_digits 16 n)) n"
      using hex_digit_val [of "n mod 16"] l by (simp add: d)
    finally show ?thesis by (simp add: d)
  qed
qed

lemma hex_run_group:
  assumes "g < 65536"
  shows "hex_run (format_hex g) 0 0 = Some (length (format_hex g), g, [])"
    "hex_run (format_hex g @ CHR '':'' # rest) 0 0 = Some (length (format_hex g), g, CHR '':'' # rest)"
    "0 < length (format_hex g)"
proof -
  have "hex_val (CHR '':'') = None" by code_simp
  then show "hex_run (format_hex g) 0 0 = Some (length (format_hex g), g, [])"
    "hex_run (format_hex g @ CHR '':'' # rest) 0 0 = Some (length (format_hex g), g, CHR '':'' # rest)"
    using assms hex_run_digits [of g 3 "[]"] hex_run_digits [of g 3 "CHR '':'' # rest"]
    by (simp_all add: format_hex_def)
  show "0 < length (format_hex g)" using nat_digits_nonempty by (simp add: format_hex_def)
qed

fun group_bytes :: "nat list \<Rightarrow> nat list" where
  "group_bytes [] = []"
| "group_bytes (g # gs) = g div 256 mod 256 # g mod 256 # group_bytes gs"

definition hex_groups :: "nat list \<Rightarrow> string" where
  "hex_groups gs = join_with '':'' (map format_hex gs)"

lemma group_bytes_append [simp]: "group_bytes (gs @ hs) = group_bytes gs @ group_bytes hs"
  by (induction gs) simp_all

lemma group_bytes_length [simp]: "length (group_bytes gs) = 2 * length gs"
  by (induction gs) simp_all

lemma hex_groups_start:
  "\<exists>c s. format_hex g = c # s \<and> c \<noteq> CHR '':'' \<and> c \<noteq> CHR ''.''"
proof -
  have "set (format_hex g) \<subseteq> set digit_chars" using nat_digits_set [of 16 g] by (simp add: format_hex_def)
  then show ?thesis using nat_digits_nonempty [of 16 g] not_special
    by (cases "format_hex g") (auto simp: format_hex_def)
qed

lemma has_prefix_single: "has_prefix s [c] \<longleftrightarrow> (\<exists>t. s = c # t)"
  by (auto simp: has_prefix_iff)

lemma v6_groups_plain:
  "gs \<noteq> [] \<Longrightarrow> length gs \<le> n \<Longrightarrow> \<forall>g \<in> set gs. g < 65536 \<Longrightarrow>
   v6_groups n bs el (hex_groups gs) = Some (bs @ group_bytes gs, el, [])"
proof (induction gs arbitrary: n bs)
  case (Cons g gs)
  then obtain m where n: "n = Suc m" by (cases n) auto
  note run = hex_run_group [of g]
  show ?case
  proof (cases gs)
    case Nil
    then show ?thesis using Cons.prems(3) run by (simp add: n hex_groups_def has_prefix_single)
  next
    case (Cons h hs)
    obtain c s where h: "format_hex h = c # s" "c \<noteq> CHR '':''" using hex_groups_start by blast
    have "\<exists>u. hex_groups gs = c # u" by (cases hs) (simp_all add: Cons hex_groups_def h)
    then obtain u where u: "hex_groups gs = c # u" by blast
    have t: "hex_groups (g # gs) = format_hex g @ CHR '':'' # c # u"
      using u by (simp add: hex_groups_def Cons)
    have "v6_groups m (bs @ group_bytes [g]) el (hex_groups gs) = Some ((bs @ group_bytes [g]) @ group_bytes gs, el, [])"
      using Cons.prems n Cons by (intro Cons.IH) auto
    then show ?thesis
      using Cons.prems(3) run h(2) by (simp add: n t u has_prefix_single)
  qed
qed simp

lemma v6_groups_ellipsis:
  "pre \<noteq> [] \<Longrightarrow> length pre + length post \<le> n \<Longrightarrow> \<forall>g \<in> set pre \<union> set post. g < 65536 \<Longrightarrow>
   v6_groups n bs None (hex_groups pre @ ''::'' @ hex_groups post) =
     Some (bs @ group_bytes pre @ group_bytes post, Some (length bs + 2 * length pre), [])"
proof (induction pre arbitrary: n bs)
  case (Cons g gs)
  then obtain m where n: "n = Suc m" by (cases n) auto
  note run = hex_run_group [of g]
  show ?case
  proof (cases gs)
    case Nil
    have t: "hex_groups (g # gs) @ ''::'' @ hex_groups post = format_hex g @ CHR '':'' # CHR '':'' # hex_groups post"
      by (simp add: hex_groups_def Nil)
    show ?thesis
    proof (cases "post = []")
      case True
      then show ?thesis
        using Cons.prems(3) run by (simp add: t) (simp add: n Nil hex_groups_def has_prefix_single)
    next
      case False
      then obtain h hs where p: "post = h # hs" by (cases post) auto
      have ne: "hex_groups post \<noteq> []"
        using hex_groups_start [of h] by (cases hs) (auto simp: p hex_groups_def)
      have "v6_groups m (bs @ group_bytes [g]) (Some (length (bs @ group_bytes [g]))) (hex_groups post) =
          Some ((bs @ group_bytes [g]) @ group_bytes post, Some (length (bs @ group_bytes [g])), [])"
        using Cons.prems n False by (intro v6_groups_plain) auto
      then show ?thesis
        using Cons.prems(3) run ne unfolding t by (simp add: n Nil has_prefix_single)
    qed
  next
    case (Cons h hs)
    obtain c s where h: "format_hex h = c # s" "c \<noteq> CHR '':''" using hex_groups_start by blast
    have "\<exists>u. hex_groups gs = c # u" by (cases hs) (simp_all add: Cons hex_groups_def h)
    then obtain u where u: "hex_groups gs = c # u" by blast
    have t: "hex_groups (g # gs) @ ''::'' @ hex_groups post = format_hex g @ CHR '':'' # (c # u @ ''::'' @ hex_groups post)"
      using u by (simp add: hex_groups_def Cons)
    have "v6_groups m (bs @ group_bytes [g]) None (hex_groups gs @ ''::'' @ hex_groups post) =
        Some ((bs @ group_bytes [g]) @ group_bytes gs @ group_bytes post,
          Some (length (bs @ group_bytes [g]) + 2 * length gs), [])"
      using Cons.prems n Cons by (intro Cons.IH) auto
    then show ?thesis
      using Cons.prems(3) run h(2) unfolding t by (simp add: n u has_prefix_single)
  qed
qed simp

lemma longest_run_zeros:
  assumes "longest_run gs = Some (i, l)"
  shows "2 \<le> l" "gs = take i gs @ replicate l 0 @ drop (i + l) gs"
proof -
  let ?step = "\<lambda>best i. let l = zero_run gs i in
    if l \<ge> 2 \<and> (case best of None \<Rightarrow> True | Some (_, k) \<Rightarrow> l > k) then Some (i, l) else best"
  have "foldl ?step b is = Some (i, l) \<Longrightarrow> b = Some (i, l) \<or> 2 \<le> l \<and> l = zero_run gs i" for b "is"
    by (induction "is" arbitrary: b) (auto simp: Let_def split: if_splits)
  then have l: "2 \<le> l" "l = zero_run gs i" using assms unfolding longest_run_def by blast+
  show "2 \<le> l" by (rule l(1))
  have "takeWhile (\<lambda>g. g = 0) (drop i gs) = replicate l 0"
    unfolding l(2) zero_run_def by (rule replicate_eqI) (auto dest: set_takeWhileD)
  moreover have "dropWhile (\<lambda>g. g = 0) (drop i gs) = drop l (drop i gs)"
    unfolding l(2) zero_run_def by (simp add: dropWhile_eq_drop)
  ultimately have "drop i gs = replicate l 0 @ drop (i + l) gs"
    by (metis takeWhile_dropWhile_id drop_drop add.commute)
  then show "gs = take i gs @ replicate l 0 @ drop (i + l) gs" by (metis append_take_drop_id)
qed

lemma group_bytes_zeros: "group_bytes (replicate l 0) = replicate (2 * l) 0"
  by (induction l) simp_all

lemma hex_groups_no_lead: "gs \<noteq> [] \<Longrightarrow> \<not> has_prefix (hex_groups gs @ t) ''::''"
  using hex_groups_start [of "hd gs"]
  by (cases gs; cases "tl gs") (auto simp: hex_groups_def has_prefix_iff)

lemma parse_v6_text:
  assumes "length gs = 8" "\<forall>g \<in> set gs. g < 65536"
  shows "parse_ipv6 (v6_text gs) = Some (group_bytes gs)"
proof (cases "longest_run gs")
  case None
  then have t: "v6_text gs = hex_groups gs" by (simp add: v6_text_def hex_groups_def)
  have "gs \<noteq> []" using assms(1) by auto
  then show ?thesis
    using v6_groups_plain [of gs 8 "[]" None] hex_groups_no_lead [of gs "[]"] assms
    by (simp add: t parse_ipv6_def)
next
  case (Some r)
  obtain i l where r: "r = (i, l)" by (cases r)
  note z = longest_run_zeros [OF Some [unfolded r]]
  let ?pre = "take i gs" and ?post = "drop (i + l) gs"
  have t: "v6_text gs = hex_groups ?pre @ ''::'' @ hex_groups ?post"
    by (simp add: v6_text_def hex_groups_def Some r)
  have len: "length ?pre + l + length ?post = 8" using arg_cong [OF z(2), of length] assms(1) by simp
  have bytes: "group_bytes gs = group_bytes ?pre @ replicate (2 * l) 0 @ group_bytes ?post"
    using arg_cong [OF z(2), of group_bytes] by (simp add: group_bytes_zeros)
  have small: "\<forall>g \<in> set ?pre \<union> set ?post. g < 65536" using assms(2) by (auto dest: in_set_takeD in_set_dropD)
  have fill: "16 - (2 * length ?pre + 2 * length ?post) = 2 * l" using len by linarith
  show ?thesis
  proof (cases "?pre = []")
    case True
    note pre = this
    have lead: "has_prefix (v6_text gs) ''::''" "drop 2 (v6_text gs) = hex_groups ?post"
      by (simp_all add: t pre has_prefix_iff hex_groups_def)
    show ?thesis
    proof (cases "?post = []")
      case True
      then have "l = 8" using len pre by simp
      moreover have "group_bytes ?pre = []" by (simp only: pre group_bytes.simps)
      moreover have "hex_groups ?post = []" by (simp only: True) (simp add: hex_groups_def)
      ultimately show ?thesis using lead True bytes by (simp add: parse_ipv6_def)
    next
      case False
      then have "hex_groups ?post \<noteq> []" using hex_groups_no_lead [of ?post "''::''"] by (auto simp: has_prefix_iff)
      moreover have "v6_groups 8 [] (Some 0) (hex_groups ?post) = Some (group_bytes ?post, Some 0, [])"
        using False small len v6_groups_plain [of ?post 8 "[]" "Some 0"] by auto
      moreover have "length (group_bytes ?post) < 16" using len z(1) by simp
      moreover have p: "length ?pre = 0" "group_bytes ?pre = []" by (simp_all only: pre list.size group_bytes.simps)
      moreover have "16 - 2 * length ?post = 2 * l" using len p(1) by linarith
      ultimately show ?thesis using lead bytes by (simp add: parse_ipv6_def del: length_drop)
    qed
  next
    case False
    have "\<not> has_prefix (v6_text gs) ''::''" unfolding t by (rule hex_groups_no_lead [OF False])
    moreover have "v6_groups 8 [] None (v6_text gs) =
        Some (group_bytes ?pre @ group_bytes ?post, Some (2 * length ?pre), [])"
      using v6_groups_ellipsis [OF False _ small, of 8 "[]"] len unfolding t by simp
    moreover have "length (group_bytes ?pre @ group_bytes ?post) < 16" using len z(1) by simp
    ultimately show ?thesis using bytes fill by (simp add: parse_ipv6_def del: length_drop length_take)
  qed
qed

subsection \<open>Printing and parsing\<close>

lemma groups_of_bytes:
  "even (length bs) \<Longrightarrow> \<forall>b \<in> set bs. b < 256 \<Longrightarrow>
   group_bytes (groups_of bs) = bs \<and> 2 * length (groups_of bs) = length bs \<and> (\<forall>g \<in> set (groups_of bs). g < 65536)"
proof (induction bs rule: groups_of.induct)
  case (1 a b bs)
  then have "a < 256" "b < 256" by simp_all
  then have "(256 * a + b) div 256 mod 256 = a" "(256 * a + b) mod 256 = b" "256 * a + b < 65536" by simp_all
  then show ?case using 1 by simp
qed auto

lemma v6_text_special:
  assumes "length gs = 8"
  shows "first_special (v6_text gs) = Some CHR '':''" "CHR ''%'' \<notin> set (v6_text gs)"
proof -
  have hex: "set (format_hex g) \<subseteq> set digit_chars" for g using nat_digits_set [of 16 g] by (simp add: format_hex_def)
  have start: "first_special (hex_groups xs @ CHR '':'' # s) = Some CHR '':''" for xs s
    by (induction "'':''" "map format_hex xs" arbitrary: xs rule: join_with.induct)
      (auto simp: hex_groups_def first_special_digits hex)
  have two: "first_special (hex_groups (g # h # xs)) = Some CHR '':''" for g h xs
    by (simp add: hex_groups_def first_special_digits hex)
  have "CHR ''%'' \<notin> set (hex_groups xs)" for xs
    using set_join_with [of "'':''" "map format_hex xs"] hex not_special [of "CHR ''%''"]
    by (auto simp: hex_groups_def)
  then show "CHR ''%'' \<notin> set (v6_text gs)"
    by (auto simp: v6_text_def hex_groups_def [symmetric] split: option.splits)
  obtain g h xs where "gs = g # h # xs" using assms by (auto simp: eval_nat_numeral length_Suc_conv)
  then show "first_special (v6_text gs) = Some CHR '':''"
    using two [of g h xs] start
    by (simp add: v6_text_def hex_groups_def [symmetric] del: list.map join_with.simps split: option.split prod.split)
qed

text \<open>An IPv6 address that is mapped from IPv4 is printed as the IPv4 address, so 4 bytes and the
  mapped 16 bytes are read back as the latter; every other address of 16 bytes is read back as it is.\<close>

theorem parse_ip_string:
  assumes "length a = 4 \<or> length a = 16" "\<forall>b \<in> set a. b < 256"
  shows "parse_ip (ip_string a) = Some (if length a = 4 then v4_in_v6_prefix @ a else a)"
proof (cases "to4 a")
  case None
  then have l: "length a = 16" using assms(1) by (auto simp: to4_def)
  have g: "group_bytes (groups_of a) = a" "length (groups_of a) = 8" "\<forall>g \<in> set (groups_of a). g < 65536"
    using groups_of_bytes [of a] assms(2) l by auto
  have "a \<noteq> []" using l by auto
  then show ?thesis
    using None l parse_v6_text [OF g(2,3)] v6_text_special [OF g(2)]
    by (simp add: ip_string_def parse_ip_def parse_addr_def g(1))
next
  case (Some f)
  have l12: "length v4_in_v6_prefix = 12" by (simp add: v4_in_v6_prefix_def)
  have mapped: "v4_in_v6_prefix @ drop 12 a = a" if "take 12 a = v4_in_v6_prefix"
    using that by (metis append_take_drop_id)
  from Some have f: "length f = 4" "\<forall>b \<in> set f. b < 256" "v4_in_v6_prefix @ f = (if length a = 4 then v4_in_v6_prefix @ a else a)"
    using assms mapped l12 by (auto simp: to4_def split: if_splits dest: in_set_dropD)
  have dec: "set (itoa (int b)) \<subseteq> set digit_chars" for b
    using nat_digits_set [of 10 b] by (simp add: itoa_def)
  obtain x y xs where x: "f = x # y # xs" using f(1) by (auto simp: eval_nat_numeral length_Suc_conv)
  have "first_special (v4_text f) = Some CHR ''.''"
    by (simp add: x v4_text_def first_special_digits dec)
  moreover have "CHR ''%'' \<notin> set (v4_text f)"
    using set_join_with [of "''.''" "map (\<lambda>b. itoa (int b)) f"] dec not_special [of "CHR ''%''"]
    by (auto simp: v4_text_def)
  moreover have "a \<noteq> []" using assms(1) by auto
  ultimately show ?thesis
    using Some f(3) v4_loop_text [OF f(1,2)] by (simp add: ip_string_def parse_ip_def parse_addr_def)
qed

lemma trim_space_clean:
  assumes "\<And>c e. c \<in> set s \<Longrightarrow> e \<in> set space_encodings \<Longrightarrow> hd e \<noteq> c \<and> last e \<noteq> c"
  shows "trim_space s = s"
proof -
  have "strip_any space_encodings s = None"
  proof -
    have "\<not> (e \<noteq> [] \<and> has_prefix s e)" if e: "e \<in> set space_encodings" for e
    proof
      assume "e \<noteq> [] \<and> has_prefix s e"
      then have "hd e \<in> set s" by (cases e) (auto simp: has_prefix_iff)
      then show False using assms [of "hd e" e] e by blast
    qed
    then have "find (\<lambda>e. e \<noteq> [] \<and> has_prefix s e) space_encodings = None" by (auto simp: find_None_iff)
    then show ?thesis by (simp add: strip_any_def)
  qed
  moreover have "strip_any (map rev space_encodings) (rev s) = None"
  proof -
    have "\<not> (rev e \<noteq> [] \<and> has_prefix (rev s) (rev e))" if e: "e \<in> set space_encodings" for e
    proof
      assume a: "rev e \<noteq> [] \<and> has_prefix (rev s) (rev e)"
      then obtain t where "rev s = rev e @ t" by (auto simp: has_prefix_iff)
      then have "s = rev t @ e" by (metis rev_append rev_rev_ident)
      then have "last e \<in> set s" using a by simp
      then show False using assms [of "last e" e] e by blast
    qed
    then have "find (\<lambda>e. e \<noteq> [] \<and> has_prefix (rev s) e) (map rev space_encodings) = None"
      by (auto simp: find_None_iff)
    then show ?thesis by (simp add: strip_any_def)
  qed
  ultimately show ?thesis by (simp add: trim_space_def trim_left_def trim_right_def trim_with_fixed)
qed

lemma trim_ip_string [simp]:
  assumes "length a = 4 \<or> length a = 16"
  shows "trim_space (ip_string a) = ip_string a"
proof (rule trim_space_clean)
  fix c e assume c: "c \<in> set (ip_string a)" "e \<in> set space_encodings"
  have "\<forall>c \<in> set (digit_chars @ ''.:''). \<forall>e \<in> set space_encodings. hd e \<noteq> c \<and> last e \<noteq> c" by code_simp
  moreover have "c \<in> set (digit_chars @ ''.:'')" using ip_string_chars [OF assms] c(1) by auto
  ultimately show "hd e \<noteq> c \<and> last e \<noteq> c" using c(2) by blast
qed

end
