(* ===== verification/StrictGate.thy ===== *)
theory StrictGate
  imports Gateway DnsFilter Resolved IpText
begin

text \<open>
  The dns-strict mode as a whole: the DNS proxy with the callback of
  \<^verbatim>\<open>strictResolvedHook\<close> in \<^verbatim>\<open>internal/g0efilter/app.go\<close>, the timeout sets in the
  kernel and the ruleset. Handlers run concurrently, so each call of the handler may see any state of
  the rate limiter and finds the kernel as the others left it. The clock is the kernel's; an element is
  gone, at the latest, when its timeout is over.
\<close>

definition on_resolved :: "'k nft_cmd_prog \<Rightarrow> 'k \<Rightarrow> dns_event \<Rightarrow> 'k" where
  "on_resolved nft k ev =
     (case ev of
        Dresolved ips ttl \<Rightarrow> fst (add_resolved_ips nft k ips (int (unat ttl) * second))
      | _ \<Rightarrow> k)"

definition dns_handler_of :: "env \<Rightarrow> (string \<Rightarrow> string) \<Rightarrow> service \<Rightarrow> dns_handler option" where
  "dns_handler_of E getenv svc =
     (case svc of Service53 ds o1 \<Rightarrow> Some (fst (serve53_setup E getenv ds o1)) | _ \<Rightarrow> None)"

record 'k strict_state =
  sk_kernel :: 'k
  sk_log :: "(nanos \<times> dns_msg \<times> dns_event list) list" \<comment> \<open>the requests handled so far and what was done\<close>

definition wf_answers :: "exchange \<Rightarrow> bool" where
  \<comment> \<open>the DNS library delivers addresses of 4 or 16 bytes\<close>
  "wf_answers xchg \<longleftrightarrow>
     (\<forall>pr n up q resp. xchg pr n up q = Some resp \<longrightarrow>
        (\<forall>(i, t) \<in> set (addresses resp). (length i = 4 \<or> length i = 16) \<and> (\<forall>b \<in> set i. b < 256)))"

text \<open>\<open>view\<close> and \<open>clock\<close> read the timeout sets and the time off the kernel. Between requests the kernel
  may move on: time passes, and elements may disappear, at the latest at their moment.\<close>

inductive strict_run ::
  "env \<Rightarrow> dns_lib \<Rightarrow> dns_handler \<Rightarrow> 'k nft_cmd_prog \<Rightarrow> ('k \<Rightarrow> deadlines) \<Rightarrow> ('k \<Rightarrow> nanos) \<Rightarrow>
   'k strict_state \<Rightarrow> bool"
  for E L h nft view clock where
  sg_start: "view k = (\<lambda>_. None) \<Longrightarrow> strict_run E L h nft view clock \<lparr>sk_kernel = k, sk_log = []\<rparr>"
| sg_handled: "strict_run E L h nft view clock s \<Longrightarrow> wf_answers xchg \<Longrightarrow>
    evs = fst (handle_dns E L h xchg rq st) \<Longrightarrow>
    strict_run E L h nft view clock
      (s\<lparr>sk_kernel := foldl (on_resolved nft) (sk_kernel s) evs,
         sk_log := (clock (sk_kernel s), rq_msg rq, evs) # sk_log s\<rparr>)"
| sg_world: "strict_run E L h nft view clock s \<Longrightarrow> clock (sk_kernel s) \<le> clock k' \<Longrightarrow>
    (\<And>x d. view k' x = Some d \<Longrightarrow> view (sk_kernel s) x = Some d \<and> clock k' < d) \<Longrightarrow>
    strict_run E L h nft view clock (s\<lparr>sk_kernel := k'\<rparr>)"

subsection \<open>Every element comes from an answer\<close>

definition answered_at :: "env \<Rightarrow> dns_handler \<Rightarrow> 'k strict_state \<Rightarrow> nanos \<Rightarrow> ip \<Rightarrow> 32 word \<Rightarrow> bool" where
  \<comment> \<open>at that time a request for a permitted name was answered with that address\<close>
  "answered_at E h s t a ttl \<longleftrightarrow>
     (\<exists>msg evs name resp. (t, msg, evs) \<in> set (sk_log s) \<and> query_name_ok E msg name \<and>
        host_permitted_by E name (h_allowlist h) (h_opts h) \<and> last evs = Dreply resp \<and>
        (a, ttl) \<in> set (addresses resp))"

definition element_ok :: "env \<Rightarrow> dns_handler \<Rightarrow> 'k strict_state \<Rightarrow> string \<times> string \<Rightarrow> nanos \<Rightarrow> bool" where
  "element_ok E h s x d \<longleftrightarrow>
     (\<exists>t a ttl. answered_at E h s t a ttl \<and> (length a = 4 \<or> length a = 16) \<and> (\<forall>b \<in> set a. b < 256) \<and>
        x = resolved_key (ip_string a) \<and> d \<le> t + clamp_ttl (int (unat ttl) * second))"

lemma deadline_bounds: "now < deadline now ttl" "deadline now ttl \<le> now + clamp_ttl ttl"
proof -
  show "now < deadline now ttl" using clamp_ttl_range [of ttl] by (simp add: deadline_def)
  have "clamp_ttl ttl div second * second \<le> clamp_ttl ttl"
    using div_mult_mod_eq [of "clamp_ttl ttl" second] pos_mod_sign [of second "clamp_ttl ttl"] by simp
  then show "deadline now ttl \<le> now + clamp_ttl ttl" by (simp add: deadline_def ttl_seconds_def)
qed

lemma clamp_mono: "a \<le> b \<Longrightarrow> clamp_ttl a \<le> clamp_ttl b"
  by (auto simp: clamp_ttl_def min_resolved_ttl_def max_resolved_ttl_def)

lemma hook_sound:
  assumes "nft_sound nft view clock"
  shows "clock (foldl (on_resolved nft) k evs) = clock k \<and>
    (view (foldl (on_resolved nft) k evs) x = Some d \<longrightarrow> view k x = Some d \<or>
     (\<exists>ips ttl ip. Dresolved ips ttl \<in> set evs \<and> ip \<in> set ips \<and> x = resolved_key ip \<and>
        d = deadline (clock k) (int (unat ttl) * second)))"
proof (induction evs arbitrary: k)
  case (Cons ev evs)
  have one: "clock (on_resolved nft k ev) = clock k \<and>
    (view (on_resolved nft k ev) x = Some d \<longrightarrow> view k x = Some d \<or>
     (\<exists>ips ttl ip. ev = Dresolved ips ttl \<and> ip \<in> set ips \<and> x = resolved_key ip \<and>
        d = deadline (clock k) (int (unat ttl) * second)))"
    using add_resolved_ips_sound [OF assms, where k = k and y = x and d = d]
    by (cases ev) (auto simp: on_resolved_def)
  show ?case using Cons.IH [of "on_resolved nft k ev"] one by auto
qed simp

lemma answered_mono:
  "answered_at E h s t a ttl \<Longrightarrow> set (sk_log s) \<subseteq> set (sk_log s') \<Longrightarrow> answered_at E h s' t a ttl"
  unfolding answered_at_def by blast

lemma handled_elements:
  assumes n: "nft_sound nft view clock" and wf: "wf_answers xchg" and evs: "evs = fst (handle_dns E L h xchg rq st)"
    and s': "s' = s\<lparr>sk_kernel := foldl (on_resolved nft) (sk_kernel s) evs,
         sk_log := (clock (sk_kernel s), rq_msg rq, evs) # sk_log s\<rparr>"
    and old: "view (sk_kernel s) x = Some d \<Longrightarrow> element_ok E h s x d \<and> clock (sk_kernel s) < d"
    and x: "view (sk_kernel s') x = Some d"
  shows "element_ok E h s' x d \<and> clock (sk_kernel s') < d"
proof -
  have c: "clock (sk_kernel s') = clock (sk_kernel s)"
    using hook_sound [OF n, of "sk_kernel s" evs] by (simp add: s')
  have "view (sk_kernel s) x = Some d \<or>
    (\<exists>ips ttl ip. Dresolved ips ttl \<in> set evs \<and> ip \<in> set ips \<and> x = resolved_key ip \<and>
      d = deadline (clock (sk_kernel s)) (int (unat ttl) * second))"
    using hook_sound [OF n, of "sk_kernel s" evs x d] x by (simp add: s')
  then show ?thesis
  proof (elim disjE conjE exE)
    assume "view (sk_kernel s) x = Some d"
    from old [OF this] show ?thesis
      using answered_mono [of E h s _ _ _ s'] unfolding element_ok_def c by (auto simp: s') blast+
  next
    fix ips ttl ip
    assume a: "Dresolved ips ttl \<in> set evs" "ip \<in> set ips" "x = resolved_key ip"
      "d = deadline (clock (sk_kernel s)) (int (unat ttl) * second)"
    obtain name resp where r: "query_name_ok E (rq_msg rq) name"
      "host_permitted_by E name (h_allowlist h) (h_opts h)" "last evs = Dreply resp"
      "ips = map (ip_string \<circ> fst) (addresses resp)" "\<forall>(i, t) \<in> set (addresses resp). ttl \<le> t"
      "\<forall>(i, t) \<in> set (addresses resp). (length i = 4 \<or> length i = 16) \<and> (\<forall>b \<in> set i. b < 256)"
      using resolved_from_answer [of ips ttl E L h xchg rq st] a(1) wf unfolding evs wf_answers_def by blast
    obtain i u where i: "(i, u) \<in> set (addresses resp)" "ip = ip_string i" using a(2) r(4) by auto
    have wfi: "length i = 4 \<or> length i = 16" "\<forall>b \<in> set i. b < 256" using r(6) i(1) by auto
    have "ttl \<le> u" using r(5) i(1) by auto
    then have "int (unat ttl) * second \<le> int (unat u) * second" by (simp add: word_le_def)
    from clamp_mono [OF this] have "d \<le> clock (sk_kernel s) + clamp_ttl (int (unat u) * second)"
      using deadline_bounds(2) [of "clock (sk_kernel s)" "int (unat ttl) * second"] by (simp add: a(4))
    moreover have "answered_at E h s' (clock (sk_kernel s)) i u"
      using r(1-3) i(1) by (auto simp: answered_at_def s')
    moreover have "clock (sk_kernel s') < d" unfolding c a(4) by (rule deadline_bounds)
    ultimately show ?thesis using a(3) i(2) wfi unfolding element_ok_def by blast
  qed
qed

lemma strict_run_elements:
  assumes "nft_sound nft view clock"
  shows "strict_run E L h nft view clock s \<Longrightarrow> view (sk_kernel s) x = Some d \<Longrightarrow>
    element_ok E h s x d \<and> clock (sk_kernel s) < d"
proof (induction arbitrary: x d rule: strict_run.induct)
  case (sg_start k)
  then show ?case by simp
next
  case (sg_handled s xchg evs rq st)
  from handled_elements [OF assms sg_handled.hyps(2,3) refl sg_handled.IH sg_handled.prems] show ?case .
next
  case (sg_world s k')
  then have v: "view (sk_kernel s) x = Some d" "clock k' < d" by simp_all
  from sg_world.IH [OF v(1)] v(2) show ?case by (simp add: element_ok_def answered_at_def)
qed

subsection \<open>The gate\<close>

definition full_ip :: "ip \<Rightarrow> ip" where
  "full_ip a = (if length a = 4 then v4_in_v6_prefix @ a else a)"

definition kernel_sets :: "('k \<Rightarrow> deadlines) \<Rightarrow> 'k \<Rightarrow> dyn_sets" where
  "kernel_sets view k = (\<lambda>n d. \<exists>e. view k (n, e) \<noteq> None \<and> parse_ip e = Some d)"

lemma kernel_sets_answered:
  assumes "nft_sound nft view clock" "strict_run E L h nft view clock s" "kernel_sets view (sk_kernel s) n d"
  shows "\<exists>t a ttl. answered_at E h s t a ttl \<and> full_ip a = d \<and>
    clock (sk_kernel s) < t + clamp_ttl (int (unat ttl) * second)"
proof -
  obtain e x where x: "view (sk_kernel s) (n, e) = Some x" "parse_ip e = Some d"
    using assms(3) by (auto simp: kernel_sets_def)
  from strict_run_elements [OF assms(1,2) x(1)] obtain t a ttl where a:
    "answered_at E h s t a ttl" "length a = 4 \<or> length a = 16" "\<forall>b \<in> set a. b < 256"
    "(n, e) = resolved_key (ip_string a)" "x \<le> t + clamp_ttl (int (unat ttl) * second)"
    "clock (sk_kernel s) < x"
    unfolding element_ok_def by blast
  have full: "length (full_ip a) = 4 \<or> length (full_ip a) = 16" "\<forall>b \<in> set (full_ip a). b < 256" "length (full_ip a) = 16"
    using a(2,3) by (auto simp: full_ip_def v4_in_v6_prefix_def)
  have "e = ip_string (full_ip a)"
    using a(2,4) parse_ip_string [OF a(2,3)] by (simp add: resolved_key_def full_ip_def)
  then have "full_ip a = d" using x(2) parse_ip_string [OF full(1,2)] full(3) by simp
  moreover have "clock (sk_kernel s) < t + clamp_ttl (int (unat ttl) * second)" using a(5,6) by simp
  ultimately show ?thesis using a(1) by blast
qed

lemma strict_route:
  assumes step: "in_step E getenv lookup cfg s pol" "as_reload s = None"
    and m: "to_lower E (to_lower E m) = to_lower E m" "m = trim_space (getenv ''FILTER_MODE'')"
    and cfg: "run_config E getenv pd fs = Inr cfg" "ac_mode cfg = mode_dns_strict" "\<not> ac_learning_mode cfg"
      "\<not> ac_audit_mode cfg" "\<not> effective_default_allow cfg (Some pol)"
    and p: "external p" "wf_packet p"
  shows "route_of s dyn p =
    Some (if pk_l4 p = Udp 53 \<or> pk_l4 p = Tcp 53 then Via (hd (start_services lookup cfg pol))
          else if neighbour_discovery p \<or> ip_in (AllowIPs pol) (pk_dst p) \<or> dyn (resolved_set (is_v4 p)) (pk_dst p)
          then Direct else Refused)"
proof -
  obtain hs hp dp rs where rs: "rs = config_of E getenv (app_policy_rules cfg pol) hs hp dp"
    and k: "as_kernel s = Some (atomic_replace_preamble @ generate_ruleset E rs)"
    and wf: "wf_config rs" and mode: "ruleset_mode E rs = ac_mode cfg"
    and svcs: "as_services s = start_services lookup cfg pol"
    and l: "atoi (ac_dns_port cfg) = Some (DNSPort rs)" "0 \<le> DNSPort rs"
    by (rule app_setting [OF step m cfg(1)])
  note rules = config_stance [OF cfg(3)]
  have stance: "\<not> ruleset_config.DefaultAllow rs" "\<not> Audit rs" using cfg(4,5) by (simp_all add: rs rules)
  have ip: "allowed rs p = ip_in (AllowIPs pol) (pk_dst p)"
    unfolding rs by (simp add: allowed_policy [OF p(2,1)] rules)
  have svc: "start_services lookup cfg pol =
      [Service53 (AllowDomains pol) (service_options lookup cfg pol\<lparr>ListenAddr := '':'' @ ac_dns_port cfg\<rparr>)]"
    by (simp add: start_services_def start_dns_service_def is_dns_mode_def cfg(2) Let_def)
  let ?svc = "hd (start_services lookup cfg pol)"
  have lp: "listen_port ?svc = Some (DNSPort rs)" by (simp add: svc listen_port_def l(1))
  have one: "as_services s = [?svc]" by (simp add: svcs svc)
  have fate: "map_option snd (ruleset_egress (generate_ruleset E rs) dyn p) = Some (snd (dns_strict_spec rs dyn p))"
    using dns_strict_egress [OF wf trans [OF mode cfg(2)] stance p(1)] by simp
  show ?thesis
    unfolding route_from_fate [OF k] kernel_text_egress [OF wf] fate one
    using p(1) l(2) by (simp add: lp dns_strict_spec_def dns_redirect_def ip l4_port_def)
qed

subsection \<open>The program as a whole\<close>

lemma strict_handler:
  assumes "dns_handler_of E getenv svc = Some h" "start_services lookup cfg pol = [svc]"
    "ac_mode cfg = mode_dns_strict" "\<not> ac_learning_mode cfg" "\<not> effective_default_allow cfg (Some pol)"
  shows "host_permitted_by E name (h_allowlist h) (h_opts h) \<longleftrightarrow>
    name \<noteq> [] \<and> matches_any E name (normalize_patterns E (AllowDomains pol))"
proof -
  have "svc = Service53 (AllowDomains pol) (service_options lookup cfg pol\<lparr>ListenAddr := '':'' @ ac_dns_port cfg\<rparr>)"
    using assms(2) by (simp add: start_services_def start_dns_service_def is_dns_mode_def assms(3) Let_def)
  with assms(1) have "h_allowlist h = new_matcher E (normalize_patterns E (AllowDomains pol))"
    "\<not> LearningMode (h_opts h)" "\<not> options.DefaultAllow (h_opts h)"
    using assms(4,5) by (auto simp: dns_handler_of_def serve53_setup_def create_dns_handler_def Let_def service_options_fields)
  then show ?thesis by (simp add: host_permitted_by_def allows_new_matcher)
qed


subsection \<open>An example\<close>

definition strict_env :: "string \<Rightarrow> string" where
  "strict_env k = (if k = ''FILTER_MODE'' then ''dns-strict'' else gate_env ''block'' k)"

definition strict_config :: app_config where
  "strict_config = projr (run_config ascii_env strict_env (\<lambda>_. None) (\<lambda>_. None))"

definition strict_service :: service where
  "strict_service = hd (start_services no_proc strict_config gate_policy)"

definition strict_handler_ex :: dns_handler where
  "strict_handler_ex = the (dns_handler_of ascii_env strict_env strict_service)"

lemma strict_read: "read ascii_env Y strict_env fs ''/p'' = Inr gate_policy"
  by (simp add: read_def strict_env_def gate_env_def gate_texts load_from_env_def gate_policy_def validate_lists_def Let_def)

lemma strict_facts:
  "ac_policy_path strict_config = ''/p''" "ac_https_port strict_config = ''8443''"
  "ac_http_port strict_config = ''8080''" "ac_dns_port strict_config = ''53''"
  "ac_mode strict_config = mode_dns_strict" "\<not> ac_learning_mode strict_config"
  "\<not> ac_audit_mode strict_config" "ac_default_action strict_config = default_action_deny"
  "run_config ascii_env strict_env (\<lambda>_. None) (\<lambda>_. None) = Inr strict_config"
proof -
  have t: "trim_space ''dns-strict'' = ''dns-strict''" "to_lower ascii_env ''dns-strict'' = ''dns-strict''"
    by code_simp+
  show "ac_policy_path strict_config = ''/p''" "ac_https_port strict_config = ''8443''"
    "ac_http_port strict_config = ''8080''" "ac_dns_port strict_config = ''53''"
    "ac_mode strict_config = mode_dns_strict" "\<not> ac_learning_mode strict_config"
    "\<not> ac_audit_mode strict_config" "ac_default_action strict_config = default_action_deny"
    "run_config ascii_env strict_env (\<lambda>_. None) (\<lambda>_. None) = Inr strict_config"
  by (simp_all add: t strict_config_def run_config_def resolved_config_def validate_ports_def load_app_config_def
      getenv_default_def strict_env_def gate_env_def gate_texts setup_proc_info_def setup_learning_def
      resolve_policy_path_def normalize_mode_def mode_defs is_dns_mode_def default_action_deny_def
      default_action_allow_def Let_def)
qed

lemma strict_deny: "\<not> effective_default_allow strict_config (Some gate_policy)"
  by (simp add: effective_default_allow_def gate_policy_def strict_facts default_action_deny_def default_action_allow_def)

lemma strict_app_run:
  "\<exists>s. loaded_run ascii_env sample_yaml strict_env (\<lambda>b. b) no_proc strict_config s (\<lambda>_. None) \<and> as_reload s = None \<and>
     as_services s = [strict_service]"
proof -
  obtain rtext where r: "ruleset_of ascii_env strict_env strict_config gate_policy = Inr rtext"
    by (simp add: ruleset_of_def strict_facts policy_ruleset_def sample_ports Let_def case_prod_unfold)
  have "load_and_apply_policy ascii_env sample_yaml strict_env (\<lambda>_. None) (\<lambda>_. None) strict_config =
    ([([''-c'', ''-f'', ''-''], rtext), ([''-f'', ''-''], rtext)], Inr gate_policy)"
    using r by (simp add: load_and_apply_policy_def strict_facts strict_read apply_policy_rules_with_context_def
        ruleset_of_def validate_and_parse_ruleset_def apply_ruleset_def)
  then obtain s where "app_start ascii_env sample_yaml strict_env (\<lambda>b. b) (\<lambda>_. None) (\<lambda>_. None) (\<lambda>_. None) no_proc
      strict_config = Inr s" "as_reload s = None" "as_services s = start_services no_proc strict_config gate_policy"
    by (simp add: app_start_def)
  moreover have "start_services no_proc strict_config gate_policy = [strict_service]"
    by (simp add: strict_service_def start_services_def start_dns_service_def is_dns_mode_def strict_facts Let_def)
  ultimately show ?thesis using loaded_start by metis
qed

lemma strict_handler_facts:
  "dns_handler_of ascii_env strict_env strict_service = Some strict_handler_ex" "permits_sample strict_handler_ex"
proof -
  let ?o = "service_options no_proc strict_config gate_policy"
  have svc: "strict_service = Service53 [''a.example''] (?o\<lparr>ListenAddr := '':53''\<rparr>)"
    by (simp add: strict_service_def start_services_def start_dns_service_def is_dns_mode_def strict_facts gate_policy_def Let_def)
  show h: "dns_handler_of ascii_env strict_env strict_service = Some strict_handler_ex"
    unfolding strict_handler_ex_def dns_handler_of_def svc by simp
  have o: "\<not> LearningMode ?o" "HasLogger ?o" "OnResolved ?o"
    using strict_facts(5-7) strict_deny by (simp_all add: service_options_def strict_resolved_hook_def Let_def)
  have hh: "strict_handler_ex = fst (serve53_setup ascii_env strict_env [''a.example''] (?o\<lparr>ListenAddr := '':53''\<rparr>))"
    using h by (simp add: dns_handler_of_def svc)
  have "h_upstreams strict_handler_ex = [''127.0.0.11:53'']" "\<not> LearningMode (h_opts strict_handler_ex)"
    "HasLogger (h_opts strict_handler_ex)" "OnResolved (h_opts strict_handler_ex)"
    unfolding hh using o by (simp_all add: serve53_setup_def create_dns_handler_def default_upstreams_from_env_def strict_env_def
        gate_env_def gate_texts Let_def)
  moreover have "host_permitted_by ascii_env ''a.example'' (h_allowlist strict_handler_ex) (h_opts strict_handler_ex)"
  proof -
    have "matches_any ascii_env ''a.example'' (normalize_patterns ascii_env (AllowDomains gate_policy))"
      unfolding gate_policy_def by code_simp
    moreover have "start_services no_proc strict_config gate_policy = [strict_service]"
      by (simp add: strict_service_def start_services_def start_dns_service_def is_dns_mode_def strict_facts Let_def)
    ultimately show ?thesis using strict_handler [OF h _ strict_facts(5,6) strict_deny] by simp
  qed
  ultimately show "permits_sample strict_handler_ex" by (simp add: permits_sample_def)
qed

lemma strict_example_run:
  "\<exists>k. strict_run ascii_env sample_lib strict_handler_ex (example_nft keeps) snd fst k \<and>
     snd (sk_kernel k) (''resolved_allow_v4'', ''192.0.2.1'') \<noteq> None"
proof -
  let ?k = "(7, \<lambda>_. None) :: nanos \<times> deadlines" and ?ips = "[''192.0.2.1'']"
  let ?init = "\<lparr>sk_kernel = ?k, sk_log = []\<rparr> :: (nanos \<times> deadlines) strict_state"
  let ?evs = "fst (handle_dns ascii_env sample_lib strict_handler_ex sample_upstream (sample_query ''A.example.'') sample_state)"
  have init: "strict_run ascii_env sample_lib strict_handler_ex (example_nft keeps) snd fst ?init"
    by (rule sg_start) simp
  have wf: "wf_answers sample_upstream"
    by (simp add: wf_answers_def addresses_def sample_answer_def List.map_filter_def)
  obtain pre cx where e: "?evs = map Dlog pre @ [Dexchange ''udp'' ''127.0.0.11:53'' (rq_msg (sample_query ''A.example.'')),
       Dresolved [''192.0.2.1''] 300,
       Dlog (log_line Info ''dns.allowed''
         (cx_fields sample_lib strict_handler_ex cx ''ALLOWED'' @ [(''rcode'', VS ''NOERROR'')])), Dreply sample_answer]"
    using sample_trace [OF strict_handler_facts(2)] by blast
  have logs: "foldl (on_resolved nft) k (map Dlog ls) = k" for nft :: "(nanos \<times> deadlines) nft_cmd_prog" and k ls
    by (induction ls) (simp_all add: on_resolved_def)
  have ip: "parse_ip (trim_space ''192.0.2.1'') \<noteq> None" "resolved_key ''192.0.2.1'' = (''resolved_allow_v4'', ''192.0.2.1'')"
    by code_simp+
  have ok: "\<forall>i \<in> set ?ips. parse_ip (trim_space i) \<noteq> None" using ip(1) by simp
  from add_resolved_ips_view [OF example_nft_elements [of keeps] ok, of ?k "int (unat (300 :: 32 word)) * second"]
  obtain k where k: "add_resolved_ips (example_nft keeps) ?k ?ips (int (unat (300 :: 32 word)) * second) = (k, [])"
    "\<forall>x. if x \<in> resolved_key ` set ?ips then snd k x = Some (deadline (fst ?k) (int (unat (300 :: 32 word)) * second)) \<or>
        snd ?k x \<noteq> None \<and> snd k x = snd ?k x else snd k x = snd ?k x"
    by blast
  have "foldl (on_resolved (example_nft keeps)) ?k ?evs = k"
    using k(1) by (simp add: e logs) (simp add: on_resolved_def)
  moreover have "snd k (''resolved_allow_v4'', ''192.0.2.1'') \<noteq> None"
    using k(2) [rule_format, of "(''resolved_allow_v4'', ''192.0.2.1'')"] by (simp add: ip(2))
  ultimately show ?thesis
    using sg_handled [OF init wf refl, of "sample_query ''A.example.''" sample_state] by (intro exI conjI) (assumption, simp)
qed


end
