(* ===== verification/LogStore.thy ===== *)
theory LogStore
  imports GoText
begin

text \<open>
  \<^verbatim>\<open>internal/dashboard/store.go\<close> and the interface \<^verbatim>\<open>LogStore\<close> of
  \<^verbatim>\<open>interfaces.go\<close>: the circular buffer of the dashboard. The interface is the locale
  \<open>log_store\<close>; its laws speak of the list of stored entries, newest first, and the handlers
  rely on nothing else. A time is a number of nanoseconds; \<^verbatim>\<open>Fields\<close> is the JSON text.
\<close>

record log_entry =
  ID :: int
  Time :: nanos
  Message :: string
  Fields :: string
  RemoteIP :: string
  Action :: string
  SourceIP :: string
  SourcePort :: int
  DestinationIP :: string
  DestinationPort :: int
  Protocol :: string
  PolicyHit :: string
  PayloadLen :: int
  HTTPS :: string
  HTTPHost :: string
  TenantID :: string
  FlowID :: string
  Hostname :: string
  Src :: string
  Dst :: string
  Version :: string

definition zero_entry :: log_entry where
  "zero_entry =
     \<lparr>ID = 0, Time = 0, Message = [], Fields = [], RemoteIP = [], Action = [], SourceIP = [], SourcePort = 0,
      DestinationIP = [], DestinationPort = 0, Protocol = [], PolicyHit = [], PayloadLen = 0, HTTPS = [],
      HTTPHost = [], TenantID = [], FlowID = [], Hostname = [], Src = [], Dst = [], Version = []\<rparr>"

record mem_store =
  st_buf :: "log_entry list"
  st_head :: nat
  st_size :: nat
  st_count :: nat
  st_next_id :: int

definition new_mem_store :: "int \<Rightarrow> mem_store" where
  "new_mem_store n0 =
     (let n = (if n0 < 1 then 1 else nat n0)
      in \<lparr>st_buf = replicate n zero_entry, st_head = 0, st_size = n, st_count = 0, st_next_id = 1\<rparr>)"

definition store_insert :: "mem_store \<Rightarrow> log_entry \<Rightarrow> mem_store \<times> int" where
  "store_insert s e =
     (let i = st_next_id s
      in (s\<lparr>st_next_id := i + 1,
            st_buf := (st_buf s)[st_head s := e\<lparr>ID := i\<rparr>],
            st_head := (st_head s + 1) mod st_size s,
            st_count := (if st_count s < st_size s then st_count s + 1 else st_count s)\<rparr>, i))"

definition store_clear :: "mem_store \<Rightarrow> mem_store" where
  "store_clear s = s\<lparr>st_head := 0, st_count := 0, st_next_id := 1\<rparr>"

definition should_skip_entry :: "env \<Rightarrow> log_entry \<Rightarrow> string \<Rightarrow> int \<Rightarrow> bool" where
  "should_skip_entry E entry q sinceID \<longleftrightarrow>
     sinceID > 0 \<and> ID entry \<le> sinceID \<or>
     q \<noteq> [] \<and> \<not> str_contains (to_lower E (join_with '' '' [Message entry, Fields entry])) q"

definition prev_index :: "mem_store \<Rightarrow> nat \<Rightarrow> nat" where
  "prev_index s idx = (if idx = 0 then st_size s - 1 else idx - 1)"

function query_loop ::
  "env \<Rightarrow> mem_store \<Rightarrow> string \<Rightarrow> int \<Rightarrow> nat \<Rightarrow> nat \<Rightarrow> nat \<Rightarrow> log_entry list \<Rightarrow> log_entry list" where
  "query_loop E s q sinceID limit seen idx out =
     (if seen < st_count s \<and> length out < limit then
        (let it = st_buf s ! idx
         in if should_skip_entry E it q sinceID
            then query_loop E s q sinceID limit (seen + 1) (prev_index s idx) out
            else query_loop E s q sinceID limit (seen + 1) (prev_index s idx) (out @ [it]))
      else out)"
  by pat_completeness auto
termination
  by (relation "measure (\<lambda>(E, s, q, sinceID, limit, seen, idx, out). st_count s - seen)") auto

declare query_loop.simps [simp del]

definition query_limit :: "int \<Rightarrow> nat" where
  "query_limit limit = (if limit \<le> 0 \<or> limit > 5000 then 5000 else nat limit)"

definition store_query :: "env \<Rightarrow> mem_store \<Rightarrow> string \<Rightarrow> int \<Rightarrow> int \<Rightarrow> log_entry list" where
  "store_query E s q0 sinceID limit =
     (let q = to_lower E (trim_space q0)
      in if st_count s = 0 then []
         else query_loop E s q sinceID (query_limit limit) 0
                ((st_head s + st_size s - 1) mod st_size s) [])"

subsection \<open>The interface\<close>

definition wanted :: "env \<Rightarrow> string \<Rightarrow> int \<Rightarrow> log_entry \<Rightarrow> bool" where
  "wanted E q sinceID e \<longleftrightarrow> \<not> should_skip_entry E e (to_lower E (trim_space q)) sinceID"

fun numbered :: "int \<Rightarrow> log_entry list \<Rightarrow> log_entry list" where
  "numbered i [] = []"
| "numbered i (e # es) = e\<lparr>ID := i\<rparr> # numbered (i + 1) es"

lemma take_rev_step: "take n (xs @ take n (y # ys)) = take n (xs @ y # ys)"
  by (cases "length xs \<le> n") (simp_all add: take_append min_def)

locale log_store =
  fixes insert_log :: "'s \<Rightarrow> log_entry \<Rightarrow> 's \<times> int"
    and query :: "'s \<Rightarrow> string \<Rightarrow> int \<Rightarrow> int \<Rightarrow> log_entry list"
    and clear_logs :: "'s \<Rightarrow> 's"
    and logs :: "'s \<Rightarrow> log_entry list"
    and next_id :: "'s \<Rightarrow> int"
    and capacity :: "'s \<Rightarrow> nat"
    and inv :: "'s \<Rightarrow> bool"
    and want :: "string \<Rightarrow> int \<Rightarrow> log_entry \<Rightarrow> bool"
  assumes inv_insert: "inv s \<Longrightarrow> inv (fst (insert_log s e))"
    and inv_clear: "inv s \<Longrightarrow> inv (clear_logs s)"
    and insert_id: "inv s \<Longrightarrow> snd (insert_log s e) = next_id s"
    and logs_insert: "inv s \<Longrightarrow>
      logs (fst (insert_log s e)) = take (capacity s) (e\<lparr>ID := next_id s\<rparr> # logs s)"
    and next_insert: "inv s \<Longrightarrow> next_id (fst (insert_log s e)) = next_id s + 1"
    and capacity_insert: "inv s \<Longrightarrow> capacity (fst (insert_log s e)) = capacity s"
    and logs_clear: "inv s \<Longrightarrow> logs (clear_logs s) = []"
    and next_clear: "inv s \<Longrightarrow> next_id (clear_logs s) = 1"
    and capacity_clear: "inv s \<Longrightarrow> capacity (clear_logs s) = capacity s"
    and logs_bounded: "inv s \<Longrightarrow> length (logs s) \<le> capacity s"
    and query_logs: "inv s \<Longrightarrow> query s q since lim = take (query_limit lim) (filter (want q since) (logs s))"
begin

definition ids_descend :: "'s \<Rightarrow> bool" where
  "ids_descend s \<longleftrightarrow> sorted_wrt (\<lambda>a b. ID b < ID a) (logs s) \<and> (\<forall>e \<in> set (logs s). 0 < ID e \<and> ID e < next_id s) \<and>
     0 < next_id s"

lemma ids_insert: "inv s \<Longrightarrow> ids_descend s \<Longrightarrow> ids_descend (fst (insert_log s e))"
  unfolding ids_descend_def
  by (auto simp: logs_insert next_insert sorted_wrt_take dest!: in_set_takeD intro: less_imp_le)

lemma ids_clear: "inv s \<Longrightarrow> ids_descend (clear_logs s)"
  by (simp add: ids_descend_def logs_clear next_clear)

fun insert_all :: "'s \<Rightarrow> log_entry list \<Rightarrow> 's" where
  "insert_all s [] = s"
| "insert_all s (e # es) = insert_all (fst (insert_log s e)) es"

lemma insert_all_inv: "inv s \<Longrightarrow> inv (insert_all s es)"
  by (induction es arbitrary: s) (auto intro: inv_insert)

lemma insert_all_ids: "inv s \<Longrightarrow> ids_descend s \<Longrightarrow> ids_descend (insert_all s es)"
  by (induction es arbitrary: s) (auto intro: inv_insert ids_insert)

lemma insert_all_logs:
  "inv s \<Longrightarrow> logs (insert_all s es) = take (capacity s) (rev (numbered (next_id s) es) @ logs s)"
proof (induction es arbitrary: s)
  case Nil
  then show ?case by (simp add: logs_bounded)
next
  case (Cons e es)
  then show ?case
    by (simp add: inv_insert next_insert capacity_insert logs_insert take_rev_step)
qed

text \<open>A client that has seen every entry so far and polls with the newest identifier it knows gets
  exactly the entries stored since then, newest first, as long as they fit the buffer and the
  limit and the store was not cleared.\<close>

lemma poll:
  assumes "inv s" "ids_descend s" "length es \<le> capacity s" "length es \<le> query_limit lim"
    and want_new: "\<And>e. 0 < ID e \<Longrightarrow> want q since e \<longleftrightarrow> since < ID e" and "since = next_id s - 1"
  shows "query (insert_all s es) q since lim = rev (numbered (next_id s) es)"
proof -
  have new: "\<forall>e \<in> set (numbered i xs). i \<le> ID e" for i xs
    by (induction xs arbitrary: i) (auto, fastforce)
  have len: "length (numbered i xs) = length xs" for i xs by (induction xs arbitrary: i) auto
  have old: "\<not> want q since e" if "e \<in> set (logs s)" for e
    using assms(2,6) want_new [of e] that by (auto simp: ids_descend_def)
  have fresh: "want q since e" if "e \<in> set (numbered (next_id s) es)" for e
    using new [of "next_id s" es] that want_new [of e] assms(2,6) by (auto simp: ids_descend_def)
  let ?n = "rev (numbered (next_id s) es)"
  have "filter (want q since) (take (capacity s) (?n @ logs s)) = ?n"
  proof -
    have "take (capacity s) (?n @ logs s) = ?n @ take (capacity s - length es) (logs s)"
      using assms(3) by (simp add: len)
    moreover have "filter (want q since) ?n = ?n"
      using fresh by (intro filter_True) auto
    moreover have "filter (want q since) (take (capacity s - length es) (logs s)) = []"
      using old by (auto simp: filter_empty_conv dest!: in_set_takeD)
    ultimately show ?thesis by simp
  qed
  then show ?thesis
    using assms(1,4) by (simp add: query_logs insert_all_inv insert_all_logs len)
qed

end

subsection \<open>The circular buffer\<close>

definition store_inv :: "mem_store \<Rightarrow> bool" where
  "store_inv s \<longleftrightarrow> 0 < st_size s \<and> st_head s < st_size s \<and> st_count s \<le> st_size s \<and>
     length (st_buf s) = st_size s"

definition slot :: "mem_store \<Rightarrow> nat \<Rightarrow> nat" where
  \<comment> \<open>the index of the entry that is \<open>k\<close> inserts old\<close>
  "slot s k = (st_head s + st_size s - 1 - k) mod st_size s"

definition store_logs :: "mem_store \<Rightarrow> log_entry list" where
  "store_logs s = map (\<lambda>k. st_buf s ! slot s k) [0 ..< st_count s]"

lemma new_mem_store_inv: "store_inv (new_mem_store n)" "store_logs (new_mem_store n) = []"
  "st_next_id (new_mem_store n) = 1" "st_size (new_mem_store n) = (if n < 1 then 1 else nat n)"
  by (auto simp: store_inv_def new_mem_store_def store_logs_def Let_def)

lemma slot_less: "store_inv s \<Longrightarrow> slot s k < st_size s"
  by (simp add: slot_def store_inv_def)

lemma slot_eq:
  assumes "store_inv s" "k < st_size s"
  shows "slot s k = (if k < st_head s then st_head s - 1 - k else st_head s + st_size s - 1 - k)"
proof (cases "k < st_head s")
  case True
  then have "st_head s + st_size s - 1 - k = st_size s + (st_head s - 1 - k)"
    using assms by (auto simp: store_inv_def)
  then have "slot s k = (st_head s - 1 - k) mod st_size s" by (simp add: slot_def)
  also have "\<dots> = st_head s - 1 - k" using assms by (intro mod_less) (auto simp: store_inv_def)
  finally show ?thesis using True by simp
next
  case False
  then show ?thesis using assms by (simp add: slot_def store_inv_def)
qed

lemma prev_slot: "store_inv s \<Longrightarrow> Suc k < st_size s \<Longrightarrow> prev_index s (slot s k) = slot s (Suc k)"
  by (auto simp: slot_eq prev_index_def store_inv_def)

lemma slot_insert:
  assumes "store_inv s" "k < st_size s"
  shows "slot (fst (store_insert s e)) k = (if k = 0 then st_head s else slot s (k - 1))"
proof -
  have i: "store_inv (fst (store_insert s e))"
    using assms by (auto simp: store_inv_def store_insert_def Let_def)
  have h: "st_head (fst (store_insert s e)) = (if st_head s + 1 = st_size s then 0 else st_head s + 1)"
    "st_size (fst (store_insert s e)) = st_size s"
    using assms by (auto simp: store_insert_def Let_def store_inv_def)
  show ?thesis
    using assms slot_eq [OF i, of k] slot_eq [OF assms(1), of "k - 1"]
    by (auto simp: h store_inv_def)
qed

lemma store_insert_inv: "store_inv s \<Longrightarrow> store_inv (fst (store_insert s e))"
  by (auto simp: store_inv_def store_insert_def Let_def)

lemma store_insert_logs:
  assumes i: "store_inv s"
  shows "store_logs (fst (store_insert s e)) = take (st_size s) (e\<lparr>ID := st_next_id s\<rparr> # store_logs s)"
proof (rule nth_equalityI)
  let ?s = "fst (store_insert s e)"
  have c: "st_count ?s = min (st_size s) (Suc (st_count s))"
    using i by (auto simp: store_insert_def Let_def store_inv_def)
  then show "length (store_logs ?s) = length (take (st_size s) (e\<lparr>ID := st_next_id s\<rparr> # store_logs s))"
    by (simp add: store_logs_def)
  fix k
  assume "k < length (store_logs ?s)"
  then have k: "k < st_size s" "k \<le> st_count s" and k': "k < st_count ?s" by (auto simp: store_logs_def c)
  have b: "st_buf ?s = (st_buf s)[st_head s := e\<lparr>ID := st_next_id s\<rparr>]"
    by (simp add: store_insert_def Let_def)
  have other: "slot s (k - 1) \<noteq> st_head s" if "k \<noteq> 0"
    using that k i slot_eq [OF i, of "k - 1"] by (auto simp: store_inv_def)
  have "store_logs ?s ! k = st_buf ?s ! slot ?s k" using k' by (simp add: store_logs_def)
  also have "\<dots> = (e\<lparr>ID := st_next_id s\<rparr> # store_logs s) ! k"
  proof (cases k)
    case 0
    then show ?thesis using i k by (simp add: slot_insert b store_inv_def)
  next
    case (Suc m)
    then show ?thesis using i k other by (simp add: slot_insert b store_logs_def)
  qed
  also have "\<dots> = take (st_size s) (e\<lparr>ID := st_next_id s\<rparr> # store_logs s) ! k" using k by simp
  finally show "store_logs ?s ! k = take (st_size s) (e\<lparr>ID := st_next_id s\<rparr> # store_logs s) ! k" .
qed

lemma query_loop_logs:
  assumes i: "store_inv s"
  shows "k \<le> st_count s \<Longrightarrow>
    query_loop E s q since limit k (slot s k) out =
      out @ take (limit - length out)
        (filter (\<lambda>e. \<not> should_skip_entry E e q since) (drop k (store_logs s)))"
proof (induction "st_count s - k" arbitrary: k out)
  case 0
  then show ?case by (subst query_loop.simps) (simp add: store_logs_def)
next
  case (Suc m)
  then have k: "k < st_count s" by simp
  have d: "drop k (store_logs s) = st_buf s ! slot s k # drop (Suc k) (store_logs s)"
    using k by (simp add: store_logs_def Cons_nth_drop_Suc [symmetric])
  have idx: "query_loop E s q since limit (Suc k) (prev_index s (slot s k)) o' =
      query_loop E s q since limit (Suc k) (slot s (Suc k)) o'" for o'
  proof (cases "Suc k < st_count s")
    case True
    then show ?thesis using i by (simp add: prev_slot store_inv_def)
  next
    case False
    then show ?thesis by (subst (1 2) query_loop.simps) simp
  qed
  have ih: "query_loop E s q since limit (Suc k) (slot s (Suc k)) o' =
      o' @ take (limit - length o') (filter (\<lambda>e. \<not> should_skip_entry E e q since) (drop (Suc k) (store_logs s)))"
    for o'
    using Suc k by simp
  show ?case
    by (subst query_loop.simps)
      (auto simp: k d idx ih Let_def take_Cons' diff_Suc split: nat.splits)
qed

lemma store_query_logs:
  assumes "store_inv s"
  shows "store_query E s q since lim = take (query_limit lim) (filter (wanted E q since) (store_logs s))"
proof (cases "st_count s = 0")
  case True
  then show ?thesis by (simp add: store_query_def store_logs_def)
next
  case False
  have w: "(\<lambda>e. \<not> should_skip_entry E e (to_lower E (trim_space q)) since) = wanted E q since"
    by (rule ext) (simp add: wanted_def)
  show ?thesis
    using query_loop_logs [OF assms, of 0 E "to_lower E (trim_space q)" since "query_limit lim" "[]"] False
    by (simp add: store_query_def slot_def w)
qed

lemma store_laws:
  "st_next_id (fst (store_insert s e)) = st_next_id s + 1" "st_size (fst (store_insert s e)) = st_size s"
  "snd (store_insert s e) = st_next_id s"
  "store_inv s \<Longrightarrow> store_inv (store_clear s)" "store_logs (store_clear s) = []"
  "st_next_id (store_clear s) = 1" "st_size (store_clear s) = st_size s"
  by (auto simp: store_insert_def store_clear_def store_inv_def store_logs_def Let_def)

interpretation mem: log_store store_insert "store_query E" store_clear store_logs st_next_id st_size store_inv "wanted E"
  for E
proof unfold_locales
  fix s :: mem_store and e :: log_entry and q :: string and since lim :: int
  assume i: "store_inv s"
  show "store_inv (fst (store_insert s e))" using i by (rule store_insert_inv)
  show "store_logs (fst (store_insert s e)) = take (st_size s) (e\<lparr>ID := st_next_id s\<rparr> # store_logs s)"
    using i by (rule store_insert_logs)
  show "length (store_logs s) \<le> st_size s" using i by (simp add: store_logs_def store_inv_def)
  show "store_query E s q since lim = take (query_limit lim) (filter (wanted E q since) (store_logs s))"
    using i by (rule store_query_logs)
qed (simp_all add: store_laws)

subsection \<open>Any sequence of operations\<close>

datatype store_op = OInsert log_entry | OClear

fun run_op :: "mem_store \<Rightarrow> store_op \<Rightarrow> mem_store" where
  "run_op s (OInsert e) = fst (store_insert s e)"
| "run_op s OClear = store_clear s"

definition since_clear :: "store_op list \<Rightarrow> log_entry list" where
  \<comment> \<open>what was inserted after the last clear, in order\<close>
  "since_clear ops =
     foldl (\<lambda>es op. case op of OInsert e \<Rightarrow> es @ [e] | OClear \<Rightarrow> []) [] ops"

lemma numbered_append: "numbered i (xs @ ys) = numbered i xs @ numbered (i + int (length xs)) ys"
  by (induction xs arbitrary: i) (auto simp: algebra_simps)

lemma run_ops_state:
  assumes "store_inv s0" "store_logs s0 = []" "st_next_id s0 = 1"
  shows "let s = foldl run_op s0 ops; es = since_clear ops in
    store_inv s \<and> mem.ids_descend s \<and> st_size s = st_size s0 \<and> st_next_id s = 1 + int (length es) \<and>
    store_logs s = take (st_size s0) (rev (numbered 1 es))"
proof (induction ops rule: rev_induct)
  case Nil
  then show ?case using assms by (simp add: since_clear_def mem.ids_descend_def)
next
  case (snoc op ops)
  let ?s = "foldl run_op s0 ops"
  have i: "store_inv ?s" and d: "mem.ids_descend ?s"
    and n: "st_next_id ?s = 1 + int (length (since_clear ops))" "st_size ?s = st_size s0"
    and l: "store_logs ?s = take (st_size s0) (rev (numbered 1 (since_clear ops)))"
    using snoc by (auto simp: Let_def)
  show ?case
  proof (cases op)
    case (OInsert e)
    then show ?thesis
      using mem.inv_insert [OF i, of e] mem.ids_insert [OF i d, of e] mem.logs_insert [OF i, of e] n l
        take_rev_step [of "st_size s0" "[]"]
      by (simp add: since_clear_def store_laws numbered_append take_Cons')
  next
    case OClear
    then show ?thesis
      using mem.inv_clear [OF i] mem.ids_clear [OF i] n by (simp add: since_clear_def store_laws)
  qed
qed

text \<open>C33: The circular buffer is a bounded list. After any sequence of inserts and clears a query
  returns, newest first and with strictly descending identifiers, the entries among the last
  \<open>capacity\<close> ones inserted since the last clear that match the text and are newer than the given
  identifier, as many as the limit allows.\<close>

theorem store_refines_list:
  "let s = foldl run_op (new_mem_store n) ops;
       kept = take (if n < 1 then 1 else nat n) (rev (numbered 1 (since_clear ops)));
       r = store_query E s q since lim
   in r = take (query_limit lim) (filter (wanted E q since) kept) \<and> sorted_wrt (\<lambda>a b. ID b < ID a) r"
proof -
  let ?s = "foldl run_op (new_mem_store n) ops"
  have i: "store_inv ?s" and d: "mem.ids_descend ?s"
    and l: "store_logs ?s = take (if n < 1 then 1 else nat n) (rev (numbered 1 (since_clear ops)))"
    using run_ops_state [OF new_mem_store_inv(1-3), of n ops] by (auto simp: Let_def new_mem_store_inv)
  have "sorted_wrt (\<lambda>a b. ID b < ID a) (store_query E ?s q since lim)"
    using d by (simp add: mem.query_logs [OF i] mem.ids_descend_def sorted_wrt_take sorted_wrt_filter)
  then show ?thesis by (simp add: Let_def mem.query_logs [OF i] l)
qed

text \<open>Polling loses nothing. In a store reached by any operations, a client that asks with the
  newest identifier handed out so far gets, newest first, exactly the entries inserted since, if
  they fit the buffer and the limit.\<close>

theorem store_poll_complete:
  assumes "s = foldl run_op (new_mem_store n) ops" "since = st_next_id s - 1" "1 \<le> since"
    and "length es \<le> st_size s" "length es \<le> query_limit lim"
  shows "store_query E (foldl run_op s (map OInsert es)) [] since lim = rev (numbered (since + 1) es)"
proof -
  have i: "store_inv s" "mem.ids_descend s"
    using run_ops_state [OF new_mem_store_inv(1-3), of n ops] by (auto simp: Let_def assms(1))
  have all: "foldl run_op t (map OInsert es) = mem.insert_all t es" for t
    by (induction es arbitrary: t) simp_all
  have w: "wanted E [] since e \<longleftrightarrow> since < ID e" for e
    using assms(3) by (auto simp: wanted_def should_skip_entry_def to_lower_def)
  show ?thesis
    unfolding all
    using mem.poll [OF i assms(4,5), of E "[]" since] w assms(2) by simp
qed

theorem store_poll_complete_witness:
  "store_query ascii_env (foldl run_op (foldl run_op (new_mem_store 2) [OInsert zero_entry])
      (map OInsert [zero_entry, zero_entry])) [] 1 5 = [zero_entry\<lparr>ID := 3\<rparr>, zero_entry\<lparr>ID := 2\<rparr>]"
proof -
  let ?s = "foldl run_op (new_mem_store 2) [OInsert zero_entry]"
  have "st_next_id ?s = 2" "st_size ?s = 2"
    by (simp_all add: store_laws new_mem_store_inv)
  with store_poll_complete [of ?s 2 "[OInsert zero_entry]" 1 "[zero_entry, zero_entry]" 5 ascii_env]
  show ?thesis by (simp add: query_limit_def)
qed

end
