(* ===== verification/Broadcast.thy ===== *)
theory Broadcast
  imports GoNet
begin

text \<open>
  \<^verbatim>\<open>internal/dashboard/broadcaster.go\<close> and the event stream of \<^verbatim>\<open>sseHandler\<close>
  (\<^verbatim>\<open>handlers.go\<close>). A channel is a number handed out by the broadcaster together with the
  messages that wait in its buffer; \<open>sse_step\<close> interleaves clients that come, go and read with
  messages that are sent. What a browser makes of the bytes is specified by \<open>event_source\<close>.
\<close>

abbreviation lf :: char where "lf \<equiv> CHR 0x0A"
abbreviation cr :: char where "cr \<equiv> CHR 0x0D"

subsection \<open>The broadcaster\<close>

definition chan_capacity :: nat where "chan_capacity = 64"

record broadcaster =
  bc_clients :: "(nat, string list) gomap"
  bc_next :: nat \<comment> \<open>the next channel \<^verbatim>\<open>make\<close> returns\<close>

definition new_broadcaster :: broadcaster where
  "new_broadcaster = \<lparr>bc_clients = [], bc_next = 0\<rparr>"

definition bc_add :: "broadcaster \<Rightarrow> broadcaster \<times> nat" where
  "bc_add b = (b\<lparr>bc_clients := AList.update (bc_next b) [] (bc_clients b), bc_next := bc_next b + 1\<rparr>, bc_next b)"

definition bc_remove :: "nat \<Rightarrow> broadcaster \<Rightarrow> broadcaster" where
  "bc_remove ch b = b\<lparr>bc_clients := AList.delete ch (bc_clients b)\<rparr>"

definition bc_offer :: "string \<Rightarrow> string list \<Rightarrow> string list" where
  \<comment> \<open>the \<^verbatim>\<open>select\<close> with a default case\<close>
  "bc_offer p q = (if length q < chan_capacity then q @ [p] else q)"

definition bc_send :: "string \<Rightarrow> broadcaster \<Rightarrow> broadcaster" where
  "bc_send p b =
     (if bc_clients b = [] then b
      else b\<lparr>bc_clients := map (\<lambda>(ch, q). (ch, bc_offer p q)) (bc_clients b)\<rparr>)"

definition bc_dropped :: "broadcaster \<Rightarrow> nat" where
  \<comment> \<open>the number of clients the next message is dropped for\<close>
  "bc_dropped b = length (filter (\<lambda>(ch, q). \<not> length q < chan_capacity) (bc_clients b))"

subsection \<open>The stream a client is sent\<close>

definition sse_header :: "int \<Rightarrow> string" where
  "sse_header retryMs = ''retry: '' @ itoa retryMs @ [lf, lf] @ '': connected'' @ [lf, lf]"

definition sse_ping :: string where "sse_ping = '': ping'' @ [lf, lf]"

function sse_frame :: "string \<Rightarrow> string" where
  "sse_frame msg =
     (if msg = [] then [lf]
      else (case split_first lf msg of
              None \<Rightarrow> ''data: '' @ msg @ [lf, lf]
            | Some (l, rest) \<Rightarrow> ''data: '' @ l @ [lf] @ sse_frame rest))"
  by pat_completeness auto
termination
  by (relation "measure length")
    (auto simp: split_first_def Let_def split: if_splits dest: arg_cong [of _ _ length])

declare sse_frame.simps [simp del]

subsection \<open>What the browser makes of it\<close>

fun eol :: "bool \<Rightarrow> string \<Rightarrow> string" where
  \<comment> \<open>CR, LF and CR LF all end a line; the flag says that a CR was last\<close>
  "eol p [] = []"
| "eol p (c # s) =
     (if c = lf then (if p then eol False s else lf # eol False s)
      else if c = cr then lf # eol True s
      else c # eol False s)"

fun event_lines :: "string list \<Rightarrow> string list \<Rightarrow> string list" where
  \<comment> \<open>the lines of a stream, and the data lines of the event so far\<close>
  "event_lines [] acc = []"
| "event_lines (l # ls) acc =
     (if l = [] then (if acc = [] then event_lines ls [] else join_with [lf] acc # event_lines ls [])
      else if hd l = CHR '':'' then event_lines ls acc
      else
        (let (f, v) = (case split_first CHR '':'' l of None \<Rightarrow> (l, []) | Some fv \<Rightarrow> fv)
         in if f = ''data'' then event_lines ls (acc @ [trim_prefix v '' '']) else event_lines ls acc))"

definition event_source :: "string \<Rightarrow> string list" where
  "event_source s = event_lines (split_on lf (eol False s)) []"

lemma eol_id: "cr \<notin> set s \<Longrightarrow> eol False s = s"
  by (induction s) auto

lemma event_source_id: "cr \<notin> set s \<Longrightarrow> event_source s = event_lines (split_on lf s) []"
  by (simp add: event_source_def eol_id)

lemma sse_frame_lines:
  "msg \<noteq> [] \<Longrightarrow> last msg \<noteq> lf \<Longrightarrow>
   sse_frame msg = concat (map (\<lambda>l. ''data: '' @ l @ [lf]) (split_on lf msg)) @ [lf]"
proof (induction msg rule: sse_frame.induct)
  case (1 msg)
  show ?case
  proof (cases "split_first lf msg")
    case None
    then have "lf \<notin> set msg" by (auto simp: split_first_def Let_def split: if_splits)
    then show ?thesis using 1(2) None by (subst sse_frame.simps) (simp add: split_on_no_occurrence)
  next
    case (Some lr)
    obtain l rest where lr: "lr = (l, rest)" by (cases lr)
    from Some have "lf \<in> set msg" by (auto simp: split_first_def split: if_splits)
    then obtain a b where msg: "msg = a @ lf # b" "lf \<notin> set a" by (meson split_list_first)
    then have ab: "l = a" "rest = b" using Some lr split_first_at [of lf a b] by auto
    have b: "b \<noteq> []" "last b \<noteq> lf" using 1(3) msg(1) by (auto split: if_splits)
    have "sse_frame rest = concat (map (\<lambda>l. ''data: '' @ l @ [lf]) (split_on lf rest)) @ [lf]"
      using 1(1) [OF 1(2) Some lr [symmetric]] b ab by simp
    then show ?thesis
      using 1(2) Some lr msg ab by (subst sse_frame.simps) (simp add: split_on_append)
  qed
qed

lemma split_on_lines:
  "\<forall>l \<in> set ls. lf \<notin> set l \<Longrightarrow>
   split_on lf (concat (map (\<lambda>l. ''data: '' @ l @ [lf]) ls) @ s) = map (\<lambda>l. ''data: '' @ l) ls @ split_on lf s"
proof (induction ls)
  case (Cons l ls)
  then show ?case
    using split_on_append [of lf "''data: '' @ l" "concat (map (\<lambda>l. ''data: '' @ l @ [lf]) ls) @ s"] by simp
qed simp

lemma event_data_line: "event_lines ((''data: '' @ l) # ls) acc = event_lines ls (acc @ [l])"
  using split_first_at [of "CHR '':''" "''data''" "'' '' @ l"]
  by (simp add: trim_prefix_def has_prefix_def)

lemma event_data_lines: "event_lines (map (\<lambda>l. ''data: '' @ l) ls @ xs) acc = event_lines xs (acc @ ls)"
proof (induction ls arbitrary: acc)
  case (Cons l ls)
  show ?case using Cons [of "acc @ [l]"] event_data_line [of l _ acc] by (simp del: event_lines.simps)
qed simp

lemma event_blank: "event_lines ([] # ls) [] = event_lines ls []"
  by simp

lemma event_frame:
  assumes "msg \<noteq> []" "last msg \<noteq> lf"
  shows "event_lines (split_on lf (sse_frame msg @ s)) [] = msg # event_lines (split_on lf s) []"
proof -
  have "split_on lf (sse_frame msg @ s) = map (\<lambda>l. ''data: '' @ l) (split_on lf msg) @ [] # split_on lf s"
    using split_on_lines [of "split_on lf msg" "lf # s"] assms
    by (auto simp: sse_frame_lines dest: split_on_no_sep)
  then show ?thesis by (simp only: event_data_lines) simp
qed

lemma event_ping: "event_lines (split_on lf (sse_ping @ s)) [] = event_lines (split_on lf s) []"
  using split_on_append [of lf "'': ping''" "lf # s"] by (simp add: sse_ping_def)

lemma itoa_no_eol: "lf \<notin> set (itoa i)" "cr \<notin> set (itoa i)"
  using nat_digits_chars [of "nat i"] nat_digits_chars [of "nat (- i)"]
  by (auto simp: itoa_def list_all_iff is_digit_char_def)

lemma event_header: "event_lines (split_on lf (sse_header ms @ s)) [] = event_lines (split_on lf s) []"
proof -
  have "split_on lf (sse_header ms @ s) = (''retry: '' @ itoa ms) # [] # '': connected'' # [] # split_on lf s"
    using split_on_append [of lf "''retry: '' @ itoa ms" "lf # '': connected'' @ lf # lf # s"]
      split_on_append [of lf "'': connected''" "lf # s"] itoa_no_eol(1) [of ms]
    by (simp add: sse_header_def)
  moreover have "split_first CHR '':'' (''retry: '' @ itoa ms) = Some (''retry'', '' '' @ itoa ms)"
    using split_first_at [of "CHR '':''" "''retry''" "'' '' @ itoa ms"] by simp
  ultimately show ?thesis by simp
qed

lemma frame_no_cr: "cr \<notin> set msg \<Longrightarrow> cr \<notin> set (sse_frame msg)"
proof (induction msg rule: sse_frame.induct)
  case (1 msg)
  show ?case
  proof (cases "split_first lf msg")
    case None
    then show ?thesis using 1(2) by (subst sse_frame.simps) auto
  next
    case (Some lr)
    obtain l rest where lr: "lr = (l, rest)" by (cases lr)
    have "set l \<subseteq> set msg" "set rest \<subseteq> set msg"
      using Some lr by (auto simp: split_first_def Let_def split: if_splits dest: set_takeWhileD in_set_dropD)
    moreover from Some have m: "msg \<noteq> []" by (auto simp: split_first_def)
    ultimately have "cr \<notin> set l" "cr \<notin> set (sse_frame rest)"
      using 1(1) [OF m Some lr [symmetric]] 1(2) by auto
    then show ?thesis using m Some lr by (subst sse_frame.simps) simp
  qed
qed

subsection \<open>Clients that come, read and go\<close>

datatype sse_event = Connect | Leave nat | Send string | Recv nat | Ping nat

record sse_state =
  ss_bc :: broadcaster
  ss_writes :: "(nat \<times> string) list" \<comment> \<open>what the handlers wrote, in order\<close>

fun sse_step :: "int \<Rightarrow> sse_state \<Rightarrow> sse_event \<Rightarrow> sse_state" where
  "sse_step ms s Connect =
     (let (b, ch) = bc_add (ss_bc s) in \<lparr>ss_bc = b, ss_writes = ss_writes s @ [(ch, sse_header ms)]\<rparr>)"
| "sse_step ms s (Leave ch) = s\<lparr>ss_bc := bc_remove ch (ss_bc s)\<rparr>"
| "sse_step ms s (Send p) = s\<lparr>ss_bc := bc_send p (ss_bc s)\<rparr>"
| "sse_step ms s (Recv ch) =
     (case map_of (bc_clients (ss_bc s)) ch of
        Some (m # q) \<Rightarrow>
          s\<lparr>ss_bc := (ss_bc s)\<lparr>bc_clients := AList.update ch q (bc_clients (ss_bc s))\<rparr>,
            ss_writes := ss_writes s @ [(ch, sse_frame m)]\<rparr>
      | _ \<Rightarrow> s)"
| "sse_step ms s (Ping ch) =
     (case map_of (bc_clients (ss_bc s)) ch of
        None \<Rightarrow> s
      | Some _ \<Rightarrow> s\<lparr>ss_writes := ss_writes s @ [(ch, sse_ping)]\<rparr>)"

definition sse_run :: "int \<Rightarrow> sse_state \<Rightarrow> sse_event list \<Rightarrow> sse_state" where
  "sse_run ms s evs = foldl (sse_step ms) s evs"

definition stream_of :: "nat \<Rightarrow> sse_state \<Rightarrow> string" where
  "stream_of ch s = concat (map snd (filter (\<lambda>w. fst w = ch) (ss_writes s)))"

definition sent :: "sse_event list \<Rightarrow> string list" where
  "sent evs = concat (map (\<lambda>ev. case ev of Send p \<Rightarrow> [p] | _ \<Rightarrow> []) evs)"

fun keeps_up :: "int \<Rightarrow> nat \<Rightarrow> sse_state \<Rightarrow> sse_event list \<Rightarrow> bool" where
  \<comment> \<open>whenever a message is sent the client has room for it\<close>
  "keeps_up ms ch s [] = True"
| "keeps_up ms ch s (ev # evs) =
     ((case ev of Send _ \<Rightarrow> length (the (map_of (bc_clients (ss_bc s)) ch)) < chan_capacity | _ \<Rightarrow> True)
      \<and> keeps_up ms ch (sse_step ms s ev) evs)"

definition frameable :: "string \<Rightarrow> bool" where
  "frameable p \<longleftrightarrow> p \<noteq> [] \<and> cr \<notin> set p \<and> last p \<noteq> lf"

definition sse_inv :: "sse_state \<Rightarrow> bool" where
  "sse_inv s \<longleftrightarrow> wf_map (bc_clients (ss_bc s)) \<and>
     (\<forall>ch \<in> fst ` set (bc_clients (ss_bc s)) \<union> fst ` set (ss_writes s). ch < bc_next (ss_bc s))"

definition sse_start :: sse_state where
  "sse_start = \<lparr>ss_bc = new_broadcaster, ss_writes = []\<rparr>"

lemma sse_start_inv [inv_intro]: "sse_inv sse_start"
  by (simp add: sse_inv_def sse_start_def new_broadcaster_def)

lemma send_keys: "fst ` set (bc_clients (bc_send p b)) = fst ` set (bc_clients b)"
  by (force simp: bc_send_def)

lemma send_wf: "wf_map (bc_clients b) \<Longrightarrow> wf_map (bc_clients (bc_send p b))"
  by (simp add: bc_send_def wf_map_def comp_def split_def)

lemma sse_inv_write:
  assumes "sse_inv s" "ch \<in> fst ` set (bc_clients (ss_bc s))"
    and "wf_map cl" "fst ` set cl = fst ` set (bc_clients (ss_bc s))"
  shows "sse_inv (s\<lparr>ss_bc := (ss_bc s)\<lparr>bc_clients := cl\<rparr>, ss_writes := ss_writes s @ [(ch, w)]\<rparr>)"
    "sse_inv (s\<lparr>ss_writes := ss_writes s @ [(ch, w)]\<rparr>)"
  using assms by (auto simp: sse_inv_def)

lemma sse_step_inv [inv_intro]:
  assumes "sse_inv s"
  shows "sse_inv (sse_step ms s ev)"
proof (cases ev)
  case Connect
  then show ?thesis using assms
    by (auto simp: sse_inv_def bc_add_def dom_update intro: less_SucI)
next
  case (Leave ch)
  then show ?thesis using assms by (auto simp: sse_inv_def bc_remove_def AList.delete_eq)
next
  case (Send p)
  have "bc_next (bc_send p b) = bc_next b" for b by (simp add: bc_send_def)
  then show ?thesis using assms Send by (simp add: sse_inv_def send_keys send_wf)
next
  case (Recv ch)
  have "sse_inv (sse_step ms s (Recv ch))" if "map_of (bc_clients (ss_bc s)) ch = Some (m # q)" for m q
  proof -
    have k: "ch \<in> fst ` set (bc_clients (ss_bc s))" using that by (force dest: map_of_SomeD)
    have "wf_map (bc_clients (ss_bc s))" using assms by (simp add: sse_inv_def)
    with sse_inv_write(1) [OF assms k, of "AList.update ch q (bc_clients (ss_bc s))" "sse_frame m"] k that
    show ?thesis by (simp add: dom_update insert_absorb)
  qed
  then show ?thesis using assms Recv by (auto split: option.splits list.splits)
next
  case (Ping ch)
  have k: "ch \<in> fst ` set (bc_clients (ss_bc s))" if "map_of (bc_clients (ss_bc s)) ch = Some q" for q
    using that by (force dest: map_of_SomeD)
  have "wf_map (bc_clients (ss_bc s))" using assms by (simp add: sse_inv_def)
  then show ?thesis
    using assms Ping sse_inv_write(2) [OF assms k, of _ "bc_clients (ss_bc s)"] by (auto split: option.splits)
qed

lemma sse_run_inv: "sse_inv s \<Longrightarrow> sse_inv (sse_run ms s evs)"
  unfolding sse_run_def by (induction evs arbitrary: s) (auto intro: sse_step_inv)

subsection \<open>What a client gets\<close>

definition delivers :: "string \<Rightarrow> string list \<Rightarrow> bool" where
  \<comment> \<open>the bytes are whole events, these ones\<close>
  "delivers s ms \<longleftrightarrow> cr \<notin> set s \<and>
     (\<forall>rest. event_lines (split_on lf (s @ rest)) [] = ms @ event_lines (split_on lf rest) [])"

lemma delivers_event_source: "delivers s ms \<Longrightarrow> event_source s = ms"
  by (simp add: delivers_def event_source_id) (metis append.right_neutral event_lines.simps split_on.simps(1))

lemma delivers_append: "delivers s ms \<Longrightarrow> delivers s' ms' \<Longrightarrow> delivers (s @ s') (ms @ ms')"
  by (simp add: delivers_def)

lemma delivers_parts:
  "delivers [] []" "delivers (sse_header r) []" "delivers sse_ping []"
  "frameable m \<Longrightarrow> delivers (sse_frame m) [m]"
  using event_frame event_ping event_header itoa_no_eol frame_no_cr
  by (auto simp: delivers_def frameable_def sse_ping_def sse_header_def)

definition client_view :: "nat \<Rightarrow> sse_state \<Rightarrow> string list \<Rightarrow> string list \<Rightarrow> bool" where
  \<comment> \<open>the messages a client has been written, and those that wait for it\<close>
  "client_view ch s ms q \<longleftrightarrow>
     map_of (bc_clients (ss_bc s)) ch = Some q \<and> delivers (stream_of ch s) ms \<and> (\<forall>p \<in> set q. frameable p)"

lemma stream_of_write:
  "stream_of ch (s\<lparr>ss_bc := b, ss_writes := ss_writes s @ [(ch', w)]\<rparr>) =
   stream_of ch s @ (if ch' = ch then w else [])"
  "stream_of ch (s\<lparr>ss_writes := ss_writes s @ [(ch', w)]\<rparr>) = stream_of ch s @ (if ch' = ch then w else [])"
  "stream_of ch \<lparr>ss_bc = b, ss_writes = ss_writes s @ [(ch', w)]\<rparr> =
   stream_of ch s @ (if ch' = ch then w else [])"
  "stream_of ch (s\<lparr>ss_bc := b\<rparr>) = stream_of ch s"
  by (simp_all add: stream_of_def)

lemma map_of_send:
  "map_of (bc_clients (bc_send p b)) ch = map_option (bc_offer p) (map_of (bc_clients b) ch)"
  by (auto simp: bc_send_def map_of_map)

lemma ex3I: "P a b c \<Longrightarrow> \<exists>x y z. P x y z"
  by blast

lemma client_step:
  assumes inv: "sse_inv s" and view: "client_view ch s ms q" and stay: "ev \<noteq> Leave ch"
    and ok: "\<forall>p \<in> set (sent [ev]). frameable p"
  shows "\<exists>ms' q' new. client_view ch (sse_step r s ev) ms' q' \<and> ms' @ q' = ms @ q @ new \<and>
    (new = sent [ev] \<or> new = [] \<and> \<not> keeps_up r ch s [ev])"
proof (cases ev)
  case Connect
  have "ch \<noteq> bc_next (ss_bc s)"
    using inv view by (force simp: sse_inv_def client_view_def dest: map_of_SomeD)
  then have "client_view ch (sse_step r s ev) ms q"
    using view Connect by (simp add: client_view_def bc_add_def stream_of_write update_conv')
  then show ?thesis using Connect by (intro ex3I [of _ ms q "[]"]) (simp add: sent_def)
next
  case (Leave x)
  then have "client_view ch (sse_step r s ev) ms q"
    using view stay by (simp add: client_view_def bc_remove_def stream_of_write delete_conv')
  then show ?thesis using Leave by (intro ex3I [of _ ms q "[]"]) (simp add: sent_def)
next
  case (Send p)
  then have "client_view ch (sse_step r s ev) ms (bc_offer p q)"
    using view ok by (auto simp: client_view_def stream_of_write map_of_send bc_offer_def sent_def)
  moreover have "ms @ bc_offer p q = ms @ q @ (if length q < chan_capacity then [p] else [])"
    by (simp add: bc_offer_def)
  moreover have "map_of (bc_clients (ss_bc s)) ch = Some q" using view by (simp add: client_view_def)
  ultimately show ?thesis using Send by (intro exI conjI) (assumption, assumption, simp add: sent_def)
next
  case (Recv x)
  show ?thesis
  proof (cases "x = ch \<and> q \<noteq> []")
    case True
    then obtain m q' where q: "q = m # q'" by (cases q) auto
    then have "client_view ch (sse_step r s ev) (ms @ [m]) q'"
      using view Recv True
      by (auto simp: client_view_def stream_of_write update_conv' intro: delivers_append delivers_parts)
    then show ?thesis using Recv q by (intro ex3I [of _ "ms @ [m]" q' "[]"]) (simp add: sent_def)
  next
    case False
    then have "client_view ch (sse_step r s ev) ms q"
      using view Recv by (auto simp: client_view_def stream_of_write update_conv' split: option.splits list.splits)
    then show ?thesis using Recv by (intro ex3I [of _ ms q "[]"]) (simp add: sent_def)
  qed
next
  case (Ping x)
  then have "client_view ch (sse_step r s ev) ms q"
    using view delivers_append [OF _ delivers_parts(3), of "stream_of ch s" ms]
    by (auto simp: client_view_def stream_of_write split: option.splits)
  then show ?thesis using Ping by (intro ex3I [of _ ms q "[]"]) (simp add: sent_def)
qed

lemma sent_Cons: "sent (ev # evs) = sent [ev] @ sent evs"
  by (simp add: sent_def)

lemma client_run:
  assumes "sse_inv s" "client_view ch s ms q" "Leave ch \<notin> set evs" "\<forall>p \<in> set (sent evs). frameable p"
  shows "\<exists>ms' q' new. client_view ch (sse_run r s evs) ms' q' \<and> ms' @ q' = ms @ q @ new \<and>
    subseq new (sent evs) \<and> (keeps_up r ch s evs \<longrightarrow> new = sent evs)"
  using assms
proof (induction evs arbitrary: s ms q)
  case Nil
  then show ?case by (intro ex3I [of _ ms q "[]"]) (simp add: sse_run_def sent_def)
next
  case (Cons ev evs)
  let ?s = "sse_step r s ev"
  obtain ms1 q1 new1 where 1: "client_view ch ?s ms1 q1" "ms1 @ q1 = ms @ q @ new1"
    "new1 = sent [ev] \<or> new1 = [] \<and> \<not> keeps_up r ch s [ev]"
    using client_step [OF Cons.prems(1,2), of ev r] Cons.prems(3,4) sent_Cons [of ev evs] by auto
  obtain ms2 q2 new2 where 2: "client_view ch (sse_run r ?s evs) ms2 q2" "ms2 @ q2 = ms1 @ q1 @ new2"
    "subseq new2 (sent evs)" "keeps_up r ch ?s evs \<longrightarrow> new2 = sent evs"
    using Cons.IH [OF sse_step_inv [OF Cons.prems(1)] 1(1)] Cons.prems(3,4) sent_Cons [of ev evs] by auto
  have "ms2 @ q2 = ms @ q @ new1 @ new2" using 1(2) 2(2) by (metis append.assoc)
  moreover have "subseq (new1 @ new2) (sent (ev # evs))"
    using 1(3) 2(3) by (auto simp: sent_Cons [of ev evs] intro: list_emb_append_mono subseq_order.order_refl)
  moreover have "keeps_up r ch s (ev # evs) \<longrightarrow> new1 @ new2 = sent (ev # evs)"
    using 1(3) 2(4) by (auto simp: sent_Cons [of ev evs])
  ultimately show ?case using 2(1) by (intro ex3I [of _ ms2 q2 "new1 @ new2"])
      (simp add: sse_run_def)
qed

text \<open>C35: The event stream. Whatever happened before a browser connects and whatever other clients
  do, the events it decodes from the bytes it was sent, followed by the messages that still wait for
  it, are a subsequence of the messages broadcast since, in order and byte for byte; none is missing
  if its buffer of 64 messages was never full when one was sent.\<close>

theorem sse_delivery:
  assumes "\<forall>p \<in> set (sent evs). frameable p" and "s = sse_run ms sse_start before"
    and "ch = bc_next (ss_bc s)" "s1 = sse_step ms s Connect" "Leave ch \<notin> set evs" "s2 = sse_run ms s1 evs"
  shows "\<exists>q. map_of (bc_clients (ss_bc s2)) ch = Some q \<and>
    subseq (event_source (stream_of ch s2) @ q) (sent evs) \<and>
    (keeps_up ms ch s1 evs \<longrightarrow> event_source (stream_of ch s2) @ q = sent evs)"
proof -
  have inv: "sse_inv s" unfolding assms(2) by (intro sse_run_inv sse_start_inv)
  have "\<forall>w \<in> set (ss_writes s). fst w \<noteq> ch" using inv assms(3) by (force simp: sse_inv_def)
  then have "stream_of ch s = []" by (auto simp: stream_of_def filter_empty_conv)
  then have "client_view ch s1 [] []"
    using assms(3,4) delivers_parts(2) by (simp add: client_view_def bc_add_def stream_of_write update_conv')
  moreover have "sse_inv s1" unfolding assms(4) using inv by (rule sse_step_inv)
  ultimately obtain ms' q where
    "client_view ch s2 ms' q" "subseq (ms' @ q) (sent evs)" "keeps_up ms ch s1 evs \<longrightarrow> ms' @ q = sent evs"
    using client_run [OF _ _ assms(5,1), of s1 "[]" "[]" ms] assms(6) by auto
  then show ?thesis by (auto simp: client_view_def delivers_event_source)
qed

theorem sse_delivery_witness:
  "event_source (stream_of 1 (sse_run 2000 (sse_step 2000 (sse_step 2000 sse_start Connect) Connect)
     [Send ''{}'', Ping 1, Recv 1, Recv 0])) = [''{}'']"
proof -
  have "\<exists>q. map_of (bc_clients (ss_bc (sse_run 2000 (sse_step 2000 (sse_step 2000 sse_start Connect) Connect)
      [Send ''{}'', Ping 1, Recv 1, Recv 0]))) 1 = Some q \<and>
    subseq (event_source (stream_of 1 (sse_run 2000 (sse_step 2000 (sse_step 2000 sse_start Connect) Connect)
      [Send ''{}'', Ping 1, Recv 1, Recv 0])) @ q) [''{}''] \<and>
    (True \<longrightarrow> event_source (stream_of 1 (sse_run 2000 (sse_step 2000 (sse_step 2000 sse_start Connect) Connect)
      [Send ''{}'', Ping 1, Recv 1, Recv 0])) @ q = [''{}''])"
    using sse_delivery [of "[Send ''{}'', Ping 1, Recv 1, Recv 0]" "sse_step 2000 sse_start Connect" 2000 "[Connect]" 1]
    by (simp add: sent_def frameable_def sse_run_def sse_start_def new_broadcaster_def bc_add_def bc_send_def
        chan_capacity_def)
  moreover have "map_of (bc_clients (ss_bc (sse_run 2000 (sse_step 2000 (sse_step 2000 sse_start Connect) Connect)
      [Send ''{}'', Ping 1, Recv 1, Recv 0]))) 1 = Some []"
    by (simp add: sse_run_def sse_start_def new_broadcaster_def bc_add_def bc_send_def bc_offer_def chan_capacity_def)
  ultimately show ?thesis by simp
qed

end
