(* ===== verification/Payload.thy ===== *)
theory Payload
  imports LogStore Broadcast Clock Flow
begin

text \<open>
  \<^verbatim>\<open>internal/dashboard/payload.go\<close>: from the decoded JSON objects of a request to stored and
  broadcast log entries. The decoder and the encoder of \<^verbatim>\<open>encoding/json\<close> and
  \<^verbatim>\<open>time.Parse\<close> are parameters; a JSON number is a rational number. Log output is left out.
\<close>

datatype json =
    JNull
  | JBool bool
  | JNum rat
  | JStr string
  | JArr "json list"
  | JObj "(string \<times> json) list"

type_synonym payload = "(string, json) gomap"

record dash_lib =
  dl_parse_time :: "string \<Rightarrow> nanos option" \<comment> \<open>\<^verbatim>\<open>time.Parse\<close> with RFC3339Nano\<close>
  dl_marshal :: "payload \<Rightarrow> string option" \<comment> \<open>\<^verbatim>\<open>json.Marshal\<close> of a map, None on error\<close>
  dl_marshal_entry :: "log_entry \<Rightarrow> string option"

fun as_string :: "json option \<Rightarrow> string option" where
  "as_string (Some (JStr s)) = Some s"
| "as_string _ = None"

definition string_or_empty :: "payload \<Rightarrow> string \<Rightarrow> string" where
  \<comment> \<open>\<^verbatim>\<open>v, _ := in[k].(string)\<close>\<close>
  "string_or_empty m k = (case as_string (map_of m k) of None \<Rightarrow> [] | Some s \<Rightarrow> s)"

subsection \<open>Domain fields\<close>

definition invalid_domain_placeholder :: string where "invalid_domain_placeholder = ''[invalid]''"

definition is_valid_domain_chars :: "string \<Rightarrow> bool" where
  \<comment> \<open>a byte above 126 belongs to a rune above 126\<close>
  "is_valid_domain_chars val = list_all (\<lambda>c. \<not> (byte_of c < 32 \<or> byte_of c > 126)) val"

definition has_suspicious_patterns :: "string \<Rightarrow> bool" where
  "has_suspicious_patterns val \<longleftrightarrow>
     str_contains val ''..'' \<or> str_contains val ''<script'' \<or> has_prefix val ''-'' \<or> has_prefix val ''.''"

definition sanitize_domain_field :: "string \<Rightarrow> string" where
  "sanitize_domain_field val =
     (if val = [] then val
      else if \<not> is_valid_domain_chars val then invalid_domain_placeholder
      else if has_suspicious_patterns val then invalid_domain_placeholder
      else if length val > 255 then invalid_domain_placeholder
      else val)"

definition domain_fields :: "string list" where
  "domain_fields = [''host'', ''http_host'', ''https'', ''qname'', ''hostname'', ''domain'']"

definition sanitize_field :: "string \<Rightarrow> payload \<Rightarrow> payload" where
  "sanitize_field field m =
     (case as_string (map_of m field) of
        None \<Rightarrow> m
      | Some v \<Rightarrow> AList.update field (JStr (sanitize_domain_field v)) m)"

definition sanitize_payload_fields :: "payload \<Rightarrow> payload" where
  "sanitize_payload_fields m = fold sanitize_field domain_fields m"

subsection \<open>Fields of an entry\<close>

definition field_keys :: "string list" where
  "field_keys =
     [''action'', ''component'', ''protocol'', ''policy_hit'', ''payload_len'',
      ''reason'', ''tenant_id'', ''flow_id'', ''hostname'', ''source_ip'', ''source_port'',
      ''destination_ip'', ''destination_port'', ''src'', ''dst'', ''http_host'', ''host'', ''https'', ''qname'',
      ''qtype'', ''version'', ''pid'', ''process_name'', ''cmdline'', ''executable'']"

definition merge_field :: "payload \<Rightarrow> string \<Rightarrow> payload \<Rightarrow> payload" where
  "merge_field m k fieldsMap =
     (case map_of m k of
        None \<Rightarrow> fieldsMap
      | Some v \<Rightarrow> if v = JNull then fieldsMap else AList.update k v fieldsMap)"

definition extract_fields_map :: "payload \<Rightarrow> payload" where
  "extract_fields_map m =
     fold (merge_field m) field_keys (case map_of m ''fields'' of Some (JObj f) \<Rightarrow> f | _ \<Rightarrow> [])"

definition derive_protocol :: "env \<Rightarrow> payload \<Rightarrow> string" where
  "derive_protocol E m =
     (let protocol = string_or_empty m ''protocol''
      in if protocol \<noteq> [] then protocol
         else (case as_string (map_of m ''component'') of
                 None \<Rightarrow> []
               | Some c \<Rightarrow>
                   (let l = to_lower E c
                    in if l = ''http'' \<or> l = ''https'' then ''TCP'' else if l = ''dns'' then ''UDP'' else [])))"

fun get_string_from_payload :: "payload \<Rightarrow> string list \<Rightarrow> string" where
  "get_string_from_payload m [] = []"
| "get_string_from_payload m (k # ks) =
     (case as_string (map_of m k) of
        Some v \<Rightarrow> if v \<noteq> [] then v else get_string_from_payload m ks
      | None \<Rightarrow> get_string_from_payload m ks)"

definition get_int_from_payload :: "payload \<Rightarrow> string \<Rightarrow> int" where
  \<comment> \<open>the conversion truncates\<close>
  "get_int_from_payload m k =
     (case map_of m k of Some (JNum v) \<Rightarrow> (if 0 \<le> v then \<lfloor>v\<rfloor> else \<lceil>v\<rceil>) | _ \<Rightarrow> 0)"

subsection \<open>One payload\<close>

definition is_probe_msg :: "string \<Rightarrow> bool" where
  "is_probe_msg msg \<longleftrightarrow> msg = ''_dashboard_probe'' \<or> has_prefix msg ''_dashboard_''"

definition kept_action :: "string \<Rightarrow> bool" where
  "kept_action act \<longleftrightarrow> \<not> (act \<noteq> action_allowed \<and> act \<noteq> action_blocked \<and> act \<noteq> action_audit)"

definition payload_time :: "dash_lib \<Rightarrow> nanos \<Rightarrow> payload \<Rightarrow> nanos" where
  "payload_time L now m =
     (case as_string (map_of m ''time'') of
        Some tval \<Rightarrow>
          if tval \<noteq> [] then (case dl_parse_time L tval of Some t \<Rightarrow> t | None \<Rightarrow> now) else now
      | None \<Rightarrow> now)"

definition process_payload :: "env \<Rightarrow> dash_lib \<Rightarrow> nanos \<Rightarrow> string \<Rightarrow> payload \<Rightarrow> log_entry option" where
  "process_payload E L now remoteIP m =
     (let msg = string_or_empty m ''msg''
      in if is_probe_msg msg then None
         else if msg = [] then None
         else
           (let act = to_upper E (trim_space (string_or_empty m ''action''))
            in if \<not> kept_action act then None
               else
                 (let ts = payload_time L now m
                  in case dl_marshal L (extract_fields_map m) of
                       None \<Rightarrow> None
                     | Some fieldsRaw \<Rightarrow>
                         Some \<lparr>ID = 0, Time = ts, Message = msg, Fields = fieldsRaw, RemoteIP = remoteIP,
                               Action = act,
                               SourceIP = get_string_from_payload m [''source_ip''],
                               SourcePort = get_int_from_payload m ''source_port'',
                               DestinationIP = get_string_from_payload m [''destination_ip''],
                               DestinationPort = get_int_from_payload m ''destination_port'',
                               Protocol = derive_protocol E m,
                               PolicyHit = get_string_from_payload m [''policy_hit''],
                               PayloadLen = get_int_from_payload m ''payload_len'',
                               HTTPS = get_string_from_payload m [''http_host'', ''host'', ''https'', ''qname''],
                               HTTPHost = get_string_from_payload m [''http_host'', ''host''],
                               TenantID = get_string_from_payload m [''tenant_id''],
                               FlowID = get_string_from_payload m [''flow_id''],
                               Hostname = get_string_from_payload m [''hostname''],
                               Src = get_string_from_payload m [''src''],
                               Dst = get_string_from_payload m [''dst''],
                               Version = get_string_from_payload m [''version'']\<rparr>)))"

subsection \<open>All payloads of a request\<close>

fun process_payloads ::
  "env \<Rightarrow> dash_lib \<Rightarrow> string \<Rightarrow> (nanos \<times> payload) list \<Rightarrow> mem_store \<times> broadcaster \<Rightarrow>
   (mem_store \<times> broadcaster) \<times> int list" where
  \<comment> \<open>each payload with the time at which it is processed; the identifiers in the results\<close>
  "process_payloads E L remoteIP [] sb = (sb, [])"
| "process_payloads E L remoteIP ((now, m0) # rest) (st, b) =
     (let m = sanitize_payload_fields m0
      in case process_payload E L now remoteIP m of
           None \<Rightarrow> process_payloads E L remoteIP rest (st, b)
         | Some entry \<Rightarrow>
             (let (st1, i) = store_insert st entry;
                  b1 = (case dl_marshal_entry L (entry\<lparr>ID := i\<rparr>) of None \<Rightarrow> b | Some msg \<Rightarrow> bc_send msg b);
                  (sb, results) = process_payloads E L remoteIP rest (st1, b1)
              in (sb, i # results)))"

subsection \<open>What is kept is clean\<close>

definition clean_field :: "string \<Rightarrow> bool" where
  "clean_field s \<longleftrightarrow>
     s = [] \<or> is_valid_domain_chars s \<and> \<not> has_suspicious_patterns s \<and> length s \<le> 255"

lemma sanitize_clean: "clean_field (sanitize_domain_field v)"
proof -
  have "clean_field invalid_domain_placeholder" by code_simp
  then show ?thesis by (auto simp: sanitize_domain_field_def clean_field_def)
qed

lemma sanitize_id: "clean_field v \<Longrightarrow> sanitize_domain_field v = v"
  by (auto simp: sanitize_domain_field_def clean_field_def)

definition clean_entry :: "log_entry \<Rightarrow> bool" where
  "clean_entry e \<longleftrightarrow>
     kept_action (Action e) \<and> Message e \<noteq> [] \<and> \<not> is_probe_msg (Message e) \<and>
     clean_field (HTTPS e) \<and> clean_field (HTTPHost e) \<and> clean_field (Hostname e)"

definition clean_value :: "json option \<Rightarrow> bool" where
  "clean_value v \<longleftrightarrow> (\<forall>s. v = Some (JStr s) \<longrightarrow> clean_field s)"

lemma sanitize_field_other: "k \<noteq> f \<Longrightarrow> map_of (sanitize_field f m) k = map_of m k"
  by (simp add: sanitize_field_def update_conv' split: option.splits)

lemma sanitize_field_clean: "clean_value (map_of (sanitize_field f m) f)"
  by (cases "map_of m f" rule: as_string.cases)
    (auto simp: sanitize_field_def clean_value_def update_conv' sanitize_clean)

lemma sanitize_fields_clean:
  "k \<in> set fs \<or> clean_value (map_of m k) \<Longrightarrow> clean_value (map_of (fold sanitize_field fs m) k)"
proof (induction fs arbitrary: m)
  case (Cons f fs)
  then show ?case
    using sanitize_field_clean [of f m] sanitize_field_other [of k f m] by (cases "k = f") simp_all
qed simp

lemma sanitized_clean: "k \<in> set domain_fields \<Longrightarrow> clean_value (map_of (sanitize_payload_fields m) k)"
  unfolding sanitize_payload_fields_def by (rule sanitize_fields_clean) simp

lemma get_string_clean:
  "\<forall>k \<in> set ks. clean_value (map_of m k) \<Longrightarrow> clean_field (get_string_from_payload m ks)"
proof (induction ks)
  case (Cons k ks)
  then show ?case
    by (cases "map_of m k" rule: as_string.cases) (auto simp: clean_value_def)
qed (simp add: clean_field_def)

lemma process_payload_clean:
  assumes "process_payload E L now r (sanitize_payload_fields m) = Some e"
  shows "clean_entry e"
proof -
  have c: "\<forall>k \<in> set ks. clean_value (map_of (sanitize_payload_fields m) k)" if "set ks \<subseteq> set domain_fields" for ks
    using sanitized_clean that by blast
  have "clean_field (get_string_from_payload (sanitize_payload_fields m) [''http_host'', ''host'', ''https'', ''qname''])"
    "clean_field (get_string_from_payload (sanitize_payload_fields m) [''http_host'', ''host''])"
    "clean_field (get_string_from_payload (sanitize_payload_fields m) [''hostname''])"
    by (rule get_string_clean, rule c, simp add: domain_fields_def)+
  with assms show ?thesis
    unfolding process_payload_def Let_def
    by (auto simp: clean_entry_def split: if_splits option.splits simp del: get_string_from_payload.simps)
qed

subsection \<open>One pass is three\<close>

definition accepted :: "env \<Rightarrow> dash_lib \<Rightarrow> string \<Rightarrow> (nanos \<times> payload) list \<Rightarrow> log_entry list" where
  "accepted E L r ps = List.map_filter (\<lambda>(now, m). process_payload E L now r (sanitize_payload_fields m)) ps"

definition broadcast_all :: "dash_lib \<Rightarrow> log_entry list \<Rightarrow> broadcaster \<Rightarrow> broadcaster" where
  "broadcast_all L es b = fold bc_send (List.map_filter (dl_marshal_entry L) es) b"

lemma process_payloads_passes:
  "process_payloads E L r ps (st, b) =
     ((mem.insert_all st (accepted E L r ps),
       broadcast_all L (numbered (st_next_id st) (accepted E L r ps)) b),
      map ID (numbered (st_next_id st) (accepted E L r ps)))"
proof (induction ps arbitrary: st b)
  case Nil
  then show ?case by (simp add: accepted_def broadcast_all_def)
next
  case (Cons p ps)
  obtain now m where p: "p = (now, m)" by (cases p)
  show ?case
  proof (cases "process_payload E L now r (sanitize_payload_fields m)")
    case None
    then show ?thesis using Cons p by (simp add: accepted_def)
  next
    case (Some e)
    then have a: "accepted E L r (p # ps) = e # accepted E L r ps" by (simp add: accepted_def p)
    have i: "store_insert st e = (fst (store_insert st e), st_next_id st)"
      by (simp add: store_insert_def Let_def)
    have "process_payloads E L r (p # ps) (st, b) =
        (let b1 = (case dl_marshal_entry L (e\<lparr>ID := st_next_id st\<rparr>) of None \<Rightarrow> b | Some msg \<Rightarrow> bc_send msg b);
             (sb, results) = process_payloads E L r ps (fst (store_insert st e), b1)
         in (sb, st_next_id st # results))"
      unfolding p process_payloads.simps Let_def Some option.case by (subst i) (simp add: case_prod_unfold)
    then show ?thesis
      unfolding Let_def Cons.IH a by (simp add: store_laws broadcast_all_def split: option.splits)
  qed
qed

lemma accepted_clean: "e \<in> set (accepted E L r ps) \<Longrightarrow> clean_entry e"
  by (auto simp: accepted_def List.map_filter_def intro: process_payload_clean)

text \<open>C36: Ingestion keeps exactly what it should. The payloads of a request that carry a message
  which is no probe, one of the three actions and encodable fields are stored in order, with
  consecutive identifiers, as the newest entries of the buffer; each is sent once to every listening
  browser with its identifier; and every entry has clean host names: printable, bounded and without
  the patterns of an injection.\<close>

theorem ingest_exact:
  assumes "store_inv st"
  shows "let es = accepted E L r ps; new = numbered (st_next_id st) es;
           ((st', b'), ids) = process_payloads E L r ps (st, b)
         in store_logs st' = take (st_size st) (rev new @ store_logs st) \<and> ids = map ID new \<and>
            b' = broadcast_all L new b \<and> (\<forall>e \<in> set es. clean_entry e)"
  unfolding process_payloads_passes Let_def case_prod_conv
  using mem.insert_all_logs [OF assms] accepted_clean by blast

definition sample_dash_lib :: dash_lib where
  "sample_dash_lib =
     \<lparr>dl_parse_time = (\<lambda>_. None), dl_marshal = (\<lambda>_. Some ''{}''), dl_marshal_entry = (\<lambda>_. Some ''{}'')\<rparr>"

definition sample_payloads :: "(nanos \<times> payload) list" where
  "sample_payloads =
     [(7, [(''msg'', JStr ''x''), (''action'', JStr '' blocked''), (''host'', JStr ''a<script>'')]),
      (8, [(''msg'', JStr ''_dashboard_probe''), (''action'', JStr ''ALLOWED'')])]"

lemma sample_accepted: "\<exists>e. accepted ascii_env sample_dash_lib ''10.0.0.1:5'' sample_payloads = [e] \<and> Action e = ''BLOCKED''"
proof -
  have "map_option Action (process_payload ascii_env sample_dash_lib 7 ''10.0.0.1:5''
      (sanitize_payload_fields (snd (sample_payloads ! 0)))) = Some ''BLOCKED''"
    "process_payload ascii_env sample_dash_lib 8 ''10.0.0.1:5''
      (sanitize_payload_fields (snd (sample_payloads ! 1))) = None"
    by code_simp+
  then show ?thesis by (auto simp: accepted_def sample_payloads_def)
qed

theorem ingest_exact_witness:
  "length (store_logs (fst (fst (process_payloads ascii_env sample_dash_lib ''10.0.0.1:5'' sample_payloads
     (new_mem_store 2, new_broadcaster))))) = 1"
proof -
  let ?es = "accepted ascii_env sample_dash_lib ''10.0.0.1:5'' sample_payloads"
  obtain e where es: "?es = [e]" using sample_accepted by blast
  have "store_logs (fst (fst (process_payloads ascii_env sample_dash_lib ''10.0.0.1:5'' sample_payloads
      (new_mem_store 2, new_broadcaster)))) =
    take (st_size (new_mem_store 2)) (rev (numbered (st_next_id (new_mem_store 2)) ?es) @ store_logs (new_mem_store 2))"
    using ingest_exact [OF new_mem_store_inv(1) [of 2], of ascii_env sample_dash_lib "''10.0.0.1:5''" sample_payloads new_broadcaster]
    by (simp add: case_prod_unfold Let_def)
  then show ?thesis by (simp add: es new_mem_store_inv)
qed

text \<open>The check looks at the top level only: a domain field inside \<^verbatim>\<open>fields\<close> is kept as it is.\<close>

lemma nested_fields_unchecked:
  "extract_fields_map (sanitize_payload_fields [(''fields'', JObj [(''host'', JStr ''<script>'')])]) =
     [(''host'', JStr ''<script>'')]"
  by code_simp

end
