(* ===== verification/Unblock.thy ===== *)
theory Unblock
  imports GoText
begin

text \<open>
  \<^verbatim>\<open>internal/dashboard/unblock.go\<close>: the requests to unblock a domain or an address, from their
  creation in the dashboard to the acknowledgement by the host that applied them. The random
  identifier and the clock are arguments. What the handlers rely on is the locale
  \<open>unblock_requests\<close>; the life of the store is the step relation \<open>unblock_step\<close>.
\<close>

record unblock_request =
  ub_id :: string
  ub_type :: string
  ub_value :: string
  ub_target :: string \<comment> \<open>empty: all hosts\<close>
  ub_created :: nanos

record completed_unblock =
  cu_type :: string
  cu_value :: string
  cu_target :: string
  cu_completed :: nanos

record unblock_store =
  us_requests :: "(string, unblock_request) gomap"
  us_completed :: "completed_unblock list"
  us_max_pending :: nat

definition new_unblock_store :: unblock_store where
  "new_unblock_store = \<lparr>us_requests = [], us_completed = [], us_max_pending = 1000\<rparr>"

definition unblock_host :: "env \<Rightarrow> string \<Rightarrow> string" where
  "unblock_host E h = to_lower E (trim_space h)"

definition same_request :: "string \<Rightarrow> string \<Rightarrow> string \<Rightarrow> unblock_request \<Rightarrow> bool" where
  "same_request reqType val target req \<longleftrightarrow>
     ub_type req = reqType \<and> ub_value req = val \<and> ub_target req = target"

definition unblock_add ::
  "env \<Rightarrow> string \<Rightarrow> nanos \<Rightarrow> string \<Rightarrow> string \<Rightarrow> string \<Rightarrow> unblock_store \<Rightarrow> unblock_store \<times> string" where
  \<comment> \<open>\<open>newid\<close> is what \<^verbatim>\<open>generateID\<close> returns\<close>
  "unblock_add E newid now reqType val targetHostname s =
     (let target = unblock_host E targetHostname
      in case find (\<lambda>(k, req). same_request reqType val target req) (us_requests s) of
           Some (_, req) \<Rightarrow> (s, ub_id req)
         | None \<Rightarrow>
             if us_max_pending s \<le> length (us_requests s) then (s, [])
             else (s\<lparr>us_requests := AList.update newid
                        \<lparr>ub_id = newid, ub_type = reqType, ub_value = val, ub_target = target,
                         ub_created = now\<rparr> (us_requests s)\<rparr>, newid))"

definition get_pending :: "unblock_store \<Rightarrow> unblock_request list" where
  "get_pending s = map snd (us_requests s)"

definition get_pending_for_host :: "env \<Rightarrow> string \<Rightarrow> unblock_store \<Rightarrow> unblock_request list" where
  "get_pending_for_host E hostname s =
     (let h = unblock_host E hostname
      in filter (\<lambda>req. ub_target req = [] \<or> ub_target req = h) (map snd (us_requests s)))"

definition max_completed :: nat where "max_completed = 100"

definition last_n :: "nat \<Rightarrow> 'a list \<Rightarrow> 'a list" where
  "last_n n xs = (if length xs > n then drop (length xs - n) xs else xs)"

definition unblock_acknowledge :: "nanos \<Rightarrow> string \<Rightarrow> unblock_store \<Rightarrow> unblock_store \<times> bool" where
  "unblock_acknowledge now i s =
     (case map_of (us_requests s) i of
        None \<Rightarrow> (s, False)
      | Some req \<Rightarrow>
          (s\<lparr>us_completed := last_n max_completed
               (us_completed s @ [\<lparr>cu_type = ub_type req, cu_value = ub_value req, cu_target = ub_target req,
                                   cu_completed = now\<rparr>]),
             us_requests := AList.delete i (us_requests s)\<rparr>, True))"

definition get_completed :: "unblock_store \<Rightarrow> completed_unblock list" where
  "get_completed s = us_completed s"

subsection \<open>Invariant\<close>

definition triple :: "unblock_request \<Rightarrow> string \<times> string \<times> string" where
  "triple req = (ub_type req, ub_value req, ub_target req)"

definition unblock_inv :: "unblock_store \<Rightarrow> bool" where
  "unblock_inv s \<longleftrightarrow>
     wf_map (us_requests s) \<and> (\<forall>(k, req) \<in> set (us_requests s). ub_id req = k) \<and>
     distinct (map (triple \<circ> snd) (us_requests s)) \<and>
     length (us_requests s) \<le> us_max_pending s \<and> length (us_completed s) \<le> max_completed"

lemma new_unblock_store_inv [inv_intro]: "unblock_inv new_unblock_store"
  by (simp add: unblock_inv_def new_unblock_store_def)

lemma update_new: "map_of m k = None \<Longrightarrow> AList.update k v m = m @ [(k, v)]"
  by (induction m) (auto split: if_splits)

lemma find_request:
  "find (\<lambda>(k, req). same_request t v h req) m = None \<longleftrightarrow> (t, v, h) \<notin> set (map (triple \<circ> snd) m)"
  by (induction m) (auto simp: same_request_def triple_def)

lemma find_request_Some:
  "find (\<lambda>(k, req). same_request t v h req) m = Some (k, req) \<Longrightarrow> (k, req) \<in> set m \<and> triple req = (t, v, h)"
  by (induction m) (auto simp: same_request_def triple_def split: if_splits)

lemma unblock_add_inv [inv_intro]:
  assumes "unblock_inv s" "map_of (us_requests s) newid = None"
  shows "unblock_inv (fst (unblock_add E newid now t v h s))"
  using assms
  by (auto simp: unblock_add_def Let_def unblock_inv_def update_new find_request wf_map_def triple_def
      map_of_eq_None_iff split: option.splits prod.splits)

lemma last_n_length: "length (last_n n xs) \<le> n"
  by (simp add: last_n_def)

lemma unblock_ack_inv [inv_intro]:
  assumes "unblock_inv s"
  shows "unblock_inv (fst (unblock_acknowledge now i s))"
  using assms
  by (auto simp: unblock_acknowledge_def unblock_inv_def last_n_length AList.delete_eq distinct_map_filter
      wf_map_def
      intro: le_trans [OF length_filter_le] split: option.splits dest: filter_is_subset [THEN subsetD])

subsection \<open>The interface\<close>

locale unblock_requests =
  fixes add :: "string \<Rightarrow> nanos \<Rightarrow> string \<Rightarrow> string \<Rightarrow> string \<Rightarrow> 's \<Rightarrow> 's \<times> string"
    and for_host :: "string \<Rightarrow> 's \<Rightarrow> unblock_request list"
    and ack :: "nanos \<Rightarrow> string \<Rightarrow> 's \<Rightarrow> 's \<times> bool"
    and pending :: "'s \<Rightarrow> string \<Rightarrow> unblock_request option"
    and inv :: "'s \<Rightarrow> bool"
    and norm :: "string \<Rightarrow> string"
  assumes add_inv: "inv s \<Longrightarrow> pending s i = None \<Longrightarrow> inv (fst (add i now t v h s))"
    and add_result: "inv s \<Longrightarrow> pending s i = None \<Longrightarrow> i \<noteq> [] \<Longrightarrow> add i now t v h s = (s', j) \<Longrightarrow> j \<noteq> [] \<Longrightarrow>
      \<exists>req. pending s' j = Some req \<and> triple req = (t, v, norm h)"
    and add_keeps: "inv s \<Longrightarrow> pending s i = None \<Longrightarrow> pending s k = Some req \<Longrightarrow>
      pending (fst (add i now t v h s)) k = Some req"
    and ack_inv: "inv s \<Longrightarrow> inv (fst (ack now i s))"
    and ack_pending: "inv s \<Longrightarrow> pending (fst (ack now i s)) = (pending s)(i := None)"
    and ack_result: "inv s \<Longrightarrow> snd (ack now i s) \<longleftrightarrow> pending s i \<noteq> None"
    and host_pending: "inv s \<Longrightarrow> req \<in> set (for_host h s) \<longleftrightarrow>
      (\<exists>i. pending s i = Some req) \<and> (ub_target req = [] \<or> ub_target req = norm h)"
begin

text \<open>A request that was accepted for a host is seen by that host.\<close>

lemma accepted_visible:
  assumes "inv s" "pending s i = None" "i \<noteq> []" "add i now t v h s = (s', j)" "j \<noteq> []"
    and "norm h = [] \<or> norm h = norm k"
  shows "\<exists>req \<in> set (for_host k s'). triple req = (t, v, norm h)"
proof -
  obtain req where req: "pending s' j = Some req" "triple req = (t, v, norm h)"
    using add_result [OF assms(1-5)] by blast
  have "inv s'" using add_inv [OF assms(1,2), of now t v h] assms(4) by simp
  from host_pending [OF this, of req k] req assms(6) have "req \<in> set (for_host k s')"
    by (auto simp: triple_def)
  with req(2) show ?thesis by blast
qed

end

lemma request_id: "unblock_inv s \<Longrightarrow> map_of (us_requests s) k = Some req \<Longrightarrow> ub_id req = k"
  by (auto simp: unblock_inv_def dest!: map_of_SomeD bspec)

lemma unblock_add_pending:
  assumes "unblock_inv s" "map_of (us_requests s) i = None" "unblock_add E i now t v h s = (s', j)" "j \<noteq> []"
  shows "\<exists>req. map_of (us_requests s') j = Some req \<and> triple req = (t, v, unblock_host E h)"
proof (cases "find (\<lambda>(k, req). same_request t v (unblock_host E h) req) (us_requests s)")
  case None
  then show ?thesis
    using assms by (auto simp: unblock_add_def Let_def triple_def update_conv' split: if_splits)
next
  case (Some kr)
  obtain k req where kr: "kr = (k, req)" by (cases kr)
  from find_request_Some [OF Some [unfolded kr]] have "(k, req) \<in> set (us_requests s)" "triple req = (t, v, unblock_host E h)"
    by simp_all
  moreover from this(1) assms(1) have pend: "map_of (us_requests s) k = Some req"
    by (simp add: unblock_inv_def wf_map_def)
  ultimately show ?thesis
    using assms(3) Some kr request_id [OF assms(1) pend] by (auto simp: unblock_add_def Let_def)
qed

lemma unblock_add_keeps:
  assumes "map_of (us_requests s) i = None" "map_of (us_requests s) k = Some req"
  shows "map_of (us_requests (fst (unblock_add E i now t v h s))) k = Some req"
  using assms by (auto simp: unblock_add_def Let_def update_conv' split: option.splits)

lemma unblock_ack_pending:
  "map_of (us_requests (fst (unblock_acknowledge now i s))) = (map_of (us_requests s))(i := None)"
  by (auto simp: unblock_acknowledge_def delete_conv' split: option.splits)

lemma pending_for_host_iff:
  assumes "unblock_inv s"
  shows "req \<in> set (get_pending_for_host E h s) \<longleftrightarrow>
    (\<exists>i. map_of (us_requests s) i = Some req) \<and> (ub_target req = [] \<or> ub_target req = unblock_host E h)"
proof -
  have "wf_map (us_requests s)" using assms by (simp add: unblock_inv_def)
  then have "(\<exists>i. map_of (us_requests s) i = Some req) \<longleftrightarrow> req \<in> snd ` set (us_requests s)"
    by (force simp: map_of_mem [symmetric])
  then show ?thesis by (auto simp: get_pending_for_host_def Let_def)
qed

interpretation unblocks: unblock_requests "unblock_add E" "get_pending_for_host E" unblock_acknowledge
  "\<lambda>s. map_of (us_requests s)" unblock_inv "unblock_host E" for E
proof unfold_locales
  fix s :: unblock_store and i now t v h k
  assume inv: "unblock_inv s"
  show "unblock_inv (fst (unblock_acknowledge now i s))" using inv by (rule unblock_ack_inv)
  show "snd (unblock_acknowledge now i s) \<longleftrightarrow> map_of (us_requests s) i \<noteq> None"
    by (auto simp: unblock_acknowledge_def split: option.splits)
  show "map_of (us_requests (fst (unblock_acknowledge now i s))) = (map_of (us_requests s))(i := None)"
    by (rule unblock_ack_pending)
  show "req \<in> set (get_pending_for_host E h s) \<longleftrightarrow> (\<exists>i. map_of (us_requests s) i = Some req) \<and>
    (ub_target req = [] \<or> ub_target req = unblock_host E h)" for req
    using inv by (rule pending_for_host_iff)
  assume new: "map_of (us_requests s) i = None"
  show "unblock_inv (fst (unblock_add E i now t v h s))" using inv new by (rule unblock_add_inv)
  show "map_of (us_requests (fst (unblock_add E i now t v h s))) k = Some req"
    if "map_of (us_requests s) k = Some req" for req
    using new that by (rule unblock_add_keeps)
  show "\<exists>req. map_of (us_requests s') j = Some req \<and> triple req = (t, v, unblock_host E h)"
    if "unblock_add E i now t v h s = (s', j)" "j \<noteq> []" for s' j
    using inv new that by (rule unblock_add_pending)
qed

subsection \<open>The life of a request\<close>

text \<open>The identifier of a new request is 8 random bytes in hex; the step relation takes it to be fresh.\<close>

datatype unblock_event =
    EvAdd string string string string \<comment> \<open>type, value, target and the new identifier\<close>
  | EvAck string

inductive unblock_step :: "env \<Rightarrow> unblock_store \<Rightarrow> unblock_event \<Rightarrow> unblock_store \<Rightarrow> bool" for E where
  step_add: "map_of (us_requests s) i = None \<Longrightarrow> i \<noteq> [] \<Longrightarrow>
    unblock_step E s (EvAdd t v h i) (fst (unblock_add E i now t v h s))"
| step_ack: "unblock_step E s (EvAck i) (fst (unblock_acknowledge now i s))"

inductive_cases unblock_stepE: "unblock_step E s ev s'"

inductive unblock_steps :: "env \<Rightarrow> unblock_store \<Rightarrow> unblock_event list \<Rightarrow> unblock_store \<Rightarrow> bool" for E where
  steps_refl: "unblock_steps E s [] s"
| steps_step: "unblock_step E s ev s' \<Longrightarrow> unblock_steps E s' evs s'' \<Longrightarrow> unblock_steps E s (ev # evs) s''"

inductive_cases unblock_steps_NilE: "unblock_steps E s [] s'"
inductive_cases unblock_steps_ConsE: "unblock_steps E s (ev # evs) s'"

lemma unblock_step_inv: "unblock_step E s ev s' \<Longrightarrow> unblock_inv s \<Longrightarrow> unblock_inv s'"
  by (erule unblock_stepE) (auto intro: inv_intro)

lemma unblock_step_max: "unblock_step E s ev s' \<Longrightarrow> us_max_pending s' = us_max_pending s"
  by (erule unblock_stepE)
    (auto simp: unblock_add_def unblock_acknowledge_def Let_def split: option.splits)

lemma unblock_steps_inv:
  "unblock_steps E s evs s' \<Longrightarrow> unblock_inv s \<Longrightarrow> unblock_inv s' \<and> us_max_pending s' = us_max_pending s"
proof (induction rule: unblock_steps.induct)
  case (steps_refl s)
  then show ?case by simp
next
  case (steps_step s ev s' evs s'')
  then show ?case
    using unblock_step_inv [OF steps_step.hyps(1)] unblock_step_max [OF steps_step.hyps(1)] by simp
qed

lemma unblock_steps_keep:
  "unblock_steps E s evs s' \<Longrightarrow> unblock_inv s \<Longrightarrow> map_of (us_requests s) i = Some req \<Longrightarrow> EvAck i \<notin> set evs \<Longrightarrow>
   map_of (us_requests s') i = Some req"
proof (induction rule: unblock_steps.induct)
  case (steps_refl s)
  then show ?case by simp
next
  case (steps_step s ev s' evs s'')
  from steps_step.hyps(1) have "map_of (us_requests s') i = Some req"
    using steps_step.prems by (cases rule: unblock_step.cases) (auto simp: unblock_add_keeps unblock_ack_pending)
  with steps_step show ?case by (auto dest: unblock_step_inv)
qed

text \<open>The store of unblock requests stays small and free of duplicates. In every state that is
  reached from the empty store by creating and acknowledging requests there are at most 1000 pending
  requests, no two of them alike, and at most 100 completed ones are remembered.\<close>

theorem unblock_store_bounded:
  assumes "unblock_steps E new_unblock_store evs s"
  shows "length (get_pending s) \<le> 1000 \<and> length (get_completed s) \<le> 100 \<and> distinct (map triple (get_pending s))"
  using unblock_steps_inv [OF assms new_unblock_store_inv]
  by (auto simp: unblock_inv_def get_pending_def get_completed_def new_unblock_store_def max_completed_def)

text \<open>A store with one accepted request, for the witnesses.\<close>

definition one_request :: unblock_store where
  "one_request = fst (unblock_add ascii_env ''1f'' 0 ''domain'' ''a.com'' '' Gw '' new_unblock_store)"

lemma one_request_facts:
  "unblock_add ascii_env ''1f'' 0 ''domain'' ''a.com'' '' Gw '' new_unblock_store = (one_request, ''1f'')"
  "get_pending one_request = [\<lparr>ub_id = ''1f'', ub_type = ''domain'', ub_value = ''a.com'', ub_target = ''gw'', ub_created = 0\<rparr>]"
  "unblock_steps ascii_env new_unblock_store [EvAdd ''domain'' ''a.com'' '' Gw '' ''1f''] one_request"
proof -
  have 1: "unblock_add ascii_env ''1f'' 0 ''domain'' ''a.com'' '' Gw '' new_unblock_store = (one_request, ''1f'')"
    unfolding one_request_def by code_simp
  then show "unblock_add ascii_env ''1f'' 0 ''domain'' ''a.com'' '' Gw '' new_unblock_store = (one_request, ''1f'')" .
  show "get_pending one_request = [\<lparr>ub_id = ''1f'', ub_type = ''domain'', ub_value = ''a.com'', ub_target = ''gw'', ub_created = 0\<rparr>]"
    unfolding one_request_def by code_simp
  have "unblock_step ascii_env new_unblock_store (EvAdd ''domain'' ''a.com'' '' Gw '' ''1f'') one_request"
    using step_add [of new_unblock_store "''1f''" ascii_env "''domain''" "''a.com''" "'' Gw ''" 0] 1
    by (simp add: new_unblock_store_def)
  then show "unblock_steps ascii_env new_unblock_store [EvAdd ''domain'' ''a.com'' '' Gw '' ''1f''] one_request"
    by (rule steps_step [OF _ steps_refl])
qed

theorem unblock_store_bounded_witness:
  "length (get_pending one_request) = 1 \<and> length (get_pending one_request) \<le> 1000"
  using unblock_store_bounded [OF one_request_facts(3)] one_request_facts(2) by simp

text \<open>A request reaches the host it is for. Once accepted it is offered to every poll of that host
  (of every host when it has no target), whatever else is created and acknowledged in between,
  until its own identifier is acknowledged; from then on no host is offered it.\<close>

theorem unblock_delivered:
  assumes reach: "unblock_steps E new_unblock_store evs s"
    and add: "map_of (us_requests s) i = None" "i \<noteq> []" "unblock_add E i now t v h s = (s1, j)" "j \<noteq> []"
    and later: "unblock_steps E s1 evs' s2" "EvAck j \<notin> set evs'"
    and host: "unblock_host E h = [] \<or> unblock_host E h = unblock_host E k"
  shows "\<exists>req \<in> set (get_pending_for_host E k s2). triple req = (t, v, unblock_host E h) \<and>
    map_of (us_requests s2) j = Some req \<and>
    (\<forall>k'. req \<notin> set (get_pending_for_host E k' (fst (unblock_acknowledge now' j s2))))"
proof -
  have inv: "unblock_inv s" using unblock_steps_inv [OF reach new_unblock_store_inv] by simp
  obtain req where req: "map_of (us_requests s1) j = Some req" "triple req = (t, v, unblock_host E h)"
    using unblocks.add_result [OF inv add] by blast
  have inv1: "unblock_inv s1" using unblocks.add_inv [OF inv add(1), of E now t v h] add(3) by simp
  have p2: "map_of (us_requests s2) j = Some req" by (rule unblock_steps_keep [OF later(1) inv1 req(1) later(2)])
  have inv2: "unblock_inv s2" using unblock_steps_inv [OF later(1) inv1] by simp
  have "req \<in> set (get_pending_for_host E k s2)"
    using unblocks.host_pending [OF inv2] p2 req(2) host by (auto simp: triple_def)
  moreover have "req \<notin> set (get_pending_for_host E k' (fst (unblock_acknowledge now' j s2)))" for k'
  proof -
    have "x = j" if "map_of (us_requests s2) x = Some req" for x
      using request_id [OF inv2 p2] request_id [OF inv2 that] by simp
    then show ?thesis
      using unblocks.host_pending [OF unblock_ack_inv [OF inv2]] by (auto simp: unblock_ack_pending split: if_splits)
  qed
  ultimately show ?thesis using p2 req(2) by blast
qed

theorem unblock_delivered_witness:
  "(\<exists>req \<in> set (get_pending_for_host ascii_env ''GW'' one_request). triple req = (''domain'', ''a.com'', ''gw'')) \<and>
   get_pending_for_host ascii_env ''GW'' (fst (unblock_acknowledge 5 ''1f'' one_request)) = []"
proof -
  have host: "unblock_host ascii_env '' Gw '' = ''gw''" "unblock_host ascii_env ''GW'' = ''gw''" by code_simp+
  have gone: "get_pending_for_host ascii_env ''GW'' (fst (unblock_acknowledge 5 ''1f'' one_request)) = []"
    unfolding one_request_def by code_simp
  have "map_of (us_requests new_unblock_store) ''1f'' = None" by (simp add: new_unblock_store_def)
  from unblock_delivered [OF steps_refl this _ one_request_facts(1) _ steps_refl, of "''GW''" 5] host gone
  show ?thesis by auto
qed

end
