(* ===== verification/DashLimiter.thy ===== *)
theory DashLimiter
  imports Clock
begin

text \<open>
  \<^verbatim>\<open>internal/dashboard/rate_limiter.go\<close>: the token bucket in front of the ingestion of log
  entries, one bucket for each client address. The two Go maps of the limiter are two association
  lists; the clock is an argument, floating-point numbers are rational numbers, and the debug logs
  are left out.
\<close>

record rate_limiter =
  rl_tokens :: "(string, rat) gomap"
  rl_last :: "(string, nanos) gomap"
  rl_rps :: rat
  rl_burst :: rat
  rl_max_entries :: nat
  rl_last_cleanup :: nanos

definition new_rate_limiter :: "nanos \<Rightarrow> rat \<Rightarrow> rat \<Rightarrow> rate_limiter" where
  "new_rate_limiter now rps burst =
     \<lparr>rl_tokens = [], rl_last = [], rl_rps = (if rps \<le> 0 then 50 else rps),
      rl_burst = (if burst \<le> 0 then 100 else burst), rl_max_entries = 10000, rl_last_cleanup = now\<rparr>"

definition limiter_cleanup :: "nanos \<Rightarrow> rate_limiter \<Rightarrow> rate_limiter" where
  "limiter_cleanup now rl =
     (let cutoff = now - hour;
          old = map fst (filter (\<lambda>(key, lastSeen). lastSeen < cutoff) (rl_last rl))
      in rl\<lparr>rl_tokens := filter (\<lambda>(key, _). key \<notin> set old) (rl_tokens rl),
            rl_last := filter (\<lambda>(key, _). key \<notin> set old) (rl_last rl)\<rparr>)"

definition limiter_maintain :: "nanos \<Rightarrow> rate_limiter \<Rightarrow> rate_limiter" where
  \<comment> \<open>the first part of \<^verbatim>\<open>Allow\<close>\<close>
  "limiter_maintain now rl =
     (if length (rl_tokens rl) > rl_max_entries rl \<or> time_sub now (rl_last_cleanup rl) > 10 * minute
      then (limiter_cleanup now rl)\<lparr>rl_last_cleanup := now\<rparr>
      else rl)"

definition level :: "nanos \<Rightarrow> string \<Rightarrow> rate_limiter \<Rightarrow> rat" where
  \<comment> \<open>the tokens of a key at a time, the cap included; a missing entry reads as zero\<close>
  "level now key rl =
     (let t0 = (case map_of (rl_tokens rl) key of None \<Rightarrow> 0 | Some t \<Rightarrow> t);
          last = (case map_of (rl_last rl) key of None \<Rightarrow> zero_time | Some l \<Rightarrow> l);
          dt = seconds_of (time_sub now last);
          t = t0 + dt * rl_rps rl
      in if t > rl_burst rl then rl_burst rl else t)"

definition limiter_allow :: "nanos \<Rightarrow> string \<Rightarrow> rate_limiter \<Rightarrow> bool \<times> rate_limiter" where
  "limiter_allow now key rl0 =
     (let rl = limiter_maintain now rl0; t = level now key rl
      in if t < 1
         then (False, rl\<lparr>rl_tokens := AList.update key t (rl_tokens rl),
                         rl_last := AList.update key now (rl_last rl)\<rparr>)
         else (True, rl\<lparr>rl_tokens := AList.update key (t - 1) (rl_tokens rl),
                        rl_last := AList.update key now (rl_last rl)\<rparr>))"

subsection \<open>Invariant\<close>

definition limiter_inv :: "nanos \<Rightarrow> rate_limiter \<Rightarrow> bool" where
  "limiter_inv now rl \<longleftrightarrow>
     wf_map (rl_tokens rl) \<and> wf_map (rl_last rl) \<and> 0 < rl_rps rl \<and> 0 < rl_burst rl \<and>
     (\<forall>k t. map_of (rl_tokens rl) k = Some t \<longrightarrow> 0 \<le> t) \<and>
     (\<forall>k l. map_of (rl_last rl) k = Some l \<longrightarrow> 0 \<le> l \<and> l \<le> now)"

lemma new_limiter_inv [inv_intro]: "limiter_inv now (new_rate_limiter t0 r b)"
  by (auto simp: limiter_inv_def new_rate_limiter_def)

lemma limiter_inv_mono: "limiter_inv now rl \<Longrightarrow> now \<le> now' \<Longrightarrow> limiter_inv now' rl"
  by (fastforce simp: limiter_inv_def)

lemma cleanup_map_of:
  assumes "wf_map (rl_tokens rl)" "wf_map (rl_last rl)"
  shows "map_of (rl_tokens (limiter_cleanup now rl)) k =
      (if \<exists>l. map_of (rl_last rl) k = Some l \<and> l < now - hour then None else map_of (rl_tokens rl) k)"
    and "map_of (rl_last (limiter_cleanup now rl)) k =
      (if \<exists>l. map_of (rl_last rl) k = Some l \<and> l < now - hour then None else map_of (rl_last rl) k)"
proof -
  have old: "k \<in> set (map fst (filter (\<lambda>(key, lastSeen). lastSeen < now - hour) (rl_last rl))) \<longleftrightarrow>
      (\<exists>l. map_of (rl_last rl) k = Some l \<and> l < now - hour)"
    using map_of_mem [OF assms(2), of k] by (auto simp: image_iff)
  show "map_of (rl_tokens (limiter_cleanup now rl)) k =
      (if \<exists>l. map_of (rl_last rl) k = Some l \<and> l < now - hour then None else map_of (rl_tokens rl) k)"
    using old by (auto simp: limiter_cleanup_def Let_def map_of_filter_fst [OF assms(1)] split: option.splits)
  show "map_of (rl_last (limiter_cleanup now rl)) k =
      (if \<exists>l. map_of (rl_last rl) k = Some l \<and> l < now - hour then None else map_of (rl_last rl) k)"
    using old by (auto simp: limiter_cleanup_def Let_def map_of_filter_fst [OF assms(2)] split: option.splits)
qed

lemma maintain_same [simp]:
  "rl_rps (limiter_maintain now rl) = rl_rps rl" "rl_burst (limiter_maintain now rl) = rl_burst rl"
  by (simp_all add: limiter_maintain_def limiter_cleanup_def Let_def)

lemma maintain_inv: "limiter_inv now rl \<Longrightarrow> limiter_inv now (limiter_maintain now rl)"
  unfolding limiter_maintain_def limiter_inv_def
  by (auto simp: cleanup_map_of) (auto simp: limiter_cleanup_def Let_def)

lemma level_bounds:
  assumes "limiter_inv now rl" "0 \<le> now" "now \<le> max_duration"
  shows "0 \<le> level now k rl" "level now k rl \<le> rl_burst rl"
proof -
  have "0 \<le> seconds_of (time_sub now (case map_of (rl_last rl) k of None \<Rightarrow> zero_time | Some l \<Rightarrow> l))"
    using assms by (auto simp: limiter_inv_def time_sub_exact time_sub_zero max_duration_def
        intro!: seconds_of_nonneg split: option.splits)
  moreover have "0 \<le> (case map_of (rl_tokens rl) k of None \<Rightarrow> 0 | Some t \<Rightarrow> t)"
    using assms by (auto simp: limiter_inv_def split: option.splits)
  ultimately show "0 \<le> level now k rl"
    using assms by (simp add: level_def Let_def limiter_inv_def)
  show "level now k rl \<le> rl_burst rl" by (simp add: level_def Let_def)
qed

lemma allow_inv [inv_intro]:
  assumes "limiter_inv now rl" "0 \<le> now" "now \<le> max_duration"
  shows "limiter_inv now (snd (limiter_allow now k rl))"
proof -
  let ?m = "limiter_maintain now rl"
  have i: "limiter_inv now ?m" using assms(1) by (rule maintain_inv)
  have l: "0 \<le> level now k ?m" using level_bounds(1) [OF i assms(2,3)] .
  show ?thesis
    using i l assms(2) by (auto simp: limiter_allow_def Let_def limiter_inv_def update_conv')
qed

subsection \<open>Forgetting is not observable\<close>

text \<open>An entry that is an hour old has a full bucket, as has a missing one.\<close>

lemma maintain_cases:
  fixes k :: string
  assumes "limiter_inv now rl"
  obtains (same) "map_of (rl_tokens (limiter_maintain now rl)) k = map_of (rl_tokens rl) k"
      "map_of (rl_last (limiter_maintain now rl)) k = map_of (rl_last rl) k"
  | (gone) l where "map_of (rl_last rl) k = Some l" "l < now - hour"
      "map_of (rl_tokens (limiter_maintain now rl)) k = None"
      "map_of (rl_last (limiter_maintain now rl)) k = None"
proof (cases "rl_tokens (limiter_maintain now rl) = rl_tokens rl \<and> rl_last (limiter_maintain now rl) = rl_last rl")
  case True
  then show thesis using same by simp
next
  case False
  then have m: "rl_tokens (limiter_maintain now rl) = rl_tokens (limiter_cleanup now rl)"
    "rl_last (limiter_maintain now rl) = rl_last (limiter_cleanup now rl)"
    by (auto simp: limiter_maintain_def split: if_splits)
  have wf: "wf_map (rl_tokens rl)" "wf_map (rl_last rl)" using assms by (simp_all add: limiter_inv_def)
  show thesis
  proof (cases "\<exists>l. map_of (rl_last rl) k = Some l \<and> l < now - hour")
    case True
    then show thesis using gone by (auto simp: m cleanup_map_of [OF wf])
  next
    case False
    show thesis by (rule same) (simp_all only: m cleanup_map_of [OF wf] False if_False)
  qed
qed

lemma maintain_level:
  assumes "limiter_inv now rl" "0 \<le> now" "now \<le> t" "t \<le> max_duration" "rl_burst rl \<le> 3600 * rl_rps rl"
  shows "level t k (limiter_maintain now rl) = level t k rl"
  using assms(1)
proof (cases rule: maintain_cases [where k = k])
  case same
  then show ?thesis by (simp add: level_def Let_def)
next
  case (gone l)
  have q: "0 < rl_rps rl" using assms(1) by (simp add: limiter_inv_def)
  have "3600 * rl_rps rl \<le> seconds_of max_duration * rl_rps rl"
    using q by (intro mult_right_mono) (simp_all add: seconds_of_def max_duration_def)
  then have new: "level t k (limiter_maintain now rl) = rl_burst rl"
    using assms gone by (simp add: level_def Let_def time_sub_zero)
  have tok: "0 \<le> (case map_of (rl_tokens rl) k of None \<Rightarrow> 0 | Some t \<Rightarrow> t)" and l0: "0 \<le> l"
    using assms(1) gone(1) by (auto simp: limiter_inv_def split: option.splits)
  have "3600 * rl_rps rl \<le> seconds_of (t - l) * rl_rps rl"
    using q gone(2) assms(3) by (intro mult_right_mono) (simp_all add: seconds_of_def)
  moreover have "time_sub t l = t - l" using gone(2) l0 assms by (intro time_sub_exact) auto
  ultimately have "level t k rl = rl_burst rl"
    using tok gone(1) assms(5) by (auto simp: level_def Let_def)
  with new show ?thesis by simp
qed

subsection \<open>The specification: one bucket for each client\<close>

fun bucket_run :: "rat \<Rightarrow> rat \<Rightarrow> rat \<Rightarrow> nanos \<Rightarrow> nanos list \<Rightarrow> bool list" where
  "bucket_run q b tok lst [] = []"
| "bucket_run q b tok lst (t # ts) =
     (let c = min b (tok + seconds_of (t - lst) * q)
      in if 1 \<le> c then True # bucket_run q b (c - 1) t ts else False # bucket_run q b c t ts)"

fun limiter_answers :: "string \<Rightarrow> (nanos \<times> string) list \<Rightarrow> rate_limiter \<Rightarrow> bool list" where
  "limiter_answers k [] rl = []"
| "limiter_answers k ((t, key) # es) rl =
     (let (ok, rl') = limiter_allow t key rl
      in (if key = k then [ok] else []) @ limiter_answers k es rl')"

lemma allow_other:
  assumes "limiter_inv now rl" "0 \<le> now" "now \<le> t" "t \<le> max_duration" "rl_burst rl \<le> 3600 * rl_rps rl" "key \<noteq> k"
  shows "level t k (snd (limiter_allow now key rl)) = level t k rl"
  using assms maintain_level [OF assms(1-5), of k]
  by (auto simp: limiter_allow_def Let_def level_def update_conv')

lemma allow_same:
  fixes k
  assumes "limiter_inv now rl" "0 \<le> now" "now \<le> t" "t \<le> max_duration" "rl_burst rl \<le> 3600 * rl_rps rl"
  defines "c \<equiv> level now k rl"
  shows "fst (limiter_allow now k rl) \<longleftrightarrow> 1 \<le> c"
    and "level t k (snd (limiter_allow now k rl)) =
      min (rl_burst rl) ((if 1 \<le> c then c - 1 else c) + seconds_of (t - now) * rl_rps rl)"
proof -
  have c: "level now k (limiter_maintain now rl) = c"
    unfolding c_def using assms by (intro maintain_level) auto
  show "fst (limiter_allow now k rl) \<longleftrightarrow> 1 \<le> c"
    by (auto simp: limiter_allow_def Let_def c)
  show "level t k (snd (limiter_allow now k rl)) =
      min (rl_burst rl) ((if 1 \<le> c then c - 1 else c) + seconds_of (t - now) * rl_rps rl)"
    using assms(2-4) by (auto simp: limiter_allow_def Let_def c level_def [of t] update_conv' time_sub_exact min_def)
qed

lemma allow_params [simp]:
  "rl_rps (snd (limiter_allow now k rl)) = rl_rps rl" "rl_burst (snd (limiter_allow now k rl)) = rl_burst rl"
  by (simp_all add: limiter_allow_def Let_def)

lemma answers_bucket:
  assumes "limiter_inv now rl" "0 \<le> now" "sorted (now # map fst es)" "\<forall>e \<in> set es. fst e \<le> max_duration"
    and "rl_burst rl \<le> 3600 * rl_rps rl"
    and "\<forall>t. now \<le> t \<and> t \<le> max_duration \<longrightarrow>
      level t k rl = min (rl_burst rl) (tok + seconds_of (t - lst) * rl_rps rl)"
  shows "limiter_answers k es rl =
    bucket_run (rl_rps rl) (rl_burst rl) tok lst (map fst (filter (\<lambda>e. snd e = k) es))"
  using assms
proof (induction es arbitrary: now rl tok lst)
  case Nil
  then show ?case by simp
next
  case (Cons e es)
  obtain t key where e: "e = (t, key)" by (cases e)
  have t: "now \<le> t" "0 \<le> t" "t \<le> max_duration" using Cons.prems e by auto
  let ?rl = "snd (limiter_allow t key rl)"
  have i: "limiter_inv t rl" using Cons.prems(1) t(1) by (rule limiter_inv_mono)
  have ih: "limiter_answers k es ?rl =
      bucket_run (rl_rps rl) (rl_burst rl) tok' lst' (map fst (filter (\<lambda>e. snd e = k) es))"
    if "\<forall>t'. t \<le> t' \<and> t' \<le> max_duration \<longrightarrow>
      level t' k ?rl = min (rl_burst rl) (tok' + seconds_of (t' - lst') * rl_rps rl)" for tok' lst'
    using Cons.IH [of t ?rl tok' lst'] Cons.prems(3,4,5) allow_inv [OF i t(2,3)] t that e by auto
  show ?case
  proof (cases "key = k")
    case False
    have "limiter_answers k es ?rl =
        bucket_run (rl_rps rl) (rl_burst rl) tok lst (map fst (filter (\<lambda>e. snd e = k) es))"
      using allow_other [OF i t(2) _ _ Cons.prems(5) False] Cons.prems(6) t(1) by (intro ih) auto
    with False e show ?thesis by (simp add: case_prod_unfold Let_def)
  next
    case True
    define c where "c = min (rl_burst rl) (tok + seconds_of (t - lst) * rl_rps rl)"
    have c: "level t k rl = c" using Cons.prems(6) t by (simp add: c_def)
    have a: "limiter_answers k es ?rl =
        bucket_run (rl_rps rl) (rl_burst rl) (if 1 \<le> c then c - 1 else c) t (map fst (filter (\<lambda>e. snd e = k) es))"
      using allow_same(2) [OF i t(2) _ _ Cons.prems(5), of _ k] True c by (intro ih) auto
    have "fst (limiter_allow t key rl) \<longleftrightarrow> 1 \<le> c"
      using allow_same(1) [OF i t(2) order_refl t(3) Cons.prems(5), of k] True c by simp
    with a True e show ?thesis by (auto simp: case_prod_unfold Let_def c_def [symmetric])
  qed
qed

text \<open>C34: The dashboard limits each client by itself, and forgetting idle clients makes no
  difference. If a bucket fills within the hour after which an entry may be dropped, then for every
  sequence of requests in time order the answers a client gets are those of a token bucket of its own
  that starts full, whatever the other clients do and whenever the table is cleaned up.\<close>

theorem limiter_per_client:
  assumes "sorted (t0 # map fst es)" "0 \<le> t0" "\<forall>e \<in> set es. fst e \<le> max_duration"
    and "rl_burst (new_rate_limiter t0 rps burst) \<le> 3600 * rl_rps (new_rate_limiter t0 rps burst)"
  shows "limiter_answers k es (new_rate_limiter t0 rps burst) =
    bucket_run (rl_rps (new_rate_limiter t0 rps burst)) (rl_burst (new_rate_limiter t0 rps burst))
      (rl_burst (new_rate_limiter t0 rps burst)) t0 (map fst (filter (\<lambda>e. snd e = k) es))"
proof (rule answers_bucket [OF new_limiter_inv assms(2,1,3,4)])
  let ?n = "new_rate_limiter t0 rps burst"
  have q: "0 < rl_rps ?n" by (simp add: new_rate_limiter_def)
  have full: "rl_burst ?n \<le> seconds_of max_duration * rl_rps ?n"
    using assms(4) mult_right_mono [of 3600 "seconds_of max_duration" "rl_rps ?n"] q
    by (simp add: seconds_of_def max_duration_def)
  have e: "rl_tokens ?n = []" "rl_last ?n = []" by (simp_all add: new_rate_limiter_def)
  show "\<forall>t. t0 \<le> t \<and> t \<le> max_duration \<longrightarrow>
      level t k ?n = min (rl_burst ?n) (rl_burst ?n + seconds_of (t - t0) * rl_rps ?n)"
  proof (intro allI impI, elim conjE)
    fix t assume t: "t0 \<le> t" "t \<le> max_duration"
    have "0 \<le> seconds_of (t - t0) * rl_rps ?n" using t q by (simp add: seconds_of_nonneg)
    then show "level t k ?n = min (rl_burst ?n) (rl_burst ?n + seconds_of (t - t0) * rl_rps ?n)"
      using full t assms(2) by (simp add: level_def Let_def e time_sub_zero)
  qed
qed

theorem limiter_per_client_witness:
  "limiter_answers ''a'' [(0, ''a''), (0, ''b''), (0, ''a''), (second, ''a'')] (new_rate_limiter 0 1 1) =
   [True, False, True]"
  using limiter_per_client [of 0 "[(0, ''a''), (0, ''b''), (0, ''a''), (second, ''a'')]" 1 1 "''a''"]
  by (simp add: new_rate_limiter_def max_duration_def seconds_of_def)

end
