(* ===== verification/DashServer.thy ===== *)
theory DashServer
  imports Payload Unblock DashLimiter
begin

text \<open>
  \<^verbatim>\<open>internal/dashboard/handlers.go\<close> and \<^verbatim>\<open>server.go\<close>: the handlers of the dashboard, the
  two middlewares that guard them and the routes. A request is a record of what the handlers read
  from it; \<^verbatim>\<open>net/http\<close>, the chi router's own middlewares and \<^verbatim>\<open>encoding/json\<close> are
  parameters or fields of that record, a JSON answer is the value that is encoded, and log output is
  left out.
\<close>

record dash_request =
  rq_method :: string
  rq_path :: string
  rq_api_key :: string \<comment> \<open>the header \<^verbatim>\<open>X-Api-Key\<close>, empty when absent\<close>
  rq_query :: "string \<Rightarrow> string" \<comment> \<open>\<^verbatim>\<open>r.URL.Query().Get\<close>\<close>
  rq_remote :: string \<comment> \<open>\<^verbatim>\<open>RemoteAddr\<close>\<close>
  rq_xff_ip :: string \<comment> \<open>what \<^verbatim>\<open>ClientIPFromXFF\<close> left in the context\<close>
  rq_body :: string
  rq_body_ok :: bool \<comment> \<open>the body can be read to its end\<close>
  rq_json :: bool \<comment> \<open>\<^verbatim>\<open>AllowContentType\<close> lets it pass\<close>
  rq_flusher :: bool \<comment> \<open>the writer is a \<^verbatim>\<open>Flusher\<close>\<close>

datatype dash_body =
    BError string
  | BConfig int int
  | BHealth
  | BCreated "int list"
  | BRows "log_entry list"
  | BStream nat
  | BOk
  | BUnblocks "unblock_request list" "completed_unblock list"
  | BUnblockCreated string
  | BPage \<comment> \<open>the static user interface\<close>

type_synonym dash_response = "nat \<times> dash_body"

record dash_server =
  sv_store :: mem_store
  sv_bc :: broadcaster
  sv_unblocks :: unblock_store
  sv_api_key :: string
  sv_read_limit :: int
  sv_buffer_size :: int
  sv_sse_retry :: nanos
  sv_limiter :: rate_limiter

record dash_config =
  cf_addr :: string
  cf_api_key :: string
  cf_log_level :: string
  cf_buffer_size :: int
  cf_read_limit :: int
  cf_retry_ms :: int
  cf_rate_rps :: rat
  cf_rate_burst :: rat
  cf_write_timeout :: int
  cf_version :: string

definition new_server :: "nanos \<Rightarrow> dash_config \<Rightarrow> dash_server" where
  "new_server now cfg =
     \<lparr>sv_store = new_mem_store (cf_buffer_size cfg), sv_bc = new_broadcaster, sv_unblocks = new_unblock_store,
      sv_api_key = cf_api_key cfg, sv_read_limit = cf_read_limit cfg, sv_buffer_size = cf_buffer_size cfg,
      sv_sse_retry = cf_retry_ms cfg * 1000000,
      sv_limiter = new_rate_limiter now (cf_rate_rps cfg) (cf_rate_burst cfg)\<rparr>"

record http_lib =
  hl_payloads :: "string \<Rightarrow> payload list option" \<comment> \<open>\<^verbatim>\<open>json.Unmarshal\<close> into a slice of maps\<close>
  hl_object :: "string \<Rightarrow> payload option" \<comment> \<open>into a map\<close>
  hl_unblock :: "nat \<Rightarrow> string \<Rightarrow> (string \<times> string \<times> string) option"
    \<comment> \<open>type, value and target from a body cut at the limit\<close>
  hl_ack :: "nat \<Rightarrow> string \<Rightarrow> string option"

subsection \<open>Handlers that only read\<close>

definition config_handler :: "dash_server \<Rightarrow> dash_response" where
  "config_handler s = (200, BConfig (sv_buffer_size s) (sv_read_limit s))"

definition health_handler :: dash_response where
  "health_handler = (200, BHealth)"

definition is_valid_search_chars :: "string \<Rightarrow> bool" where
  "is_valid_search_chars q = list_all (\<lambda>c. \<not> (byte_of c < 32 \<or> byte_of c = 127)) q"

definition has_injection_patterns :: "env \<Rightarrow> string \<Rightarrow> bool" where
  "has_injection_patterns E q =
     (let lower = to_lower E q in str_contains lower ''<script'' \<or> str_contains lower ''javascript:'')"

definition sanitize_search_query :: "env \<Rightarrow> string \<Rightarrow> string" where
  "sanitize_search_query E q =
     (if q = [] then q
      else if length q > 200 then []
      else if \<not> is_valid_search_chars q then []
      else if has_injection_patterns E q then []
      else q)"

definition list_since :: "dash_request \<Rightarrow> int" where
  "list_since r =
     (let raw = trim_space (rq_query r ''since_id'')
      in if raw \<noteq> [] then (case atoi raw of Some i \<Rightarrow> if i > 0 then i else 0 | None \<Rightarrow> 0) else 0)"

definition list_limit :: "dash_server \<Rightarrow> dash_request \<Rightarrow> int" where
  "list_limit s r =
     (let raw = trim_space (rq_query r ''limit'')
      in if raw \<noteq> []
         then (case atoi raw of
                 Some n \<Rightarrow> if n > 0 \<and> n \<le> 5000 then n else sv_read_limit s
               | None \<Rightarrow> sv_read_limit s)
         else sv_read_limit s)"

definition list_logs_handler :: "env \<Rightarrow> dash_server \<Rightarrow> dash_request \<Rightarrow> dash_response" where
  "list_logs_handler E s r =
     (let q = sanitize_search_query E (trim_space (rq_query r ''q''))
      in (200, BRows (store_query E (sv_store s) q (list_since r) (list_limit s r))))"

definition unblock_status_handler :: "dash_server \<Rightarrow> dash_response" where
  "unblock_status_handler s =
     (200, BUnblocks (get_pending (sv_unblocks s)) (get_completed (sv_unblocks s)))"

definition list_unblocks_handler :: "env \<Rightarrow> dash_server \<Rightarrow> dash_request \<Rightarrow> dash_response" where
  "list_unblocks_handler E s r =
     (let hostname = trim_space (rq_query r ''hostname'');
          pending = (if hostname \<noteq> [] then get_pending_for_host E hostname (sv_unblocks s)
                     else get_pending (sv_unblocks s))
      in (200, BUnblocks pending (get_completed (sv_unblocks s))))"

subsection \<open>Handlers that change the state\<close>

definition read_body :: "nat \<Rightarrow> dash_request \<Rightarrow> string option" where
  \<comment> \<open>\<^verbatim>\<open>io.ReadAll\<close> of a \<^verbatim>\<open>MaxBytesReader\<close>\<close>
  "read_body maxBody r = (if rq_body_ok r \<and> length (rq_body r) \<le> maxBody then Some (rq_body r) else None)"

definition decode_payloads :: "http_lib \<Rightarrow> string \<Rightarrow> payload list option" where
  "decode_payloads H body =
     (case hl_payloads H body of
        Some ps \<Rightarrow> Some ps
      | None \<Rightarrow> (case hl_object H body of None \<Rightarrow> None | Some m \<Rightarrow> Some [m]))"

definition ingest_handler ::
  "env \<Rightarrow> dash_lib \<Rightarrow> http_lib \<Rightarrow> (nat \<Rightarrow> nanos) \<Rightarrow> dash_server \<Rightarrow> dash_request \<Rightarrow> dash_server \<times> dash_response" where
  \<comment> \<open>the clock gives the time at which a payload is processed\<close>
  "ingest_handler E L H clock s r =
     (case read_body (2 ^ 20) r of
        None \<Rightarrow> (s, 400, BError ''failed to read body'')
      | Some body \<Rightarrow>
          (case decode_payloads H body of
             None \<Rightarrow> (s, 400, BError ''invalid json'')
           | Some payloads \<Rightarrow>
               if length payloads = 0 then (s, 400, BError ''empty payload'')
               else
                 (let ((st, b), results) =
                        process_payloads E L (rq_remote r)
                          (zip (map clock [0 ..< length payloads]) payloads) (sv_store s, sv_bc s)
                  in (s\<lparr>sv_store := st, sv_bc := b\<rparr>, 201, BCreated results))))"

definition sse_handler :: "dash_server \<Rightarrow> dash_request \<Rightarrow> dash_server \<times> dash_response" where
  \<comment> \<open>up to the event loop, which is \<open>sse_step\<close>\<close>
  "sse_handler s r =
     (if \<not> rq_flusher r then (s, 500, BError ''stream unsupported'')
      else (let (b, ch) = bc_add (sv_bc s) in (s\<lparr>sv_bc := b\<rparr>, 200, BStream ch)))"

definition cleared_message :: string where
  \<open>cleared_message = ''{"type":"cleared"}''\<close>

definition clear_logs_handler :: "dash_server \<Rightarrow> dash_server \<times> dash_response" where
  "clear_logs_handler s =
     (s\<lparr>sv_store := store_clear (sv_store s), sv_bc := bc_send cleared_message (sv_bc s)\<rparr>, 200, BOk)"

definition unblock_type_domain :: string where "unblock_type_domain = ''domain''"
definition unblock_type_ip :: string where "unblock_type_ip = ''ip''"

definition validate_unblock_value :: "string \<Rightarrow> string \<Rightarrow> string + string" where
  \<comment> \<open>Inl the error message, Inr the cleaned value\<close>
  "validate_unblock_value reqType rawValue =
     (let val = trim_space rawValue
      in if val = [] then Inl ''value cannot be empty''
         else if reqType = unblock_type_domain then
           (let val = sanitize_domain_field val
            in if val = [] \<or> val = ''[invalid]'' then Inl ''invalid domain'' else Inr val)
         else if parse_ip val = None then Inl ''invalid ip address''
         else Inr val)"

definition create_unblock_handler ::
  "env \<Rightarrow> http_lib \<Rightarrow> nanos \<Rightarrow> string \<Rightarrow> dash_server \<Rightarrow> dash_request \<Rightarrow> dash_server \<times> dash_response" where
  "create_unblock_handler E H now newid s r =
     (case hl_unblock H 4096 (rq_body r) of
        None \<Rightarrow> (s, 400, BError ''invalid json'')
      | Some (reqType, rawValue, target) \<Rightarrow>
          if reqType \<noteq> unblock_type_domain \<and> reqType \<noteq> unblock_type_ip
          then (s, 400, BError (''type must be 'domain' or 'ip'' @ [CHR 0x27]))
          else
            (case validate_unblock_value reqType rawValue of
               Inl errMsg \<Rightarrow> (s, 400, BError errMsg)
             | Inr val \<Rightarrow>
                 (let (us, i) = unblock_add E newid now reqType val (trim_space target) (sv_unblocks s);
                      s1 = s\<lparr>sv_unblocks := us\<rparr>
                  in if i = [] then (s1, 429, BError ''too many pending requests'')
                     else (s1, 201, BUnblockCreated i))))"

definition ack_unblock_handler ::
  "http_lib \<Rightarrow> nanos \<Rightarrow> dash_server \<Rightarrow> dash_request \<Rightarrow> dash_server \<times> dash_response" where
  "ack_unblock_handler H now s r =
     (case hl_ack H 4096 (rq_body r) of
        None \<Rightarrow> (s, 400, BError ''invalid json'')
      | Some rawId \<Rightarrow>
          if trim_space rawId = [] then (s, 400, BError ''id cannot be empty'')
          else
            (let (us, ok) = unblock_acknowledge now (trim_space rawId) (sv_unblocks s);
                 s1 = s\<lparr>sv_unblocks := us\<rparr>
             in if \<not> ok then (s1, 404, BError ''unblock request not found'') else (s1, 200, BOk)))"

subsection \<open>Middlewares and routes\<close>

definition client_ip :: "dash_request \<Rightarrow> string" where
  "client_ip r =
     (if rq_xff_ip r \<noteq> [] then rq_xff_ip r
      else (case split_host_port (rq_remote r) of Some (host, _) \<Rightarrow> host | None \<Rightarrow> rq_remote r))"

definition require_api_key ::
  "dash_server \<Rightarrow> dash_request \<Rightarrow> dash_server \<times> dash_response \<Rightarrow> dash_server \<times> dash_response" where
  \<comment> \<open>the last argument is what the next handler does\<close>
  "require_api_key s r next =
     (if rq_api_key r \<noteq> sv_api_key s then (s, 401, BError ''unauthorized'') else next)"

definition rate_limit_middleware ::
  "nanos \<Rightarrow> dash_server \<Rightarrow> dash_request \<Rightarrow> (dash_server \<Rightarrow> dash_server \<times> dash_response) \<Rightarrow>
   dash_server \<times> dash_response" where
  "rate_limit_middleware now s r next =
     (let (ok, rl) = limiter_allow now (client_ip r) (sv_limiter s); s1 = s\<lparr>sv_limiter := rl\<rparr>
      in if \<not> ok then (s1, 429, BError ''rate limited'') else next s1)"

definition allow_content_type ::
  "dash_server \<Rightarrow> dash_request \<Rightarrow> dash_server \<times> dash_response \<Rightarrow> dash_server \<times> dash_response" where
  "allow_content_type s r next = (if rq_json r then next else (s, 415, BError []))"

record dash_io =
  io_now :: nanos
  io_clock :: "nat \<Rightarrow> nanos"
  io_newid :: string \<comment> \<open>\<^verbatim>\<open>generateID\<close>\<close>

definition api_paths :: "string list" where
  "api_paths =
     [''/api/v1/config'', ''/api/v1/logs'', ''/api/v1/events'', ''/api/v1/unblocks'',
      ''/api/v1/unblocks/status'', ''/api/v1/unblocks/ack'']"

definition serve ::
  "env \<Rightarrow> dash_lib \<Rightarrow> http_lib \<Rightarrow> dash_io \<Rightarrow> dash_server \<Rightarrow> dash_request \<Rightarrow> dash_server \<times> dash_response" where
  "serve E L H io s r =
     (let path = rq_path r; meth = rq_method r
      in if path = ''/health'' \<and> meth = ''GET'' then (s, health_handler)
         else if path = ''/api/v1/config'' \<and> meth = ''GET'' then (s, config_handler s)
         else if path = ''/api/v1/logs'' \<and> meth = ''GET'' then (s, list_logs_handler E s r)
         else if path = ''/api/v1/events'' \<and> meth = ''GET'' then sse_handler s r
         else if path = ''/api/v1/logs'' \<and> meth = ''DELETE'' then clear_logs_handler s
         else if path = ''/api/v1/unblocks'' \<and> meth = ''POST'' then
           create_unblock_handler E H (io_now io) (io_newid io) s r
         else if path = ''/api/v1/unblocks/status'' \<and> meth = ''GET'' then (s, unblock_status_handler s)
         else if path = ''/api/v1/unblocks'' \<and> meth = ''GET'' then
           require_api_key s r (s, list_unblocks_handler E s r)
         else if path = ''/api/v1/unblocks/ack'' \<and> meth = ''POST'' then
           require_api_key s r (ack_unblock_handler H (io_now io) s r)
         else if path = ''/api/v1/logs'' \<and> meth = ''POST'' then
           require_api_key s r
             (rate_limit_middleware (io_now io) s r
               (\<lambda>s1. allow_content_type s1 r (ingest_handler E L H (io_clock io) s1 r)))
         else if path \<in> set api_paths then (s, 405, BError [])
         else if path = ''/api/v1'' \<or> has_prefix path ''/api/v1/'' then (s, 404, BError [])
         else (s, 200, BPage))"

subsection \<open>Start\<close>

text \<open>\<^verbatim>\<open>internal/dashboard/app.go\<close>, up to the call of \<^verbatim>\<open>Run\<close>; \<open>getenv\<close> is
  \<^verbatim>\<open>os.Getenv\<close> and \<open>parse_float\<close> is \<^verbatim>\<open>strconv.ParseFloat\<close>.\<close>

definition dash_getenv :: "(string \<Rightarrow> string) \<Rightarrow> string \<Rightarrow> string \<Rightarrow> string" where
  "dash_getenv getenv k def = (let v = trim_space (getenv k) in if v = [] then def else v)"

definition dash_getenv_int :: "(string \<Rightarrow> string) \<Rightarrow> string \<Rightarrow> int \<Rightarrow> int" where
  "dash_getenv_int getenv k def =
     (let v = trim_space (getenv k)
      in if v = [] then def else (case atoi v of None \<Rightarrow> def | Some i \<Rightarrow> i))"

definition dash_getenv_float :: "(string \<Rightarrow> string) \<Rightarrow> (string \<Rightarrow> rat option) \<Rightarrow> string \<Rightarrow> rat \<Rightarrow> rat" where
  "dash_getenv_float getenv parse_float k def =
     (let v = trim_space (getenv k)
      in if v = [] then def else (case parse_float v of None \<Rightarrow> def | Some f \<Rightarrow> f))"

definition build_config :: "(string \<Rightarrow> string) \<Rightarrow> (string \<Rightarrow> rat option) \<Rightarrow> string \<Rightarrow> dash_config" where
  "build_config getenv parse_float version =
     \<lparr>cf_addr = dash_getenv getenv ''PORT'' '':8081'',
      cf_api_key = dash_getenv getenv ''API_KEY'' [],
      cf_log_level = dash_getenv getenv ''LOG_LEVEL'' ''INFO'',
      cf_buffer_size = dash_getenv_int getenv ''BUFFER_SIZE'' 5000,
      cf_read_limit = dash_getenv_int getenv ''READ_LIMIT'' 5000,
      cf_retry_ms = dash_getenv_int getenv ''SSE_RETRY_MS'' 2000,
      cf_rate_rps = dash_getenv_float getenv parse_float ''RATE_RPS'' 50,
      cf_rate_burst = dash_getenv_float getenv parse_float ''RATE_BURST'' 100,
      cf_write_timeout = dash_getenv_int getenv ''WRITE_TIMEOUT'' 0,
      cf_version = version\<rparr>"

definition normalize_addr :: "dash_config \<Rightarrow> dash_config" where
  "normalize_addr cfg =
     (if cf_addr cfg \<noteq> [] \<and> \<not> str_contains (cf_addr cfg) '':'' \<and> atoi (cf_addr cfg) \<noteq> None
      then cfg\<lparr>cf_addr := '':'' @ cf_addr cfg\<rparr> else cfg)"

datatype dash_error = MissingAPIKey

definition setup_logging :: "dash_config \<Rightarrow> dash_error + unit" where
  "setup_logging cfg = (if cf_api_key cfg = [] then Inl MissingAPIKey else Inr ())"

definition run_dashboard ::
  "(string \<Rightarrow> string) \<Rightarrow> (string \<Rightarrow> rat option) \<Rightarrow> string \<Rightarrow> dash_error + dash_config" where
  \<comment> \<open>the configuration the server is started with\<close>
  "run_dashboard getenv parse_float version =
     (let cfg = normalize_addr (build_config getenv parse_float version)
      in bind_res (setup_logging cfg) (\<lambda>_. Inr cfg))"

lemma run_dashboard_key: "run_dashboard getenv pf version = Inr cfg \<Longrightarrow> cf_api_key cfg \<noteq> []"
  by (auto simp: run_dashboard_def Let_def bind_res_Inr setup_logging_def split: if_splits)

subsection \<open>Every step\<close>

definition fresh_id :: "dash_io \<Rightarrow> dash_server \<Rightarrow> bool" where
  \<comment> \<open>eight random bytes, in hex, that are not in use\<close>
  "fresh_id io s \<longleftrightarrow> io_newid io \<noteq> [] \<and> map_of (us_requests (sv_unblocks s)) (io_newid io) = None"

inductive dash_reach ::
  "env \<Rightarrow> dash_lib \<Rightarrow> http_lib \<Rightarrow> dash_config \<Rightarrow> dash_server \<Rightarrow> dash_request list \<Rightarrow> bool"
  for E L H cfg where
  reach_start: "dash_reach E L H cfg (new_server now cfg) []"
| reach_request: "dash_reach E L H cfg s rs \<Longrightarrow> fresh_id io s \<Longrightarrow>
    dash_reach E L H cfg (fst (serve E L H io s r)) (rs @ [r])"
| reach_browser: "dash_reach E L H cfg s rs \<Longrightarrow> dash_reach E L H cfg (s\<lparr>sv_bc := b\<rparr>) rs"
    \<comment> \<open>a step of an event stream: it concerns the broadcaster only\<close>

text \<open>What a request does to the store and to the unblock requests: one of these operations.\<close>

datatype dash_effect =
    No_effect
  | Ingested "log_entry list"
  | Cleared
  | Requested string string string \<comment> \<open>type, value and target\<close>
  | Acked string

definition valid_unblock :: "string \<Rightarrow> string \<Rightarrow> bool" where
  "valid_unblock reqType val \<longleftrightarrow>
     reqType = ''domain'' \<and> val \<noteq> [] \<and> clean_field val \<or> reqType = ''ip'' \<and> parse_ip val \<noteq> None"

fun effect_ok :: "dash_effect \<Rightarrow> bool" where
  "effect_ok (Ingested es) = (\<forall>e \<in> set es. clean_entry e)"
| "effect_ok (Requested t v h) = valid_unblock t v"
| "effect_ok _ = True"

fun store_after :: "dash_effect \<Rightarrow> mem_store \<Rightarrow> mem_store" where
  "store_after (Ingested es) st = mem.insert_all st es"
| "store_after Cleared st = store_clear st"
| "store_after _ st = st"

fun unblocks_after :: "env \<Rightarrow> dash_io \<Rightarrow> dash_effect \<Rightarrow> unblock_store \<Rightarrow> unblock_store" where
  "unblocks_after E io (Requested t v h) us = fst (unblock_add E (io_newid io) (io_now io) t v h us)"
| "unblocks_after E io (Acked i) us = fst (unblock_acknowledge (io_now io) i us)"
| "unblocks_after E io _ us = us"

fun needs_key :: "dash_effect \<Rightarrow> bool" where
  "needs_key (Ingested es) = True"
| "needs_key (Acked i) = True"
| "needs_key _ = False"

definition has_effect :: "env \<Rightarrow> dash_io \<Rightarrow> dash_server \<Rightarrow> dash_request \<Rightarrow> dash_effect \<Rightarrow> dash_server \<Rightarrow> bool" where
  "has_effect E io s r f s' \<longleftrightarrow>
     sv_store s' = store_after f (sv_store s) \<and> sv_unblocks s' = unblocks_after E io f (sv_unblocks s) \<and>
     effect_ok f \<and> (needs_key f \<longrightarrow> rq_api_key r = sv_api_key s) \<and> sv_api_key s' = sv_api_key s \<and>
     (rq_api_key r \<noteq> sv_api_key s \<longrightarrow> sv_limiter s' = sv_limiter s)"

lemma no_effect: "has_effect E io s r No_effect s" "has_effect E io s r No_effect (s\<lparr>sv_bc := b\<rparr>)"
  "rq_api_key r = sv_api_key s \<Longrightarrow> has_effect E io s r No_effect (s\<lparr>sv_limiter := rl\<rparr>)"
  by (simp_all add: has_effect_def)

lemma ingest_state:
  "fst (ingest_handler E L H clock s r) = s \<or>
   (\<exists>ps b. fst (ingest_handler E L H clock s r) =
      s\<lparr>sv_store := mem.insert_all (sv_store s) (accepted E L (rq_remote r) ps), sv_bc := b\<rparr>)"
  unfolding ingest_handler_def process_payloads_passes Let_def
  by (auto split: option.split)

lemma ingest_effect:
  assumes "rq_api_key r = sv_api_key s"
  shows "\<exists>f. has_effect E io s r f (fst (ingest_handler E L H clock (s\<lparr>sv_limiter := rl\<rparr>) r))"
  using ingest_state [of E L H clock "s\<lparr>sv_limiter := rl\<rparr>" r]
proof (elim disjE exE)
  assume "fst (ingest_handler E L H clock (s\<lparr>sv_limiter := rl\<rparr>) r) = s\<lparr>sv_limiter := rl\<rparr>"
  then show ?thesis using no_effect(3) [OF assms] by (intro exI [of _ No_effect]) simp
next
  fix ps b
  assume "fst (ingest_handler E L H clock (s\<lparr>sv_limiter := rl\<rparr>) r) = s\<lparr>sv_limiter := rl,
    sv_store := mem.insert_all (sv_store (s\<lparr>sv_limiter := rl\<rparr>)) (accepted E L (rq_remote r) ps), sv_bc := b\<rparr>"
  then show ?thesis
    using assms by (intro exI [of _ "Ingested (accepted E L (rq_remote r) ps)"])
      (auto simp: has_effect_def intro: accepted_clean)
qed

lemma create_effect:
  "\<exists>f. has_effect E io s r f (fst (create_unblock_handler E H (io_now io) (io_newid io) s r))"
proof (cases "\<exists>t v h u. hl_unblock H 4096 (rq_body r) = Some (t, u, h) \<and>
    (t = unblock_type_domain \<or> t = unblock_type_ip) \<and> validate_unblock_value t u = Inr v")
  case False
  then have "fst (create_unblock_handler E H (io_now io) (io_newid io) s r) = s"
    by (auto simp: create_unblock_handler_def split: option.splits sum.splits)
  then show ?thesis using no_effect(1) by (intro exI [of _ No_effect]) simp
next
  case True
  then obtain t v h u where tv: "hl_unblock H 4096 (rq_body r) = Some (t, u, h)"
    "t = unblock_type_domain \<or> t = unblock_type_ip" "validate_unblock_value t u = Inr v" by blast
  have ok: "valid_unblock t v"
    using tv(2,3) sanitize_clean [of "trim_space u"]
    by (auto simp: validate_unblock_value_def Let_def valid_unblock_def unblock_type_domain_def unblock_type_ip_def
        split: if_splits)
  have "fst (create_unblock_handler E H (io_now io) (io_newid io) s r) =
      s\<lparr>sv_unblocks := fst (unblock_add E (io_newid io) (io_now io) t v (trim_space h) (sv_unblocks s))\<rparr>"
    using tv by (auto simp: create_unblock_handler_def Let_def case_prod_unfold)
  then show ?thesis
    using ok by (intro exI [of _ "Requested t v (trim_space h)"]) (simp add: has_effect_def)
qed

lemma ack_effect:
  assumes "rq_api_key r = sv_api_key s"
  shows "\<exists>f. has_effect E io s r f (fst (ack_unblock_handler H (io_now io) s r))"
proof (cases "\<exists>i. hl_ack H 4096 (rq_body r) = Some i \<and> trim_space i \<noteq> []")
  case False
  then have "fst (ack_unblock_handler H (io_now io) s r) = s"
    by (auto simp: ack_unblock_handler_def split: option.splits)
  then show ?thesis using no_effect(1) by (intro exI [of _ No_effect]) simp
next
  case True
  then obtain i where i: "hl_ack H 4096 (rq_body r) = Some i" "trim_space i \<noteq> []" by blast
  then have "fst (ack_unblock_handler H (io_now io) s r) =
      s\<lparr>sv_unblocks := fst (unblock_acknowledge (io_now io) (trim_space i) (sv_unblocks s))\<rparr>"
    by (auto simp: ack_unblock_handler_def Let_def case_prod_unfold)
  then show ?thesis using assms by (intro exI [of _ "Acked (trim_space i)"]) (simp add: has_effect_def)
qed

lemma guarded_effect:
  assumes "rq_api_key r = sv_api_key s \<Longrightarrow> \<exists>f. has_effect E io s r f (fst next)"
  shows "\<exists>f. has_effect E io s r f (fst (require_api_key s r next))"
  using assms no_effect(1) by (fastforce simp: require_api_key_def)

lemma serve_effect: "\<exists>f. has_effect E io s r f (fst (serve E L H io s r))"
proof -
  let ?P = "\<lambda>x. \<exists>f. has_effect E io s r f (fst x)"
  have same: "?P (s, x)" for x :: dash_response
    using no_effect(1) [of E io s r] by (intro exI [of _ No_effect]) simp
  have sse: "?P (sse_handler s r)"
    using no_effect(1) [of E io s r] no_effect(2) [of E io s r]
    by (intro exI [of _ No_effect]) (simp add: sse_handler_def bc_add_def)
  have clear: "?P (clear_logs_handler s)"
    by (intro exI [of _ Cleared]) (simp add: clear_logs_handler_def has_effect_def)
  have ingest: "?P (rate_limit_middleware (io_now io) s r
      (\<lambda>s1. allow_content_type s1 r (ingest_handler E L H (io_clock io) s1 r)))"
    if "rq_api_key r = sv_api_key s"
    using no_effect(3) [OF that] ingest_effect [OF that]
    by (auto simp: rate_limit_middleware_def allow_content_type_def Let_def case_prod_unfold)
  show ?thesis
    unfolding serve_def Let_def
    using same sse clear create_effect guarded_effect [of r s E io "(s, list_unblocks_handler E s r)"]
      guarded_effect [OF ack_effect] guarded_effect [OF ingest]
    by (simp split: if_splits)
qed

subsection \<open>The invariant of the dashboard\<close>

definition buffer_capacity :: "dash_config \<Rightarrow> nat" where
  "buffer_capacity cfg = (if cf_buffer_size cfg < 1 then 1 else nat (cf_buffer_size cfg))"

definition dash_inv :: "dash_config \<Rightarrow> dash_server \<Rightarrow> bool" where
  "dash_inv cfg s \<longleftrightarrow>
     store_inv (sv_store s) \<and> st_size (sv_store s) = buffer_capacity cfg \<and>
     (\<forall>e \<in> set (store_logs (sv_store s)). clean_entry e) \<and>
     unblock_inv (sv_unblocks s) \<and> us_max_pending (sv_unblocks s) = 1000 \<and>
     (\<forall>req \<in> set (get_pending (sv_unblocks s)). valid_unblock (ub_type req) (ub_value req)) \<and>
     sv_api_key s = cf_api_key cfg"

lemma new_server_inv: "dash_inv cfg (new_server now cfg)"
  using new_unblock_store_inv new_mem_store_inv [of "cf_buffer_size cfg"]
  by (simp add: dash_inv_def new_server_def buffer_capacity_def)
    (simp add: new_unblock_store_def get_pending_def)

lemma numbered_clean: "\<forall>e \<in> set es. clean_entry e \<Longrightarrow> e \<in> set (numbered i es) \<Longrightarrow> clean_entry e"
  by (induction es arbitrary: i) (auto simp: clean_entry_def)

lemma insert_all_size: "st_size (mem.insert_all st es) = st_size st"
  by (induction es arbitrary: st) (simp_all add: store_laws)

lemma store_after_inv:
  assumes "store_inv st" "effect_ok f"
  shows "store_inv (store_after f st)" "st_size (store_after f st) = st_size st"
    "e \<in> set (store_logs (store_after f st)) \<Longrightarrow> e \<in> set (store_logs st) \<or> clean_entry e"
proof -
  show "store_inv (store_after f st)"
    using assms(1) by (cases f) (auto intro: mem.insert_all_inv mem.inv_clear)
  show "st_size (store_after f st) = st_size st" by (cases f) (simp_all add: insert_all_size store_laws)
  show "e \<in> set (store_logs (store_after f st)) \<Longrightarrow> e \<in> set (store_logs st) \<or> clean_entry e"
    using assms numbered_clean by (cases f) (auto simp: mem.insert_all_logs store_laws dest!: in_set_takeD)
qed

lemma add_pending_set:
  "req \<in> set (get_pending (fst (unblock_add E i now t v h us))) \<Longrightarrow>
   req \<in> set (get_pending us) \<or> ub_type req = t \<and> ub_value req = v"
  by (auto simp: unblock_add_def get_pending_def Let_def split: option.splits if_splits
      dest!: subsetD [OF set_update_subset])

lemma ack_pending_set: "set (get_pending (fst (unblock_acknowledge now i us))) \<subseteq> set (get_pending us)"
  by (auto simp: unblock_acknowledge_def get_pending_def AList.delete_eq split: option.splits)

lemma unblocks_after_inv:
  assumes "unblock_inv us" "map_of (us_requests us) (io_newid io) = None" "effect_ok f"
  shows "unblock_inv (unblocks_after E io f us)" "us_max_pending (unblocks_after E io f us) = us_max_pending us"
    "req \<in> set (get_pending (unblocks_after E io f us)) \<Longrightarrow>
      req \<in> set (get_pending us) \<or> valid_unblock (ub_type req) (ub_value req)"
proof -
  show "unblock_inv (unblocks_after E io f us)"
    using assms(1,2) by (cases f) (auto intro: unblock_add_inv unblock_ack_inv)
  show "us_max_pending (unblocks_after E io f us) = us_max_pending us"
    by (cases f) (auto simp: unblock_add_def unblock_acknowledge_def Let_def split: option.splits)
  show "req \<in> set (get_pending (unblocks_after E io f us)) \<Longrightarrow>
      req \<in> set (get_pending us) \<or> valid_unblock (ub_type req) (ub_value req)"
    using assms(3) ack_pending_set by (cases f) (auto dest!: add_pending_set)
qed

lemma reach_inv: "dash_reach E L H cfg s rs \<Longrightarrow> dash_inv cfg s"
proof (induction rule: dash_reach.induct)
  case (reach_start now)
  show ?case by (rule new_server_inv)
next
  case (reach_request s rs io r)
  obtain f where f: "has_effect E io s r f (fst (serve E L H io s r))" using serve_effect by blast
  have fresh: "map_of (us_requests (sv_unblocks s)) (io_newid io) = None"
    using reach_request.hyps(2) by (simp add: fresh_id_def)
  show ?case
    using f reach_request.IH store_after_inv [of "sv_store s" f] unblocks_after_inv [OF _ fresh, where E = E and f = f]
    by (auto simp: dash_inv_def has_effect_def)
next
  case (reach_browser s rs b)
  then show ?case by (simp add: dash_inv_def)
qed

text \<open>C37: The dashboard holds nothing it should not. In every state that is reached by any requests,
  the log has at most as many entries as configured, and each of them has one of the three actions, a
  message, and clean host names; there are at most 1000 pending unblock requests, each for a
  printable domain of bounded length or for an address that parses, and at most 100 completed ones.\<close>

theorem dashboard_holds:
  assumes "dash_reach E L H cfg s rs"
  shows "length (store_logs (sv_store s)) \<le> buffer_capacity cfg \<and>
    (\<forall>e \<in> set (store_logs (sv_store s)). clean_entry e) \<and>
    length (get_pending (sv_unblocks s)) \<le> 1000 \<and>
    (\<forall>req \<in> set (get_pending (sv_unblocks s)). valid_unblock (ub_type req) (ub_value req)) \<and>
    length (get_completed (sv_unblocks s)) \<le> 100"
proof -
  have i: "dash_inv cfg s" using assms by (rule reach_inv)
  then have "length (store_logs (sv_store s)) \<le> buffer_capacity cfg"
    using mem.logs_bounded [of "sv_store s"] by (simp add: dash_inv_def)
  moreover have "length (get_pending (sv_unblocks s)) \<le> 1000" "length (get_completed (sv_unblocks s)) \<le> 100"
    using i by (simp_all add: dash_inv_def unblock_inv_def get_pending_def get_completed_def max_completed_def)
  ultimately show ?thesis using i by (simp add: dash_inv_def)
qed

definition sample_config :: dash_config where
  "sample_config =
     \<lparr>cf_addr = '':8081'', cf_api_key = ''secret'', cf_log_level = ''INFO'', cf_buffer_size = 5, cf_read_limit = 5,
      cf_retry_ms = 2000, cf_rate_rps = 50, cf_rate_burst = 100, cf_write_timeout = 0, cf_version = ''1''\<rparr>"

definition sample_http_lib :: http_lib where
  "sample_http_lib =
     \<lparr>hl_payloads = (\<lambda>_. Some (map snd sample_payloads)), hl_object = (\<lambda>_. None),
      hl_unblock = (\<lambda>_ _. Some (''ip'', '' 10.0.0.1'', ''gw'')), hl_ack = (\<lambda>_ _. Some ''1f'')\<rparr>"

definition sample_io :: dash_io where
  "sample_io = \<lparr>io_now = 0, io_clock = (\<lambda>_. 0), io_newid = ''1f''\<rparr>"

definition sample_request :: "string \<Rightarrow> string \<Rightarrow> string \<Rightarrow> dash_request" where
  "sample_request meth path key =
     \<lparr>rq_method = meth, rq_path = path, rq_api_key = key, rq_query = (\<lambda>_. []), rq_remote = ''10.0.0.1:5'',
      rq_xff_ip = [], rq_body = ''{}'', rq_body_ok = True, rq_json = True, rq_flusher = True\<rparr>"

definition sample_served :: dash_server where
  "sample_served = fst (serve ascii_env sample_dash_lib sample_http_lib sample_io (new_server 0 sample_config)
     (sample_request ''POST'' ''/api/v1/unblocks'' []))"

lemma sample_reach:
  "dash_reach ascii_env sample_dash_lib sample_http_lib sample_config sample_served
     [sample_request ''POST'' ''/api/v1/unblocks'' []]"
proof -
  have "fresh_id sample_io (new_server 0 sample_config)"
    by (simp add: fresh_id_def sample_io_def new_server_def new_unblock_store_def)
  from reach_request [OF reach_start this] show ?thesis by (simp add: sample_served_def)
qed

theorem dashboard_holds_witness:
  "\<exists>req. get_pending (sv_unblocks sample_served) = [req] \<and> ub_value req = ''10.0.0.1'' \<and>
    valid_unblock (ub_type req) (ub_value req)"
proof -
  have v: "validate_unblock_value ''ip'' '' 10.0.0.1'' = Inr ''10.0.0.1''" by code_simp
  have a: "map ub_value (get_pending (fst (unblock_add ascii_env ''1f'' 0 ''ip'' ''10.0.0.1'' (trim_space ''gw'')
      new_unblock_store))) = [''10.0.0.1'']"
    by code_simp
  have "map ub_value (get_pending (sv_unblocks sample_served)) = [''10.0.0.1'']"
    using a by (simp add: sample_served_def serve_def sample_request_def create_unblock_handler_def v
        sample_http_lib_def unblock_type_ip_def Let_def case_prod_unfold sample_io_def new_server_def)
  then obtain req where "get_pending (sv_unblocks sample_served) = [req]" "ub_value req = ''10.0.0.1''" by auto
  then show ?thesis using dashboard_holds [OF sample_reach] by auto
qed

subsection \<open>The key\<close>

definition protected :: "dash_request \<Rightarrow> bool" where
  "protected r \<longleftrightarrow>
     (rq_method r, rq_path r) \<in>
       {(''POST'', ''/api/v1/logs''), (''GET'', ''/api/v1/unblocks''), (''POST'', ''/api/v1/unblocks/ack'')}"

lemma protected_refused:
  assumes "protected r" "rq_api_key r \<noteq> sv_api_key s"
  shows "serve E L H io s r = (s, 401, BError ''unauthorized'')"
  using assms by (auto simp: protected_def serve_def require_api_key_def)

lemma reach_completed:
  "dash_reach E L H cfg s rs \<Longrightarrow> \<forall>r \<in> set rs. rq_api_key r \<noteq> cf_api_key cfg \<Longrightarrow>
   store_logs (sv_store s) = [] \<and> get_completed (sv_unblocks s) = []"
proof (induction rule: dash_reach.induct)
  case (reach_start now)
  show ?case by (simp add: new_server_def new_mem_store_inv new_unblock_store_def get_completed_def)
next
  case (reach_request s rs io r)
  obtain f where f: "has_effect E io s r f (fst (serve E L H io s r))" using serve_effect by blast
  have k: "\<not> needs_key f"
    using f reach_request.prems reach_inv [OF reach_request.hyps(1)] by (auto simp: has_effect_def dash_inv_def)
  have "store_logs (store_after f (sv_store s)) = []"
    "get_completed (unblocks_after E io f (sv_unblocks s)) = []"
    using k reach_request by (cases f; simp add: store_laws get_completed_def unblock_add_def Let_def split: option.split)+
  then show ?case using f by (simp add: has_effect_def)
next
  case (reach_browser s rs b)
  then show ?case by simp
qed

text \<open>C38: Nothing enters or leaves the queue of the filters without the key. The dashboard does not
  start without a key. Once started, a request without the right key for ingestion, for the list of
  pending unblocks or for an acknowledgement is answered by 401 and changes nothing, not even the rate
  limiter; and as long as all requests carry a wrong key or none, the log stays empty and no unblock is
  completed.\<close>

theorem key_gate:
  assumes "run_dashboard getenv parse_float version = Inr cfg" and "dash_reach E L H cfg s rs"
  shows "(\<forall>r. protected r \<and> (rq_api_key r = [] \<or> rq_api_key r \<noteq> cf_api_key cfg) \<longrightarrow>
      serve E L H io s r = (s, 401, BError ''unauthorized'')) \<and>
    ((\<forall>r \<in> set rs. rq_api_key r = [] \<or> rq_api_key r \<noteq> cf_api_key cfg) \<longrightarrow>
      store_logs (sv_store s) = [] \<and> get_completed (sv_unblocks s) = [])"
proof -
  have "sv_api_key s = cf_api_key cfg" using reach_inv [OF assms(2)] by (simp add: dash_inv_def)
  moreover have k: "rq_api_key r = [] \<or> rq_api_key r \<noteq> cf_api_key cfg \<longleftrightarrow> rq_api_key r \<noteq> cf_api_key cfg" for r
    using run_dashboard_key [OF assms(1)] by auto
  ultimately show ?thesis
    unfolding k using protected_refused [of _ s E L H io] reach_completed [OF assms(2)] by auto
qed

definition sample_getenv :: "string \<Rightarrow> string" where
  "sample_getenv k =
     (if k = ''API_KEY'' then ''secret'' else if k = ''PORT'' then ''8081''
      else if k = ''BUFFER_SIZE'' \<or> k = ''READ_LIMIT'' then ''5'' else [])"

theorem key_gate_witness:
  "serve ascii_env sample_dash_lib sample_http_lib sample_io sample_served
     (sample_request ''POST'' ''/api/v1/logs'' ''guess'') = (sample_served, 401, BError ''unauthorized'') \<and>
   store_logs (sv_store sample_served) = []"
proof -
  have run: "run_dashboard sample_getenv (\<lambda>_. None) ''1'' = Inr sample_config"
    by code_simp
  have "protected (sample_request ''POST'' ''/api/v1/logs'' ''guess'')"
    "rq_api_key (sample_request ''POST'' ''/api/v1/logs'' ''guess'') \<noteq> cf_api_key sample_config"
    "\<forall>r \<in> set [sample_request ''POST'' ''/api/v1/unblocks'' []]. rq_api_key r = []"
    by (simp_all add: protected_def sample_request_def sample_config_def)
  then show ?thesis using key_gate [OF run sample_reach] by blast
qed

end
