(* ===== verification/RemoteUnblock.thy ===== *)
theory RemoteUnblock
  imports App DashServer
begin

text \<open>
  The rest of \<^verbatim>\<open>internal/g0efilter/app.go\<close>: a filter polls the dashboard for unblock
  requests, appends them to its policy file and acknowledges them. The HTTP client is an argument that
  acts on an abstract world; \<open>dash_client\<close> is the client that talks to the model of the dashboard, so
  that the last section can follow a request from one end to the other.
\<close>

record remote_unblock =
  ru_id :: string
  ru_type :: string
  ru_value :: string

record api_request =
  ap_method :: string
  ap_url :: string
  ap_key :: string
  ap_body :: string

type_synonym 'w api = "'w \<Rightarrow> api_request \<Rightarrow> (nat \<times> string) option \<times> 'w"

record api_codec =
  query_escape :: "string \<Rightarrow> string"
  decode_pending :: "string \<Rightarrow> remote_unblock list option" \<comment> \<open>\<^verbatim>\<open>json\<close> into \<^verbatim>\<open>unblockResponse\<close>\<close>
  encode_ack :: "string \<Rightarrow> string"

definition dashboard_url :: "string \<Rightarrow> string" where
  "dashboard_url host =
     (if \<not> has_prefix host ''http://'' \<and> \<not> has_prefix host ''https://'' then ''http://'' @ host else host)"

definition polling_enabled :: "app_config \<Rightarrow> bool" where
  "polling_enabled cfg \<longleftrightarrow>
     ac_enable_remote_unblock cfg \<and> \<not> (ac_dashboard_host cfg = [] \<or> ac_dashboard_api_key cfg = [])"

definition fetch_pending_unblocks ::
  "'w api \<Rightarrow> api_codec \<Rightarrow> string \<Rightarrow> app_config \<Rightarrow> 'w \<Rightarrow> (app_error + remote_unblock list) \<times> 'w" where
  "fetch_pending_unblocks client C baseURL cfg w =
     (let endpoint = baseURL @ ''/api/v1/unblocks'' @
            (if ac_hostname cfg \<noteq> [] then ''?hostname='' @ query_escape C (ac_hostname cfg) else []);
          (resp, w1) = client w \<lparr>ap_method = ''GET'', ap_url = endpoint, ap_key = ac_dashboard_api_key cfg, ap_body = []\<rparr>
      in case resp of
           None \<Rightarrow> (Inl HTTPFailed, w1)
         | Some (status, body) \<Rightarrow>
             if status \<noteq> 200 then (Inl (UnexpectedHTTPStatus status), w1)
             else (case decode_pending C body of None \<Rightarrow> (Inl HTTPFailed, w1) | Some us \<Rightarrow> (Inr us, w1)))"

definition apply_unblock ::
  "env \<Rightarrow> yaml \<Rightarrow> string \<Rightarrow> remote_unblock \<Rightarrow> fs \<Rightarrow> (app_error + unit) \<times> fs" where
  "apply_unblock E Y path ub fs =
     (if ru_type ub = ''domain'' then
        (let (r, fs1) = append_domain E Y fs path (ru_value ub) in (map_sum AppPolicy id r, fs1))
      else if ru_type ub = ''ip'' then
        (let (r, fs1) = append_ip E Y fs path (ru_value ub) in (map_sum AppPolicy id r, fs1))
      else (Inl (UnknownUnblockType (ru_type ub)), fs))"

definition acknowledge_unblock ::
  "'w api \<Rightarrow> api_codec \<Rightarrow> string \<Rightarrow> string \<Rightarrow> string \<Rightarrow> 'w \<Rightarrow> (app_error + unit) \<times> 'w" where
  "acknowledge_unblock client C baseURL apiKey i w =
     (let (resp, w1) = client w \<lparr>ap_method = ''POST'', ap_url = baseURL @ ''/api/v1/unblocks/ack'',
                                 ap_key = apiKey, ap_body = encode_ack C i\<rparr>
      in case resp of
           None \<Rightarrow> (Inl HTTPFailed, w1)
         | Some (status, body) \<Rightarrow> if status \<noteq> 200 then (Inl (AckFailed status), w1) else (Inr (), w1))"

fun process_unblock_batch ::
  "env \<Rightarrow> yaml \<Rightarrow> 'w api \<Rightarrow> api_codec \<Rightarrow> string \<Rightarrow> app_config \<Rightarrow> remote_unblock list \<Rightarrow> fs \<times> 'w \<Rightarrow> fs \<times> 'w" where
  \<comment> \<open>both kinds of failure are logged and the loop goes on\<close>
  "process_unblock_batch E Y client C baseURL cfg [] (fs, w) = (fs, w)"
| "process_unblock_batch E Y client C baseURL cfg (ub # ubs) (fs, w) =
     (case apply_unblock E Y (ac_policy_path cfg) ub fs of
        (Inl e, fs1) \<Rightarrow> process_unblock_batch E Y client C baseURL cfg ubs (fs1, w)
      | (Inr _, fs1) \<Rightarrow>
          (let (r, w1) = acknowledge_unblock client C baseURL (ac_dashboard_api_key cfg) (ru_id ub) w
           in process_unblock_batch E Y client C baseURL cfg ubs (fs1, w1)))"

definition process_remote_unblocks ::
  "env \<Rightarrow> yaml \<Rightarrow> 'w api \<Rightarrow> api_codec \<Rightarrow> string \<Rightarrow> app_config \<Rightarrow> fs \<times> 'w \<Rightarrow> fs \<times> 'w" where
  "process_remote_unblocks E Y client C baseURL cfg fw =
     (case fetch_pending_unblocks client C baseURL cfg (snd fw) of
        (Inl e, w1) \<Rightarrow> (fst fw, w1)
      | (Inr us, w1) \<Rightarrow>
          if length us = 0 then (fst fw, w1)
          else process_unblock_batch E Y client C baseURL cfg us (fst fw, w1))"

subsection \<open>What a batch does\<close>

fun applied :: "env \<Rightarrow> yaml \<Rightarrow> string \<Rightarrow> remote_unblock list \<Rightarrow> fs \<Rightarrow> remote_unblock list" where
  \<comment> \<open>the requests that can be appended when their turn comes\<close>
  "applied E Y path [] fs = []"
| "applied E Y path (ub # ubs) fs =
     (let (r, fs1) = apply_unblock E Y path ub fs
      in (if is_ok r then [ub] else []) @ applied E Y path ubs fs1)"

fun applied_fs :: "env \<Rightarrow> yaml \<Rightarrow> string \<Rightarrow> remote_unblock list \<Rightarrow> fs \<Rightarrow> fs" where
  "applied_fs E Y path [] fs = fs"
| "applied_fs E Y path (ub # ubs) fs = applied_fs E Y path ubs (snd (apply_unblock E Y path ub fs))"

lemma batch_passes:
  "process_unblock_batch E Y client C baseURL cfg ubs (fs, w) =
     (applied_fs E Y (ac_policy_path cfg) ubs fs,
      fold (\<lambda>ub w. snd (acknowledge_unblock client C baseURL (ac_dashboard_api_key cfg) (ru_id ub) w))
        (applied E Y (ac_policy_path cfg) ubs fs) w)"
proof (induction ubs arbitrary: fs w)
  case Nil
  then show ?case by simp
next
  case (Cons ub ubs)
  obtain r fs1 where a: "apply_unblock E Y (ac_policy_path cfg) ub fs = (r, fs1)" by fastforce
  show ?case
    using Cons.IH by (cases r) (simp_all add: a case_prod_unfold Let_def)
qed

definition yaml_roundtrip :: "yaml \<Rightarrow> bool" where
  \<comment> \<open>the library reads back what it wrote\<close>
  "yaml_roundtrip Y \<longleftrightarrow> (\<forall>c b. marshal Y c = Some b \<longrightarrow> unmarshal Y b = Some c)"

definition in_policy :: "env \<Rightarrow> yaml \<Rightarrow> fs \<Rightarrow> string \<Rightarrow> remote_unblock \<Rightarrow> bool" where
  "in_policy E Y fs path ub \<longleftrightarrow>
     (\<exists>cfg. load_config Y fs path = Inr cfg \<and>
        (if ru_type ub = ''domain'' then list_ex (\<lambda>d. equal_fold E d (trim_space (ru_value ub))) (Domains (cfg_allow cfg))
         else ru_type ub = ''ip'' \<and> trim_space (ru_value ub) \<in> set (IPs (cfg_allow cfg))))"

lemma append_grows:
  assumes Y: "yaml_roundtrip Y" and a: "append_to_allowlist E Y fs path f v = (r, fs')"
    and l: "load_config Y fs path = Inr cfg"
  shows "\<exists>cfg'. load_config Y fs' path = Inr cfg' \<and>
    set (Domains (cfg_allow cfg)) \<subseteq> set (Domains (cfg_allow cfg')) \<and>
    set (IPs (cfg_allow cfg)) \<subseteq> set (IPs (cfg_allow cfg')) \<and>
    (r = Inr () \<longrightarrow> (case f of
       Field_domains \<Rightarrow> equal_fold E v v \<longrightarrow> list_ex (\<lambda>d. equal_fold E d v) (Domains (cfg_allow cfg'))
     | Field_ips \<Rightarrow> v \<in> set (IPs (cfg_allow cfg')) | Field_other _ \<Rightarrow> True))"
proof (cases "add_to_allow E f v cfg")
  case (Inl e)
  then show ?thesis using a l by (auto simp: append_to_allowlist_def)
next
  case (Inr m)
  show ?thesis
  proof (cases m)
    case None
    then show ?thesis
      using a l Inr by (cases f) (auto simp: append_to_allowlist_def add_to_allow_def Let_def split: if_splits)
  next
    case (Some c)
    show ?thesis
    proof (cases "marshal Y c")
      case None
      then show ?thesis using a l Inr Some by (auto simp: append_to_allowlist_def)
    next
      case m: (Some b)
      have w: "write_file fs (path_clean path) b = (r, fs')"
        using a l Inr Some m by (simp add: append_to_allowlist_def)
      show ?thesis
      proof (cases r)
        case (Inl e)
        then have "fs' = fs" using w by (auto simp: write_file_def split: option.splits if_splits)
        then show ?thesis using l Inl by auto
      next
        case ok: (Inr u)
        have "unmarshal Y b = Some c" using Y m by (simp add: yaml_roundtrip_def)
        then have "load_config Y fs' path = Inr c" using load_after_write [OF l] w ok by simp
        then show ?thesis
          using Inr Some by (cases f) (auto simp: add_to_allow_def Let_def split: if_splits)
      qed
    qed
  qed
qed

lemma append_in_policy:
  assumes "yaml_roundtrip Y" "append_to_allowlist E Y fs path f v = (Inr (), fs')"
  obtains cfg where "load_config Y fs' path = Inr cfg"
    "case f of Field_domains \<Rightarrow> equal_fold E v v \<longrightarrow> list_ex (\<lambda>d. equal_fold E d v) (Domains (cfg_allow cfg))
     | Field_ips \<Rightarrow> v \<in> set (IPs (cfg_allow cfg)) | Field_other _ \<Rightarrow> True"
proof -
  from assms(2) obtain c where "load_config Y fs path = Inr c"
    by (cases "load_config Y fs path") (auto simp: append_to_allowlist_def)
  from append_grows [OF assms this] that show thesis by blast
qed

lemma apply_in_policy:
  assumes "yaml_roundtrip Y" "\<And>x. equal_fold E x x" "apply_unblock E Y path ub fs = (Inr u, fs')"
  shows "in_policy E Y fs' path ub"
proof -
  have ok: "map_sum AppPolicy id r = Inr () \<longleftrightarrow> r = Inr ()" for r :: "policy_error + unit"
    by (cases r) simp_all
  consider "ru_type ub = ''domain''" "append_to_allowlist E Y fs path Field_domains (trim_space (ru_value ub)) = (Inr (), fs')"
    | "ru_type ub = ''ip''" "append_to_allowlist E Y fs path Field_ips (trim_space (ru_value ub)) = (Inr (), fs')"
    using assms(3)
    by (auto simp: apply_unblock_def append_domain_def append_ip_def Let_def case_prod_unfold ok prod_eq_iff
        split: if_splits sum.splits)
  then show ?thesis
  proof cases
    case 1
    from append_in_policy [OF assms(1) 1(2)] show ?thesis using 1(1) assms(2) by (auto simp: in_policy_def)
  next
    case 2
    from append_in_policy [OF assms(1) 2(2)] show ?thesis using 2(1) by (auto simp: in_policy_def)
  qed
qed

lemma append_stays:
  assumes "yaml_roundtrip Y" "in_policy E Y fs path ub"
  shows "in_policy E Y (snd (append_to_allowlist E Y fs path f v)) path ub"
proof -
  obtain r fs' where a: "append_to_allowlist E Y fs path f v = (r, fs')" by fastforce
  obtain cfg where cfg: "load_config Y fs path = Inr cfg" using assms(2) by (auto simp: in_policy_def)
  from append_grows [OF assms(1) a cfg] assms(2) cfg show ?thesis
    by (auto simp: in_policy_def a list_ex_iff split: if_splits)
qed

lemma apply_stays:
  "yaml_roundtrip Y \<Longrightarrow> in_policy E Y fs path ub \<Longrightarrow> in_policy E Y (snd (apply_unblock E Y path x fs)) path ub"
  by (auto simp: apply_unblock_def append_domain_def append_ip_def Let_def case_prod_unfold append_stays
      split: sum.split)

lemma applied_fs_stays:
  "yaml_roundtrip Y \<Longrightarrow> in_policy E Y fs path ub \<Longrightarrow> in_policy E Y (applied_fs E Y path ubs fs) path ub"
  by (induction ubs arbitrary: fs) (simp_all add: apply_stays)

lemma applied_in_policy:
  assumes "yaml_roundtrip Y" "\<And>x. equal_fold E x x"
  shows "ub \<in> set (applied E Y path ubs fs) \<Longrightarrow> in_policy E Y (applied_fs E Y path ubs fs) path ub"
proof (induction ubs arbitrary: fs)
  case Nil
  then show ?case by simp
next
  case (Cons x ubs)
  obtain r fs1 where a: "apply_unblock E Y path x fs = (r, fs1)" by fastforce
  then consider "ub \<in> set (applied E Y path ubs fs1)" | u where "ub = x" "r = Inr u"
    using Cons.prems by (cases r) auto
  then show ?case
  proof cases
    case 1
    then show ?thesis using Cons.IH a by simp
  next
    case 2
    then have "in_policy E Y fs1 path ub" using apply_in_policy [OF assms, of path x fs] a by simp
    then show ?thesis using applied_fs_stays [OF assms(1)] a by simp
  qed
qed

lemma applied_subset: "set (applied E Y path ubs fs) \<subseteq> set ubs"
  by (induction ubs arbitrary: fs) (auto simp: case_prod_unfold Let_def)

subsection \<open>From one end to the other\<close>

text \<open>
  The client of a filter that talks to the dashboard of theory DashServer. What the HTTP library and
  the router make of a request, and the JSON encoding of an answer, are arguments; a request or its
  answer may be lost on the way.
\<close>

datatype fate = Delivered | Request_lost | Answer_lost

record wire =
  wr_route :: "api_request \<Rightarrow> dash_request"
  wr_encode :: "dash_body \<Rightarrow> string"
  wr_fate :: "api_request \<Rightarrow> fate"

definition dash_client ::
  "env \<Rightarrow> dash_lib \<Rightarrow> http_lib \<Rightarrow> dash_io \<Rightarrow> wire \<Rightarrow> dash_server api" where
  "dash_client E L H io W s req =
     (if wr_fate W req = Request_lost then (None, s)
      else (let (s1, status, body) = serve E L H io s (wr_route W req)
            in (if wr_fate W req = Answer_lost then None else Some (status, wr_encode W body), s1)))"

definition to_remote :: "unblock_request \<Rightarrow> remote_unblock" where
  "to_remote req = \<lparr>ru_id = ub_id req, ru_type = ub_type req, ru_value = ub_value req\<rparr>"

definition fetch_request :: "api_codec \<Rightarrow> string \<Rightarrow> app_config \<Rightarrow> api_request" where
  "fetch_request C url cfg =
     \<lparr>ap_method = ''GET'',
      ap_url = url @ ''/api/v1/unblocks'' @
        (if ac_hostname cfg \<noteq> [] then ''?hostname='' @ query_escape C (ac_hostname cfg) else []),
      ap_key = ac_dashboard_api_key cfg, ap_body = []\<rparr>"

definition ack_request :: "api_codec \<Rightarrow> string \<Rightarrow> app_config \<Rightarrow> string \<Rightarrow> api_request" where
  "ack_request C url cfg i =
     \<lparr>ap_method = ''POST'', ap_url = url @ ''/api/v1/unblocks/ack'', ap_key = ac_dashboard_api_key cfg,
      ap_body = encode_ack C i\<rparr>"

definition wire_ok :: "http_lib \<Rightarrow> api_codec \<Rightarrow> wire \<Rightarrow> string \<Rightarrow> app_config \<Rightarrow> unblock_store \<Rightarrow> bool" where
  \<comment> \<open>requests arrive as they were sent, and JSON gives back the pending requests and their identifiers\<close>
  "wire_ok H C W url cfg us \<longleftrightarrow>
     (let r = wr_route W (fetch_request C url cfg)
      in rq_method r = ''GET'' \<and> rq_path r = ''/api/v1/unblocks'' \<and> rq_api_key r = ac_dashboard_api_key cfg \<and>
         rq_query r ''hostname'' = ac_hostname cfg) \<and>
     (\<forall>req \<in> set (get_pending us).
        let r = wr_route W (ack_request C url cfg (ub_id req))
        in rq_method r = ''POST'' \<and> rq_path r = ''/api/v1/unblocks/ack'' \<and>
           rq_api_key r = ac_dashboard_api_key cfg \<and> hl_ack H 4096 (rq_body r) = Some (ub_id req) \<and>
           trim_space (ub_id req) = ub_id req \<and> ub_id req \<noteq> []) \<and>
     (\<forall>p c. set p \<subseteq> set (get_pending us) \<longrightarrow>
        decode_pending C (wr_encode W (BUnblocks p c)) = Some (map to_remote p))"

definition meant_for :: "env \<Rightarrow> app_config \<Rightarrow> unblock_request \<Rightarrow> bool" where
  \<comment> \<open>a filter without a host name is shown every request\<close>
  "meant_for E cfg req \<longleftrightarrow>
     ac_hostname cfg = [] \<or> ub_target req = [] \<or> ub_target req = unblock_host E (ac_hostname cfg)"

definition offered :: "env \<Rightarrow> app_config \<Rightarrow> dash_server \<Rightarrow> unblock_request list" where
  "offered E cfg s = filter (meant_for E cfg) (get_pending (sv_unblocks s))"

lemma serve_fetch:
  assumes "wire_ok H C W url cfg (sv_unblocks s)" "ac_dashboard_api_key cfg = sv_api_key s"
    and "trim_space (ac_hostname cfg) = ac_hostname cfg"
  shows "serve E L H io s (wr_route W (fetch_request C url cfg)) =
    (s, 200, BUnblocks (offered E cfg s) (get_completed (sv_unblocks s)))"
  using assms
  by (auto simp: wire_ok_def Let_def serve_def require_api_key_def list_unblocks_handler_def
      get_pending_for_host_def offered_def meant_for_def [abs_def] get_pending_def)

lemma fetch_offered:
  assumes "wire_ok H C W url cfg (sv_unblocks s)" "ac_dashboard_api_key cfg = sv_api_key s"
    and "trim_space (ac_hostname cfg) = ac_hostname cfg"
  shows "fetch_pending_unblocks (dash_client E L H io W) C url cfg s =
    (if wr_fate W (fetch_request C url cfg) = Delivered then Inr (map to_remote (offered E cfg s)) else Inl HTTPFailed, s)"
proof -
  have d: "decode_pending C (wr_encode W (BUnblocks (offered E cfg s) c)) = Some (map to_remote (offered E cfg s))" for c
    using assms(1) by (simp add: wire_ok_def offered_def)
  have f: "fetch_pending_unblocks client C url cfg w =
    (case client w (fetch_request C url cfg) of
       (None, w1) \<Rightarrow> (Inl HTTPFailed, w1)
     | (Some (status, body), w1) \<Rightarrow>
         if status \<noteq> 200 then (Inl (UnexpectedHTTPStatus status), w1)
         else (case decode_pending C body of None \<Rightarrow> (Inl HTTPFailed, w1) | Some us \<Rightarrow> (Inr us, w1)))"
    for client :: "'w api" and w
    unfolding fetch_pending_unblocks_def fetch_request_def Let_def case_prod_unfold by (auto split: option.split)
  show ?thesis
    by (cases "wr_fate W (fetch_request C url cfg)") (simp_all add: f dash_client_def serve_fetch [OF assms] d)
qed

definition ack_done :: "api_codec \<Rightarrow> wire \<Rightarrow> string \<Rightarrow> app_config \<Rightarrow> remote_unblock \<Rightarrow> bool" where
  "ack_done C W url cfg ub \<longleftrightarrow> wr_fate W (ack_request C url cfg (ru_id ub)) \<noteq> Request_lost"

lemma acknowledge_state:
  assumes "wire_ok H C W url cfg us" "ac_dashboard_api_key cfg = sv_api_key s" "req \<in> set (get_pending us)"
    "ub = to_remote req"
  shows "snd (acknowledge_unblock (dash_client E L H io W) C url (ac_dashboard_api_key cfg) (ru_id ub) s) =
    (if ack_done C W url cfg ub
     then s\<lparr>sv_unblocks := fst (unblock_acknowledge (io_now io) (ru_id ub) (sv_unblocks s))\<rparr> else s)"
proof -
  let ?r = "wr_route W (ack_request C url cfg (ru_id ub))"
  have "fst (serve E L H io s ?r) = s\<lparr>sv_unblocks := fst (unblock_acknowledge (io_now io) (ru_id ub) (sv_unblocks s))\<rparr>"
    using assms
    by (simp add: wire_ok_def Let_def serve_def require_api_key_def ack_unblock_handler_def to_remote_def case_prod_unfold)
  then show ?thesis
    by (simp add: acknowledge_unblock_def ack_request_def [symmetric] dash_client_def ack_done_def case_prod_unfold Let_def
        split: option.split)
qed

lemma acks_state:
  assumes "wire_ok H C W url cfg us" "set ubs \<subseteq> to_remote ` set (get_pending us)"
  shows "ac_dashboard_api_key cfg = sv_api_key s \<Longrightarrow>
    map_of (us_requests (sv_unblocks
      (fold (\<lambda>ub w. snd (acknowledge_unblock (dash_client E L H io W) C url (ac_dashboard_api_key cfg) (ru_id ub) w)) ubs s))) i =
    (if \<exists>ub \<in> set ubs. ack_done C W url cfg ub \<and> ru_id ub = i then None else map_of (us_requests (sv_unblocks s)) i)"
  using assms(2)
proof (induction ubs arbitrary: s)
  case Nil
  then show ?case by simp
next
  case (Cons ub ubs)
  from Cons.prems obtain req where "req \<in> set (get_pending us)" "ub = to_remote req" by auto
  note a = acknowledge_state [OF assms(1) Cons.prems(1) this]
  have sub: "set ubs \<subseteq> to_remote ` set (get_pending us)" using Cons.prems(2) by simp
  show ?case
  proof (cases "ack_done C W url cfg ub")
    case False
    then show ?thesis using Cons.IH [OF Cons.prems(1) sub] by (auto simp: a)
  next
    case True
    let ?s = "s\<lparr>sv_unblocks := fst (unblock_acknowledge (io_now io) (ru_id ub) (sv_unblocks s))\<rparr>"
    have "ac_dashboard_api_key cfg = sv_api_key ?s" using Cons.prems(1) by simp
    from Cons.IH [OF this sub] True show ?thesis by (auto simp: a unblock_ack_pending)
  qed
qed

lemma process_unblocks:
  assumes "wire_ok H C W url cfg (sv_unblocks s)" "ac_dashboard_api_key cfg = sv_api_key s"
    and "trim_space (ac_hostname cfg) = ac_hostname cfg"
    and run: "process_remote_unblocks E Y (dash_client E L H io W) C url cfg (fs, s) = (fs', s')"
  defines "path \<equiv> ac_policy_path cfg" and "us \<equiv> map to_remote (offered E cfg s)"
  shows "wr_fate W (fetch_request C url cfg) \<noteq> Delivered \<and> fs' = fs \<and> s' = s \<or>
    wr_fate W (fetch_request C url cfg) = Delivered \<and> fs' = applied_fs E Y path us fs \<and>
    map_of (us_requests (sv_unblocks s')) i =
      (if \<exists>ub \<in> set (applied E Y path us fs). ack_done C W url cfg ub \<and> ru_id ub = i then None
       else map_of (us_requests (sv_unblocks s)) i)"
proof (cases "wr_fate W (fetch_request C url cfg) = Delivered")
  case False
  then show ?thesis using run fetch_offered [OF assms(1-3)] by (simp add: process_remote_unblocks_def)
next
  case True
  have sub: "set (applied E Y path us fs) \<subseteq> to_remote ` set (get_pending (sv_unblocks s))"
    using applied_subset [of E Y path us fs] by (auto simp: us_def offered_def)
  have "fs' = applied_fs E Y path us fs \<and>
    s' = fold (\<lambda>ub w. snd (acknowledge_unblock (dash_client E L H io W) C url (ac_dashboard_api_key cfg) (ru_id ub) w))
      (applied E Y path us fs) s"
    using run fetch_offered [OF assms(1-3)] True
    by (cases "offered E cfg s") (auto simp: process_remote_unblocks_def batch_passes us_def path_def)
  then show ?thesis using True acks_state [OF assms(1) sub assms(2)] by simp
qed

text \<open>C20: An unblock request arrives or stays. One poll of a filter at a dashboard in any reachable state,
  with a network that may lose requests and answers: a pending request is kept unchanged or removed, and
  it is removed only if it was meant for that filter and its value is in the filter's policy file
  afterwards. If nothing is lost, exactly the requests meant for the filter whose value could be
  appended are removed.\<close>

theorem unblock_end_to_end:
  assumes "dash_reach E L H dc s rs" and "ac_dashboard_api_key cfg = cf_api_key dc"
    and "wire_ok H C W url cfg (sv_unblocks s)" and "trim_space (ac_hostname cfg) = ac_hostname cfg"
    and "yaml_roundtrip Y" and "\<And>x. equal_fold E x x"
    and "process_remote_unblocks E Y (dash_client E L H io W) C url cfg (fs, s) = (fs', s')"
    and "map_of (us_requests (sv_unblocks s)) i = Some req"
  shows "map_of (us_requests (sv_unblocks s')) i \<in> {None, Some req} \<and>
    (map_of (us_requests (sv_unblocks s')) i = None \<longrightarrow>
      meant_for E cfg req \<and> in_policy E Y fs' (ac_policy_path cfg) (to_remote req)) \<and>
    ((\<forall>a. wr_fate W a = Delivered) \<longrightarrow>
      (map_of (us_requests (sv_unblocks s')) i = None \<longleftrightarrow> meant_for E cfg req \<and>
        to_remote req \<in> set (applied E Y (ac_policy_path cfg) (map to_remote (offered E cfg s)) fs)))"
proof -
  let ?done = "applied E Y (ac_policy_path cfg) (map to_remote (offered E cfg s)) fs"
  have inv: "dash_inv dc s" using assms(1) by (rule reach_inv)
  then have key: "ac_dashboard_api_key cfg = sv_api_key s" and us: "unblock_inv (sv_unblocks s)"
    using assms(2) by (simp_all add: dash_inv_def)
  have same: "ub = to_remote req \<and> meant_for E cfg req" if ub: "ub \<in> set ?done" "ru_id ub = i" for ub
  proof -
    from ub(1) applied_subset obtain r where r: "r \<in> set (offered E cfg s)" "ub = to_remote r" by fastforce
    then obtain k where "map_of (us_requests (sv_unblocks s)) k = Some r"
      using us by (auto simp: offered_def get_pending_def unblock_inv_def wf_map_def)
    with request_id [OF us] ub(2) r assms(8) show ?thesis by (auto simp: to_remote_def offered_def)
  qed
  have id: "ru_id (to_remote req) = i" using request_id [OF us assms(8)] by (simp add: to_remote_def)
  have ex: "(\<exists>ub \<in> set ?done. ack_done C W url cfg ub \<and> ru_id ub = i) \<longleftrightarrow>
      meant_for E cfg req \<and> to_remote req \<in> set ?done \<and> ack_done C W url cfg (to_remote req)"
    using same id by blast
  show ?thesis
    using process_unblocks [OF assms(3) key assms(4,7), of i]
  proof (elim disjE conjE)
    assume "wr_fate W (fetch_request C url cfg) \<noteq> Delivered" "fs' = fs" "s' = s"
    then show ?thesis using assms(8) by auto
  next
    assume fs': "fs' = applied_fs E Y (ac_policy_path cfg) (map to_remote (offered E cfg s)) fs"
      and s': "map_of (us_requests (sv_unblocks s')) i =
        (if \<exists>ub \<in> set ?done. ack_done C W url cfg ub \<and> ru_id ub = i then None else map_of (us_requests (sv_unblocks s)) i)"
    have pol: "to_remote req \<in> set ?done \<Longrightarrow> in_policy E Y fs' (ac_policy_path cfg) (to_remote req)"
      unfolding fs' by (rule applied_in_policy [OF assms(5,6)])
    show ?thesis
    proof (cases "meant_for E cfg req \<and> to_remote req \<in> set ?done \<and> ack_done C W url cfg (to_remote req)")
      case True
      then show ?thesis using s' pol unfolding ex by simp
    next
      case False
      then have "map_of (us_requests (sv_unblocks s')) i = Some req" using s' assms(8) unfolding ex by simp
      then show ?thesis using False by (auto simp: ack_done_def)
    qed
  qed
qed

definition sample_unblock :: unblock_request where
  "sample_unblock =
     \<lparr>ub_id = ''1f'', ub_type = ''ip'', ub_value = ''10.0.0.1'', ub_target = ''gw'', ub_created = 0\<rparr>"

lemma sample_unblocks: "us_requests (sv_unblocks sample_served) = [(''1f'', sample_unblock)]"
proof -
  have v: "validate_unblock_value ''ip'' '' 10.0.0.1'' = Inr ''10.0.0.1''" by code_simp
  have a: "us_requests (fst (unblock_add ascii_env ''1f'' 0 ''ip'' ''10.0.0.1'' (trim_space ''gw'')
      new_unblock_store)) = [(''1f'', sample_unblock)]"
    unfolding sample_unblock_def by code_simp
  then show ?thesis
    by (simp add: sample_served_def serve_def sample_request_def create_unblock_handler_def v
        sample_http_lib_def unblock_type_ip_def Let_def case_prod_unfold sample_io_def new_server_def)
qed

definition gw_config :: app_config where
  "gw_config = sample_app_config\<lparr>ac_hostname := ''gw'', ac_dashboard_api_key := ''secret''\<rparr>"

definition gw_wire :: wire where
  "gw_wire =
     \<lparr>wr_route = (\<lambda>a. (sample_request (ap_method a)
        (if ap_method a = ''GET'' then ''/api/v1/unblocks'' else ''/api/v1/unblocks/ack'') (ap_key a))\<lparr>rq_query := (\<lambda>_. ''gw'')\<rparr>),
      wr_encode = (\<lambda>b. case b of BUnblocks p c \<Rightarrow> replicate (length p) (CHR ''u'') | _ \<Rightarrow> []),
      wr_fate = (\<lambda>_. Delivered)\<rparr>"

definition gw_codec :: api_codec where
  "gw_codec =
     \<lparr>query_escape = id, decode_pending = (\<lambda>b. Some (map (\<lambda>_. to_remote sample_unblock) b)), encode_ack = id\<rparr>"

definition gw_yaml :: yaml where
  "gw_yaml =
     (let conf = (\<lambda>ips. \<lparr>cfg_default_action = [], cfg_allow = \<lparr>IPs = ips, Domains = []\<rparr>, cfg_deny = \<lparr>IPs = [], Domains = []\<rparr>\<rparr>)
      in \<lparr>unmarshal = (\<lambda>b. if b = ''a'' then Some (conf []) else Some (conf [''10.0.0.1''])),
          marshal = (\<lambda>c. if c = conf [''10.0.0.1''] then Some ''b'' else None)\<rparr>)"

lemma gw_wire_ok: "wire_ok sample_http_lib gw_codec gw_wire u gw_config (sv_unblocks sample_served)"
proof -
  have t: "trim_space ''1f'' = ''1f''" by code_simp
  have p: "map to_remote p = replicate (length p) (to_remote sample_unblock)"
    if "set p \<subseteq> {sample_unblock}" for p
    using that by (induction p) auto
  show ?thesis
    unfolding wire_ok_def get_pending_def sample_unblocks
    using p by (auto simp: t gw_wire_def gw_codec_def gw_config_def fetch_request_def ack_request_def
        sample_request_def sample_http_lib_def sample_unblock_def map_replicate_const)
qed

lemma gw_apply:
  "apply_unblock ascii_env gw_yaml ''/p'' (to_remote sample_unblock) (sample_fs ''a'') = (Inr (), sample_fs ''b'')"
proof -
  have t: "trim_space ''10.0.0.1'' = ''10.0.0.1''" "validate_ip ''10.0.0.1'' = Inr ()" by code_simp+
  show ?thesis
    by (simp add: apply_unblock_def to_remote_def sample_unblock_def append_ip_def t append_to_allowlist_def
        load_config_def sample_trims sample_fs_def gw_yaml_def add_to_allow_def write_file_def Let_def)
qed

theorem unblock_end_to_end_witness:
  "map_of (us_requests (sv_unblocks (snd (process_remote_unblocks ascii_env gw_yaml
     (dash_client ascii_env sample_dash_lib sample_http_lib sample_io gw_wire) gw_codec ''http://d'' gw_config
     (sample_fs ''a'', sample_served))))) ''1f'' = None"
proof -
  have g: "trim_space ''gw'' = ''gw''" "unblock_host ascii_env ''gw'' = ''gw''" by code_simp+
  have Y: "yaml_roundtrip gw_yaml" by (simp add: yaml_roundtrip_def gw_yaml_def Let_def)
  have fold: "equal_fold ascii_env x x" for x by (simp add: equal_fold_def ascii_env_def)
  have c: "ac_dashboard_api_key gw_config = cf_api_key sample_config" "ac_hostname gw_config = ''gw''"
    "ac_policy_path gw_config = ''/p''"
    by (simp_all add: gw_config_def sample_config_def sample_app_facts)
  have o1: "offered ascii_env gw_config sample_served = [sample_unblock]"
    by (simp add: offered_def get_pending_def sample_unblocks meant_for_def c g sample_unblock_def)
  show ?thesis
    using unblock_end_to_end [OF sample_reach c(1) gw_wire_ok _ Y fold surjective_pairing, of "''1f''" sample_unblock]
    by (simp add: c g sample_unblocks o1 gw_apply gw_wire_def meant_for_def) (simp add: sample_unblock_def)
qed

end
