(* ===== verification/Startup.thy ===== *)
theory Startup
  imports Gateway RemoteUnblock
begin

text \<open>
  The command of the filter from its arguments to its exit status:
  \<^verbatim>\<open>cmd/g0efilter/main.go\<close> and \<^verbatim>\<open>Run\<close> with \<^verbatim>\<open>supervise\<close> in
  \<^verbatim>\<open>internal/g0efilter/app.go\<close>. The result is the list of the effects in the order in which they
  happen, with the log lines at the levels info, warning and error. After the start the program is
  driven by \<open>turn\<close>s: a tick of the policy watcher, an update that the supervisor receives, a signal, the
  poller for unblocks that begins its work. What the outside world says (files, \<^verbatim>\<open>nft\<close>, texts of
  errors and durations, build information) is an argument.
\<close>

subsection \<open>Effects\<close>

datatype effect =
    Print string
  | Print_err string
  | Log log_line
  | Run_nft nft_run "string option" \<comment> \<open>a run of \<^verbatim>\<open>nft\<close> with its error\<close>
  | Start_learner string
  | Start_services "service list"
  | Stop_services
  | Start_nflog
  | Start_watcher string nanos string \<comment> \<open>path, interval, hash of the file\<close>
  | Start_poller string nanos
  | Sleep nanos
  | Flush_logs nanos
  | Panic string

record texts =
  tx_duration :: "nanos \<Rightarrow> string"
  tx_error :: "app_error \<Rightarrow> string"

record build =
  bd_version :: string
  bd_date :: string
  bd_commit :: string
  bd_go :: "string option" \<comment> \<open>\<^verbatim>\<open>debug.ReadBuildInfo\<close>\<close>

definition build_init :: "build \<Rightarrow> build" where
  \<comment> \<open>\<^verbatim>\<open>init\<close> of the command\<close>
  "build_init b =
     b\<lparr>bd_version := (if bd_version b = [] then ''0.0.0-dev'' else bd_version b),
       bd_date := (if bd_date b = [] then ''unknown'' else bd_date b),
       bd_commit := (if bd_commit b = [] then ''none'' else bd_commit b)\<rparr>"

definition get_go_version :: "build \<Rightarrow> string" where
  "get_go_version b = (case bd_go b of Some v \<Rightarrow> v | None \<Rightarrow> ''unknown'')"

definition program_name :: string where "program_name = ''g0efilter''"

definition print_version :: "build \<Rightarrow> effect list" where
  "print_version b =
     (let short = (if length (bd_commit b) \<ge> 7 then take 7 (bd_commit b) else bd_commit b)
      in [Print (program_name @ '' v'' @ bd_version b @ '' '' @ short @ '' ('' @ bd_date b @ '')'' @ [newline]),
          Print (''Copyright (C) 2026 g0lab'' @ [newline]),
          Print (''Licensed under the MIT license'' @ [newline])])"

definition handle_version_flag :: "string list \<Rightarrow> build \<Rightarrow> effect list \<times> bool" where
  "handle_version_flag args b =
     (case args of
        a0 # arg # _ \<Rightarrow>
          if arg = ''--version'' \<or> arg = ''version'' \<or> arg = ''-V'' \<or> arg = ''-v''
          then (print_version b, True) else ([], False)
      | _ \<Rightarrow> ([], False))"

subsection \<open>Log lines of the start\<close>

definition normalize_mode_log :: "app_config \<Rightarrow> log_line list" where
  "normalize_mode_log cfg =
     (if ac_default_action cfg = default_action_deny \<or> ac_default_action cfg = default_action_allow then []
      else [log_line Warn ''default_action.invalid''
              [(''default_action'', VS (ac_default_action cfg)), (''defaulting_to'', VS default_action_deny)]])
     @ (if ac_mode cfg \<in> {mode_https, mode_dns, mode_dns_strict, []} then []
        else [log_line Warn ''filter_mode.invalid'' [(''mode'', VS (ac_mode cfg)), (''defaulting_to'', VS mode_https)]])"

definition resolve_policy_path_log :: "(string \<Rightarrow> string) \<Rightarrow> fs \<Rightarrow> string \<Rightarrow> app_config \<Rightarrow> log_line list" where
  "resolve_policy_path_log getenv fs fallbackPath cfg =
     (if trim_space (getenv ''POLICY_PATH'') \<noteq> [] then []
      else
        (let defaultExists = file_exists fs (ac_policy_path cfg); fallbackExists = file_exists fs fallbackPath
         in if defaultExists \<and> fallbackExists then
              [log_line Warn ''policy.path_ambiguous''
                 [(''chosen'', VS (ac_policy_path cfg)), (''ignored'', VS fallbackPath),
                  (''hint'', VS ''both conventional locations exist; set POLICY_PATH to choose explicitly'')]]
            else if fallbackExists then
              [log_line Info ''policy.path_fallback''
                 [(''path'', VS fallbackPath),
                  (''reason'', VS (ac_policy_path cfg @ '' not found; using the directory-mount convention''))]]
            else if \<not> defaultExists then
              [log_line Warn ''policy.path_missing''
                 [(''probed'', VS (ac_policy_path cfg @ '', '' @ fallbackPath)),
                  (''hint'', VS ''mount a policy file or set POLICY_PATH; the file is not auto-created'')]]
            else []))"

definition enforce_label :: "bool \<Rightarrow> string" where
  "enforce_label audit = (if audit then ''audit'' else ''block'')"

definition log_startup_info :: "build \<Rightarrow> string option \<Rightarrow> app_config \<Rightarrow> log_line list" where
  \<comment> \<open>with the output of \<^verbatim>\<open>nft --version\<close>\<close>
  "log_startup_info b nftOut cfg =
     (let shortCommit = (if length (bd_commit b) > 7 then take 7 (bd_commit b) else bd_commit b);
          nftVersion = (case version nftOut of Inl _ \<Rightarrow> ''unavailable'' | Inr v \<Rightarrow> v);
          kv = [(''name'', VS program_name), (''version'', VS (bd_version b)), (''commit'', VS shortCommit),
                (''go_version'', VS (get_go_version b)), (''nft_version'', VS nftVersion),
                (''build_date'', VS (bd_date b)), (''mode'', VS (ac_mode cfg)),
                (''default_action'', VS (ac_default_action cfg)), (''learning_mode'', VB (ac_learning_mode cfg)),
                (''enforce'', VS (enforce_label (ac_audit_mode cfg))), (''policy_path'', VS (ac_policy_path cfg)),
                (''log_level'', VS (ac_log_level cfg))];
          kv' = (if ac_hostname cfg \<noteq> [] then kv @ [(''hostname'', VS (ac_hostname cfg))] else kv);
          kv'' = (if ac_log_file cfg \<noteq> [] then kv' @ [(''log_file'', VS (ac_log_file cfg))] else kv')
      in [log_line Info ''startup.info'' kv''])"

definition log_dashboard_info :: "app_config \<Rightarrow> log_line list" where
  "log_dashboard_info cfg =
     (if ac_dashboard_host cfg = [] then [log_line Info ''dashboard.logging_disabled'' []]
      else [log_line Info ''dashboard.logging_enabled'' [(''host'', VS (dashboard_url (ac_dashboard_host cfg)))]])"

definition log_notification_info :: "app_config \<Rightarrow> log_line list" where
  "log_notification_info cfg =
     (if ac_notification_host cfg \<noteq> [] \<and> ac_notification_key cfg \<noteq> []
      then [log_line Info ''notifications.enabled'' [(''host'', VS (ac_notification_host cfg))]]
      else [log_line Info ''notifications.disabled'' []])"

definition port_warnings :: "app_config \<Rightarrow> log_line list" where
  \<comment> \<open>what \<^verbatim>\<open>validatePorts\<close> only warns about\<close>
  "port_warnings cfg =
     (if is_dns_mode (ac_mode cfg) then
        (if ac_dns_port cfg = ac_http_port cfg then
           [log_line Warn ''config.port_overlap''
              [(''DNS_PORT'', VS (ac_dns_port cfg)), (''HTTP_PORT'', VS (ac_http_port cfg)),
               (''note'', VS ''DNS mode active, HTTP port not used'')]] else [])
        @ (if ac_dns_port cfg = ac_https_port cfg then
             [log_line Warn ''config.port_overlap''
                [(''DNS_PORT'', VS (ac_dns_port cfg)), (''HTTPS_PORT'', VS (ac_https_port cfg)),
                 (''note'', VS ''DNS mode active, HTTPS port not used'')]] else [])
      else [])"

definition setup_learning_effects :: "app_config \<Rightarrow> effect list" where
  "setup_learning_effects cfg =
     (if \<not> ac_learning_mode cfg then []
      else [Start_learner (ac_policy_path cfg),
            Log (log_line Info ''learning_mode.enabled''
              [(''note'', VS ''no traffic will be blocked; observed domains/IPs are appended to the policy file''),
               (''path'', VS (ac_policy_path cfg))])])"

definition setup_proc_info_log :: "env \<Rightarrow> (string \<Rightarrow> string) \<Rightarrow> log_line list" where
  "setup_proc_info_log E getenv =
     (if \<not> equal_fold E (getenv_default getenv ''PROCESS_INFO'' ''false'') ''true'' then []
      else [log_line Info ''process_info.enabled''
              [(''note'', VS ''flow logs carry pid/process attribution; requires a shared PID namespace with clients'')]])"

subsection \<open>Loading a policy\<close>

definition policy_loaded_log :: "app_config \<Rightarrow> policy \<Rightarrow> log_line list" where
  "policy_loaded_log cfg pol =
     (let defaultAllow = effective_default_allow cfg (Some pol)
      in [log_line Info ''policy.loaded''
            [(''default_allow'', VB defaultAllow), (''domain_count'', VI (int (length (AllowDomains pol)))),
             (''ip_count'', VI (int (length (AllowIPs pol)))),
             (''deny_domain_count'', VI (int (length (DenyDomains pol)))),
             (''deny_ip_count'', VI (int (length (DenyIPs pol))))]]
         @ (if \<not> defaultAllow \<and> \<not> ac_learning_mode cfg \<and> (DenyIPs pol \<noteq> [] \<or> DenyDomains pol \<noteq> []) then
              [log_line Warn ''policy.denylist_ignored''
                 [(''reason'', VS ''default_action is deny; denylist only applies with default_action: allow'')]]
            else []))"

definition load_and_apply_effects ::
  "env \<Rightarrow> yaml \<Rightarrow> (string \<Rightarrow> string) \<Rightarrow> texts \<Rightarrow> nft_prog \<Rightarrow> fs \<Rightarrow> app_config \<Rightarrow>
   effect list \<times> (app_error + policy)" where
  \<comment> \<open>\<open>load_and_apply_policy\<close> with its log lines\<close>
  "load_and_apply_effects E Y getenv tx nft fs cfg =
     (case load_and_apply_policy E Y getenv nft fs cfg of
        (runs, r) \<Rightarrow>
          (case read E Y getenv fs (ac_policy_path cfg) of
             Inl e \<Rightarrow>
               [Log (log_line Error ''policy.read_error''
                  [(''path'', VS (ac_policy_path cfg)), (''err'', VS (tx_error tx (AppPolicy e)))])]
           | Inr pol \<Rightarrow>
               map Log (policy_loaded_log cfg pol) @ map (\<lambda>run. Run_nft run (nft run)) runs
               @ (case r of
                    Inl e \<Rightarrow> [Log (log_line Error ''nftables.apply_failed'' [(''err'', VS (tx_error tx e))])]
                  | Inr _ \<Rightarrow> [Log (log_line Info ''nftables.applied'' [])]),
           r))"

definition start_service_effects ::
  "(string \<Rightarrow> int \<Rightarrow> string \<Rightarrow> proc_info option) \<Rightarrow> app_config \<Rightarrow> policy \<Rightarrow> effect list" where
  \<comment> \<open>\<^verbatim>\<open>startServiceGroup\<close> with the warning of \<^verbatim>\<open>strictResolvedHook\<close>\<close>
  "start_service_effects lookup cfg pol =
     (if ac_mode cfg = mode_dns_strict \<and> \<not> strict_resolved_hook (service_options lookup cfg pol) then
        [Log (log_line Warn ''dns_strict.degraded''
           [(''reason'', VS ''default_action=allow or learning mode active; connection-time enforcement disabled''),
            (''behaves_as'', VS mode_dns)])]
      else [])
     @ [Start_services (start_services lookup cfg pol)]"

definition start_nflog_stream :: "effect list" where
  "start_nflog_stream = [Log (log_line Info ''nflog.listen'' []), Start_nflog]"

definition start_remote_unblock_polling :: "texts \<Rightarrow> app_config \<Rightarrow> effect list" where
  "start_remote_unblock_polling tx cfg =
     (if \<not> ac_enable_remote_unblock cfg then []
      else if ac_dashboard_host cfg = [] \<or> ac_dashboard_api_key cfg = [] then
        [Log (log_line Warn ''remote_unblock.disabled''
           [(''reason'', VS ''missing DASHBOARD_HOST or DASHBOARD_API_KEY'')])]
      else
        [Log (log_line Info ''remote_unblock.enabled''
           [(''dashboard'', VS (ac_dashboard_host cfg)),
            (''poll_interval'', VS (tx_duration tx (ac_unblock_poll_interval cfg)))]),
         Start_poller (dashboard_url (ac_dashboard_host cfg)) (ac_unblock_poll_interval cfg)])"

subsection \<open>From the start to the supervisor\<close>

definition policy_poll_interval :: nanos where "policy_poll_interval = 5 * second"

definition fallback_policy_path :: string where "fallback_policy_path = ''/app/policy/policy.yaml''"

definition startup ::
  "env \<Rightarrow> yaml \<Rightarrow> (string \<Rightarrow> string) \<Rightarrow> (string \<Rightarrow> nanos option) \<Rightarrow> (string \<Rightarrow> string) \<Rightarrow> texts \<Rightarrow> build \<Rightarrow>
   string option \<Rightarrow> nft_prog \<Rightarrow> fs \<Rightarrow> fs \<Rightarrow> fs \<Rightarrow> (string \<Rightarrow> int \<Rightarrow> string \<Rightarrow> proc_info option) \<Rightarrow>
   effect list \<times> (app_error + app_config \<times> app_state)" where
  \<comment> \<open>\<^verbatim>\<open>Run\<close> up to the supervisor; the files are looked at three times and may change in between\<close>
  "startup E Y getenv parse_duration sha256 tx b nftOut nft fs0 fs1 fs2 lookup =
     (let cfg0 = load_app_config E getenv parse_duration;
          cfg1 = normalize_mode cfg0;
          cfg2 = resolve_policy_path getenv fs0 fallback_policy_path cfg1;
          evs1 = map Log (normalize_mode_log cfg0 @ resolve_policy_path_log getenv fs0 fallback_policy_path cfg1
                   @ log_startup_info b nftOut cfg2 @ log_dashboard_info cfg2 @ log_notification_info cfg2)
      in case validate_ports cfg2 of
           Inl e \<Rightarrow> (evs1 @ [Log (log_line Error ''config.port_validation_failed'' [(''err'', VS (tx_error tx e))])], Inl e)
         | Inr _ \<Rightarrow>
             (let cfg3 = setup_learning cfg2;
                  cfg = setup_proc_info E getenv cfg3;
                  evs2 = map Log (port_warnings cfg2) @ setup_learning_effects cfg2
                         @ map Log (setup_proc_info_log E getenv);
                  (evs3, r) = load_and_apply_effects E Y getenv tx nft fs1 cfg
              in case r of
                   Inl e \<Rightarrow> (evs1 @ evs2 @ evs3, Inl e)
                 | Inr pol \<Rightarrow>
                     (case app_start E Y getenv sha256 nft fs1 fs2 lookup cfg of
                        Inl e \<Rightarrow> (evs1 @ evs2 @ evs3, Inl e)
                      | Inr s \<Rightarrow>
                          (evs1 @ evs2 @ evs3
                           @ (case file_sha256_hex sha256 fs2 (ac_policy_path cfg) of
                                Inl e \<Rightarrow> [Log (log_line Warn ''policy.hash_read_failed''
                                          [(''path'', VS (ac_policy_path cfg)), (''err'', VS (tx_error tx e))])]
                              | Inr _ \<Rightarrow> [])
                           @ start_service_effects lookup cfg pol @ start_nflog_stream
                           @ [Log (log_line Info ''policy.watcher_started''
                                [(''path'', VS (ac_policy_path cfg)), (''interval'', VS (tx_duration tx policy_poll_interval))]),
                              Start_watcher (ac_policy_path cfg) policy_poll_interval (as_hash s)]
                           @ start_remote_unblock_polling tx cfg
                           @ [Log (log_line Info ''startup.ready''
                                [(''mode'', VS (ac_mode cfg)), (''filter_count'', VI (int (length (AllowDomains pol))))])],
                           Inr (cfg, s)))))"

subsection \<open>Watcher, supervisor and shutdown\<close>

definition is_inode_unlinked :: "(string \<Rightarrow> nat option) \<Rightarrow> string \<Rightarrow> bool" where
  \<comment> \<open>the number of links that \<^verbatim>\<open>lstat\<close> reports; the code returns an error for no\<close>
  "is_inode_unlinked nlink path \<longleftrightarrow> nlink (path_clean (trim_space path)) = Some 0"

definition tick_effects ::
  "env \<Rightarrow> yaml \<Rightarrow> (string \<Rightarrow> string) \<Rightarrow> (string \<Rightarrow> string) \<Rightarrow> texts \<Rightarrow> nft_prog \<Rightarrow> (string \<Rightarrow> nat option) \<Rightarrow> fs \<Rightarrow> fs \<Rightarrow>
   app_config \<Rightarrow> string \<Rightarrow> effect list" where
  \<comment> \<open>\<open>check_policy_tick\<close> with its log lines\<close>
  "tick_effects E Y getenv sha256 tx nft nlink fs1 fs2 cfg lastHash =
     (case file_sha256_hex sha256 fs1 (ac_policy_path cfg) of
        Inl e \<Rightarrow> [Log (log_line Warn ''policy.hash_read_failed''
                    [(''path'', VS (ac_policy_path cfg)), (''err'', VS (tx_error tx e))])]
      | Inr newHash \<Rightarrow>
          (if is_inode_unlinked nlink (ac_policy_path cfg) then
             [Log (log_line Warn ''policy.stale_inode''
                [(''path'', VS (ac_policy_path cfg)),
                 (''hint'', VS (''inode is unlinked (nlink=0); live reload is broken. '' @
                   ''Mount a directory instead of a single file: '' @
                   [CHR 0x27] @ ''./policy/:/app/policy/'' @ [CHR 0x27] @ '' (see README)''))])]
           else [])
          @ (if lastHash = [] \<or> newHash = lastHash then []
             else
               (let (evs, r) = load_and_apply_effects E Y getenv tx nft fs2 cfg
                in [Log (log_line Info ''policy.change_detected''
                      [(''old_hash'', VS lastHash), (''new_hash'', VS newHash)])]
                   @ evs
                   @ (case r of
                        Inl e \<Rightarrow> [Log (log_line Error ''policy.reload_failed'' [(''err'', VS (tx_error tx e))])]
                      | Inr _ \<Rightarrow> []))))"

definition reload_effects ::
  "(string \<Rightarrow> int \<Rightarrow> string \<Rightarrow> proc_info option) \<Rightarrow> app_config \<Rightarrow> (string \<times> policy) option \<Rightarrow> effect list" where
  "reload_effects lookup cfg ch =
     (case ch of
        None \<Rightarrow> []
      | Some (h, pol) \<Rightarrow>
          [Log (log_line Info ''policy.reloaded''
             [(''hash'', VS h), (''domain_count'', VI (int (length (AllowDomains pol)))),
              (''ip_count'', VI (int (length (AllowIPs pol)))),
              (''deny_domain_count'', VI (int (length (DenyDomains pol)))),
              (''deny_ip_count'', VI (int (length (DenyIPs pol))))]),
           Stop_services]
          @ start_service_effects lookup cfg pol
          @ [Log (log_line Info ''policy.applied''
               [(''mode'', VS (ac_mode cfg)), (''filter_count'', VI (int (length (AllowDomains pol))))])])"

definition shutdown_gracefully :: "texts \<Rightarrow> effect list" where
  "shutdown_gracefully tx =
     [Log (log_line Info ''shutdown.graceful'' [(''grace_period'', VS (tx_duration tx (3 * second)))]),
      Sleep (3 * second), Log (log_line Info ''shutdown.complete'' []), Flush_logs second]"

definition new_ticker :: "nanos \<Rightarrow> bool" where
  \<comment> \<open>\<^verbatim>\<open>time.NewTicker\<close> panics unless the interval is positive\<close>
  "new_ticker d \<longleftrightarrow> 0 < d"

datatype turn =
    Tick nft_prog "string \<Rightarrow> nat option" fs fs
  | Update \<comment> \<open>the supervisor looks at the channel\<close>
  | Signal string
  | Poller_begins

fun run_turns ::
  "env \<Rightarrow> yaml \<Rightarrow> (string \<Rightarrow> string) \<Rightarrow> (string \<Rightarrow> string) \<Rightarrow> texts \<Rightarrow>
   (string \<Rightarrow> int \<Rightarrow> string \<Rightarrow> proc_info option) \<Rightarrow> app_config \<Rightarrow> app_state \<Rightarrow> turn list \<Rightarrow>
   effect list \<times> app_state \<times> nat option" where
  \<comment> \<open>with the exit status, if the program has ended; a panic of a goroutine ends it with status 2\<close>
  "run_turns E Y getenv sha256 tx lookup cfg s [] = ([], s, None)"
| "run_turns E Y getenv sha256 tx lookup cfg s (t # ts) =
     (case t of
        Signal name \<Rightarrow>
          ([Log (log_line Info ''shutdown.signal'' [(''signal'', VS name)]), Stop_services] @ shutdown_gracefully tx, s, Some 0)
      | Poller_begins \<Rightarrow>
          if polling_enabled cfg \<and> \<not> new_ticker (ac_unblock_poll_interval cfg)
          then ([Panic ''non-positive interval for NewTicker''], s, Some 2)
          else run_turns E Y getenv sha256 tx lookup cfg s ts
      | Tick nft nlink fs1 fs2 \<Rightarrow>
          (let (evs, r) = run_turns E Y getenv sha256 tx lookup cfg (tick E Y getenv sha256 nft fs1 fs2 cfg s) ts
           in (tick_effects E Y getenv sha256 tx nft nlink fs1 fs2 cfg (as_hash s) @ evs, r))
      | Update \<Rightarrow>
          (let (evs, r) = run_turns E Y getenv sha256 tx lookup cfg (reload lookup cfg s) ts
           in (reload_effects lookup cfg (as_reload s) @ evs, r)))"

definition filter_main ::
  "env \<Rightarrow> yaml \<Rightarrow> (string \<Rightarrow> string) \<Rightarrow> (string \<Rightarrow> nanos option) \<Rightarrow> (string \<Rightarrow> string) \<Rightarrow> texts \<Rightarrow> build \<Rightarrow>
   string option \<Rightarrow> nft_prog \<Rightarrow> fs \<Rightarrow> fs \<Rightarrow> fs \<Rightarrow> (string \<Rightarrow> int \<Rightarrow> string \<Rightarrow> proc_info option) \<Rightarrow>
   string list \<Rightarrow> turn list \<Rightarrow> effect list \<times> nat option" where
  "filter_main E Y getenv parse_duration sha256 tx b nftOut nft fs0 fs1 fs2 lookup args turns =
     (case handle_version_flag args b of
        (evs, True) \<Rightarrow> (evs, Some 0)
      | (evs, False) \<Rightarrow>
          (case startup E Y getenv parse_duration sha256 tx b nftOut nft fs0 fs1 fs2 lookup of
             (evs1, Inl e) \<Rightarrow> (evs @ evs1 @ [Print_err (tx_error tx e @ [newline])], Some 1)
           | (evs1, Inr (cfg, s)) \<Rightarrow>
               (case run_turns E Y getenv sha256 tx lookup cfg s turns of
                  (evs2, s', status) \<Rightarrow> (evs @ evs1 @ evs2, status))))"

subsection \<open>The kernel along the effects\<close>

definition kernel_effect :: "string option \<Rightarrow> effect \<Rightarrow> string option" where
  "kernel_effect k ev =
     (case ev of
        Run_nft run err \<Rightarrow> if fst run = [''-f'', ''-''] \<and> err = None then Some (snd run) else k
      | _ \<Rightarrow> k)"

definition kernel_after :: "string option \<Rightarrow> effect list \<Rightarrow> string option" where
  "kernel_after k evs = foldl kernel_effect k evs"

fun guarded :: "(string option \<Rightarrow> service list \<Rightarrow> bool) \<Rightarrow> string option \<Rightarrow> effect list \<Rightarrow> bool" where
  \<comment> \<open>services start only where the kernel is as it should be\<close>
  "guarded P k [] = True"
| "guarded P k (ev # evs) =
     ((case ev of Start_services ss \<Rightarrow> P k ss | _ \<Rightarrow> True) \<and> guarded P (kernel_effect k ev) evs)"

lemma kernel_after_simps [simp]:
  "kernel_after k [] = k" "kernel_after k (ev # evs) = kernel_after (kernel_effect k ev) evs"
  "kernel_after k (evs @ evs') = kernel_after (kernel_after k evs) evs'"
  by (simp_all add: kernel_after_def)

lemma kernel_effect_simps [simp]:
  "kernel_effect k (Log l) = k" "kernel_effect k (Start_services ss) = k" "kernel_effect k Stop_services = k"
  "kernel_effect k (Print x) = k" "kernel_effect k (Print_err x) = k" "kernel_effect k (Panic x) = k"
  "kernel_effect k (Sleep d) = k" "kernel_effect k (Flush_logs d) = k" "kernel_effect k Start_nflog = k"
  "kernel_effect k (Start_watcher a d h) = k" "kernel_effect k (Start_poller u d) = k" "kernel_effect k (Start_learner u) = k"
  by (simp_all add: kernel_effect_def)

lemma guarded_append [simp]: "guarded P k (evs @ evs') \<longleftrightarrow> guarded P k evs \<and> guarded P (kernel_after k evs) evs'"
  by (induction evs arbitrary: k) simp_all

lemma guarded_at: "guarded P k (pre @ Start_services ss # post) \<Longrightarrow> P (kernel_after k pre) ss"
  by simp

lemma logs_simps [simp]:
  "kernel_after k (map Log ls) = k" "guarded P k (map Log ls)"
  by (induction ls) simp_all

lemma runs_simps [simp]:
  "kernel_after k (map (\<lambda>run. Run_nft run (nft run)) runs) = foldl (kernel_run nft) k runs"
  "guarded P k (map (\<lambda>run. Run_nft run (nft run)) runs)"
  by (induction runs arbitrary: k) (auto simp: kernel_effect_def kernel_run_def)

lemma load_effects:
  assumes "load_and_apply_policy E Y getenv nft fs cfg = (runs, r)"
  shows "kernel_after k (fst (load_and_apply_effects E Y getenv tx nft fs cfg)) = foldl (kernel_run nft) k runs"
    "guarded P k (fst (load_and_apply_effects E Y getenv tx nft fs cfg))"
    "snd (load_and_apply_effects E Y getenv tx nft fs cfg) = r"
  using assms
  by (auto simp: load_and_apply_effects_def load_and_apply_policy_def split: sum.splits)

lemma service_effects:
  "kernel_after k (start_service_effects lookup cfg pol) = k"
  "guarded P k (start_service_effects lookup cfg pol) \<longleftrightarrow> P k (start_services lookup cfg pol)"
  by (simp_all add: start_service_effects_def)

lemma reload_effects_kernel:
  "kernel_after k (reload_effects lookup cfg ch) = k"
  "guarded P k (reload_effects lookup cfg ch) \<longleftrightarrow> (\<forall>h pol. ch = Some (h, pol) \<longrightarrow> P k (start_services lookup cfg pol))"
  by (auto simp: reload_effects_def service_effects split: option.split)

lemma tick_effects_kernel:
  "kernel_after (as_kernel s) (tick_effects E Y getenv sha256 tx nft nlink fs1 fs2 cfg (as_hash s)) =
     as_kernel (tick E Y getenv sha256 nft fs1 fs2 cfg s)"
  "guarded P (as_kernel s) (tick_effects E Y getenv sha256 tx nft nlink fs1 fs2 cfg (as_hash s))"
proof -
  obtain runs r where l: "load_and_apply_policy E Y getenv nft fs2 cfg = (runs, r)" by fastforce
  note e = load_effects [OF l]
  show "kernel_after (as_kernel s) (tick_effects E Y getenv sha256 tx nft nlink fs1 fs2 cfg (as_hash s)) =
     as_kernel (tick E Y getenv sha256 nft fs1 fs2 cfg s)"
    using l e by (auto simp: tick_effects_def tick_def check_policy_tick_def case_prod_unfold split: sum.split)
  show "guarded P (as_kernel s) (tick_effects E Y getenv sha256 tx nft nlink fs1 fs2 cfg (as_hash s))"
    using l e by (auto simp: tick_effects_def case_prod_unfold split: sum.split)
qed

subsection \<open>No proxy without its ruleset\<close>

definition serves_policy ::
  "env \<Rightarrow> yaml \<Rightarrow> (string \<Rightarrow> string) \<Rightarrow> (string \<Rightarrow> int \<Rightarrow> string \<Rightarrow> proc_info option) \<Rightarrow> app_config \<Rightarrow>
   fs set \<Rightarrow> string option \<Rightarrow> service list \<Rightarrow> bool" where
  \<comment> \<open>the kernel has the ruleset of a policy that was read from one of these, and these are its services\<close>
  "serves_policy E Y getenv lookup cfg FS k ss \<longleftrightarrow>
     (\<exists>pol rtext. (\<exists>F \<in> FS. read E Y getenv F (ac_policy_path cfg) = Inr pol) \<and> ruleset_of E getenv cfg pol = Inr rtext \<and>
        k = Some rtext \<and> ss = start_services lookup cfg pol)"

definition all_stopped :: "effect list \<Rightarrow> bool" where
  \<comment> \<open>no service is started after the last stop\<close>
  "all_stopped evs \<longleftrightarrow> (\<exists>pre post. evs = pre @ Stop_services # post \<and> (\<forall>ss. Start_services ss \<notin> set post))"

lemma all_stopped_append: "all_stopped evs \<Longrightarrow> all_stopped (evs' @ evs)"
  unfolding all_stopped_def by (metis append.assoc)

definition policy_files :: "turn list \<Rightarrow> fs set" where
  \<comment> \<open>the file systems the ticks of the watcher may read the policy from\<close>
  "policy_files turns = {fs2. \<exists>nft nlink fs1. Tick nft nlink fs1 fs2 \<in> set turns}"

definition ended_by_signal :: "texts \<Rightarrow> turn list \<Rightarrow> effect list \<Rightarrow> bool" where
  \<comment> \<open>at the first signal, with all that belongs to the shutdown as the last effects\<close>
  "ended_by_signal tx turns evs \<longleftrightarrow>
     (\<exists>pre name post before. turns = pre @ Signal name # post \<and> (\<forall>n. Signal n \<notin> set pre) \<and>
        evs = before @ [Log (log_line Info ''shutdown.signal'' [(''signal'', VS name)]), Stop_services]
          @ shutdown_gracefully tx)"

lemma ended_later:
  assumes "ended_by_signal tx ts evs" "\<forall>n. t \<noteq> Signal n"
  shows "ended_by_signal tx (t # ts) (evs' @ evs)"
proof -
  obtain pre name post before where e: "ts = pre @ Signal name # post" "\<forall>n. Signal n \<notin> set pre"
    "evs = before @ [Log (log_line Info ''shutdown.signal'' [(''signal'', VS name)]), Stop_services] @ shutdown_gracefully tx"
    using assms(1) unfolding ended_by_signal_def by blast
  have "t # ts = (t # pre) @ Signal name # post" "\<forall>n. Signal n \<notin> set (t # pre)"
    "evs' @ evs = (evs' @ before) @ [Log (log_line Info ''shutdown.signal'' [(''signal'', VS name)]), Stop_services]
       @ shutdown_gracefully tx"
    using e assms(2) by auto
  then show ?thesis unfolding ended_by_signal_def by blast
qed

lemma ended_stopped: "ended_by_signal tx turns evs \<Longrightarrow> all_stopped evs"
proof -
  assume "ended_by_signal tx turns evs"
  then obtain name before where "evs = before @ [Log (log_line Info ''shutdown.signal'' [(''signal'', VS name)]), Stop_services]
      @ shutdown_gracefully tx"
    unfolding ended_by_signal_def by blast
  then have "evs = (before @ [Log (log_line Info ''shutdown.signal'' [(''signal'', VS name)])]) @ Stop_services # shutdown_gracefully tx"
    by simp
  moreover have "\<forall>ss. Start_services ss \<notin> set (shutdown_gracefully tx)" by (simp add: shutdown_gracefully_def)
  ultimately show ?thesis unfolding all_stopped_def by blast
qed

lemma turns_guarded:
  assumes "in_step E getenv lookup cfg s pol" "\<exists>F \<in> FS. read E Y getenv F (ac_policy_path cfg) = Inr pol"
    and "run_turns E Y getenv sha256 tx lookup cfg s turns = (evs, s', status)" "policy_files turns \<subseteq> FS"
  shows "guarded (serves_policy E Y getenv lookup cfg FS) (as_kernel s) evs \<and> kernel_after (as_kernel s) evs = as_kernel s' \<and>
    (\<exists>pol. in_step E getenv lookup cfg s' pol \<and> (\<exists>F \<in> FS. read E Y getenv F (ac_policy_path cfg) = Inr pol)) \<and>
    (status = None \<and> (\<forall>name. Signal name \<notin> set turns) \<or> status = Some 0 \<and> ended_by_signal tx turns evs \<or>
     status = Some 2 \<and> Poller_begins \<in> set turns \<and> polling_enabled cfg \<and> ac_unblock_poll_interval cfg \<le> 0)"
  using assms
proof (induction turns arbitrary: s pol evs)
  case Nil
  then show ?case by auto
next
  case (Cons t ts)
  have files: "policy_files ts \<subseteq> FS" using Cons.prems(4) by (auto simp: policy_files_def)
  show ?case
  proof (cases t)
    case (Tick nft nlink fs1 fs2)
    let ?s = "tick E Y getenv sha256 nft fs1 fs2 cfg s"
    let ?tick = "tick_effects E Y getenv sha256 tx nft nlink fs1 fs2 cfg (as_hash s)"
    obtain evs1 where r: "run_turns E Y getenv sha256 tx lookup cfg ?s ts = (evs1, s', status)" "evs = ?tick @ evs1"
      using Cons.prems(3) by (auto simp: Tick split: prod.splits)
    have "fs2 \<in> FS" using Cons.prems(4) by (auto simp: policy_files_def Tick)
    moreover obtain F where "F \<in> FS" "read E Y getenv F (ac_policy_path cfg) = Inr pol" using Cons.prems(2) by blast
    ultimately obtain pol' where "in_step E getenv lookup cfg ?s pol'"
      "\<exists>F \<in> FS. read E Y getenv F (ac_policy_path cfg) = Inr pol'"
      using tick_in_step [OF Cons.prems(1), of Y F sha256 nft fs1 fs2] by (auto split: if_splits)
    note ih = Cons.IH [OF this r(1) files]
    have "ended_by_signal tx ts evs1 \<Longrightarrow> ended_by_signal tx (t # ts) evs"
      unfolding r(2) by (rule ended_later) (simp_all add: Tick)
    then show ?thesis
      using ih unfolding r(2) by (auto simp: Tick tick_effects_kernel)
  next
    case Update
    let ?s = "reload lookup cfg s"
    obtain evs1 where r: "run_turns E Y getenv sha256 tx lookup cfg ?s ts = (evs1, s', status)"
      "evs = reload_effects lookup cfg (as_reload s) @ evs1"
      using Cons.prems(3) by (auto simp: Update split: prod.splits)
    have k: "as_kernel ?s = as_kernel s" by (simp add: reload_def split: option.split)
    have "\<forall>h p. as_reload s = Some (h, p) \<longrightarrow> serves_policy E Y getenv lookup cfg FS (as_kernel s) (start_services lookup cfg p)"
      using Cons.prems(1,2) by (auto simp: in_step_def serves_policy_def)
    moreover note ih = Cons.IH [OF reload_in_step [OF Cons.prems(1)] Cons.prems(2) r(1) files]
    moreover have "ended_by_signal tx ts evs1 \<Longrightarrow> ended_by_signal tx (t # ts) evs"
      unfolding r(2) by (rule ended_later) (simp_all add: Update)
    ultimately show ?thesis
      unfolding r(2) k by (auto simp: Update reload_effects_kernel)
  next
    case (Signal name)
    then have e: "evs = [] @ [Log (log_line Info ''shutdown.signal'' [(''signal'', VS name)]), Stop_services] @ shutdown_gracefully tx"
      "s' = s" "status = Some 0"
      using Cons.prems(3) by auto
    have "ended_by_signal tx (t # ts) evs"
      unfolding ended_by_signal_def e(1) Signal by (intro exI [of _ "[]"] exI [of _ name] exI [of _ ts]) simp
    then show ?thesis using Cons.prems(1,2) e by (auto simp: shutdown_gracefully_def)
  next
    case Poller_begins
    show ?thesis
    proof (cases "polling_enabled cfg \<and> \<not> new_ticker (ac_unblock_poll_interval cfg)")
      case True
      then show ?thesis using Cons.prems by (auto simp: Poller_begins new_ticker_def)
    next
      case False
      then have r: "run_turns E Y getenv sha256 tx lookup cfg s ts = (evs, s', status)"
        using Cons.prems(3) by (auto simp: Poller_begins split: if_splits)
      have "ended_by_signal tx ts evs \<Longrightarrow> ended_by_signal tx (t # ts) ([] @ evs)"
        by (rule ended_later) (simp_all add: Poller_begins)
      then show ?thesis using Cons.IH [OF Cons.prems(1,2) r files] by (auto simp: Poller_begins)
    qed
  qed
qed

definition starts :: "effect \<Rightarrow> bool" where
  \<comment> \<open>a goroutine that goes on by itself\<close>
  "starts ev \<longleftrightarrow>
     (case ev of
        Start_learner p \<Rightarrow> True | Start_services ss \<Rightarrow> True | Start_nflog \<Rightarrow> True | Start_watcher p d h \<Rightarrow> True | Start_poller u d \<Rightarrow> True
      | _ \<Rightarrow> False)"

definition started :: "effect list \<Rightarrow> effect list" where
  "started evs = filter starts evs"

lemma started_simps [simp]:
  "started [] = []" "started (evs @ evs') = started evs @ started evs'" "started (Log l # evs) = started evs"
  by (simp_all add: started_def starts_def)

lemma idle_effects:
  "started (map Log ls) = []"
  "started (fst (load_and_apply_effects E Y getenv tx nft fs cfg)) = []"
  "started (setup_learning_effects cfg) = (if ac_learning_mode cfg then [Start_learner (ac_policy_path cfg)] else [])"
  by (auto simp: started_def filter_empty_conv starts_def setup_learning_effects_def load_and_apply_effects_def
      split: prod.split sum.split)

lemma setup_effects_kernel [simp]:
  "kernel_after k (setup_learning_effects cfg) = k" "guarded P k (setup_learning_effects cfg)"
  "kernel_after k start_nflog_stream = k" "guarded P k start_nflog_stream"
  "kernel_after k (start_remote_unblock_polling tx cfg) = k" "guarded P k (start_remote_unblock_polling tx cfg)"
  by (simp_all add: setup_learning_effects_def start_nflog_stream_def start_remote_unblock_polling_def)

lemma startup_cases:
  assumes "startup E Y getenv parse_duration sha256 tx b nftOut nft fs0 fs1 fs2 lookup = (evs, r)"
  obtains (failed) e where "r = Inl e"
      "\<exists>cfg. cfg = resolved_config E getenv parse_duration fs0 \<and>
         (started evs = [] \<or> ac_learning_mode cfg \<and> started evs = [Start_learner (ac_policy_path cfg)])"
      "run_config E getenv parse_duration fs0 = Inl e \<or>
       (\<exists>cfg runs. run_config E getenv parse_duration fs0 = Inr cfg \<and>
          load_and_apply_policy E Y getenv nft fs1 cfg = (runs, Inl e))"
  | (up) cfg s where "r = Inr (cfg, s)" "run_config E getenv parse_duration fs0 = Inr cfg"
      "app_start E Y getenv sha256 nft fs1 fs2 lookup cfg = Inr s" "kernel_after None evs = as_kernel s"
      "guarded (serves_policy E Y getenv lookup cfg {fs1}) None evs"
proof -
  let ?cfg2 = "resolve_policy_path getenv fs0 fallback_policy_path (normalize_mode (load_app_config E getenv parse_duration))"
  let ?cfg = "setup_proc_info E getenv (setup_learning ?cfg2)"
  have c2: "?cfg2 = resolved_config E getenv parse_duration fs0"
    by (simp add: resolved_config_def fallback_policy_path_def)
  show thesis
  proof (cases "validate_ports ?cfg2")
    case (Inl e)
    then show thesis
      using assms
      by (intro failed [of e]) (auto simp: startup_def Let_def idle_effects run_config_def c2)
  next
    case (Inr u)
    then have run: "run_config E getenv parse_duration fs0 = Inr ?cfg"
      by (simp add: run_config_def c2 Let_def)
    obtain runs lr where l: "load_and_apply_policy E Y getenv nft fs1 ?cfg = (runs, lr)" by fastforce
    obtain evs3 where e3: "load_and_apply_effects E Y getenv tx nft fs1 ?cfg = (evs3, lr)"
      using load_effects(3) [OF l, of tx] by (metis prod.collapse)
    show thesis
    proof (cases lr)
      case (Inl e)
      then show thesis
        using assms Inr e3 idle_effects(2) [of E Y getenv tx nft fs1 ?cfg] run l
        by (intro failed [of e]) (auto simp: startup_def Let_def idle_effects c2 split: if_splits)
    next
      case lr: (Inr pol)
      then obtain s where s: "app_start E Y getenv sha256 nft fs1 fs2 lookup ?cfg = Inr s"
        using l by (simp add: app_start_def)
      obtain pol' where pol': "in_step E getenv lookup ?cfg s pol'" "as_reload s = None"
        "read E Y getenv fs1 (ac_policy_path ?cfg) = Inr pol'" using start_in_step [OF s] by blast
      have k: "kernel_after None evs3 = as_kernel s" "guarded P None evs3" for P
        using load_effects(1) [OF l, of None tx] load_effects(2) [OF l, of P None tx] e3 s l lr by (auto simp: app_start_def)
      have "as_services s = start_services lookup ?cfg pol" using s l lr by (auto simp: app_start_def)
      then have "serves_policy E Y getenv lookup ?cfg {fs1} (as_kernel s) (start_services lookup ?cfg pol)"
        using pol' by (auto simp: serves_policy_def in_step_def)
      then show thesis
        using assms Inr e3 lr s k run
        by (intro up [of ?cfg s]) (auto simp: startup_def Let_def service_effects split: sum.splits)
    qed
  qed
qed

lemma guarded_mono: "guarded P k evs \<Longrightarrow> (\<And>k ss. P k ss \<Longrightarrow> Q k ss) \<Longrightarrow> guarded Q k evs"
  by (induction evs arbitrary: k) (auto split: effect.splits)

text \<open>C4: The program fails closed. Whatever the environment, the files, \<^verbatim>\<open>nft\<close> and the sequence of
  events, there are three outcomes. The arguments ask for the version: then nothing is started. The start
  fails with exit status 1: then nothing was started either, but in learning mode the learner, which has
  nothing to write yet. Or the program is up: then a ruleset of a policy that was read from the files in
  this run stays in the kernel, while the program runs and after it has ended, and wherever services
  were started the last ruleset loaded by then is the one of their policy. It runs on while there is no
  signal; exit status 0 means that it ended at the first signal, the last effects being that it stopped
  the services and shut down in good order; the only other end is the panic of the poller for a poll
  interval that is not positive.\<close>

theorem startup_fail_closed:
  assumes "filter_main E Y getenv parse_duration sha256 tx b nftOut nft fs0 fs1 fs2 lookup args turns = (evs, status)"
  shows "snd (handle_version_flag args b) \<and> status = Some 0 \<and> started evs = [] \<or>
    status = Some 1 \<and> (started evs = [] \<or>
      (\<exists>path. started evs = [Start_learner path] \<and> ac_learning_mode (resolved_config E getenv parse_duration fs0))) \<or>
    (\<exists>cfg pol rtext. run_config E getenv parse_duration fs0 = Inr cfg \<and>
       (\<exists>F \<in> insert fs1 (policy_files turns). read E Y getenv F (ac_policy_path cfg) = Inr pol) \<and>
       ruleset_of E getenv cfg pol = Inr rtext \<and> kernel_after None evs = Some rtext \<and>
       (\<forall>pre ss post. evs = pre @ Start_services ss # post \<longrightarrow>
          serves_policy E Y getenv lookup cfg (insert fs1 (policy_files turns)) (kernel_after None pre) ss) \<and>
       (status = None \<and> (\<forall>name. Signal name \<notin> set turns) \<or>
        status = Some 0 \<and> ended_by_signal tx turns evs \<and> all_stopped evs \<or>
        status = Some 2 \<and> Poller_begins \<in> set turns \<and> polling_enabled cfg \<and> ac_unblock_poll_interval cfg \<le> 0))"
proof (cases "snd (handle_version_flag args b)")
  case True
  then show ?thesis
    using assms
    by (auto simp: filter_main_def handle_version_flag_def print_version_def started_def starts_def Let_def
        split: list.splits if_splits)
next
  case False
  then have flag: "handle_version_flag args b = ([], False)"
    by (auto simp: handle_version_flag_def split: list.splits if_splits)
  let ?FS = "insert fs1 (policy_files turns)"
  obtain evs1 r where st: "startup E Y getenv parse_duration sha256 tx b nftOut nft fs0 fs1 fs2 lookup = (evs1, r)"
    by fastforce
  from st show ?thesis
  proof (cases rule: startup_cases)
    case (failed e)
    have "status = Some 1" "started evs = started evs1"
      using assms failed(1) by (auto simp: filter_main_def flag st started_def starts_def)
    then show ?thesis using failed(2) by auto
  next
    case (up cfg s)
    obtain evs2 s' where t: "run_turns E Y getenv sha256 tx lookup cfg s turns = (evs2, s', status)" "evs = evs1 @ evs2"
      using assms by (auto simp: filter_main_def flag st up(1) split: prod.splits)
    obtain pol where pol: "in_step E getenv lookup cfg s pol" "\<exists>F \<in> ?FS. read E Y getenv F (ac_policy_path cfg) = Inr pol"
      using start_in_step [OF up(3)] by blast
    note turns = turns_guarded [OF pol t(1) subset_insertI]
    have "guarded (serves_policy E Y getenv lookup cfg ?FS) None evs1"
      using up(5) by (rule guarded_mono) (auto simp: serves_policy_def)
    then have g: "guarded (serves_policy E Y getenv lookup cfg ?FS) None evs" "kernel_after None evs = as_kernel s'"
      using turns up(4) by (simp_all add: t(2))
    obtain pol' where "in_step E getenv lookup cfg s' pol'" "\<exists>F \<in> ?FS. read E Y getenv F (ac_policy_path cfg) = Inr pol'"
      using turns by blast
    then have k: "\<exists>pol rtext. (\<exists>F \<in> ?FS. read E Y getenv F (ac_policy_path cfg) = Inr pol) \<and>
        ruleset_of E getenv cfg pol = Inr rtext \<and> kernel_after None evs = Some rtext"
      unfolding g(2) in_step_def by blast
    have s: "\<forall>pre ss post. evs = pre @ Start_services ss # post \<longrightarrow>
        serves_policy E Y getenv lookup cfg ?FS (kernel_after None pre) ss"
      using g(1) guarded_at by blast
    have "ended_by_signal tx turns evs2 \<Longrightarrow> ended_by_signal tx turns evs"
      unfolding t(2) ended_by_signal_def by (metis append.assoc)
    then have e: "status = None \<and> (\<forall>name. Signal name \<notin> set turns) \<or>
        status = Some 0 \<and> ended_by_signal tx turns evs \<and> all_stopped evs \<or>
        status = Some 2 \<and> Poller_begins \<in> set turns \<and> polling_enabled cfg \<and> ac_unblock_poll_interval cfg \<le> 0"
      using turns ended_stopped by blast
    from k s e up(2) show ?thesis by blast
  qed
qed

subsection \<open>An example\<close>

definition sample_texts :: texts where
  "sample_texts = \<lparr>tx_duration = (\<lambda>d. itoa d), tx_error = (\<lambda>e. ''error'')\<rparr>"

definition sample_build :: build where
  "sample_build = \<lparr>bd_version = [], bd_date = [], bd_commit = [], bd_go = None\<rparr>"

text \<open>The program starts with the policy of the environment and ends on a signal; the ruleset stays.\<close>

theorem startup_fail_closed_witness:
  "\<exists>evs rtext. filter_main ascii_env sample_yaml (gate_env ''block'') (\<lambda>_. None) (\<lambda>b. b) sample_texts sample_build None
      (\<lambda>_. None) (\<lambda>_. None) (\<lambda>_. None) (\<lambda>_. None) no_proc [''g0efilter''] [Signal ''terminated''] = (evs, Some 0) \<and>
    kernel_after None evs = Some rtext \<and> all_stopped evs"
proof -
  let ?e = "gate_env ''block''" and ?no = "\<lambda>_. None"
  note facts = gate_facts [OF disjI1 [OF refl]]
  obtain evs status where main: "filter_main ascii_env sample_yaml ?e ?no (\<lambda>b. b) sample_texts sample_build None
      ?no ?no ?no ?no no_proc [''g0efilter''] [Signal ''terminated''] = (evs, status)" by fastforce
  obtain evs1 r where st: "startup ascii_env sample_yaml ?e ?no (\<lambda>b. b) sample_texts sample_build None ?no ?no ?no ?no no_proc = (evs1, r)"
    by fastforce
  obtain rtext where rt: "ruleset_of ascii_env ?e (gate_config ''block'') gate_policy = Inr rtext"
    by (simp add: ruleset_of_def facts policy_ruleset_def sample_ports Let_def case_prod_unfold)
  have load: "snd (load_and_apply_policy ascii_env sample_yaml ?e ?no ?no (gate_config ''block'')) = Inr gate_policy"
    using rt by (simp add: load_and_apply_policy_def facts gate_read apply_policy_rules_with_context_def
        ruleset_of_def validate_and_parse_ruleset_def apply_ruleset_def)
  from st obtain cfg s where "r = Inr (cfg, s)"
    by (cases rule: startup_cases) (use facts(8) load in auto)
  then have "status = Some 0" using main st by (simp add: filter_main_def handle_version_flag_def)
  moreover have "\<not> snd (handle_version_flag [''g0efilter''] sample_build)" by (simp add: handle_version_flag_def)
  ultimately show ?thesis using startup_fail_closed [OF main] main by auto
qed

end
