(* ===== verification/DashMain.thy ===== *)
theory DashMain
  imports DashServer Startup
begin

text \<open>
  The command of the dashboard from its arguments to its exit status:
  \<^verbatim>\<open>cmd/g0efilter-dashboard/main.go\<close>, \<^verbatim>\<open>RunDashboard\<close> in
  \<^verbatim>\<open>internal/dashboard/app.go\<close> and \<^verbatim>\<open>Run\<close> with the outer middlewares in
  \<^verbatim>\<open>server.go\<close>. The effects are listed in their order, with the log lines at the levels info,
  warning and error. The server is driven by \<open>dash_turn\<close>s: a request, a step of an event stream, a
  signal, the end of \<^verbatim>\<open>Serve\<close> with an error. Whether the address can be listened at is an argument.
\<close>

subsection \<open>Effects\<close>

datatype dash_out =
    Out string
  | Err string
  | Line log_line
  | Listen string
  | Respond nat dash_body "(string \<times> string) list" \<comment> \<open>with the headers set by the outer middlewares\<close>
  | Shutdown_server nanos
  | Flush nanos

definition dash_name :: string where "dash_name = ''g0efilter-dashboard''"

definition dash_print_version :: "build \<Rightarrow> dash_out list" where
  "dash_print_version b =
     (let short = (if length (bd_commit b) \<ge> 7 then take 7 (bd_commit b) else bd_commit b)
      in [Err (dash_name @ '' v'' @ bd_version b @ '' '' @ short @ '' ('' @ bd_date b @ '') '' @ get_go_version b @ [newline]),
          Err (''Copyright (C) 2026 g0lab'' @ [newline]),
          Err (''Licensed under the MIT license'' @ [newline])])"

definition dash_version_flag :: "string list \<Rightarrow> build \<Rightarrow> dash_out list \<times> bool" where
  "dash_version_flag args b =
     (case args of
        a0 # arg # _ \<Rightarrow>
          if arg = ''--version'' \<or> arg = ''version'' \<or> arg = ''-V'' \<or> arg = ''-v''
          then (dash_print_version b, True) else ([], False)
      | _ \<Rightarrow> ([], False))"

definition setup_logging_out :: "(rat \<Rightarrow> string) \<Rightarrow> build \<Rightarrow> dash_config \<Rightarrow> dash_out list" where
  \<comment> \<open>what \<^verbatim>\<open>setupLogging\<close> prints and logs; the argument prints a float\<close>
  "setup_logging_out show_float b cfg =
     (if cf_api_key cfg = [] then
        [Err (''ERROR: API_KEY environment variable is required but not set'' @ [newline]),
         Err (''The dashboard requires an API key for secure log ingestion'' @ [newline]),
         Err (''Please set API_KEY to a secure random string'' @ [newline]),
         Line (log_line Error ''config.missing_api_key'' [(''msg'', VS ''API_KEY is required'')])]
      else
        (let shortCommit = (if length (bd_commit b) > 7 then take 7 (bd_commit b) else bd_commit b)
         in [Line (log_line Info ''starting''
               [(''version'', VS (bd_version b)), (''commit'', VS shortCommit), (''go_version'', VS (get_go_version b)),
                (''build_date'', VS (bd_date b)), (''addr'', VS (cf_addr cfg)),
                (''buffer_size'', VI (cf_buffer_size cfg)), (''read_limit'', VI (cf_read_limit cfg)),
                (''sse_retry_ms'', VI (cf_retry_ms cfg)), (''rate_rps'', VS (show_float (cf_rate_rps cfg))),
                (''rate_burst'', VS (show_float (cf_rate_burst cfg))), (''write_timeout'', VI (cf_write_timeout cfg))])]))"

subsection \<open>The outer middlewares\<close>

definition content_security_policy :: string where
  "content_security_policy =
     (let q = (\<lambda>s. [CHR 0x27] @ s @ [CHR 0x27])
      in ''default-src '' @ q ''self'' @ ''; ''
         @ ''script-src '' @ q ''self'' @ '' '' @ q ''unsafe-inline'' @ ''; ''
         @ ''style-src '' @ q ''self'' @ '' '' @ q ''unsafe-inline'' @ ''; ''
         @ ''img-src '' @ q ''self'' @ '' data:; ''
         @ ''connect-src '' @ q ''self'' @ ''; ''
         @ ''frame-ancestors '' @ q ''none'')"

definition security_headers :: "(string \<times> string) list" where
  "security_headers =
     [(''Content-Security-Policy'', content_security_policy), (''X-Content-Type-Options'', ''nosniff''),
      (''X-Frame-Options'', ''DENY''), (''Referrer-Policy'', ''strict-origin-when-cross-origin'')]"

definition security_headers_middleware :: "dash_server \<times> dash_response \<Rightarrow> dash_server \<times> dash_out" where
  \<comment> \<open>the headers are set before the next handler writes\<close>
  "security_headers_middleware x = (case x of (s, code, body) \<Rightarrow> (s, Respond code body security_headers))"

subsection \<open>The server\<close>

datatype dash_turn =
    Request dash_io dash_request
  | Stream_step broadcaster
  | Dash_signal string bool \<comment> \<open>and whether the server has shut down within the grace period\<close>
  | Serve_error string

definition shutdown_grace_period :: nanos where "shutdown_grace_period = 3 * second"

fun dash_turns ::
  "env \<Rightarrow> dash_lib \<Rightarrow> http_lib \<Rightarrow> (nanos \<Rightarrow> string) \<Rightarrow> dash_config \<Rightarrow> dash_server \<Rightarrow> dash_turn list \<Rightarrow>
   dash_out list \<times> dash_server \<times> nat option" where
  \<comment> \<open>the select loops of \<^verbatim>\<open>Run\<close> and \<^verbatim>\<open>RunDashboard\<close> with the handlers in between\<close>
  "dash_turns E L H show cfg s [] = ([], s, None)"
| "dash_turns E L H show cfg s (t # ts) =
     (case t of
        Request io r \<Rightarrow>
          (let (s1, resp) = security_headers_middleware (serve E L H io s r);
               (out, res) = dash_turns E L H show cfg s1 ts
           in (resp # out, res))
      | Stream_step b \<Rightarrow> dash_turns E L H show cfg (s\<lparr>sv_bc := b\<rparr>) ts
      | Dash_signal name quick \<Rightarrow>
          ([Line (log_line Info ''shutdown.signal'' [(''signal'', VS name)]),
            Line (log_line Info ''shutdown.graceful'' [(''grace_period'', VS (show shutdown_grace_period))]),
            Shutdown_server (5 * second)]
           @ (if quick then [Line (log_line Info ''dashboard.shutdown'' [])]
              else [Line (log_line Warn ''shutdown.timeout'' [(''timeout'', VS (show shutdown_grace_period))])])
           @ [Flush second, Line (log_line Info ''shutdown.complete'' [])], s, Some 0)
      | Serve_error e \<Rightarrow>
          ([Line (log_line Error ''dashboard.serve_failed'' [(''addr'', VS (cf_addr cfg)), (''error'', VS e)]),
            Line (log_line Error ''dashboard.failed'' [(''err'', VS e)]),
            Line (log_line Error ''failed'' [(''err'', VS e)]), Err (e @ [newline])], s, Some 1))"

definition dash_run ::
  "env \<Rightarrow> dash_lib \<Rightarrow> http_lib \<Rightarrow> (nanos \<Rightarrow> string) \<Rightarrow> nanos \<Rightarrow> string option \<Rightarrow> dash_config \<Rightarrow> dash_turn list \<Rightarrow>
   dash_out list \<times> dash_server option \<times> nat option" where
  \<comment> \<open>with the error of the listen, if it fails\<close>
  "dash_run E L H show now listenErr cfg turns =
     (let srv = new_server now cfg;
          out1 = [Line (log_line Info ''dashboard.running'' [(''addr'', VS (cf_addr cfg))])]
      in case listenErr of
           Some e \<Rightarrow>
             (let e' = ''listen '' @ cf_addr cfg @ '': '' @ e
              in (out1 @ [Line (log_line Error ''dashboard.listen_failed'' [(''addr'', VS (cf_addr cfg)), (''error'', VS e)]),
                          Line (log_line Error ''failed'' [(''err'', VS e')]), Err (e' @ [newline])], None, Some 1))
         | None \<Rightarrow>
             (let (out2, s, status) = dash_turns E L H show cfg srv turns
              in (out1 @ [Listen (cf_addr cfg)] @ out2, Some s, status)))"

definition dash_main ::
  "env \<Rightarrow> dash_lib \<Rightarrow> http_lib \<Rightarrow> (nanos \<Rightarrow> string) \<Rightarrow> (rat \<Rightarrow> string) \<Rightarrow> (string \<Rightarrow> string) \<Rightarrow> (string \<Rightarrow> rat option) \<Rightarrow>
   build \<Rightarrow> nanos \<Rightarrow> string option \<Rightarrow> string list \<Rightarrow> dash_turn list \<Rightarrow>
   dash_out list \<times> dash_server option \<times> nat option" where
  "dash_main E L H show show_float getenv parse_float b now listenErr args turns =
     (case dash_version_flag args b of
        (out, True) \<Rightarrow> (out, None, Some 0)
      | (out, False) \<Rightarrow>
          (let cfg = normalize_addr (build_config getenv parse_float (bd_version b));
               out1 = setup_logging_out show_float b cfg
           in case setup_logging cfg of
                Inl e \<Rightarrow> (out @ out1 @ [Err (''API_KEY is required but not set'' @ [newline])], None, Some 1)
              | Inr _ \<Rightarrow>
                  (let (out2, s, status) = dash_run E L H show now listenErr cfg turns
                   in (out @ out1 @ out2, s, status))))"

subsection \<open>Outcomes\<close>

definition responses :: "dash_out list \<Rightarrow> (nat \<times> dash_body \<times> (string \<times> string) list) list" where
  "responses out = List.map_filter (\<lambda>x. case x of Respond c b hs \<Rightarrow> Some (c, b, hs) | _ \<Rightarrow> None) out"

definition listens :: "dash_out list \<Rightarrow> bool" where
  "listens out \<longleftrightarrow> list_ex (\<lambda>x. case x of Listen a \<Rightarrow> True | _ \<Rightarrow> False) out"

definition ends :: "dash_turn \<Rightarrow> bool" where
  "ends t \<longleftrightarrow> (case t of Dash_signal name quick \<Rightarrow> True | Serve_error e \<Rightarrow> True | _ \<Rightarrow> False)"

definition requests :: "dash_turn list \<Rightarrow> (dash_io \<times> dash_request) list" where
  "requests ts = List.map_filter (\<lambda>t. case t of Request io r \<Rightarrow> Some (io, r) | _ \<Rightarrow> None) ts"

definition exit_status :: "dash_turn list \<Rightarrow> nat option" where
  "exit_status ts =
     (case dropWhile (\<lambda>t. \<not> ends t) ts of [] \<Rightarrow> None | Dash_signal name quick # _ \<Rightarrow> Some 0 | _ \<Rightarrow> Some 1)"

lemma responses_simps [simp]:
  "responses [] = []" "responses (x # out) = (case x of Respond c b hs \<Rightarrow> [(c, b, hs)] | _ \<Rightarrow> []) @ responses out"
  "responses (out @ out') = responses out @ responses out'"
  by (simp_all add: responses_def List.map_filter_def split: dash_out.split)

lemma listens_simps [simp]:
  "\<not> listens []" "listens (x # out) \<longleftrightarrow> (case x of Listen a \<Rightarrow> True | _ \<Rightarrow> False) \<or> listens out"
  "listens (out @ out') \<longleftrightarrow> listens out \<or> listens out'"
  by (simp_all add: listens_def)

lemma requests_simps [simp]:
  "requests [] = []" "requests (t # ts) = (case t of Request io r \<Rightarrow> [(io, r)] | _ \<Rightarrow> []) @ requests ts"
  by (simp_all add: requests_def List.map_filter_def split: dash_turn.split)

text \<open>Every request is answered from a state that earlier requests and streams have led to.\<close>

inductive dash_states :: "env \<Rightarrow> dash_lib \<Rightarrow> http_lib \<Rightarrow> dash_server \<Rightarrow> dash_server \<Rightarrow> bool" for E L H where
  states_start: "dash_states E L H s s"
| states_request: "dash_states E L H (fst (serve E L H io s r)) s' \<Longrightarrow> dash_states E L H s s'"
| states_stream: "dash_states E L H (s\<lparr>sv_bc := b\<rparr>) s' \<Longrightarrow> dash_states E L H s s'"

definition answers ::
  "env \<Rightarrow> dash_lib \<Rightarrow> http_lib \<Rightarrow> dash_server \<Rightarrow> nat \<times> dash_body \<times> (string \<times> string) list \<Rightarrow> dash_io \<times> dash_request \<Rightarrow> bool" where
  "answers E L H s resp req \<longleftrightarrow>
     (case (resp, req) of ((c, b, hs), (io, r)) \<Rightarrow>
        hs = security_headers \<and> (\<exists>s1. dash_states E L H s s1 \<and> snd (serve E L H io s1 r) = (c, b)))"

lemma answers_later:
  assumes "list_all2 (answers E L H s1) xs ys" "\<And>s2. dash_states E L H s1 s2 \<Longrightarrow> dash_states E L H s s2"
  shows "list_all2 (answers E L H s) xs ys"
  using assms(1) by (rule list_all2_mono) (use assms(2) in \<open>auto simp: answers_def\<close>)

lemma turns_outcome:
  assumes "dash_turns E L H show cfg s ts = (out, s', status)"
  shows "status = exit_status ts \<and> \<not> listens out \<and>
    list_all2 (answers E L H s) (responses out) (requests (takeWhile (\<lambda>t. \<not> ends t) ts))"
  using assms
proof (induction ts arbitrary: s out)
  case Nil
  then show ?case by (simp add: exit_status_def)
next
  case (Cons t ts)
  show ?case
  proof (cases t)
    case (Request io r)
    obtain s1 c b where x: "serve E L H io s r = (s1, c, b)" by (metis prod.exhaust)
    obtain out1 where o: "dash_turns E L H show cfg s1 ts = (out1, s', status)" "out = Respond c b security_headers # out1"
      using Cons.prems by (auto simp: Request x security_headers_middleware_def split: prod.splits)
    have "dash_states E L H s s2" if "dash_states E L H s1 s2" for s2
      using that states_request [of E L H io s r s2] by (simp add: x)
    then have m: "list_all2 (answers E L H s) (responses out1) (requests (takeWhile (\<lambda>t. \<not> ends t) ts))"
      using Cons.IH [OF o(1)] by (blast intro: answers_later)
    have "answers E L H s (c, b, security_headers) (io, r)"
      using states_start [of E L H s] x by (auto simp: answers_def)
    then show ?thesis
      using m Cons.IH [OF o(1)] by (simp add: o(2) Request ends_def exit_status_def)
  next
    case (Stream_step b)
    then have o: "dash_turns E L H show cfg (s\<lparr>sv_bc := b\<rparr>) ts = (out, s', status)" using Cons.prems by simp
    have "list_all2 (answers E L H s) (responses out) (requests (takeWhile (\<lambda>t. \<not> ends t) ts))"
      using Cons.IH [OF o] states_stream by (blast intro: answers_later)
    then show ?thesis using Cons.IH [OF o] by (simp add: Stream_step ends_def exit_status_def)
  next
    case (Dash_signal name quick)
    then show ?thesis using Cons.prems by (cases quick) (auto simp: ends_def exit_status_def)
  next
    case (Serve_error e)
    then show ?thesis using Cons.prems by (auto simp: ends_def exit_status_def)
  qed
qed

text \<open>C40: What becomes of a run of the dashboard. With a version flag it prints and exits with 0;
  without a key it exits with 1 before it listens; when it cannot listen it exits with 1. Otherwise
  it answers every request up to the signal or the error of the server that ends it, in order, each as
  the routes and handlers do in a state that came of earlier requests and streams, with the four
  security headers on every answer, and exits with 0 on a signal and 1 on an error.\<close>

theorem dashboard_outcomes:
  assumes "dash_main E L H show show_float getenv parse_float b now listenErr args turns = (out, srv, status)"
  shows "if snd (dash_version_flag args b) then status = Some 0 \<and> \<not> listens out \<and> responses out = []
    else if trim_space (getenv ''API_KEY'') = [] then status = Some 1 \<and> \<not> listens out \<and> responses out = []
    else if listenErr \<noteq> None then status = Some 1 \<and> \<not> listens out \<and> responses out = []
    else status = exit_status turns \<and> listens out \<and>
      list_all2 (answers E L H (new_server now (normalize_addr (build_config getenv parse_float (bd_version b)))))
        (responses out) (requests (takeWhile (\<lambda>t. \<not> ends t) turns))"
proof (cases "snd (dash_version_flag args b)")
  case True
  then show ?thesis
    using assms
    by (auto simp: dash_main_def dash_version_flag_def dash_print_version_def Let_def split: list.splits if_splits)
next
  case False
  then have flag: "dash_version_flag args b = ([], False)"
    by (auto simp: dash_version_flag_def split: list.splits if_splits)
  let ?cfg = "normalize_addr (build_config getenv parse_float (bd_version b))"
  have key: "cf_api_key ?cfg = trim_space (getenv ''API_KEY'')"
    by (simp add: normalize_addr_def build_config_def dash_getenv_def Let_def)
  have q: "responses (setup_logging_out show_float b cfg) = []" "\<not> listens (setup_logging_out show_float b cfg)" for cfg
    by (simp_all add: setup_logging_out_def Let_def)
  show ?thesis
  proof (cases "cf_api_key ?cfg = []")
    case True
    then show ?thesis using assms key False by (auto simp: dash_main_def flag setup_logging_def q)
  next
    case run: False
    obtain out2 where r: "dash_run E L H show now listenErr ?cfg turns = (out2, srv, status)"
      "out = setup_logging_out show_float b ?cfg @ out2"
      using assms run by (auto simp: dash_main_def flag setup_logging_def Let_def split: prod.splits)
    show ?thesis
    proof (cases listenErr)
      case (Some e)
      then show ?thesis using r run key False by (auto simp: dash_run_def q)
    next
      case None
      obtain out3 s where t: "dash_turns E L H show ?cfg (new_server now ?cfg) turns = (out3, s, status)"
        "out2 = [Line (log_line Info ''dashboard.running'' [(''addr'', VS (cf_addr ?cfg))]), Listen (cf_addr ?cfg)] @ out3"
        using r(1) by (auto simp: dash_run_def None split: prod.splits)
      from turns_outcome [OF t(1)] show ?thesis using run key False None by (simp add: r(2) t(2) q)
    qed
  qed
qed

text \<open>A request without a key, then a signal.\<close>

theorem dashboard_outcomes_witness:
  "\<exists>out srv c b. dash_main ascii_env sample_dash_lib sample_http_lib itoa (\<lambda>_. []) sample_getenv (\<lambda>_. None) sample_build 0 None
      [''g0efilter-dashboard''] [Request sample_io (sample_request ''POST'' ''/api/v1/logs'' []), Dash_signal ''terminated'' True]
      = (out, srv, Some 0) \<and> responses out = [(c, b, security_headers)]"
proof -
  let ?turns = "[Request sample_io (sample_request ''POST'' ''/api/v1/logs'' []), Dash_signal ''terminated'' True]"
  obtain out srv status where m: "dash_main ascii_env sample_dash_lib sample_http_lib itoa (\<lambda>_. []) sample_getenv (\<lambda>_. None)
      sample_build 0 None [''g0efilter-dashboard''] ?turns = (out, srv, status)"
    by (metis prod.exhaust)
  have f: "\<not> snd (dash_version_flag [''g0efilter-dashboard''] sample_build)" "trim_space (sample_getenv ''API_KEY'') \<noteq> []"
    by code_simp+
  from dashboard_outcomes [OF m] f show ?thesis
    using m by (auto simp: exit_status_def ends_def answers_def list_all2_Cons2)
qed

end
