(* ===== verification/Nflog.thy ===== *)
theory Nflog
  imports FilterCommon Firewall
begin

text \<open>
  The second half of \<^verbatim>\<open>internal/nftables/nftables.go\<close>: the packets the kernel logs in group 0
  become log lines. The decoder \<^verbatim>\<open>gopacket\<close> and the netlink library are parameters; a decoded
  packet is what the code reads from it.
\<close>

definition min_packet_size :: nat where "min_packet_size = 20"

subsection \<open>Configuration\<close>

definition parse_uint32 :: "string \<Rightarrow> 32 word option" where
  \<comment> \<open>\<^verbatim>\<open>strconv.ParseUint(s, 10, 32)\<close>: digits only, no sign, in range\<close>
  "parse_uint32 s =
     (if s = [] then None
      else case digits_val 0 s of
             None \<Rightarrow> None
           | Some n \<Rightarrow> if n < 2 ^ 32 then Some (word_of_nat n) else None)"

definition env_uint32 :: "string \<Rightarrow> 32 word \<Rightarrow> 32 word" where
  "env_uint32 value dflt =
     (let v = trim_space value
      in if v = [] then dflt
         else case parse_uint32 v of None \<Rightarrow> dflt | Some n \<Rightarrow> if n > 0 then n else dflt)"

definition parse_nflog_config :: "(string \<Rightarrow> string) \<Rightarrow> 32 word \<times> 32 word" where
  "parse_nflog_config getenv =
     (env_uint32 (getenv ''NFLOG_BUFSIZE'') 96, env_uint32 (getenv ''NFLOG_QTHRESH'') 50)"

definition setup_logger :: "(string \<Rightarrow> string) \<Rightarrow> string option \<Rightarrow> fields" where
  \<comment> \<open>the fields the logger carries; the second argument is \<^verbatim>\<open>os.Hostname\<close>\<close>
  "setup_logger getenv os_hostname =
     (let host0 = trim_space (getenv ''HOSTNAME'');
          hostname = (if host0 = [] then (case os_hostname of None \<Rightarrow> [] | Some h \<Rightarrow> trim_space h) else host0);
          tid = trim_space (getenv ''TENANT_ID'')
      in [(''component'', VS ''nflog'')] @
         (if hostname \<noteq> [] then [(''hostname'', VS hostname)] else []) @
         (if tid \<noteq> [] then [(''tenant_id'', VS tid)] else []))"

subsection \<open>Packets\<close>

record packet_info =
  Src :: string
  Dst :: string
  Protocol :: string
  SourceIP :: string
  DestinationIP :: string
  SourcePort :: int
  DestinationPort :: int

definition no_packet :: packet_info where
  "no_packet = \<lparr>Src = [], Dst = [], Protocol = [], SourceIP = [], DestinationIP = [],
                SourcePort = 0, DestinationPort = 0\<rparr>"

record decoded =
  dc_src :: string
  dc_dst :: string
  dc_proto :: nat
  dc_tcp :: "(nat \<times> nat) option"
  dc_udp :: "(nat \<times> nat) option"

text \<open>\<open>decode v payload\<close>: \<^verbatim>\<open>gopacket.NewPacket\<close> with the IP layer of version \<open>v\<close>;
  \<open>None\<close> when the packet has no such layer.\<close>

type_synonym decoder = "nat \<Rightarrow> nat list \<Rightarrow> decoded option"

definition parse_ip_layer :: "decoder \<Rightarrow> nat list \<Rightarrow> decoded option" where
  "parse_ip_layer decode payload =
     (let v = payload ! 0 div 16
      in if v = 4 then decode 4 payload else if v = 6 then decode 6 payload else None)"

definition transport_info :: "string \<Rightarrow> decoded \<Rightarrow> nat \<times> nat \<Rightarrow> packet_info" where
  "transport_info proto d ports =
     \<lparr>Src = dc_src d @ '':'' @ itoa (int (fst ports)), Dst = dc_dst d @ '':'' @ itoa (int (snd ports)),
      Protocol = proto, SourceIP = dc_src d, DestinationIP = dc_dst d,
      SourcePort = int (fst ports), DestinationPort = int (snd ports)\<rparr>"

definition parse_packet_info :: "decoder \<Rightarrow> nat list \<Rightarrow> packet_info" where
  "parse_packet_info decode payload =
     (if length payload < min_packet_size then no_packet
      else case parse_ip_layer decode payload of
             None \<Rightarrow> no_packet
           | Some d \<Rightarrow>
               (case dc_tcp d of
                  Some ports \<Rightarrow> transport_info ''TCP'' d ports
                | None \<Rightarrow>
                    (case dc_udp d of
                       Some ports \<Rightarrow> transport_info ''UDP'' d ports
                     | None \<Rightarrow> no_packet\<lparr>Src := dc_src d, Dst := dc_dst d, Protocol := itoa (int (dc_proto d)),
                                         SourceIP := dc_src d, DestinationIP := dc_dst d\<rparr>)))"

subsection \<open>Events\<close>

definition map_prefix_to_action :: "env \<Rightarrow> string \<Rightarrow> string" where
  "map_prefix_to_action E prefx =
     (let pl = to_lower E prefx
      in if str_contains pl ''redirect'' then action_redirected
         else if str_contains pl ''block'' then action_blocked
         else if str_contains pl ''audit'' then action_audit
         else if str_contains pl ''allow'' then action_allowed
         else [])"

definition build_log_fields ::
  "string \<Rightarrow> string \<Rightarrow> string \<Rightarrow> string \<Rightarrow> string \<Rightarrow> string \<Rightarrow> int \<Rightarrow> int \<Rightarrow> nat \<Rightarrow> fields" where
  "build_log_fields src dst proto sourceIP destinationIP flowID sourcePort destinationPort payloadLen =
     [(''protocol'', VS proto), (''payload_len'', VI (int payloadLen))] @
     (if src \<noteq> [] then [(''src'', VS src)] else []) @
     (if dst \<noteq> [] then [(''dst'', VS dst)] else []) @
     (if sourceIP \<noteq> [] then [(''source_ip'', VS sourceIP)] else []) @
     (if sourcePort \<noteq> 0 then [(''source_port'', VI sourcePort)] else []) @
     (if destinationIP \<noteq> [] then [(''destination_ip'', VS destinationIP)] else []) @
     (if destinationPort \<noteq> 0 then [(''destination_port'', VI destinationPort)] else []) @
     (if flowID \<noteq> [] then [(''flow_id'', VS flowID)] else [])"

definition process_action_event ::
  "nanos \<Rightarrow> synthetic \<Rightarrow> string \<Rightarrow> string \<Rightarrow> packet_info \<Rightarrow> nat \<Rightarrow> log_line list" where
  "process_action_event now st action flowID pkt payloadLen =
     (if action = action_redirected \<and> flowID \<noteq> [] \<and> is_synthetic_recent now flowID st then []
      else
        (let fields = build_log_fields (Src pkt) (Dst pkt) (Protocol pkt) (SourceIP pkt) (DestinationIP pkt)
               flowID (SourcePort pkt) (DestinationPort pkt) payloadLen @ [(''action'', VS action)]
         in if action = action_redirected \<or> action = action_allowed
            then [log_line Debug ''nflog.event'' fields]
            else [log_line Warn ''nflog.event'' fields]))"

record nflog_attr =
  at_prefix :: "string option"
  at_payload :: "nat list option"

definition packet_flow_id :: "env \<Rightarrow> packet_info \<Rightarrow> string" where
  "packet_flow_id E pkt =
     (if SourceIP pkt \<noteq> [] \<and> DestinationIP pkt \<noteq> []
      then flow_id E (SourceIP pkt) (SourcePort pkt) (DestinationIP pkt) (DestinationPort pkt) (Protocol pkt)
      else [])"

definition create_nflog_hook ::
  "env \<Rightarrow> decoder \<Rightarrow> nanos \<Rightarrow> synthetic \<Rightarrow> nflog_attr \<Rightarrow> log_line list" where
  \<comment> \<open>the callback; it always returns 0\<close>
  "create_nflog_hook E decode now st attrs =
     (let prefx = (case at_prefix attrs of None \<Rightarrow> [] | Some p \<Rightarrow> p);
          payload = (case at_payload attrs of None \<Rightarrow> [] | Some b \<Rightarrow> b);
          payloadLen = length payload
      in if payloadLen < min_packet_size then []
         else
           (let pkt = parse_packet_info decode payload
            in if Src pkt = [] \<and> Dst pkt = [] then []
               else
                 (let action = map_prefix_to_action E prefx; flowID = packet_flow_id E pkt
                  in if action \<noteq> [] then process_action_event now st action flowID pkt payloadLen
                     else [log_line Debug ''nflog.packet''
                             [(''prefix'', VS prefx), (''protocol'', VS (Protocol pkt)), (''src'', VS (Src pkt)),
                              (''dst'', VS (Dst pkt)), (''payload_len'', VI (int payloadLen))]])))"

record nflog_config =
  Group :: nat
  Copymode :: string
  Bufsize :: "32 word"
  QThresh :: "32 word"

datatype stream_error = OpenFailed string | RegisterFailed string

definition stream_nflog_with_logger ::
  "(string \<Rightarrow> string) \<Rightarrow> string option \<Rightarrow> (nflog_config \<Rightarrow> string option) \<Rightarrow> string option \<Rightarrow>
   stream_error + nflog_config \<times> fields" where
  \<comment> \<open>the configuration and the fields of the logger the callback runs with, until the context ends\<close>
  "stream_nflog_with_logger getenv os_hostname open_nflog register =
     (let (dfltBuf, dfltQ) = parse_nflog_config getenv;
          lg = setup_logger getenv os_hostname;
          config = \<lparr>Group = 0, Copymode = ''CopyPacket'', Bufsize = dfltBuf, QThresh = dfltQ\<rparr>
      in case open_nflog config of
           Some e \<Rightarrow> Inl (OpenFailed e)
         | None \<Rightarrow> (case register of Some e \<Rightarrow> Inl (RegisterFailed e) | None \<Rightarrow> Inr (config, lg)))"

subsection \<open>Dropped packets are reported\<close>

definition blocked_prefix :: string where \<open>blocked_prefix = ''"blocked"''\<close>

definition drops_logged :: "nft_rule list \<Rightarrow> bool" where
  "drops_logged rs \<longleftrightarrow>
     (\<forall>mem p ls. eval_rules mem p rs = (ls, Some Drop) \<longrightarrow> (\<exists>pre. ls = pre @ [blocked_prefix]))"

lemma drops_logged_Nil: "drops_logged []"
  by (simp add: drops_logged_def)

lemma drops_logged_Cons:
  assumes "s \<noteq> Drop" "drops_logged rs"
  shows "drops_logged ((ms, s) # rs)"
  unfolding drops_logged_def
proof (intro allI impI)
  fix mem p ls
  assume e: "eval_rules mem p ((ms, s) # rs) = (ls, Some Drop)"
  show "\<exists>pre. ls = pre @ [blocked_prefix]"
  proof (cases "eval_rules mem p rs")
    case (Pair ls' v)
    have "\<exists>pre. ls' = pre @ [blocked_prefix]" if "v = Some Drop"
      using assms(2) Pair that unfolding drops_logged_def by blast
    then show ?thesis
      using e assms(1) Pair by (cases s) (auto split: if_splits)
  qed
qed

lemma drops_logged_block:
  assumes "drops_logged rs"
  shows "drops_logged (logged ms ''blocked'' Drop @ rs)"
  using assms unfolding drops_logged_def
  by (auto simp: logged_def blocked_prefix_def split: if_splits)

lemma eval_total:
  "eval_rules mem p (rs @ logged [] w Drop) = (ls, v) \<Longrightarrow> v \<noteq> None"
proof (induction rs arbitrary: ls v)
  case Nil
  then show ?case by (auto simp: logged_def)
next
  case (Cons r rs)
  obtain ms s where "r = (ms, s)" by (cases r)
  then show ?case
    using Cons by (cases s) (auto simp: Let_def split: if_splits prod.splits)
qed

fun passing :: "nft_rule \<Rightarrow> bool" where
  "passing (ms, Accept) = True"
| "passing (ms, Log l) = True"
| "passing r = False"

lemma passing_cases: "passing (ms, s) \<Longrightarrow> s = Accept \<or> (\<exists>l. s = Log l)"
  by (cases s) auto

lemma drops_logged_front:
  assumes "list_all passing xs" "drops_logged rs"
  shows "drops_logged (xs @ rs)"
  using assms(1)
proof (induction xs)
  case Nil
  then show ?case using assms(2) by simp
next
  case (Cons x xs)
  then show ?case by (cases x) (auto intro!: drops_logged_Cons dest!: passing_cases)
qed

lemma eval_verdict:
  "eval_rules mem p rs = (ls, Some s) \<Longrightarrow> s \<in> snd ` set rs \<and> (\<forall>l. s \<noteq> Log l)"
proof (induction rs arbitrary: ls)
  case Nil
  then show ?case by simp
next
  case (Cons r rs)
  obtain ms t where r: "r = (ms, t)" by (cases r)
  then show ?case
    using Cons by (cases t) (auto simp: Let_def split: if_splits prod.splits)
qed

lemma filter_rules_shape:
  "\<exists>xs pol. chain_policy (hd (table_chains (mode_filter E cfg is4))) = pol \<and>
    list_all passing xs \<and>
    (chain_rules (hd (table_chains (mode_filter E cfg is4))) = xs \<and> pol \<noteq> ''drop'' \<or>
     (\<exists>ms. chain_rules (hd (table_chains (mode_filter E cfg is4))) = xs @ logged ms ''blocked'' Drop \<and>
           (pol = ''drop'' \<longrightarrow> ms = [])))"
proof -
  have r: "\<exists>xs pol. P = pol \<and> list_all passing xs \<and>
      (R = xs \<and> pol \<noteq> ''drop'' \<or> (\<exists>ms. R = xs @ logged ms ''blocked'' Drop \<and> (pol = ''drop'' \<longrightarrow> ms = [])))"
    if "list_all passing ys"
      "R = ys \<and> P \<noteq> ''drop'' \<or> (\<exists>ms. R = ys @ logged ms ''blocked'' Drop \<and> (P = ''drop'' \<longrightarrow> ms = []))"
    for P R ys
    using that by blast
  let ?proxies = "\<lambda>a b. [to_lo is4 a Accept, to_lo is4 b Accept]"
  let ?dns = "?proxies (UdpDport (itoa (DNSPort cfg))) (TcpDport (itoa (DNSPort cfg)))"
  let ?web = "?proxies (TcpDport (itoa (HTTPPort cfg))) (TcpDport (itoa (HTTPSPort cfg)))"
  let ?in = "\<lambda>n. logged (in_set is4 (n is4)) ''allowed'' Accept"
  let ?allow = "[(in_set is4 (allow_set is4), Accept)]"
  have ok: "list_all passing (guards @ ?web @ [ping_rule is4] @ ?in allow_set)"
    "list_all passing
       (guards @ ?dns @ [ping_rule is4] @ nd_rules is4 @ ?in allow_set @ ?in resolved_set)"
    "list_all passing (guards @ ?dns @ [ping_rule is4])"
    "list_all passing (guards @ ?web @ ?allow)"
    "list_all passing (guards @ ?dns @ ?allow)"
    by (simp_all add: rule_defs)
  consider "DefaultAllow cfg" "ruleset_mode E cfg = mode_https" | "DefaultAllow cfg" "ruleset_mode E cfg \<noteq> mode_https"
    | "\<not> DefaultAllow cfg" "ruleset_mode E cfg = mode_https" | "\<not> DefaultAllow cfg" "ruleset_mode E cfg = mode_dns"
    | "\<not> DefaultAllow cfg" "ruleset_mode E cfg = mode_dns_strict"
    using ruleset_mode_cases by blast
  then show ?thesis
  proof cases
    case 1
    then show ?thesis
      by (intro r [OF ok(4)]) (auto simp: mode_filter_def Let_def https_filter_allow_def filter_table_def denylist_rules_def)
  next
    case 2
    then show ?thesis
      by (intro r [OF ok(5)]) (auto simp: mode_filter_def Let_def dns_filter_allow_def filter_table_def denylist_rules_def)
  next
    case 3
    then show ?thesis
      by (intro r [OF ok(1)]) (auto simp: mode_filter_def Let_def mode_defs https_filter_def filter_table_def)
  next
    case 4
    then show ?thesis
      by (intro r [OF ok(3)]) (auto simp: mode_filter_def Let_def mode_defs dns_filter_def filter_table_def)
  next
    case 5
    then show ?thesis
      by (intro r [OF ok(2)]) (auto simp: mode_filter_def Let_def mode_defs dns_strict_filter_def filter_table_def)
  qed
qed

lemma filter_step_dropped:
  assumes "filter_step dyn p (mode_filter E cfg is4) = (ls, False)"
  shows "\<exists>pre. ls = pre @ [blocked_prefix]"
proof -
  let ?t = "mode_filter E cfg is4"
  let ?c = "hd (table_chains ?t)"
  obtain xs where xs: "list_all passing xs"
    and sh: "chain_rules ?c = xs \<and> chain_policy ?c \<noteq> ''drop'' \<or>
      (\<exists>ms. chain_rules ?c = xs @ logged ms ''blocked'' Drop \<and> (chain_policy ?c = ''drop'' \<longrightarrow> ms = []))"
    using filter_rules_shape [of E cfg is4] by blast
  obtain v where e: "eval_rules (in_named_set dyn (table_sets ?t)) p (chain_rules ?c) = (ls, v)"
    and no: "(case v of Some Accept \<Rightarrow> True | Some Drop \<Rightarrow> False | _ \<Rightarrow> chain_policy ?c \<noteq> ''drop'') = False"
    using assms by (auto simp: filter_step_def Let_def split: prod.splits)
  have dl: "drops_logged (xs @ logged ms ''blocked'' Drop)" "drops_logged (xs @ [])" for ms
    using drops_logged_front [OF xs drops_logged_block [OF drops_logged_Nil, of ms]]
      drops_logged_front [OF xs drops_logged_Nil] by simp_all
  show ?thesis
  proof (cases "v = Some Drop")
    case True
    then show ?thesis using e sh dl unfolding drops_logged_def by auto
  next
    case False
    then have pol: "chain_policy ?c = ''drop''" and na: "v \<noteq> Some Accept"
      using no by (auto split: option.splits nft_stmt.splits)
    then have rules: "chain_rules ?c = xs @ logged [] ''blocked'' Drop" using sh by auto
    then obtain s where v: "v = Some s" using eval_total e by fastforce
    then have "s \<in> snd ` set (chain_rules ?c)" "\<forall>l. s \<noteq> Log l" using eval_verdict e by blast+
    moreover have "s = Accept \<or> (\<exists>l. s = Log l)" if "(ms, s) \<in> set xs" for ms
      using xs that passing_cases by (auto simp: list_all_iff)
    ultimately have "s = Accept \<or> s = Drop" using rules by (auto simp: logged_def)
    with v na False show ?thesis by simp
  qed
qed

lemma packet_fate_dropped:
  assumes "packet_fate (mode_filter E cfg is4) tr dyn p = (ls, Dropped)"
  shows "\<exists>pre. ls = pre @ [blocked_prefix]"
proof -
  obtain l1 q l2 b where n: "nat_step dyn p tr = (l1, q)"
    and f: "filter_step dyn q (mode_filter E cfg is4) = (l2, b)"
    by (metis surj_pair)
  then have "ls = l1 @ l2" "b = False" using assms by (auto simp: packet_fate_def split: if_splits)
  with filter_step_dropped [of dyn q E cfg is4 l2] f show ?thesis by auto
qed

definition unquote :: "string \<Rightarrow> string" where
  "unquote l = butlast (tl l)"

lemma packet_src: "parse_ip_layer decode payload = Some d \<Longrightarrow> min_packet_size \<le> length payload \<Longrightarrow>
   dc_src d \<noteq> [] \<Longrightarrow> Src (parse_packet_info decode payload) \<noteq> []"
  by (auto simp: parse_packet_info_def transport_info_def no_packet_def split: option.splits)

text \<open>C22: No packet is dropped silently. Whenever the loaded ruleset drops a packet, in any mode, the
  last thing it logs is the prefix "blocked", and for that prefix the nflog callback writes exactly
  one warning with the action BLOCKED, whatever the table of synthetic events holds.\<close>

theorem dropped_packets_reported:
  assumes wf: "wf_config cfg" and drop: "ruleset_egress (generate_ruleset E cfg) dyn p = Some (ls, Dropped)"
    and pkt: "min_packet_size \<le> length payload" "parse_ip_layer decode payload = Some d" "dc_src d \<noteq> []"
  shows "\<exists>pre fs. ls = pre @ [blocked_prefix] \<and>
    create_nflog_hook E decode now st \<lparr>at_prefix = Some (unquote blocked_prefix), at_payload = Some payload\<rparr>
      = [log_line Warn ''nflog.event'' (fs @ [(''action'', VS action_blocked)])]"
proof -
  have "\<not> Audit cfg"
    using drop by (auto simp: ruleset_egress_tables [OF wf] packet_fate_audit)
  then have "\<exists>pre. ls = pre @ [blocked_prefix]"
    using drop by (intro packet_fate_dropped) (simp add: ruleset_egress_tables [OF wf])
  moreover have a: "map_prefix_to_action E (unquote blocked_prefix) = action_blocked"
    by (simp add: map_prefix_to_action_def unquote_def blocked_prefix_def to_lower_def go_unfold is_ascii_def)
  ultimately show ?thesis
    using pkt packet_src [OF pkt(2,1,3)]
    by (auto simp: create_nflog_hook_def process_action_event_def Let_def action_defs)
qed

definition example_decoder :: decoder where
  "example_decoder v payload =
     Some \<lparr>dc_src = ''10.0.0.2'', dc_dst = ''203.0.113.7'', dc_proto = 6, dc_tcp = Some (40000, 443), dc_udp = None\<rparr>"

theorem dropped_packets_reported_witness:
  "\<exists>fs. create_nflog_hook ascii_env example_decoder 0 synthetic_init
      \<lparr>at_prefix = Some ''blocked'', at_payload = Some (replicate 20 69)\<rparr>
    = [log_line Warn ''nflog.event'' (fs @ [(''action'', VS action_blocked)])]"
proof -
  let ?d = "\<lparr>dc_src = ''10.0.0.2'', dc_dst = ''203.0.113.7'', dc_proto = 6, dc_tcp = Some (40000, 443), dc_udp = None\<rparr>"
  have "min_packet_size \<le> length (replicate 20 (69 :: nat))"
    "parse_ip_layer example_decoder (replicate 20 69) = Some ?d" "dc_src ?d \<noteq> []"
    by (simp_all add: min_packet_size_def parse_ip_layer_def example_decoder_def Let_def)
  from dropped_packets_reported [OF example_facts(1) example_dropped this] show ?thesis
    by (auto simp: unquote_def blocked_prefix_def)
qed

subsection \<open>The kernel's duplicate of a redirect\<close>

lemma hook_redirect:
  assumes "min_packet_size \<le> length payload" "parse_packet_info decode payload = pkt" "Src pkt \<noteq> []"
    "map_prefix_to_action E prefx = action_redirected" "packet_flow_id E pkt \<noteq> []"
  shows "create_nflog_hook E decode now st \<lparr>at_prefix = Some prefx, at_payload = Some payload\<rparr> = [] \<longleftrightarrow>
    is_synthetic_recent now (packet_flow_id E pkt) st"
  using assms
  by (simp add: create_nflog_hook_def process_action_event_def Let_def action_defs)

lemma redirect_prefixes:
  "map_prefix_to_action E ''redirected'' = action_redirected"
  "map_prefix_to_action E ''dns_redirected'' = action_redirected"
  by (simp_all add: map_prefix_to_action_def to_lower_def go_unfold is_ascii_def)

lemma flow_id_nonempty: "flow_id E a b c d e \<noteq> []"
  by (simp add: flow_id_def format_hex_def nat_digits_nonempty)

lemma flow_id_proto:
  "flow_id E a b c d ''udp'' = flow_id E a b c d ''UDP''" "flow_id E a b c d ''tcp'' = flow_id E a b c d ''TCP''"
  by (simp_all add: flow_id_def flow_key_def to_upper_def go_unfold is_ascii_def)

lemma split_join_port:
  assumes "CHR ''['' \<notin> set h" "CHR '']'' \<notin> set h" "0 \<le> i" "i < 2 ^ 63"
  shows "split_host_port (join_host_port h (itoa i)) = Some (h, itoa i)"
    and "parse_host_port (join_host_port h (itoa i)) = (h, i)"
proof -
  have "list_all is_digit_char (itoa i)" using assms(3) by (rule itoa_nonneg_chars)
  then have "CHR '':'' \<notin> set (itoa i)" "CHR ''['' \<notin> set (itoa i)" "CHR '']'' \<notin> set (itoa i)"
    by (auto simp: list_all_iff is_digit_char_def)
  then show "split_host_port (join_host_port h (itoa i)) = Some (h, itoa i)"
    using assms by (intro split_join_host_port) auto
  then show "parse_host_port (join_host_port h (itoa i)) = (h, i)"
    using atoi_value_itoa [OF assms(3,4)] by (simp add: parse_host_port_def)
qed

definition host_text :: "string \<Rightarrow> bool" where
  "host_text h \<longleftrightarrow> h \<noteq> [] \<and> CHR ''['' \<notin> set h \<and> CHR '']'' \<notin> set h"

text \<open>C25: A redirect is reported once. After a proxy has emitted its synthetic event for a connection
  or a DNS query, the kernel's own redirect event for the same flow, decoded from the packet, writes
  nothing exactly while the event is at most five seconds old (or another one of that flow is): the
  two code paths compute the same flow identifier from the address texts and from the packet.\<close>

theorem redirect_reported_once:
  assumes st: "synthetic_wf st" and time: "t \<le> t'" "t' \<le> u"
    and hosts: "host_text sip" "host_text dip" and ports: "sp < 65536" "dp < 65536"
    and len: "min_packet_size \<le> length payload" and dec: "parse_ip_layer decode payload = Some d"
    and addr: "dc_src d = sip" "dc_dst d = dip"
  shows "(dc_tcp d = Some (sp, dp) \<longrightarrow>
      (create_nflog_hook E decode u
        (snd (snd (emit_synthetic E (t, t') True cname (Some (join_host_port sip (itoa (int sp))))
           (join_host_port dip (itoa (int dp))) st)))
        \<lparr>at_prefix = Some ''redirected'', at_payload = Some payload\<rparr> = [] \<longleftrightarrow>
      u - t \<le> suppress_window)) \<and>
    (dc_tcp d = None \<and> dc_udp d = Some (sp, dp) \<longrightarrow>
      (create_nflog_hook E decode u
        (snd (snd (emit_synthetic_udp E (t, t') True cname sip (int sp) (join_host_port dip (itoa (int dp))) st)))
        \<lparr>at_prefix = Some ''dns_redirected'', at_payload = Some payload\<rparr> = [] \<longleftrightarrow>
      u - t \<le> suppress_window))"
proof -
  have j: "split_host_port (join_host_port sip (itoa (int sp))) = Some (sip, itoa (int sp))"
    "parse_host_port (join_host_port dip (itoa (int dp))) = (dip, int dp)"
    "atoi_value (itoa (int sp)) = int sp"
    using hosts ports split_join_port atoi_value_itoa by (simp_all add: host_text_def)
  have ne: "join_host_port dip (itoa (int dp)) \<noteq> []" by (simp add: join_host_port_def)
  note mark = marks.recent_mark [OF st flow_id_nonempty time]
  have "create_nflog_hook E decode u
        (snd (snd (emit_synthetic E (t, t') True cname (Some (join_host_port sip (itoa (int sp))))
           (join_host_port dip (itoa (int dp))) st)))
        \<lparr>at_prefix = Some ''redirected'', at_payload = Some payload\<rparr> = [] \<longleftrightarrow> u - t \<le> suppress_window"
    if tcp: "dc_tcp d = Some (sp, dp)"
  proof -
    have pkt: "parse_packet_info decode payload = transport_info ''TCP'' d (sp, dp)"
      using len dec tcp by (simp add: parse_packet_info_def)
    have f: "packet_flow_id E (transport_info ''TCP'' d (sp, dp)) = flow_id E sip (int sp) dip (int dp) ''TCP''"
      using hosts addr by (simp add: packet_flow_id_def transport_info_def host_text_def)
    show ?thesis
      by (subst hook_redirect [OF len pkt])
        (simp_all add: redirect_prefixes f flow_id_nonempty, simp_all add: transport_info_def
          emit_synthetic_def ne j source_addr_def Let_def mark flow_id_proto)
  qed
  moreover have "create_nflog_hook E decode u
        (snd (snd (emit_synthetic_udp E (t, t') True cname sip (int sp) (join_host_port dip (itoa (int dp))) st)))
        \<lparr>at_prefix = Some ''dns_redirected'', at_payload = Some payload\<rparr> = [] \<longleftrightarrow> u - t \<le> suppress_window"
    if udp: "dc_tcp d = None" "dc_udp d = Some (sp, dp)"
  proof -
    have pkt: "parse_packet_info decode payload = transport_info ''UDP'' d (sp, dp)"
      using len dec udp by (simp add: parse_packet_info_def)
    have f: "packet_flow_id E (transport_info ''UDP'' d (sp, dp)) = flow_id E sip (int sp) dip (int dp) ''UDP''"
      using hosts addr by (simp add: packet_flow_id_def transport_info_def host_text_def)
    show ?thesis
      by (subst hook_redirect [OF len pkt])
        (simp_all add: redirect_prefixes f flow_id_nonempty, simp_all add: transport_info_def
          emit_synthetic_udp_def ne j Let_def mark flow_id_proto)
  qed
  ultimately show ?thesis by blast
qed

theorem redirect_reported_once_witness:
  "create_nflog_hook ascii_env example_decoder (3 * second)
     (snd (snd (emit_synthetic ascii_env (second, second) True ''https'' (Some (join_host_port ''10.0.0.2'' (itoa (int 40000))))
        (join_host_port ''203.0.113.7'' (itoa (int 443))) synthetic_init)))
     \<lparr>at_prefix = Some ''redirected'', at_payload = Some (replicate 20 69)\<rparr> = []"
proof -
  let ?d = "\<lparr>dc_src = ''10.0.0.2'', dc_dst = ''203.0.113.7'', dc_proto = 6, dc_tcp = Some (40000, 443), dc_udp = None\<rparr>"
  have "host_text ''10.0.0.2''" "host_text ''203.0.113.7''" by (simp_all add: host_text_def)
  moreover have "min_packet_size \<le> length (replicate 20 (69 :: nat))"
    "parse_ip_layer example_decoder (replicate 20 69) = Some ?d"
    by (simp_all add: min_packet_size_def parse_ip_layer_def example_decoder_def Let_def)
  ultimately show ?thesis
    using redirect_reported_once [OF synthetic_init_wf, of second second "3 * second" "''10.0.0.2''" "''203.0.113.7''"
        40000 443 "replicate 20 69" example_decoder ?d ascii_env "''https''"]
    by (simp add: suppress_window_def)
qed

end
