(* ===== verification/ProcInfo.thy ===== *)
theory ProcInfo
  imports Matcher Flow
begin

text \<open>
  \<^verbatim>\<open>internal/procinfo/procinfo.go\<close>: the process behind a connection, found through the socket
  tables and the file descriptors under \<^verbatim>\<open>/proc\<close>, with a cache. What the kernel shows there is
  the record \<open>procfs\<close>; the clock is an argument.
\<close>

record procfs =
  pf_table :: "string \<Rightarrow> string list option" \<comment> \<open>the lines of a file below \<^verbatim>\<open>net\<close>\<close>
  pf_entries :: "string list option" \<comment> \<open>the names \<^verbatim>\<open>os.ReadDir\<close> lists\<close>
  pf_fds :: "string \<Rightarrow> string option list option" \<comment> \<open>the links below \<^verbatim>\<open>fd\<close> of an entry, None unreadable\<close>
  pf_comm :: "int \<Rightarrow> string option"
  pf_cmdline :: "int \<Rightarrow> string option"
  pf_exe :: "int \<Rightarrow> string option"

definition cache_ttl :: nanos where "cache_ttl = 30 * second"
definition max_cmdline_len :: nat where "max_cmdline_len = 256"
definition max_cache_entries :: nat where "max_cache_entries = 4096"

subsection \<open>Hexadecimal texts\<close>

definition hex_byte :: "nat \<Rightarrow> string" where
  "hex_byte b = [upper_char (digit_chars ! (b div 16 mod 16)), upper_char (digit_chars ! (b mod 16))]"

definition hex_v4 :: "nat list \<Rightarrow> string" where
  "hex_v4 bs = hex_byte (bs ! 3) @ hex_byte (bs ! 2) @ hex_byte (bs ! 1) @ hex_byte (bs ! 0)"

definition hex_v6 :: "nat list \<Rightarrow> string" where
  "hex_v6 bs = concat (map (\<lambda>g. hex_byte (bs ! (g * 4 + 3)) @ hex_byte (bs ! (g * 4 + 2)) @
     hex_byte (bs ! (g * 4 + 1)) @ hex_byte (bs ! (g * 4))) [0 ..< 4])"

definition hex_port :: "int \<Rightarrow> string" where
  "hex_port p =
     (let h = map upper_char (if p < 0 then CHR ''-'' # format_hex (nat (- p)) else format_hex (nat p))
      in replicate (4 - length h) (CHR ''0'') @ h)"

subsection \<open>Socket tables\<close>

function fields_from :: "string \<Rightarrow> string \<Rightarrow> string list" where
  \<comment> \<open>\<^verbatim>\<open>strings.Fields\<close>, with the word read so far in reverse\<close>
  "fields_from w [] = (if w = [] then [] else [rev w])"
| "fields_from w (c # s) =
     (case strip_any space_encodings (c # s) of
        Some t \<Rightarrow> (if w = [] then [] else [rev w]) @ fields_from [] t
      | None \<Rightarrow> fields_from (c # w) s)"
  by pat_completeness auto
termination
  by (relation "measure (\<lambda>(w, s). length s)") (auto dest: strip_any_shorter)

definition str_fields :: "string \<Rightarrow> string list" where
  "str_fields s = fields_from [] s"

fun scan_lines :: "string \<Rightarrow> string list \<Rightarrow> string option" where
  "scan_lines localHex [] = None"
| "scan_lines localHex (line # rest) =
     (let fs = str_fields line
      in if length fs < 10 then scan_lines localHex rest
         else if fs ! 1 = localHex then Some (fs ! 9)
         else scan_lines localHex rest)"

definition scan_net_table :: "procfs \<Rightarrow> string \<Rightarrow> string \<Rightarrow> string option" where
  \<comment> \<open>the header is skipped\<close>
  "scan_net_table P file localHex =
     (case pf_table P file of None \<Rightarrow> None | Some contents \<Rightarrow> scan_lines localHex (drop 1 contents))"

fun scan_tables :: "procfs \<Rightarrow> string \<Rightarrow> (string \<times> string) list \<Rightarrow> string option" where
  "scan_tables P portHex [] = None"
| "scan_tables P portHex ((file, addrHex) # rest) =
     (case scan_net_table P file (addrHex @ '':'' @ portHex) of
        Some inode \<Rightarrow> Some inode
      | None \<Rightarrow> scan_tables P portHex rest)"

definition find_socket_inode :: "procfs \<Rightarrow> string \<Rightarrow> int \<Rightarrow> string \<Rightarrow> string option" where
  "find_socket_inode P srcIP srcPort proto =
     (case parse_ip srcIP of
        None \<Rightarrow> None
      | Some a \<Rightarrow>
          (let tables = (case to4 a of
                           Some v4 \<Rightarrow> [(proto, hex_v4 v4), (proto @ ''6'', hex_v6 a)]
                         | None \<Rightarrow> [(proto @ ''6'', hex_v6 a)])
           in scan_tables P (hex_port srcPort) tables))"

subsection \<open>Processes\<close>

fun scan_entries :: "procfs \<Rightarrow> string \<Rightarrow> string list \<Rightarrow> int option" where
  "scan_entries P target [] = None"
| "scan_entries P target (entry # rest) =
     (case atoi entry of
        None \<Rightarrow> scan_entries P target rest
      | Some pid \<Rightarrow>
          (case pf_fds P entry of
             None \<Rightarrow> scan_entries P target rest
           | Some fds \<Rightarrow> if Some target \<in> set fds then Some pid else scan_entries P target rest))"

definition find_pid_by_inode :: "procfs \<Rightarrow> string \<Rightarrow> int option" where
  "find_pid_by_inode P inode =
     (case pf_entries P of
        None \<Rightarrow> None
      | Some entries \<Rightarrow> scan_entries P (''socket:['' @ inode @ '']'') entries)"

definition process_info :: "procfs \<Rightarrow> int \<Rightarrow> proc_info" where
  "process_info P pid =
     \<lparr>PID = pid,
      Name = (case pf_comm P pid of Some b \<Rightarrow> trim_space b | None \<Rightarrow> []),
      Cmdline = (case pf_cmdline P pid of
                   Some b \<Rightarrow> (let cmdline = trim_space (replace_all b [CHR 0x00] '' '')
                              in if length cmdline > max_cmdline_len then take max_cmdline_len cmdline else cmdline)
                 | None \<Rightarrow> []),
      Executable = (case pf_exe P pid of Some e \<Rightarrow> e | None \<Rightarrow> [])\<rparr>"

definition resolve :: "procfs \<Rightarrow> string \<Rightarrow> int \<Rightarrow> string \<Rightarrow> proc_info option" where
  "resolve P srcIP srcPort proto =
     (case find_socket_inode P srcIP srcPort proto of
        None \<Rightarrow> None
      | Some inode \<Rightarrow>
          (case find_pid_by_inode P inode of None \<Rightarrow> None | Some pid \<Rightarrow> Some (process_info P pid)))"

subsection \<open>The cache\<close>

record cache_entry =
  ce_info :: "proc_info option" \<comment> \<open>None: a miss\<close>
  ce_expires :: nanos

type_synonym proc_cache = "(string, cache_entry) gomap"

definition cache_key :: "string \<Rightarrow> int \<Rightarrow> string \<Rightarrow> string" where
  "cache_key srcIP srcPort proto = proto @ '':'' @ srcIP @ '':'' @ itoa srcPort"

fun shed :: "proc_cache \<Rightarrow> proc_cache" where
  \<comment> \<open>deletes in the order of the iteration until there is room\<close>
  "shed [] = []"
| "shed (e # m) = (if length (e # m) < max_cache_entries then e # m else shed m)"

definition cache_prune :: "nanos \<Rightarrow> proc_cache \<Rightarrow> proc_cache" where
  "cache_prune now m =
     (if length m < max_cache_entries then m
      else shed (filter (\<lambda>(k, e). \<not> now > ce_expires e) m))"

definition proc_lookup ::
  "nanos \<times> nanos \<times> nanos \<Rightarrow> procfs \<Rightarrow> string \<Rightarrow> int \<Rightarrow> string \<Rightarrow> proc_cache \<Rightarrow> proc_info option \<times> proc_cache" where
  \<comment> \<open>the three readings of the clock\<close>
  "proc_lookup now P srcIP srcPort proto m =
     (let key = cache_key srcIP srcPort proto; (t1, t2, t3) = now; hit = map_of m key
      in case (case hit of Some e \<Rightarrow> if t1 < ce_expires e then Some e else None | None \<Rightarrow> None) of
           Some e \<Rightarrow> (ce_info e, m)
         | None \<Rightarrow>
             (let info = resolve P srcIP srcPort proto;
                  m1 = AList.update key \<lparr>ce_info = info, ce_expires = t2 + cache_ttl\<rparr> m
              in (info, cache_prune t3 m1)))"

subsection \<open>The cache shows nothing stale\<close>

record lookup_event =
  le_now :: "nanos \<times> nanos \<times> nanos"
  le_proc :: procfs
  le_ip :: string
  le_port :: int
  le_proto :: string

definition event_cache_key :: "lookup_event \<Rightarrow> string" where
  "event_cache_key ev = cache_key (le_ip ev) (le_port ev) (le_proto ev)"

definition resolve_now :: "lookup_event \<Rightarrow> proc_info option" where
  "resolve_now ev = resolve (le_proc ev) (le_ip ev) (le_port ev) (le_proto ev)"

fun lookups :: "lookup_event list \<Rightarrow> proc_cache \<Rightarrow> proc_info option list \<times> proc_cache" where
  "lookups [] m = ([], m)"
| "lookups (ev # evs) m =
     (let (r, m1) = proc_lookup (le_now ev) (le_proc ev) (le_ip ev) (le_port ev) (le_proto ev) m;
          (rs, m2) = lookups evs m1
      in (r # rs, m2))"

definition from_history :: "lookup_event list \<Rightarrow> proc_cache \<Rightarrow> bool" where
  "from_history hist m \<longleftrightarrow>
     (\<forall>(k, e) \<in> set m. \<exists>h \<in> set hist. event_cache_key h = k \<and> ce_info e = resolve_now h \<and>
        ce_expires e = fst (snd (le_now h)) + cache_ttl)"

definition answered_by :: "lookup_event \<Rightarrow> lookup_event \<Rightarrow> proc_info option \<Rightarrow> bool" where
  "answered_by h ev r \<longleftrightarrow>
     event_cache_key h = event_cache_key ev \<and> r = resolve_now h \<and>
     (h = ev \<or> fst (le_now ev) < fst (snd (le_now h)) + cache_ttl)"

lemma shed_subset: "set (shed m) \<subseteq> set m"
  by (induction m) auto

lemma shed_length: "length (shed m) < max_cache_entries"
  by (induction m) (simp_all add: max_cache_entries_def)

lemma cache_prune_subset: "set (cache_prune t m) \<subseteq> set m"
  using shed_subset [of "filter (\<lambda>(k, e). \<not> t > ce_expires e) m"] by (auto simp: cache_prune_def)

lemma cache_prune_length: "length (cache_prune t m) < max_cache_entries"
  by (simp add: cache_prune_def shed_length)

lemma from_history_mono: "from_history hist m \<Longrightarrow> set hist \<subseteq> set hist' \<Longrightarrow> from_history hist' m"
  unfolding from_history_def by fast

lemma proc_lookup_step:
  assumes "from_history hist m" "length m < max_cache_entries"
    and "proc_lookup (le_now ev) (le_proc ev) (le_ip ev) (le_port ev) (le_proto ev) m = (r, m')"
  shows "(\<exists>h \<in> set (hist @ [ev]). answered_by h ev r) \<and> from_history (hist @ [ev]) m' \<and> length m' < max_cache_entries"
proof -
  obtain t1 t2 t3 where t: "le_now ev = (t1, t2, t3)" by (cases "le_now ev")
  let ?k = "event_cache_key ev"
  let ?new = "AList.update ?k \<lparr>ce_info = resolve_now ev, ce_expires = t2 + cache_ttl\<rparr> m"
  consider (hit) e where "map_of m ?k = Some e" "t1 < ce_expires e" "r = ce_info e" "m' = m"
    | (miss) "r = resolve_now ev" "m' = cache_prune t3 ?new"
  proof (cases "\<exists>e. map_of m ?k = Some e \<and> t1 < ce_expires e")
    case True
    then obtain e where e: "map_of m ?k = Some e" "t1 < ce_expires e" by blast
    then show thesis
      using assms(3) by (intro hit [of e]) (simp_all add: proc_lookup_def Let_def t event_cache_key_def)
  next
    case False
    then have "(case map_of m ?k of Some e \<Rightarrow> if t1 < ce_expires e then Some e else None | None \<Rightarrow> None) = None"
      by (auto split: option.split)
    then show thesis
      using assms(3) by (intro miss) (auto simp: proc_lookup_def Let_def t event_cache_key_def resolve_now_def)
  qed
  then show ?thesis
  proof cases
    case hit
    have "(?k, e) \<in> set m" using hit(1) by (rule map_of_SomeD)
    with assms(1) obtain h where "h \<in> set hist" "event_cache_key h = ?k" "ce_info e = resolve_now h"
      "ce_expires e = fst (snd (le_now h)) + cache_ttl"
      unfolding from_history_def by fastforce
    then have "\<exists>h \<in> set (hist @ [ev]). answered_by h ev r"
      using hit(2,3) by (intro bexI [of _ h]) (simp_all add: answered_by_def t)
    moreover have "from_history (hist @ [ev]) m" using assms(1) by (rule from_history_mono) auto
    ultimately show ?thesis using assms(2) hit(4) by simp
  next
    case miss
    have "\<exists>h \<in> set (hist @ [ev]). answered_by h ev r" using miss(1) by (auto simp: answered_by_def)
    moreover have "from_history (hist @ [ev]) ?new"
      unfolding from_history_def
    proof (intro ballI, clarify)
      fix k e assume "(k, e) \<in> set ?new"
      then consider "k = ?k" "e = \<lparr>ce_info = resolve_now ev, ce_expires = t2 + cache_ttl\<rparr>" | "(k, e) \<in> set m"
        using set_update_subset by fastforce
      then show "\<exists>h \<in> set (hist @ [ev]). event_cache_key h = k \<and> ce_info e = resolve_now h \<and>
        ce_expires e = fst (snd (le_now h)) + cache_ttl"
      proof cases
        case 1
        then show ?thesis by (simp add: t)
      next
        case 2
        then show ?thesis using assms(1) unfolding from_history_def by fastforce
      qed
    qed
    then have "from_history (hist @ [ev]) m'" using cache_prune_subset [of t3 ?new] miss(2) unfolding from_history_def by blast
    moreover have "length m' < max_cache_entries" using miss(2) by (simp add: cache_prune_length)
    ultimately show ?thesis by blast
  qed
qed

lemma lookups_from:
  "from_history hist m \<Longrightarrow> length m < max_cache_entries \<Longrightarrow> lookups evs m = (rs, m') \<Longrightarrow>
   length rs = length evs \<and> length m' < max_cache_entries \<and>
   (\<forall>j < length evs. \<exists>h \<in> set (hist @ take (Suc j) evs). answered_by h (evs ! j) (rs ! j))"
proof (induction evs arbitrary: hist m rs m')
  case Nil
  then show ?case by simp
next
  case (Cons ev evs)
  obtain r m1 where one: "proc_lookup (le_now ev) (le_proc ev) (le_ip ev) (le_port ev) (le_proto ev) m = (r, m1)"
    by fastforce
  obtain rs' m2 where rest: "lookups evs m1 = (rs', m2)" by fastforce
  have rs: "rs = r # rs'" "m' = m2" using Cons.prems(3) one rest by simp_all
  note step = conjunct1 [OF proc_lookup_step [OF Cons.prems(1,2) one]]
    conjunct1 [OF conjunct2 [OF proc_lookup_step [OF Cons.prems(1,2) one]]]
    conjunct2 [OF conjunct2 [OF proc_lookup_step [OF Cons.prems(1,2) one]]]
  from Cons.IH [OF step(2,3) rest]
  have IH: "length rs' = length evs" "length m2 < max_cache_entries"
    "\<forall>j < length evs. \<exists>h \<in> set ((hist @ [ev]) @ take (Suc j) evs). answered_by h (evs ! j) (rs' ! j)"
    by simp_all
  have "\<exists>h \<in> set (hist @ take (Suc j) (ev # evs)). answered_by h ((ev # evs) ! j) (rs ! j)"
    if "j < length (ev # evs)" for j
    using that step(1) IH(3) rs(1) by (cases j) auto
  then show ?case using IH(1,2) rs by simp
qed

text \<open>The key of the cache determines what was asked.\<close>

lemma cache_key_inj:
  assumes "CHR '':'' \<notin> set proto" "CHR '':'' \<notin> set proto'"
    and "cache_key ip port proto = cache_key ip' port' proto'"
  shows "proto = proto' \<and> ip = ip' \<and> itoa port = itoa port'"
proof -
  have colon: "CHR '':'' \<notin> set (itoa i)" for i
  proof -
    have "CHR '':'' \<notin> set (nat_digits 10 n)" for n
      using nat_digits_chars [of n] by (auto simp: list_all_iff is_digit_char_def)
    then show ?thesis by (simp add: itoa_def)
  qed
  have "proto = proto' \<and> ip @ '':'' @ itoa port = ip' @ '':'' @ itoa port'"
    using assms append_sep_inj [of "CHR '':''" proto proto' "ip @ '':'' @ itoa port" "ip' @ '':'' @ itoa port'"]
    by (simp add: cache_key_def)
  moreover have "split_last (CHR '':'') (ip @ CHR '':'' # itoa port) = Some (ip, itoa port)" for ip port
    by (rule split_last_at [OF colon])
  ultimately show ?thesis
    by (metis append_Cons append_Nil option.inject prod.inject)
qed

text \<open>A cached answer is an answer. For any sequence of lookups, each with the state of
  \<^verbatim>\<open>/proc\<close> at its time, the result is what the tables show now, or what they showed at an
  earlier lookup of the same address, port and protocol less than 30 seconds ago; and the cache never
  holds more than 4095 entries between two lookups.\<close>

theorem lookups_fresh:
  assumes "\<And>ev. ev \<in> set evs \<Longrightarrow> CHR '':'' \<notin> set (le_proto ev)"
  shows "\<exists>rs m. lookups evs [] = (rs, m) \<and> length rs = length evs \<and> length m \<le> 4095 \<and>
    (\<forall>j < length evs. \<exists>i \<le> j. rs ! j = resolve_now (evs ! i) \<and>
       le_proto (evs ! i) = le_proto (evs ! j) \<and> le_ip (evs ! i) = le_ip (evs ! j) \<and>
       itoa (le_port (evs ! i)) = itoa (le_port (evs ! j)) \<and>
       (evs ! i = evs ! j \<or> fst (le_now (evs ! j)) < fst (snd (le_now (evs ! i))) + 30 * second))"
proof -
  obtain rs m where run: "lookups evs [] = (rs, m)" by fastforce
  have "from_history [] []" by (simp add: from_history_def)
  from lookups_from [OF this _ run] have r: "length rs = length evs" "length m < max_cache_entries"
    "\<forall>j < length evs. \<exists>h \<in> set (take (Suc j) evs). answered_by h (evs ! j) (rs ! j)"
    by (simp_all add: max_cache_entries_def)
  have "\<exists>i \<le> j. rs ! j = resolve_now (evs ! i) \<and>
       le_proto (evs ! i) = le_proto (evs ! j) \<and> le_ip (evs ! i) = le_ip (evs ! j) \<and>
       itoa (le_port (evs ! i)) = itoa (le_port (evs ! j)) \<and>
       (evs ! i = evs ! j \<or> fst (le_now (evs ! j)) < fst (snd (le_now (evs ! i))) + 30 * second)"
    if j: "j < length evs" for j
  proof -
    from r(3) j obtain h where h: "h \<in> set (take (Suc j) evs)" "answered_by h (evs ! j) (rs ! j)" by blast
    then obtain i where i: "i \<le> j" "i < length evs" "evs ! i = h" by (auto simp: in_set_conv_nth less_Suc_eq_le)
    have "CHR '':'' \<notin> set (le_proto h)" "CHR '':'' \<notin> set (le_proto (evs ! j))"
      using assms i(2,3) j by auto
    from cache_key_inj [OF this] h(2) i show ?thesis
      by (intro exI [of _ i]) (auto simp: answered_by_def event_cache_key_def cache_ttl_def)
  qed
  then show ?thesis using run r(1,2) by (auto simp: max_cache_entries_def)
qed

definition empty_procfs :: procfs where
  "empty_procfs = \<lparr>pf_table = (\<lambda>_. None), pf_entries = None, pf_fds = (\<lambda>_. None), pf_comm = (\<lambda>_. None),
     pf_cmdline = (\<lambda>_. None), pf_exe = (\<lambda>_. None)\<rparr>"

theorem lookups_fresh_witness:
  "\<exists>rs m. lookups [\<lparr>le_now = (0, 0, 0), le_proc = empty_procfs, le_ip = ''10.0.0.1'', le_port = 5, le_proto = ''tcp''\<rparr>] []
     = (rs, m) \<and> length rs = 1 \<and> length m \<le> 4095"
  using lookups_fresh [of "[\<lparr>le_now = (0, 0, 0), le_proc = empty_procfs, le_ip = ''10.0.0.1'', le_port = 5,
    le_proto = ''tcp''\<rparr>]"]
  by auto

subsection \<open>The right socket\<close>

lemma hex_digit_back: "k < 16 \<Longrightarrow> hex_val (upper_char (digit_chars ! k)) = Some k"
proof -
  have up: "map upper_char digit_chars = ''0123456789ABCDEF''" by code_simp
  have len: "length digit_chars = 16" by (simp add: digit_chars_def)
  have "\<forall>k \<in> set [0 ..< 16]. hex_val (''0123456789ABCDEF'' ! k) = Some k"
    by (simp add: upt_rec hex_val_def is_digit_char_def digit_val_def)
  moreover assume k: "k < 16"
  ultimately have "hex_val (''0123456789ABCDEF'' ! k) = Some k" by simp
  moreover have "upper_char (digit_chars ! k) = ''0123456789ABCDEF'' ! k"
    using nth_map [of k digit_chars upper_char] k by (simp only: up len)
  ultimately show ?thesis by simp
qed

lemma hex_digit_inj: "j < 16 \<Longrightarrow> k < 16 \<Longrightarrow> upper_char (digit_chars ! j) = upper_char (digit_chars ! k) \<longleftrightarrow> j = k"
  by (metis hex_digit_back option.inject)

lemma hex_byte_inj:
  assumes "a < 256" "b < 256"
  shows "hex_byte a = hex_byte b \<longleftrightarrow> a = b"
proof
  assume "hex_byte a = hex_byte b"
  then have "a div 16 mod 16 = b div 16 mod 16" "a mod 16 = b mod 16"
    by (simp_all add: hex_byte_def hex_digit_inj)
  moreover have "a div 16 < 16" "b div 16 < 16" using assms by auto
  ultimately show "a = b" by (metis div_mult_mod_eq mod_less)
qed simp

lemma hex_byte_append: "hex_byte a @ s = hex_byte b @ t \<longleftrightarrow> hex_byte a = hex_byte b \<and> s = t"
  by (simp add: hex_byte_def)

fun hex_value :: "nat \<Rightarrow> string \<Rightarrow> nat" where
  "hex_value acc [] = acc"
| "hex_value acc (c # s) = hex_value (16 * acc + (case hex_val c of None \<Rightarrow> 0 | Some d \<Rightarrow> d)) s"

lemma hex_value_append: "hex_value a (s @ t) = hex_value (hex_value a s) t"
  by (induction s arbitrary: a) simp_all

lemma hex_value_digits: "hex_value 0 (map upper_char (nat_digits 16 n)) = n"
proof (induction "16 :: nat" n rule: nat_digits.induct)
  case (1 n)
  show ?case
  proof (cases "n < 16")
    case True
    then show ?thesis by (subst nat_digits.simps) (simp add: hex_digit_back)
  next
    case False
    then show ?thesis
      using 1 by (subst nat_digits.simps) (simp add: hex_value_append hex_digit_back)
  qed
qed

lemma hex_value_zeros: "hex_value 0 (replicate k (CHR ''0'') @ s) = hex_value 0 s"
  by (induction k) (simp_all add: hex_val_def is_digit_char_def digit_val_def)

lemma hex_port_inj: "0 \<le> p \<Longrightarrow> 0 \<le> q \<Longrightarrow> hex_port p = hex_port q \<longleftrightarrow> p = q"
proof
  have v: "hex_value 0 (hex_port p) = nat p" if "0 \<le> p" for p
    using that by (simp add: hex_port_def Let_def hex_value_zeros format_hex_def hex_value_digits)
  assume "0 \<le> p" "0 \<le> q" "hex_port p = hex_port q"
  then show "p = q" using v [of p] v [of q] by simp
qed simp

lemma hex_v4_inj:
  assumes "length a = 4" "length b = 4" "\<forall>x \<in> set a. x < 256" "\<forall>x \<in> set b. x < 256"
  shows "hex_v4 a = hex_v4 b \<longleftrightarrow> a = b"
proof
  assume "hex_v4 a = hex_v4 b"
  then have "hex_byte (a ! i) = hex_byte (b ! i)" if "i < 4" for i
    using that by (auto simp: hex_v4_def hex_byte_append numeral_eq_Suc less_Suc_eq)
  then have "a ! i = b ! i" if "i < 4" for i
    using that assms hex_byte_inj [of "a ! i" "b ! i"] nth_mem [of i a] nth_mem [of i b] by auto
  then show "a = b" using assms(1,2) by (intro nth_equalityI) simp_all
qed simp

lemma hex_v6_inj:
  assumes "length a = 16" "length b = 16" "\<forall>x \<in> set a. x < 256" "\<forall>x \<in> set b. x < 256"
  shows "hex_v6 a = hex_v6 b \<longleftrightarrow> a = b"
proof
  have v6: "hex_v6 x = concat (map (\<lambda>i. hex_byte (x ! i)) [3, 2, 1, 0, 7, 6, 5, 4, 11, 10, 9, 8, 15, 14, 13, 12])" for x
    by (simp add: hex_v6_def upt_rec numeral_2_eq_2)
  have split: "concat (map (\<lambda>i. hex_byte (a ! i)) is) = concat (map (\<lambda>i. hex_byte (b ! i)) is) \<Longrightarrow>
      \<forall>i \<in> set is. hex_byte (a ! i) = hex_byte (b ! i)" for "is"
    by (induction "is") (auto simp: hex_byte_append)
  assume "hex_v6 a = hex_v6 b"
  then have "\<forall>i \<in> set [3, 2, 1, 0, 7, 6, 5, 4, 11, 10, 9, 8, 15, 14, 13, 12]. hex_byte (a ! i) = hex_byte (b ! i)"
    unfolding v6 by (rule split)
  moreover have "i \<in> set [3, 2, 1, 0, 7, 6, 5, 4, 11, 10, 9, 8, 15, 14, 13, 12]" if "i < 16" for i :: nat
    using that unfolding set_simps insert_iff empty_iff by presburger
  ultimately have "hex_byte (a ! i) = hex_byte (b ! i)" if "i < 16" for i using that by blast
  then have "a ! i = b ! i" if "i < 16" for i
    using that assms hex_byte_inj [of "a ! i" "b ! i"] nth_mem [of i a] nth_mem [of i b] by auto
  then show "a = b" using assms(1,2) by (intro nth_equalityI) simp_all
qed simp

text \<open>What the kernel prints: a row for each socket. proc(5) gives the local address as the 32-bit words
  of the address, each printed with eight hexadecimal digits from the memory of a little-endian
  machine (\<^verbatim>\<open>%08X\<close>), and the port with four (\<^verbatim>\<open>%04X\<close>).\<close>

fun printf_hex :: "nat \<Rightarrow> nat \<Rightarrow> string" where
  "printf_hex 0 v = []"
| "printf_hex (Suc w) v = printf_hex w (v div 16) @ [''0123456789ABCDEF'' ! (v mod 16)]"

fun little_endian :: "nat list \<Rightarrow> nat" where
  "little_endian [] = 0"
| "little_endian (b # bs) = b + 256 * little_endian bs"

fun words32 :: "nat list \<Rightarrow> nat list" where
  "words32 (a # b # c # d # bs) = little_endian [a, b, c, d] # words32 bs"
| "words32 _ = []"

definition kernel_local :: "nat list \<Rightarrow> nat \<Rightarrow> string" where
  "kernel_local addr port = concat (map (printf_hex 8) (words32 addr)) @ '':'' @ printf_hex 4 port"

record sock_row =
  rw_addr :: "nat list"
  rw_port :: nat
  rw_inode :: string

definition renders :: "string \<Rightarrow> sock_row \<Rightarrow> bool" where
  "renders line r \<longleftrightarrow>
     10 \<le> length (str_fields line) \<and> str_fields line ! 1 = kernel_local (rw_addr r) (rw_port r) \<and>
     str_fields line ! 9 = rw_inode r"

definition table_shows :: "nat \<Rightarrow> procfs \<Rightarrow> string \<Rightarrow> sock_row list \<Rightarrow> bool" where
  "table_shows n P file rows \<longleftrightarrow>
     (case pf_table P file of None \<Rightarrow> rows = [] | Some contents \<Rightarrow> list_all2 renders (drop 1 contents) rows) \<and>
     (\<forall>r \<in> set rows. length (rw_addr r) = n \<and> (\<forall>b \<in> set (rw_addr r). b < 256) \<and> rw_port r < 65536)"

definition owns :: "procfs \<Rightarrow> string \<Rightarrow> string \<Rightarrow> bool" where
  "owns P inode entry \<longleftrightarrow>
     atoi entry \<noteq> None \<and> (\<exists>fds. pf_fds P entry = Some fds \<and> Some (''socket:['' @ inode @ '']'') \<in> set fds)"

text \<open>The code prints the bytes and the digits in its own way; it is the kernel's text.\<close>

definition local_text :: "nat list \<Rightarrow> int \<Rightarrow> string" where
  "local_text addr port = (if length addr = 4 then hex_v4 addr else hex_v6 addr) @ '':'' @ hex_port port"

lemma upper_digit: "k < 16 \<Longrightarrow> upper_char (digit_chars ! k) = ''0123456789ABCDEF'' ! k"
proof -
  have "map upper_char digit_chars = ''0123456789ABCDEF''" "length digit_chars = 16" by code_simp+
  then show "k < 16 \<Longrightarrow> ?thesis" by (metis nth_map)
qed

lemma printf_hex_byte:
  assumes "b < 256"
  shows "printf_hex (Suc (Suc w)) (b + 256 * r) = printf_hex w r @ hex_byte b"
proof -
  have "(b + r * 16 * 16) mod 16 = b mod 16" by (rule mod_mult_self1)
  then have "(b + 256 * r) mod 16 = b mod 16" by simp
  moreover have "(b + r * 16 * 16) div 16 = r * 16 + b div 16" by (rule div_mult_self1) simp
  then have "(b + 256 * r) div 16 = r * 16 + b div 16" by simp
  moreover have "b div 16 < 16" using assms by (simp add: less_mult_imp_div_less)
  ultimately show ?thesis by (simp add: hex_byte_def upper_digit)
qed

lemma printf_hex_word:
  assumes "a < 256" "b < 256" "c < 256" "d < 256"
  shows "printf_hex 8 (little_endian [a, b, c, d]) = hex_byte d @ hex_byte c @ hex_byte b @ hex_byte a"
proof -
  have n: "Suc (Suc 6) = 8" "Suc (Suc 4) = 6" "Suc (Suc 2) = 4" "Suc (Suc 0) = 2" by simp_all
  note digits = printf_hex_byte [OF assms(1), of 6, unfolded n] printf_hex_byte [OF assms(2), of 4, unfolded n]
    printf_hex_byte [OF assms(3), of 2, unfolded n] printf_hex_byte [OF assms(4), of 0, unfolded n]
  show ?thesis by (simp only: little_endian.simps digits printf_hex.simps(1) append_assoc append_Nil)
qed

lemma printf_hex_digits:
  "p < 16 ^ Suc w \<Longrightarrow>
   printf_hex (Suc w) p = replicate (Suc w - length (nat_digits 16 p)) (CHR ''0'') @ map upper_char (nat_digits 16 p)"
proof (induction w arbitrary: p)
  case 0
  then have "nat_digits 16 p = [digit_chars ! p]" by (subst nat_digits.simps) simp
  then show ?case using 0 by (simp add: upper_digit)
next
  case (Suc w)
  have zero: "nat_digits 16 0 = [digit_chars ! 0]" by (subst nat_digits.simps) simp
  have z: "printf_hex (Suc w) 0 = replicate (Suc w) (CHR ''0'')"
    using Suc.IH [of 0] unfolding zero by (simp add: upper_digit replicate_append_same)
  show ?case
  proof (cases "p < 16")
    case True
    then have "nat_digits 16 p = [digit_chars ! p]" by (subst nat_digits.simps) simp
    then show ?thesis using True z by (simp add: upper_digit del: printf_hex.simps(2) add: printf_hex.simps(2) [of "Suc w"])
  next
    case False
    then have "nat_digits 16 p = nat_digits 16 (p div 16) @ [digit_chars ! (p mod 16)]"
      by (subst nat_digits.simps) simp
    moreover have "p div 16 < 16 ^ Suc w" using Suc.prems by (simp add: less_mult_imp_div_less mult.commute)
    ultimately show ?thesis
      using Suc.IH [of "p div 16"] by (simp add: upper_digit del: printf_hex.simps(2) add: printf_hex.simps(2) [of "Suc w"])
  qed
qed

lemma kernel_local_text:
  assumes "length a = 4 \<or> length a = 16" "\<forall>b \<in> set a. b < 256" "p < 65536"
  shows "kernel_local a p = local_text a (int p)"
proof -
  have port: "printf_hex 4 p = hex_port (int p)"
    using printf_hex_digits [of p 3] assms(3) by (simp add: hex_port_def format_hex_def Let_def)
  show ?thesis
  proof (cases "length a = 4")
    case True
    then obtain w x y z where "a = [w, x, y, z]" by (auto simp: numeral_eq_Suc length_Suc_conv)
    then show ?thesis
      using assms(2) port by (simp add: kernel_local_def local_text_def hex_v4_def printf_hex_word del: little_endian.simps)
  next
    case False
    then have "length a = Suc (Suc (Suc (Suc (Suc (Suc (Suc (Suc (Suc (Suc (Suc (Suc (Suc (Suc (Suc (Suc 0)))))))))))))))"
      using assms(1) by simp
    then obtain b0 b1 b2 b3 b4 b5 b6 b7 b8 b9 b10 b11 b12 b13 b14 b15
      where a: "a = [b0, b1, b2, b3, b4, b5, b6, b7, b8, b9, b10, b11, b12, b13, b14, b15]"
      by (auto simp: length_Suc_conv)
    have "hex_v6 a = concat (map (printf_hex 8) (words32 a))"
      using assms(2) unfolding a
      by (simp add: hex_v6_def printf_hex_word upt_rec numeral_2_eq_2 del: little_endian.simps)
    then show ?thesis using False port by (simp add: kernel_local_def local_text_def)
  qed
qed

lemma local_text_inj:
  assumes "length a = n" "length b = n" "n = 4 \<or> n = 16" "\<forall>x \<in> set a. x < 256" "\<forall>x \<in> set b. x < 256" "0 \<le> p" "0 \<le> q"
  shows "local_text a p = local_text b q \<longleftrightarrow> a = b \<and> p = q"
proof -
  have l4: "length (hex_v4 x) = 8" for x by (simp add: hex_v4_def hex_byte_def)
  have l6: "length (hex_v6 x) = 32" for x by (simp add: hex_v6_def upt_rec hex_byte_def)
  show ?thesis
    using assms(1-3) hex_v4_inj [of a b] hex_v6_inj [of a b] hex_port_inj [OF assms(6,7)] assms(4,5)
    by (auto simp: local_text_def l4 l6)
qed

lemma scan_lines_rows:
  assumes "list_all2 renders ls rows" "\<forall>r \<in> set rows. length (rw_addr r) = n \<and> (\<forall>b \<in> set (rw_addr r). b < 256) \<and> rw_port r < 65536"
    and "length a = n" "n = 4 \<or> n = 16" "\<forall>x \<in> set a. x < 256" "0 \<le> p"
  shows "scan_lines (local_text a p) ls = map_option rw_inode (find (\<lambda>r. rw_addr r = a \<and> int (rw_port r) = p) rows)"
  using assms(1,2)
proof (induction ls rows rule: list_all2_induct)
  case Nil
  then show ?case by simp
next
  case (Cons line ls r rows)
  have "local_text (rw_addr r) (int (rw_port r)) = local_text a p \<longleftrightarrow> rw_addr r = a \<and> int (rw_port r) = p"
    using Cons.prems assms(3-6) by (intro local_text_inj) auto
  moreover have "kernel_local (rw_addr r) (rw_port r) = local_text (rw_addr r) (int (rw_port r))"
    using Cons.prems assms(4) by (intro kernel_local_text) auto
  ultimately show ?case using Cons by (auto simp: renders_def Let_def)
qed

lemma scan_table_rows:
  assumes "table_shows n P file rows" "length a = n" "n = 4 \<or> n = 16" "\<forall>x \<in> set a. x < 256" "0 \<le> p"
  shows "scan_net_table P file (local_text a p) =
    map_option rw_inode (find (\<lambda>r. rw_addr r = a \<and> int (rw_port r) = p) rows)"
  using assms scan_lines_rows [of _ rows n a p]
  by (auto simp: table_shows_def scan_net_table_def split: option.splits)

lemma scan_entries_find:
  "scan_entries P (''socket:['' @ inode @ '']'') entries = Option.bind (find (owns P inode) entries) atoi"
  by (induction entries) (auto simp: owns_def split: option.splits)

lemma find_pid_owner:
  "find_pid_by_inode P inode =
     (case pf_entries P of None \<Rightarrow> None | Some entries \<Rightarrow> Option.bind (find (owns P inode) entries) atoi)"
  unfolding find_pid_by_inode_def scan_entries_find by (rule refl)

lemma find_append: "find Q (xs @ ys) = (case find Q xs of Some x \<Rightarrow> Some x | None \<Rightarrow> find Q ys)"
  by (induction xs) auto

text \<open>C28: A connection is put down to the process that holds its socket. When the tables of the kernel
  show the sockets in the notation of proc(5) and the source address is valid, the lookup finds the
  first socket bound to exactly that address and port, an IPv4 address in the IPv6 table included, and
  reports the first process that has a descriptor for it; without such a socket or process it reports
  none.\<close>

theorem socket_owner:
  assumes "table_shows 4 P proto rows4" "table_shows 16 P (proto @ ''6'') rows6" "parse_ip ip = Some a" "0 \<le> port"
  shows "resolve P ip port proto =
    (case find (\<lambda>r. int (rw_port r) = port \<and> (rw_addr r = a \<or> Some (rw_addr r) = to4 a))
            (if to4 a = None then rows6 else rows4 @ rows6) of
       None \<Rightarrow> None
     | Some r \<Rightarrow>
         (case pf_entries P of
            None \<Rightarrow> None
          | Some entries \<Rightarrow>
              map_option (process_info P) (Option.bind (find (owns P (rw_inode r)) entries) atoi)))"
proof -
  have a: "length a = 16" "\<forall>b \<in> set a. b < 256" using parse_ip_wf [OF assms(3)] by auto
  let ?Q = "\<lambda>r. int (rw_port r) = port \<and> (rw_addr r = a \<or> Some (rw_addr r) = to4 a)"
  have v4: "length v = 4 \<and> (\<forall>b \<in> set v. b < 256)" if "to4 a = Some v" for v
    using that a by (auto simp: to4_def split: if_splits dest: in_set_dropD)
  have t6: "local_text a port = hex_v6 a @ '':'' @ hex_port port" using a(1) by (simp add: local_text_def)
  have six: "scan_net_table P (proto @ ''6'') (hex_v6 a @ '':'' @ hex_port port) = map_option rw_inode (find ?Q rows6)"
  proof -
    have "find ?Q rows6 = find (\<lambda>r. rw_addr r = a \<and> int (rw_port r) = port) rows6"
      using assms(2) v4 by (intro find_cong) (auto simp: table_shows_def)
    then show ?thesis using scan_table_rows [OF assms(2) a(1) _ a(2) assms(4)] by (simp add: t6)
  qed
  have four: "scan_net_table P proto (hex_v4 v @ '':'' @ hex_port port) = map_option rw_inode (find ?Q rows4)"
    if "to4 a = Some v" for v
  proof -
    have "find ?Q rows4 = find (\<lambda>r. rw_addr r = v \<and> int (rw_port r) = port) rows4"
      using assms(1) a(1) that by (intro find_cong) (auto simp: table_shows_def)
    moreover have "local_text v port = hex_v4 v @ '':'' @ hex_port port" using v4 [OF that] by (simp add: local_text_def)
    ultimately show ?thesis using scan_table_rows [OF assms(1) _ _ _ assms(4), of v] v4 [OF that] by simp
  qed
  have "find_socket_inode P ip port proto =
      map_option rw_inode (find ?Q (if to4 a = None then rows6 else rows4 @ rows6))"
    using four by (cases "to4 a") (auto simp: find_socket_inode_def assms(3) Let_def six find_append simp del: append_Cons split: option.splits)
  then show ?thesis
    by (cases "find ?Q (if to4 a = None then rows6 else rows4 @ rows6)")
      (auto simp: resolve_def find_pid_owner split: option.splits)
qed

definition sample_line :: string where
  "sample_line = ''   0: 0403020A:01BB 00000000:0000 0A 0:0 00:0 0 1000 0 77 1''"

definition sample_procfs :: procfs where
  "sample_procfs =
     \<lparr>pf_table = (\<lambda>file. if file = ''tcp'' then Some [''  sl  local_address'', sample_line] else None),
      pf_entries = Some [''net'', ''12''],
      pf_fds = (\<lambda>e. if e = ''12'' then Some [None, Some ''socket:[77]''] else None),
      pf_comm = (\<lambda>_. Some ''curl''), pf_cmdline = (\<lambda>_. None), pf_exe = (\<lambda>_. None)\<rparr>"

theorem socket_owner_witness:
  "\<exists>info. resolve sample_procfs ''10.2.3.4'' 443 ''tcp'' = Some info \<and> PID info = 12"
proof -
  let ?r = "\<lparr>rw_addr = [10, 2, 3, 4], rw_port = 443, rw_inode = ''77''\<rparr>"
  have f: "str_fields sample_line = [''0:'', ''0403020A:01BB'', ''00000000:0000'', ''0A'', ''0:0'', ''00:0'', ''0'', ''1000'', ''0'', ''77'', ''1'']"
    unfolding sample_line_def by code_simp
  have "local_text [10, 2, 3, 4] 443 = ''0403020A:01BB''" by code_simp
  then have t: "kernel_local [10, 2, 3, 4] 443 = ''0403020A:01BB''" by (subst kernel_local_text) simp_all
  have a: "parse_ip ''10.2.3.4'' = Some (v4_in_v6_prefix @ [10, 2, 3, 4])" "to4 (v4_in_v6_prefix @ [10, 2, 3, 4]) = Some [10, 2, 3, 4]"
    by code_simp+
  have n: "atoi ''net'' = None" "atoi ''12'' = Some 12" by code_simp+
  have "renders sample_line ?r" by (simp add: renders_def f t)
  then have four: "table_shows 4 sample_procfs ''tcp'' [?r]"
    by (simp add: table_shows_def sample_procfs_def)
  have six: "table_shows 16 sample_procfs (''tcp'' @ ''6'') []"
    by (simp add: table_shows_def sample_procfs_def)
  have ent: "pf_entries sample_procfs = Some [''net'', ''12'']"
    "owns sample_procfs ''77'' ''12''" "\<not> owns sample_procfs ''77'' ''net''"
    by (simp_all add: sample_procfs_def owns_def n)
  from socket_owner [OF four six a(1), of 443] show ?thesis
    by (simp add: a(2) ent n process_info_def)
qed

end
