(* ===== verification/Lifecycle.thy ===== *)
theory Lifecycle
  imports Prelude
begin

text \<open>
  How the proxies are started, restarted and stopped: the retry loop and the service groups of
  \<^verbatim>\<open>internal/g0efilter/app.go\<close>, the accept loop of \<^verbatim>\<open>internal/filter/common.go\<close> and
  the pair of DNS servers of \<^verbatim>\<open>internal/filter/dns_filter.go\<close>. Each goroutine is a program
  counter, the goroutine that closes the listener included; a step relation interleaves the service
  groups of all policies that were ever loaded. What the kernel does is the nondeterminism of the
  relation: a listen may fail, an accept may fail, a timer fires when it wants.
\<close>

datatype svc_pc =
    Loop_top \<comment> \<open>the head of the loop in \<^verbatim>\<open>runServiceWithRetry\<close>\<close>
  | Calling \<comment> \<open>\<^verbatim>\<open>serveTCP\<close>, before the listen\<close>
  | Accepting \<comment> \<open>in its accept loop\<close>
  | Failed \<comment> \<open>it returned an error\<close>
  | Waiting \<comment> \<open>for the retry delay\<close>
  | Ended

datatype listener = No_listener | Open | Closed

record svc =
  sc_pc :: svc_pc
  sc_ln :: listener \<comment> \<open>of the last call\<close>
  sc_handled :: nat \<comment> \<open>connections handed to a handler\<close>

definition svc_start :: svc where
  "svc_start = \<lparr>sc_pc = Loop_top, sc_ln = No_listener, sc_handled = 0\<rparr>"

inductive svc_step :: "bool \<Rightarrow> bool \<Rightarrow> svc \<Rightarrow> svc \<Rightarrow> bool" for cancelled port_free where
  \<comment> \<open>whether the context is done, and whether no socket holds the address\<close>
  top_exit: "cancelled \<Longrightarrow> sc_pc s = Loop_top \<Longrightarrow> svc_step cancelled port_free s (s\<lparr>sc_pc := Ended\<rparr>)"
| top_call: "\<not> cancelled \<Longrightarrow> sc_pc s = Loop_top \<Longrightarrow> svc_step cancelled port_free s (s\<lparr>sc_pc := Calling\<rparr>)"
| listen_ok: "port_free \<Longrightarrow> sc_pc s = Calling \<Longrightarrow>
    svc_step cancelled port_free s (s\<lparr>sc_pc := Accepting, sc_ln := Open\<rparr>)"
| listen_error: "sc_pc s = Calling \<Longrightarrow> svc_step cancelled port_free s (s\<lparr>sc_pc := Failed\<rparr>)"
| close_listener: "cancelled \<Longrightarrow> sc_ln s = Open \<Longrightarrow> svc_step cancelled port_free s (s\<lparr>sc_ln := Closed\<rparr>)"
| accept_conn: "sc_pc s = Accepting \<Longrightarrow> sc_ln s = Open \<Longrightarrow>
    svc_step cancelled port_free s (s\<lparr>sc_handled := Suc (sc_handled s)\<rparr>)"
| accept_error: "\<not> cancelled \<Longrightarrow> sc_pc s = Accepting \<Longrightarrow> svc_step cancelled port_free s s"
| accept_done: "cancelled \<Longrightarrow> sc_pc s = Accepting \<Longrightarrow> svc_step cancelled port_free s (s\<lparr>sc_pc := Loop_top\<rparr>)"
    \<comment> \<open>\<^verbatim>\<open>serveTCP\<close> returns nil, the loop continues\<close>
| failed_exit: "cancelled \<Longrightarrow> sc_pc s = Failed \<Longrightarrow> svc_step cancelled port_free s (s\<lparr>sc_pc := Ended\<rparr>)"
| failed_wait: "\<not> cancelled \<Longrightarrow> sc_pc s = Failed \<Longrightarrow> svc_step cancelled port_free s (s\<lparr>sc_pc := Waiting\<rparr>)"
| wait_exit: "cancelled \<Longrightarrow> sc_pc s = Waiting \<Longrightarrow> svc_step cancelled port_free s (s\<lparr>sc_pc := Ended\<rparr>)"
| wait_over: "sc_pc s = Waiting \<Longrightarrow> svc_step cancelled port_free s (s\<lparr>sc_pc := Loop_top\<rparr>)"

inductive_cases svc_stepE: "svc_step cancelled port_free s s'"

text \<open>A service group for each policy, the latest last; its context is done once it was stopped.\<close>

record group =
  gr_cancelled :: bool
  gr_svc :: svc

definition start_service_group :: group where
  "start_service_group = \<lparr>gr_cancelled = False, gr_svc = svc_start\<rparr>"

definition stop_services :: "group list \<Rightarrow> group list" where
  "stop_services gs = map (\<lambda>g. g\<lparr>gr_cancelled := True\<rparr>) gs"

definition restart_services :: "group list \<Rightarrow> group list" where
  "restart_services gs = stop_services gs @ [start_service_group]"

definition holds_port :: "group \<Rightarrow> bool" where
  "holds_port g \<longleftrightarrow> sc_ln (gr_svc g) = Open"

definition port_free :: "group list \<Rightarrow> bool" where
  "port_free gs \<longleftrightarrow> \<not> list_ex holds_port gs"

inductive group_step :: "group list \<Rightarrow> group list \<Rightarrow> bool" where
  \<comment> \<open>a step of one goroutine\<close>
  "svc_step (gr_cancelled g) (port_free (xs @ g # ys)) (gr_svc g) s' \<Longrightarrow>
   group_step (xs @ g # ys) (xs @ g\<lparr>gr_svc := s'\<rparr> # ys)"

inductive group_steps :: "group list \<Rightarrow> group list \<Rightarrow> bool" where
  steps_none: "group_steps gs gs"
| steps_more: "group_step gs gs' \<Longrightarrow> group_steps gs' gs'' \<Longrightarrow> group_steps gs gs''"

inductive supervised :: "group list \<Rightarrow> bool" where
  sup_start: "supervised [start_service_group]"
| sup_reload: "supervised gs \<Longrightarrow> supervised (restart_services gs)"
| sup_step: "supervised gs \<Longrightarrow> group_step gs gs' \<Longrightarrow> supervised gs'"

subsection \<open>One socket at a time\<close>

definition svc_ok :: "bool \<Rightarrow> svc \<Rightarrow> bool" where
  "svc_ok cancelled s \<longleftrightarrow>
     (sc_pc s = Accepting \<longrightarrow> sc_ln s = Open \<or> cancelled \<and> sc_ln s = Closed) \<and>
     (sc_ln s = Open \<and> sc_pc s \<noteq> Accepting \<longrightarrow> cancelled) \<and>
     (sc_pc s = Ended \<longrightarrow> cancelled)"

definition groups_ok :: "group list \<Rightarrow> bool" where
  "groups_ok gs \<longleftrightarrow>
     gs \<noteq> [] \<and> list_all gr_cancelled (butlast gs) \<and> \<not> gr_cancelled (last gs) \<and>
     list_all (\<lambda>g. svc_ok (gr_cancelled g) (gr_svc g)) gs \<and> length (filter holds_port gs) \<le> 1"

lemma svc_step_ok: "svc_step c f s s' \<Longrightarrow> svc_ok c s \<Longrightarrow> svc_ok c s'"
  by (erule svc_stepE) (auto simp: svc_ok_def)

lemma svc_step_open: "svc_step c f s s' \<Longrightarrow> sc_ln s' = Open \<Longrightarrow> sc_ln s = Open \<or> f"
  by (erule svc_stepE) auto

lemma group_step_ok:
  assumes "group_step gs gs'" "groups_ok gs"
  shows "groups_ok gs'"
  using assms(1)
proof cases
  case (1 g xs ys s')
  have "list_all (\<lambda>g. svc_ok (gr_cancelled g) (gr_svc g)) gs'"
    using assms(2) 1 svc_step_ok by (auto simp: groups_ok_def)
  moreover have "length (filter holds_port gs') \<le> 1"
  proof (cases "port_free gs")
    case True
    then have "filter holds_port xs = []" "filter holds_port ys = []"
      by (auto simp: 1 port_free_def list_ex_iff filter_empty_conv)
    then show ?thesis by (simp add: 1)
  next
    case False
    then have "holds_port (g\<lparr>gr_svc := s'\<rparr>) \<Longrightarrow> holds_port g"
      using svc_step_open [OF 1(3)] by (auto simp: holds_port_def 1)
    then have "length (filter holds_port gs') \<le> length (filter holds_port gs)" by (auto simp: 1)
    then show ?thesis using assms(2) by (simp add: groups_ok_def)
  qed
  moreover have "list_all gr_cancelled (butlast gs')" "\<not> gr_cancelled (last gs')" "gs' \<noteq> []"
    using assms(2) by (cases "ys = []"; simp add: groups_ok_def 1 butlast_append)+
  ultimately show ?thesis by (simp add: groups_ok_def)
qed

lemma restart_ok: "groups_ok gs \<Longrightarrow> groups_ok (restart_services gs)"
proof -
  assume ok: "groups_ok gs"
  have "filter holds_port (stop_services gs) = stop_services (filter holds_port gs)"
    by (induction gs) (auto simp: stop_services_def holds_port_def)
  then have "length (filter holds_port (restart_services gs)) = length (filter holds_port gs)"
    by (simp add: restart_services_def start_service_group_def svc_start_def holds_port_def stop_services_def)
  then show ?thesis
    using ok by (auto simp: groups_ok_def restart_services_def stop_services_def list_all_iff
        start_service_group_def svc_start_def svc_ok_def)
qed

lemma supervised_ok: "supervised gs \<Longrightarrow> groups_ok gs"
proof (induction rule: supervised.induct)
  case sup_start
  show ?case by (simp add: groups_ok_def start_service_group_def svc_start_def svc_ok_def holds_port_def)
next
  case (sup_reload gs)
  then show ?case by (simp add: restart_ok)
next
  case (sup_step gs gs')
  then show ?case by (blast intro: group_step_ok)
qed

subsection \<open>The newest policy takes over\<close>

inductive_cases group_stepsE: "group_steps gs gs'"

lemma steps_one: "group_step gs gs' \<Longrightarrow> group_steps gs gs'"
  by (rule steps_more [OF _ steps_none])

lemma steps_trans: "group_steps gs gs' \<Longrightarrow> group_steps gs' gs'' \<Longrightarrow> group_steps gs gs''"
  by (induction rule: group_steps.induct) (auto intro: group_steps.intros)

lemma svc_step_mono: "svc_step c False s s' \<Longrightarrow> svc_step c f s s'"
  by (erule svc_stepE) (auto intro: svc_step.intros)

lemma lift_step:
  assumes "svc_step c (port_free (xs @ g\<lparr>gr_svc := s\<rparr> # ys) \<and> f) s s'" "gr_cancelled g = c"
  shows "group_step (xs @ g\<lparr>gr_svc := s\<rparr> # ys) (xs @ g\<lparr>gr_svc := s'\<rparr> # ys)"
proof -
  have "svc_step c (port_free (xs @ g\<lparr>gr_svc := s\<rparr> # ys)) s s'"
    using assms(1) svc_step_mono by (cases f) auto
  then have "group_step (xs @ g\<lparr>gr_svc := s\<rparr> # ys) (xs @ (g\<lparr>gr_svc := s\<rparr>)\<lparr>gr_svc := s'\<rparr> # ys)"
    using assms(2) by (intro group_step.intros) simp
  then show ?thesis by simp
qed

definition settled :: "group \<Rightarrow> bool" where
  "settled g \<longleftrightarrow> gr_cancelled g \<and> sc_pc (gr_svc g) = Ended \<and> \<not> holds_port g"

lemma svc_ends:
  assumes "svc_ok True s"
  shows "\<exists>s'. (svc_step True False)\<^sup>*\<^sup>* s s' \<and> sc_pc s' = Ended \<and> sc_ln s' \<noteq> Open"
proof -
  have exit: "\<exists>s'. (svc_step True False)\<^sup>*\<^sup>* s s' \<and> sc_pc s' = Ended \<and> sc_ln s' \<noteq> Open" if ln: "sc_ln s \<noteq> Open" for s
  proof (cases "sc_pc s")
    case Loop_top
    then show ?thesis using ln top_exit [of True s] by (intro exI [of _ "s\<lparr>sc_pc := Ended\<rparr>"]) auto
  next
    case Calling
    have "(svc_step True False)\<^sup>*\<^sup>* s (s\<lparr>sc_pc := Failed, sc_pc := Ended\<rparr>)"
      using listen_error [OF Calling] failed_exit [of True "s\<lparr>sc_pc := Failed\<rparr>"]
      by (auto intro!: converse_rtranclp_into_rtranclp [of _ s "s\<lparr>sc_pc := Failed\<rparr>"])
    then show ?thesis using ln by (intro exI [of _ "s\<lparr>sc_pc := Ended\<rparr>"]) simp
  next
    case Accepting
    have "(svc_step True False)\<^sup>*\<^sup>* s (s\<lparr>sc_pc := Loop_top, sc_pc := Ended\<rparr>)"
      using accept_done [OF _ Accepting, of True] top_exit [of True "s\<lparr>sc_pc := Loop_top\<rparr>"]
      by (auto intro!: converse_rtranclp_into_rtranclp [of _ s "s\<lparr>sc_pc := Loop_top\<rparr>"])
    then show ?thesis using ln by (intro exI [of _ "s\<lparr>sc_pc := Ended\<rparr>"]) simp
  next
    case Failed
    then show ?thesis using ln failed_exit [of True s] by (intro exI [of _ "s\<lparr>sc_pc := Ended\<rparr>"]) auto
  next
    case Waiting
    then show ?thesis using ln wait_exit [of True s] by (intro exI [of _ "s\<lparr>sc_pc := Ended\<rparr>"]) auto
  next
    case Ended
    then show ?thesis using ln by blast
  qed
  show ?thesis
  proof (cases "sc_ln s = Open")
    case True
    from exit [of "s\<lparr>sc_ln := Closed\<rparr>"] obtain s' where "(svc_step True False)\<^sup>*\<^sup>* (s\<lparr>sc_ln := Closed\<rparr>) s'"
      "sc_pc s' = Ended" "sc_ln s' \<noteq> Open" by auto
    then show ?thesis
      using close_listener [of True s False] True by (meson converse_rtranclp_into_rtranclp)
  next
    case False
    then show ?thesis by (rule exit)
  qed
qed

lemma lift_path:
  assumes "(svc_step c False)\<^sup>*\<^sup>* s s'" "gr_cancelled g = c"
  shows "group_steps (xs @ g\<lparr>gr_svc := s\<rparr> # ys) (xs @ g\<lparr>gr_svc := s'\<rparr> # ys)"
  using assms(1)
proof (induction rule: rtranclp_induct)
  case base
  show ?case by (rule steps_none)
next
  case (step y z)
  have "group_step (xs @ g\<lparr>gr_svc := y\<rparr> # ys) (xs @ g\<lparr>gr_svc := z\<rparr> # ys)"
    using step.hyps(2) assms(2) by (intro lift_step [where f = False]) simp_all
  then show ?case using step.IH steps_trans steps_one by blast
qed

lemma old_groups_settle:
  "list_all (\<lambda>g. gr_cancelled g \<and> svc_ok True (gr_svc g)) zs \<Longrightarrow>
   \<exists>zs'. group_steps (xs @ zs @ ys) (xs @ zs' @ ys) \<and> length zs' = length zs \<and> list_all settled zs'"
proof (induction zs arbitrary: xs)
  case Nil
  then show ?case by (intro exI [of _ "[]"]) (simp add: steps_none)
next
  case (Cons g zs)
  obtain s' where s': "(svc_step True False)\<^sup>*\<^sup>* (gr_svc g) s'" "sc_pc s' = Ended" "sc_ln s' \<noteq> Open"
    using svc_ends Cons.prems by auto
  have one: "group_steps (xs @ g # zs @ ys) (xs @ g\<lparr>gr_svc := s'\<rparr> # zs @ ys)"
    using lift_path [OF s'(1), of g xs "zs @ ys"] Cons.prems by simp
  obtain zs' where zs': "group_steps ((xs @ [g\<lparr>gr_svc := s'\<rparr>]) @ zs @ ys) ((xs @ [g\<lparr>gr_svc := s'\<rparr>]) @ zs' @ ys)"
    "length zs' = length zs" "list_all settled zs'"
    using Cons.IH [of "xs @ [g\<lparr>gr_svc := s'\<rparr>]"] Cons.prems by auto
  have "group_steps (xs @ (g # zs) @ ys) (xs @ (g\<lparr>gr_svc := s'\<rparr> # zs') @ ys)"
    using steps_trans [OF one] zs'(1) by simp
  moreover have "settled (g\<lparr>gr_svc := s'\<rparr>)" using s'(2,3) Cons.prems by (simp add: settled_def holds_port_def)
  ultimately show ?case
    using zs'(2,3) by (intro exI [of _ "g\<lparr>gr_svc := s'\<rparr> # zs'"]) simp
qed

lemma newest_listens:
  assumes "list_all settled xs" "\<not> gr_cancelled g" "svc_ok False (gr_svc g)"
  shows "\<exists>s'. group_steps (xs @ [g]) (xs @ [g\<lparr>gr_svc := s'\<rparr>]) \<and> sc_pc s' = Accepting \<and> sc_ln s' = Open"
proof -
  have free: "port_free (xs @ [g\<lparr>gr_svc := s\<rparr>])" if "sc_ln s \<noteq> Open" for s
    using assms(1) that by (auto simp: port_free_def list_ex_iff list_all_iff settled_def holds_port_def)
  have step: "group_step (xs @ [g\<lparr>gr_svc := s\<rparr>]) (xs @ [g\<lparr>gr_svc := s'\<rparr>])"
    if "svc_step False True s s'" "sc_ln s \<noteq> Open" for s s'
    using that free [OF that(2)] assms(2) by (intro lift_step [where f = True and ys = "[]" and c = False]) simp_all
  have call: "group_steps (xs @ [g\<lparr>gr_svc := s\<rparr>]) (xs @ [g\<lparr>gr_svc := s\<lparr>sc_pc := Accepting, sc_ln := Open\<rparr>\<rparr>])"
    if "sc_pc s = Calling" "sc_ln s \<noteq> Open" for s
    using that by (intro steps_one step listen_ok) simp_all
  have top: "group_steps (xs @ [g\<lparr>gr_svc := s\<rparr>]) (xs @ [g\<lparr>gr_svc := s\<lparr>sc_pc := Accepting, sc_ln := Open\<rparr>\<rparr>])"
    if "sc_pc s = Loop_top" "sc_ln s \<noteq> Open" for s
    using steps_trans [OF steps_one [OF step [OF top_call [of False s True]]] call [of "s\<lparr>sc_pc := Calling\<rparr>"]] that
    by simp
  have wait: "group_steps (xs @ [g\<lparr>gr_svc := s\<rparr>]) (xs @ [g\<lparr>gr_svc := s\<lparr>sc_pc := Accepting, sc_ln := Open\<rparr>\<rparr>])"
    if "sc_pc s = Waiting" "sc_ln s \<noteq> Open" for s
    using steps_trans [OF steps_one [OF step [OF wait_over [of s False True]]] top [of "s\<lparr>sc_pc := Loop_top\<rparr>"]] that
    by simp
  have fail: "group_steps (xs @ [g\<lparr>gr_svc := s\<rparr>]) (xs @ [g\<lparr>gr_svc := s\<lparr>sc_pc := Accepting, sc_ln := Open\<rparr>\<rparr>])"
    if "sc_pc s = Failed" "sc_ln s \<noteq> Open" for s
    using steps_trans [OF steps_one [OF step [OF failed_wait [of False s True]]] wait [of "s\<lparr>sc_pc := Waiting\<rparr>"]] that
    by simp
  let ?s = "gr_svc g"
  have g: "g\<lparr>gr_svc := ?s\<rparr> = g" by simp
  show ?thesis
  proof (cases "sc_pc ?s = Accepting")
    case True
    then show ?thesis
      using assms(3) steps_none [of "xs @ [g]"] by (intro exI [of _ ?s]) (auto simp: svc_ok_def)
  next
    case False
    then have "sc_ln ?s \<noteq> Open" using assms(3) by (auto simp: svc_ok_def)
    moreover have "sc_pc ?s \<noteq> Ended" using assms(3) by (auto simp: svc_ok_def)
    ultimately have "group_steps (xs @ [g]) (xs @ [g\<lparr>gr_svc := ?s\<lparr>sc_pc := Accepting, sc_ln := Open\<rparr>\<rparr>])"
      using False call [of ?s] top [of ?s] wait [of ?s] fail [of ?s] unfolding g by (cases "sc_pc ?s") auto
    then show ?thesis by (intro exI [of _ "?s\<lparr>sc_pc := Accepting, sc_ln := Open\<rparr>"]) simp
  qed
qed

lemma newest_takes_over_one:
  assumes "supervised gs"
  shows "length (filter holds_port gs) \<le> 1 \<and> list_all gr_cancelled (butlast gs) \<and>
    (\<exists>zs g. group_steps gs (zs @ [g]) \<and> length gs = Suc (length zs) \<and> list_all settled zs \<and>
       \<not> gr_cancelled g \<and> sc_pc (gr_svc g) = Accepting \<and> holds_port g)"
proof -
  have ok: "groups_ok gs" using assms by (rule supervised_ok)
  obtain zs g where gs: "gs = zs @ [g]" using ok unfolding groups_ok_def by (metis append_butlast_last_id)
  have old: "list_all (\<lambda>g. gr_cancelled g \<and> svc_ok True (gr_svc g)) zs"
    using ok by (auto simp: groups_ok_def gs list_all_iff)
  obtain zs' where zs': "group_steps ([] @ zs @ [g]) ([] @ zs' @ [g])" "length zs' = length zs" "list_all settled zs'"
    using old_groups_settle [OF old, of "[]" "[g]"] by blast
  have g: "\<not> gr_cancelled g" "svc_ok False (gr_svc g)" using ok by (auto simp: groups_ok_def gs)
  obtain s' where s': "group_steps (zs' @ [g]) (zs' @ [g\<lparr>gr_svc := s'\<rparr>])" "sc_pc s' = Accepting" "sc_ln s' = Open"
    using newest_listens [OF zs'(3) g] by blast
  have "group_steps gs (zs' @ [g\<lparr>gr_svc := s'\<rparr>])" using steps_trans [of gs "zs' @ [g]"] zs'(1) s'(1) by (simp add: gs)
  moreover have "length (filter holds_port gs) \<le> 1" "list_all gr_cancelled (butlast gs)"
    using ok by (simp_all add: groups_ok_def)
  ultimately show ?thesis
    using zs'(2,3) s'(2,3) g(1)
    by (intro conjI exI [of _ zs'] exI [of _ "g\<lparr>gr_svc := s'\<rparr>"]) (simp_all add: gs holds_port_def)
qed

text \<open>In HTTPS mode a group has two services with an address each, and one context: the HTTPS proxy and
  the HTTP proxy of \<^verbatim>\<open>startHTTPSServices\<close>. The groups of the two addresses are kept side by side.\<close>

inductive https_mode :: "group list \<Rightarrow> group list \<Rightarrow> bool" where
  both_start: "https_mode [start_service_group] [start_service_group]"
| both_reload: "https_mode as bs \<Longrightarrow> https_mode (restart_services as) (restart_services bs)"
| https_moves: "https_mode as bs \<Longrightarrow> group_step as as' \<Longrightarrow> https_mode as' bs"
| http_moves: "https_mode as bs \<Longrightarrow> group_step bs bs' \<Longrightarrow> https_mode as bs'"

inductive proxy_step :: "group list \<times> group list \<Rightarrow> group list \<times> group list \<Rightarrow> bool" where
  "group_step as as' \<Longrightarrow> proxy_step (as, bs) (as', bs)"
| "group_step bs bs' \<Longrightarrow> proxy_step (as, bs) (as, bs')"

definition newest_in_charge :: "group list \<Rightarrow> bool" where
  "newest_in_charge gs \<longleftrightarrow>
     gs \<noteq> [] \<and> list_all settled (butlast gs) \<and> \<not> gr_cancelled (last gs) \<and>
     sc_pc (gr_svc (last gs)) = Accepting \<and> holds_port (last gs)"

lemma https_mode_supervised: "https_mode as bs \<Longrightarrow> supervised as \<and> supervised bs \<and> length as = length bs"
proof (induction rule: https_mode.induct)
  case (both_reload as bs)
  then show ?case using sup_reload by (auto simp: restart_services_def stop_services_def)
next
  case (https_moves as bs as')
  from https_moves(2) have "length as' = length as" by cases simp
  then show ?case using https_moves sup_step by auto
next
  case (http_moves as bs bs')
  from http_moves(2) have "length bs' = length bs" by cases simp
  then show ?case using http_moves sup_step by auto
qed (simp add: sup_start)

lemma https_steps: "group_steps as as' \<Longrightarrow> proxy_step\<^sup>*\<^sup>* (as, bs) (as', bs)"
  by (induction rule: group_steps.induct) (auto intro: proxy_step.intros converse_rtranclp_into_rtranclp)

lemma http_steps: "group_steps bs bs' \<Longrightarrow> proxy_step\<^sup>*\<^sup>* (as, bs) (as, bs')"
  by (induction rule: group_steps.induct) (auto intro: proxy_step.intros converse_rtranclp_into_rtranclp)

text \<open>C24: A reload ends with the new policy in charge of both TCP proxies. For the HTTPS and the HTTP
  proxy of HTTPS mode, in every state that any interleaving of starts, reloads, failures and timers can
  reach, at most one socket is bound to each address, every group but the latest is cancelled, and the
  goroutines alone can bring the system to the state in which all older groups have ended without a
  socket and the latest one accepts connections on both addresses. (The DNS modes are not covered: a DNS
  service that started by half never accepts again, as \<open>dns_half_start_never_settles\<close> shows.)\<close>

theorem newest_takes_over:
  assumes "https_mode as bs"
  shows "length (filter holds_port as) \<le> 1 \<and> length (filter holds_port bs) \<le> 1 \<and>
    list_all gr_cancelled (butlast as) \<and> list_all gr_cancelled (butlast bs) \<and>
    (\<exists>as' bs'. proxy_step\<^sup>*\<^sup>* (as, bs) (as', bs') \<and> length as' = length as \<and> length bs' = length as \<and>
       newest_in_charge as' \<and> newest_in_charge bs')"
proof -
  have sup: "supervised as" "supervised bs" "length as = length bs" using https_mode_supervised [OF assms] by simp_all
  obtain zs g where a: "group_steps as (zs @ [g])" "length as = Suc (length zs)" "newest_in_charge (zs @ [g])"
    using newest_takes_over_one [OF sup(1)] by (auto simp: newest_in_charge_def)
  obtain ws h where b: "group_steps bs (ws @ [h])" "length bs = Suc (length ws)" "newest_in_charge (ws @ [h])"
    using newest_takes_over_one [OF sup(2)] by (auto simp: newest_in_charge_def)
  have "proxy_step\<^sup>*\<^sup>* (as, bs) (zs @ [g], ws @ [h])"
    using https_steps [OF a(1), of bs] http_steps [OF b(1), of "zs @ [g]"] by (rule rtranclp_trans)
  then show ?thesis
    using newest_takes_over_one [OF sup(1)] newest_takes_over_one [OF sup(2)] a(2,3) b(2,3) sup(3)
    by (metis length_append_singleton)
qed

theorem newest_takes_over_witness:
  "length (filter holds_port (restart_services [start_service_group])) \<le> 1 \<and>
   (\<exists>as bs. length as = 2 \<and> length bs = 2 \<and> newest_in_charge as \<and> newest_in_charge bs \<and>
     proxy_step\<^sup>*\<^sup>* (restart_services [start_service_group], restart_services [start_service_group]) (as, bs))"
proof -
  have "length (restart_services [start_service_group]) = 2" by (simp add: restart_services_def stop_services_def)
  with newest_takes_over [OF both_reload [OF both_start]] show ?thesis by metis
qed

text \<open>The cancelled group closes its socket in a goroutine of its own, so the listen of the new group can
  come too early: then the address is taken by the program itself, and the new proxy sits out the retry
  delay while nobody accepts.\<close>

lemma reload_race:
  "\<exists>gs g. supervised gs \<and> gs \<noteq> [] \<and> g = last gs \<and> sc_pc (gr_svc g) = Waiting \<and>
     list_all (\<lambda>g. sc_pc (gr_svc g) \<noteq> Accepting \<or> sc_ln (gr_svc g) = Closed) gs"
proof -
  let ?new = "\<lambda>pc. \<lparr>gr_cancelled = False, gr_svc = \<lparr>sc_pc = pc, sc_ln = No_listener, sc_handled = 0\<rparr>\<rparr>"
  let ?old = "\<lambda>c ln. \<lparr>gr_cancelled = c, gr_svc = \<lparr>sc_pc = Accepting, sc_ln = ln, sc_handled = 0\<rparr>\<rparr>"
  have single: "svc_step (gr_cancelled g) (port_free [g]) (gr_svc g) s' \<Longrightarrow> group_step [g] [g\<lparr>gr_svc := s'\<rparr>]" for g s'
    using group_step.intros [of g "[]" "[]" s'] by simp
  have snd_: "svc_step (gr_cancelled g) (port_free [h, g]) (gr_svc g) s' \<Longrightarrow> group_step [h, g] [h, g\<lparr>gr_svc := s'\<rparr>]" for g h s'
    using group_step.intros [of g "[h]" "[]" s'] by simp
  have fst_: "svc_step (gr_cancelled g) (port_free [g, h]) (gr_svc g) s' \<Longrightarrow> group_step [g, h] [g\<lparr>gr_svc := s'\<rparr>, h]" for g h s'
    using group_step.intros [of g "[]" "[h]" s'] by simp
  have "supervised [?new Loop_top]" using sup_start by (simp add: start_service_group_def svc_start_def)
  then have "supervised [?new Calling]"
    using single [of "?new Loop_top", OF top_call] sup_step by fastforce
  then have "supervised [?old False Open]"
    using single [of "?new Calling", OF listen_ok] sup_step
    by (fastforce simp: port_free_def holds_port_def)
  then have "supervised (restart_services [?old False Open])" by (rule sup_reload)
  then have "supervised [?old True Open, ?new Loop_top]"
    by (simp add: restart_services_def stop_services_def start_service_group_def svc_start_def)
  then have "supervised [?old True Open, ?new Calling]"
    using snd_ [of "?new Loop_top" "?old True Open", OF top_call] sup_step by fastforce
  then have "supervised [?old True Open, ?new Failed]"
    using snd_ [of "?new Calling" "?old True Open", OF listen_error] sup_step by fastforce
  then have "supervised [?old True Open, ?new Waiting]"
    using snd_ [of "?new Failed" "?old True Open", OF failed_wait] sup_step by fastforce
  then have "supervised [?old True Closed, ?new Waiting]"
    using fst_ [of "?old True Open" "?new Waiting", OF close_listener] sup_step by fastforce
  then show ?thesis by (intro exI [of _ "[?old True Closed, ?new Waiting]"] exI [of _ "?new Waiting"]) simp
qed

subsection \<open>The pair of DNS servers\<close>

text \<open>Which call of \<^verbatim>\<open>Serve53\<close> holds the UDP and the TCP socket. A socket may also be held by
  another process. The servers of a call stop with the context only, so they outlive a call that fails.\<close>

type_synonym dns_sockets = "nat option \<times> nat option"

definition run_dns_servers :: "nat \<Rightarrow> bool \<times> bool \<Rightarrow> dns_sockets \<Rightarrow> bool \<times> dns_sockets" where
  \<comment> \<open>True: both servers listen and the call blocks until the context is done; False: it returns an error\<close>
  "run_dns_servers k taken sockets =
     (let (udpTaken, tcpTaken) = taken; (udp, tcp) = sockets;
          udpOk = (udp = None \<and> \<not> udpTaken); tcpOk = (tcp = None \<and> \<not> tcpTaken)
      in (udpOk \<and> tcpOk, if udpOk then Some k else udp, if tcpOk then Some k else tcp))"

fun dns_calls :: "nat \<Rightarrow> (bool \<times> bool) list \<Rightarrow> dns_sockets \<Rightarrow> bool list" where
  \<comment> \<open>the calls of the retry loop in one context, given what other processes hold at each\<close>
  "dns_calls k [] sockets = []"
| "dns_calls k (taken # rest) sockets =
     (let (ok, sockets1) = run_dns_servers k taken sockets
      in ok # (if ok then [] else dns_calls (Suc k) rest sockets1))"

lemma dns_calls_fail:
  "fst sockets \<noteq> None \<or> snd sockets \<noteq> None \<Longrightarrow> dns_calls k takens sockets = replicate (length takens) False"
proof (induction takens arbitrary: k sockets)
  case Nil
  then show ?case by simp
next
  case (Cons taken takens)
  obtain ok sockets1 where r: "run_dns_servers k taken sockets = (ok, sockets1)"
    by (cases "run_dns_servers k taken sockets")
  then have "\<not> ok" "fst sockets1 \<noteq> None \<or> snd sockets1 \<noteq> None"
    using Cons.prems by (auto simp: run_dns_servers_def Let_def case_prod_unfold split: if_splits)
  then show ?case using Cons.IH r by simp
qed

text \<open>A half start of the DNS service is never repaired. When a call finds exactly one of the two
  sockets taken by another process, it fails; from then on every retry in the same context fails, for
  ever, even when all other processes have let go of both sockets: the server that did start still
  holds its own.\<close>

theorem dns_half_start_never_settles:
  assumes "fst taken \<noteq> snd taken"
  shows "dns_calls k (taken # takens) (None, None) = replicate (Suc (length takens)) False"
proof -
  obtain ok sockets where r: "run_dns_servers k taken (None, None) = (ok, sockets)"
    by (cases "run_dns_servers k taken (None, None)")
  then have "\<not> ok" "fst sockets \<noteq> None \<or> snd sockets \<noteq> None"
    using assms by (auto simp: run_dns_servers_def Let_def case_prod_unfold split: if_splits)
  then show ?thesis using dns_calls_fail [of sockets "Suc k" takens] r by simp
qed

theorem dns_half_start_never_settles_witness:
  "dns_calls 0 [(True, False), (False, False), (False, False)] (None, None) = [False, False, False]"
  using dns_half_start_never_settles [of "(True, False)" 0 "[(False, False), (False, False)]"]
  by (simp add: numeral_eq_Suc)

end
