(* ===== verification/NetUtil.thy ===== *)
theory NetUtil
  imports Prelude "HOL-Library.Word"
begin

text \<open>
  \<^verbatim>\<open>internal/netutil/netutil.go\<close> and \<^verbatim>\<open>internal/safeio/safeio.go\<close>: the source ports of
  the forwarded DNS queries, taken in turn from a range by a 32-bit counter that wraps around, and the
  helpers that close readers. The socket option itself is a call into the kernel.
\<close>

subsection \<open>Source ports\<close>

definition bypass_mark :: int where "bypass_mark = 1"
definition dns_forward_port_low :: int where "dns_forward_port_low = 61000"
definition dns_forward_port_high :: int where "dns_forward_port_high = 64999"

definition marked_dns_dialer :: "32 word \<Rightarrow> int \<times> 32 word" where
  \<comment> \<open>the source port of the dialer, and the counter after the atomic addition\<close>
  "marked_dns_dialer counter =
     (let span = word_of_int (dns_forward_port_high - dns_forward_port_low + 1);
          counter1 = counter + 1
      in (dns_forward_port_low + uint (counter1 mod span), counter1))"

fun dialed_ports :: "nat \<Rightarrow> 32 word \<Rightarrow> int list" where
  "dialed_ports 0 counter = []"
| "dialed_ports (Suc n) counter =
     (let (port, counter1) = marked_dns_dialer counter in port # dialed_ports n counter1)"

lemma dialer_port: "fst (marked_dns_dialer c) = 61000 + uint (c + 1) mod 4000"
  by (simp add: marked_dns_dialer_def dns_forward_port_low_def dns_forward_port_high_def Let_def uint_mod_distrib)

lemma dialed_length: "length (dialed_ports n c) = n"
  by (induction n arbitrary: c) (simp_all add: marked_dns_dialer_def Let_def)

lemma dialed_nth: "i < n \<Longrightarrow> dialed_ports n c ! i = 61000 + uint (c + 1 + of_nat i) mod 4000"
proof (induction n arbitrary: c i)
  case (Suc n)
  show ?case
  proof (cases i)
    case 0
    then show ?thesis by (simp add: case_prod_unfold Let_def dialer_port)
  next
    case (Suc j)
    then show ?thesis
      using Suc.prems Suc.IH [of j "c + 1"]
      by (simp add: marked_dns_dialer_def Let_def case_prod_unfold algebra_simps)
  qed
qed simp

text \<open>Forwarded queries do not collide. Every source port lies in the range above the ephemeral
  ports, and any 4000 successive dialers use 4000 different ports, unless the counter wraps around on
  the way.\<close>

theorem dns_ports_rotate:
  shows "set (dialed_ports n c) \<subseteq> {61000 .. 64999} \<and>
    (n \<le> 4000 \<and> unat c + n < 2 ^ 32 \<longrightarrow> distinct (dialed_ports n c))"
proof (intro conjI impI)
  show "set (dialed_ports n c) \<subseteq> {61000 .. 64999}"
  proof
    fix p assume "p \<in> set (dialed_ports n c)"
    then obtain i where "i < n" "p = dialed_ports n c ! i" by (auto simp: in_set_conv_nth dialed_length)
    moreover have "0 \<le> x mod 4000 \<and> x mod 4000 < 4000" for x :: int by simp
    ultimately show "p \<in> {61000 .. 64999}" by (auto simp: dialed_nth)
  qed
  assume small: "n \<le> 4000 \<and> unat c + n < 2 ^ 32"
  have v: "uint (c + 1 + of_nat i) = int (unat c + 1 + i)" if "i < n" for i
  proof -
    have "unat (c + 1 + of_nat i) = unat c + 1 + i"
      using that small by (simp add: unat_word_ariths unat_of_nat)
    then show ?thesis by (metis uint_nat)
  qed
  show "distinct (dialed_ports n c)"
    unfolding distinct_conv_nth dialed_length
  proof (intro allI impI)
    fix i j assume ij: "i < n" "j < n" "i \<noteq> j"
    have "int (unat c + 1 + i) mod 4000 \<noteq> int (unat c + 1 + j) mod 4000"
    proof
      assume "int (unat c + 1 + i) mod 4000 = int (unat c + 1 + j) mod 4000"
      then have "4000 dvd int (unat c + 1 + i) - int (unat c + 1 + j)" by (simp only: mod_eq_dvd_iff)
      then have "4000 dvd int i - int j" by simp
      moreover have "\<bar>int i - int j\<bar> < 4000" "int i - int j \<noteq> 0" using ij small by auto
      ultimately show False using dvd_imp_le_int [of "int i - int j" 4000] by auto
    qed
    then show "dialed_ports n c ! i \<noteq> dialed_ports n c ! j" using ij by (simp add: dialed_nth v)
  qed
qed

theorem dns_ports_rotate_witness: "distinct (dialed_ports 4000 7)"
  using dns_ports_rotate [of 4000 7] by simp

lemma wrap_repeats: "fst (marked_dns_dialer (- 3297)) = fst (marked_dns_dialer (- 1))"
  unfolding dialer_port by simp

subsection \<open>Closing readers\<close>

datatype io_error = Drain_error string | Close_error string

definition drain_and_close :: "(string option \<times> string option) option \<Rightarrow> io_error option" where
  \<comment> \<open>the argument: what reading to the end and closing return, None for a nil reader\<close>
  "drain_and_close rc =
     (case rc of
        None \<Rightarrow> None
      | Some (copyErr, closeErr) \<Rightarrow>
          (case copyErr of
             Some e \<Rightarrow> Some (Drain_error e)
           | None \<Rightarrow> map_option Close_error closeErr))"

definition close_with_err :: "string option option \<Rightarrow> string option option \<Rightarrow> string option option" where
  \<comment> \<open>the error variable (None: a nil pointer) after the call; the closer's error (None: a nil closer)\<close>
  "close_with_err dstErr c =
     (case c of
        None \<Rightarrow> dstErr
      | Some err \<Rightarrow> if err \<noteq> None \<and> dstErr = Some None then Some err else dstErr)"

end
