(* ===== verification/Dialers.thy ===== *)
theory Dialers
  imports DnsFilter Firewall NetUtil
begin

text \<open>
  The dialers of the program: \<^verbatim>\<open>MarkedDialer\<close> and \<^verbatim>\<open>MarkedDNSDialer\<close> of
  \<^verbatim>\<open>internal/netutil/netutil.go\<close>, where \<^verbatim>\<open>internal/filter\<close> makes them, and which of
  them the forwarding of a DNS query uses. The control function of a dialer runs on each socket before
  it connects; what the two system calls do is an argument.
\<close>

record dialer =
  dl_timeout :: nanos
  dl_local_port :: "int option" \<comment> \<open>of a UDP socket\<close>
  dl_control :: "bool \<Rightarrow> bool \<Rightarrow> nat option"
    \<comment> \<open>whether the descriptor can be used and whether \<^verbatim>\<open>setsockopt\<close> succeeds; the mark of the
      socket, None: the dial fails\<close>

definition mark_control :: "bool \<Rightarrow> bool \<Rightarrow> nat option" where
  "mark_control usable set_ok = (if \<not> usable then None else Some (if set_ok then nat bypass_mark else 0))"

definition marked_dialer :: "nanos \<Rightarrow> dialer" where
  "marked_dialer timeout = \<lparr>dl_timeout = timeout, dl_local_port = None, dl_control = mark_control\<rparr>"

definition dns_dialer :: "nanos \<Rightarrow> 32 word \<Rightarrow> dialer \<times> 32 word" where
  \<comment> \<open>with the counter before and after\<close>
  "dns_dialer timeout counter =
     (let (port, counter1) = marked_dns_dialer counter
      in ((marked_dialer timeout)\<lparr>dl_local_port := Some port\<rparr>, counter1))"

definition new_dialer_from_options :: "options \<Rightarrow> dialer" where
  "new_dialer_from_options opts = marked_dialer (milliseconds (DialTimeout opts))"

definition handler_dialer :: "dns_handler \<Rightarrow> dialer" where
  "handler_dialer h = marked_dialer (h_timeout h)"

subsection \<open>The dialers of a forward\<close>

fun dialers_loop ::
  "nanos \<Rightarrow> exchange \<Rightarrow> dns_msg \<Rightarrow> string list \<Rightarrow> dialer \<Rightarrow> dialer \<Rightarrow> 32 word \<Rightarrow> dialer list \<times> 32 word" where
  \<comment> \<open>the dialer of the UDP client, the one of the TCP client and the counter; one dialer for each exchange\<close>
  "dialers_loop t xchg request [] udp tcp c = ([], c)"
| "dialers_loop t xchg request (up # ups) udp tcp c =
     (let (in_msg, used, udp1, c1) =
            (case xchg ''udp'' 0 up request of
               Some m \<Rightarrow> (Some m, [udp], udp, c)
             | None \<Rightarrow> (let (d, c1) = dns_dialer t c in (xchg ''udp'' 1 up request, [udp, d], d, c1)));
          (rest, c2) = dialers_loop t xchg request ups udp1 tcp c1
      in case in_msg of
           None \<Rightarrow> (used @ rest, c2)
         | Some m \<Rightarrow>
             if \<not> truncated m then (used, c1)
             else
               (case xchg ''tcp'' 0 up request of
                  Some m' \<Rightarrow> (used @ [tcp], c1)
                | None \<Rightarrow> (used @ tcp # rest, c2)))"

definition forward_dialers :: "dns_handler \<Rightarrow> exchange \<Rightarrow> dns_msg \<Rightarrow> 32 word \<Rightarrow> dialer list \<times> 32 word" where
  "forward_dialers h xchg request c =
     (let (udp, c1) = dns_dialer (h_timeout h) c
      in dialers_loop (h_timeout h) xchg request (h_upstreams h) udp (handler_dialer h) c1)"

fun exchange_proto :: "dns_event \<Rightarrow> string" where
  "exchange_proto (Dexchange proto up request) = proto"
| "exchange_proto _ = []"

definition dialer_proto :: "dialer \<Rightarrow> string" where
  "dialer_proto d = (if dl_local_port d = None then ''tcp'' else ''udp'')"

lemma dns_dialer_udp: "dns_dialer t c = (d, c1) \<Longrightarrow> dialer_proto d = ''udp'' \<and> dl_control d = mark_control"
  by (auto simp: dns_dialer_def marked_dialer_def dialer_proto_def split: prod.splits)

lemma dialers_loop_events:
  "dialer_proto udp = ''udp'' \<Longrightarrow> dialer_proto tcp = ''tcp'' \<Longrightarrow>
   map dialer_proto (fst (dialers_loop t xchg request ups udp tcp c)) =
   map exchange_proto (snd (forward_loop xchg request ups))"
proof (induction ups arbitrary: udp c)
  case (Cons up ups)
  obtain d c1 where d: "dns_dialer t c = (d, c1)" by fastforce
  note ih = Cons.IH [OF Cons.prems] Cons.IH [OF dns_dialer_udp [OF d, THEN conjunct1] Cons.prems(2)]
  show ?case
    using Cons.prems ih [of c] ih(2) [of c1] dns_dialer_udp [OF d]
    by (auto simp: case_prod_unfold Let_def d split: option.split)
qed simp

lemma dialers_loop_marked:
  "dl_control udp = mark_control \<Longrightarrow> dl_control tcp = mark_control \<Longrightarrow>
   d \<in> set (fst (dialers_loop t xchg request ups udp tcp c)) \<Longrightarrow> dl_control d = mark_control"
proof (induction ups arbitrary: udp c)
  case (Cons up ups)
  obtain d1 c1 where d: "dns_dialer t c = (d1, c1)" by fastforce
  from Cons.prems Cons.IH [of udp c] Cons.IH [of d1 c1] dns_dialer_udp [OF d] show ?case
    by (auto simp: case_prod_unfold Let_def d split: option.splits if_splits)
qed simp

text \<open>The forwarding of a query makes one exchange with each of these dialers, UDP ones with a port of
  the range and TCP ones without.\<close>

lemma forward_dialers_events:
  "map dialer_proto (fst (forward_dialers h xchg request c)) = map exchange_proto (snd (forward h xchg request))"
  using dialers_loop_events dns_dialer_udp
  by (simp add: forward_dialers_def forward_def case_prod_unfold Let_def handler_dialer_def marked_dialer_def
      dialer_proto_def dns_dialer_def)

lemma own_dialer_control:
  assumes "d = new_dialer_from_options opts \<or> d \<in> set (fst (forward_dialers h xchg request c))"
  shows "dl_control d = mark_control"
proof (cases "d = new_dialer_from_options opts")
  case False
  obtain udp c1 where u: "dns_dialer (h_timeout h) c = (udp, c1)" by fastforce
  with False assms
  have "d \<in> set (fst (dialers_loop (h_timeout h) xchg request (h_upstreams h) udp (handler_dialer h) c1))"
    by (simp add: forward_dialers_def)
  then show ?thesis
    using dialers_loop_marked [of udp "handler_dialer h"] dns_dialer_udp [OF u]
    by (simp add: handler_dialer_def marked_dialer_def)
qed (simp add: new_dialer_from_options_def marked_dialer_def)

text \<open>C18: The gateway does not catch itself. Every connection of the proxies, to the original
  destination of a client or to an upstream of the DNS forwarder, is made by a dialer whose control
  function marks the socket; where the program may set the mark, no ruleset, in any mode and whatever
  the sets of resolved addresses hold, redirects, drops or logs its packets.\<close>

theorem dialed_untouched:
  assumes "wf_config cfg"
    and "d = new_dialer_from_options opts \<or> d \<in> set (fst (forward_dialers h xchg request c))"
    and "dl_control d usable True = Some (pk_mark p)"
  shows "ruleset_egress (generate_ruleset E cfg) dyn p = Some ([], Sent p)"
proof -
  have m: "pk_mark p = 1"
    using assms(3) by (simp add: own_dialer_control [OF assms(2)] mark_control_def bypass_mark_def split: if_splits)
  with assms(1) show ?thesis by (rule own_traffic_untouched)
qed

theorem dialed_untouched_witness:
  "let p = (example_packet [203, 0, 113, 7] (Tcp 443))\<lparr>pk_mark := 1\<rparr>
   in dl_control (new_dialer_from_options plain_options) True True = Some (pk_mark p) \<and>
      ruleset_egress (generate_ruleset ascii_env (example_config ''HTTPS'' False)) (\<lambda>n d. False) p = Some ([], Sent p)"
proof -
  let ?p = "(example_packet [203, 0, 113, 7] (Tcp 443))\<lparr>pk_mark := 1\<rparr>"
  let ?d = "new_dialer_from_options plain_options"
  have c: "dl_control ?d True True = Some (pk_mark ?p)"
    by (simp add: new_dialer_from_options_def marked_dialer_def mark_control_def bypass_mark_def)
  from dialed_untouched [OF example_facts(1) disjI1 [OF refl] c, where E = ascii_env and dyn = "\<lambda>n d. False"] c
  show ?thesis unfolding Let_def by blast
qed

end
