(* ===== verification/Notifier.thy ===== *)
theory Notifier
  imports GoText Clock
begin

text \<open>
  \<^verbatim>\<open>internal/alerting/notifier.go\<close>: notifications about blocked connections, with an ignore
  list and a pause between two notifications about the same connection. The environment, the host
  name, the clock and the HTTP request (which runs in a goroutine of its own) are arguments or results;
  log output is left out.
\<close>

definition wrap64 :: "int \<Rightarrow> int" where
  \<comment> \<open>what a 64-bit signed multiplication leaves\<close>
  "wrap64 i = (i + 2 ^ 63) mod 2 ^ 64 - 2 ^ 63"

lemma wrap64_id: "- (2 ^ 63) \<le> i \<Longrightarrow> i < 2 ^ 63 \<Longrightarrow> wrap64 i = i"
  by (simp add: wrap64_def)

definition trim_right_char :: "char \<Rightarrow> string \<Rightarrow> string" where
  \<comment> \<open>\<^verbatim>\<open>strings.TrimRight\<close> with a single character\<close>
  "trim_right_char c s = rev (dropWhile (\<lambda>x. x = c) (rev s))"

record notifier =
  nt_host :: string
  nt_token :: string
  nt_hostname :: string
  nt_enabled :: bool
  nt_recent :: "(string, nanos) gomap option" \<comment> \<open>None: the nil map\<close>
  nt_backoff :: nanos
  nt_ignore :: "string list"

record blocked_info =
  bi_source_ip :: string
  bi_source_port :: string
  bi_dest_ip :: string
  bi_dest_port :: string
  bi_destination :: string
  bi_reason :: string
  bi_component :: string

subsection \<open>Configuration\<close>

fun ignore_patterns :: "env \<Rightarrow> string list \<Rightarrow> string list" where
  "ignore_patterns E [] = []"
| "ignore_patterns E (part # parts) =
     (let domain = trim_space part
      in if domain = [] then ignore_patterns E parts
         else (let domain = to_lower E domain
               in if str_contains domain '' '' \<or> str_contains domain [CHR 0x09] then ignore_patterns E parts
                  else domain # ignore_patterns E parts))"

definition load_ignore_list :: "env \<Rightarrow> (string \<Rightarrow> string) \<Rightarrow> string list" where
  "load_ignore_list E getenv =
     (let ignoreDomains = trim_space (getenv ''NOTIFICATION_IGNORE_DOMAINS'')
      in if ignoreDomains = [] then [] else ignore_patterns E (split_on (CHR '','') ignoreDomains))"

definition new_notifier :: "env \<Rightarrow> (string \<Rightarrow> string) \<Rightarrow> string option \<Rightarrow> notifier option" where
  \<comment> \<open>the host name is what \<^verbatim>\<open>os.Hostname\<close> returns; None is the nil pointer\<close>
  "new_notifier E getenv os_hostname =
     (let host = trim_right_char (CHR ''/'') (trim_space (getenv ''NOTIFICATION_HOST''));
          token = trim_space (getenv ''NOTIFICATION_KEY'')
      in if host = [] \<or> token = [] then None
         else
           (let h = trim_space (getenv ''HOSTNAME'');
                hostname = (if h \<noteq> [] then h else (case os_hostname of Some n \<Rightarrow> n | None \<Rightarrow> ''g0efilter''));
                backoffEnv = trim_space (getenv ''NOTIFICATION_BACKOFF_SECONDS'');
                backoff = (if backoffEnv = [] then 60 * second
                           else (case atoi backoffEnv of
                                   Some seconds \<Rightarrow> if seconds > 0 then wrap64 (seconds * second) else 60 * second
                                 | None \<Rightarrow> 60 * second))
            in Some \<lparr>nt_host = host, nt_token = token, nt_hostname = hostname, nt_enabled = True,
                     nt_recent = Some [], nt_backoff = backoff, nt_ignore = load_ignore_list E getenv\<rparr>))"

subsection \<open>Who is told\<close>

definition matches_pattern :: "string \<Rightarrow> string \<Rightarrow> bool" where
  "matches_pattern destination pattern =
     (if destination = pattern then True
      else if has_prefix pattern ''*.'' then has_suffix destination (trim_prefix pattern ''*'')
      else False)"

definition is_ignored :: "env \<Rightarrow> string \<Rightarrow> notifier \<Rightarrow> bool" where
  "is_ignored E destination n =
     (if nt_ignore n = [] \<or> destination = [] then False
      else list_ex (matches_pattern (to_lower E destination)) (nt_ignore n))"

definition dest_key_for :: "blocked_info \<Rightarrow> string" where
  "dest_key_for bi =
     (if bi_component bi = ''dns'' \<and> bi_destination bi \<noteq> [] then bi_destination bi
      else if bi_dest_ip bi \<noteq> [] \<and> bi_dest_port bi \<noteq> [] then bi_dest_ip bi @ '':'' @ bi_dest_port bi
      else if bi_dest_ip bi \<noteq> [] then bi_dest_ip bi
      else bi_destination bi)"

definition alert_key :: "blocked_info \<Rightarrow> string" where
  "alert_key bi = bi_source_ip bi @ ''->'' @ dest_key_for bi @ '':'' @ bi_component bi"

definition cleanup_old_alerts :: "nanos \<Rightarrow> notifier \<Rightarrow> notifier" where
  "cleanup_old_alerts now n =
     (case nt_recent n of
        None \<Rightarrow> n
      | Some m \<Rightarrow>
          (let cleanupThreshold = now + wrap64 (- 2 * nt_backoff n)
           in n\<lparr>nt_recent := Some (filter (\<lambda>(k, lastSent). \<not> lastSent < cleanupThreshold) m)\<rparr>))"

definition should_send_alert :: "nanos \<Rightarrow> blocked_info \<Rightarrow> notifier \<Rightarrow> (bool \<times> notifier) option" where
  \<comment> \<open>None: the assignment to an entry of the nil map panics\<close>
  "should_send_alert now bi n0 =
     (let key = alert_key bi; n = cleanup_old_alerts now n0
      in case nt_recent n of
           None \<Rightarrow> None
         | Some m \<Rightarrow>
             (case map_of m key of
                Some lastSent \<Rightarrow>
                  if time_sub now lastSent < nt_backoff n then Some (False, n)
                  else Some (True, n\<lparr>nt_recent := Some (AList.update key now m)\<rparr>)
              | None \<Rightarrow> Some (True, n\<lparr>nt_recent := Some (AList.update key now m)\<rparr>)))"

subsection \<open>What is sent\<close>

definition is_ip_only_destination :: "string \<Rightarrow> string \<Rightarrow> string \<Rightarrow> bool" where
  "is_ip_only_destination destination destinationIP ipPort \<longleftrightarrow>
     destination = [] \<or> destination = ''unknown destination'' \<or> destination = destinationIP \<or> destination = ipPort"

definition build_source_string :: "string \<Rightarrow> string \<Rightarrow> string" where
  "build_source_string sourceIP sourcePort = (if sourcePort \<noteq> [] then sourceIP @ '':'' @ sourcePort else sourceIP)"

definition alert_destination_string :: "blocked_info \<Rightarrow> string" where
  "alert_destination_string bi =
     (let destination = bi_destination bi
      in if bi_dest_ip bi \<noteq> [] \<and> bi_dest_port bi \<noteq> [] then
           (let ipPort = bi_dest_ip bi @ '':'' @ bi_dest_port bi
            in if is_ip_only_destination destination (bi_dest_ip bi) ipPort then ipPort
               else destination @ '' ('' @ ipPort @ '')'')
         else destination)"

record notification =
  nq_url :: string
  nq_values :: "(string \<times> string) list" \<comment> \<open>the form, before URL encoding\<close>
  nq_token :: string

definition create_notification_request :: "notifier \<Rightarrow> string \<Rightarrow> string \<Rightarrow> notification" where
  "create_notification_request n title message =
     \<lparr>nq_url = nt_host n @ ''/message'',
      nq_values = [(''title'', title), (''message'', message), (''priority'', ''8'')], nq_token = nt_token n\<rparr>"

definition send_notification :: "env \<Rightarrow> notifier \<Rightarrow> blocked_info \<Rightarrow> notification" where
  "send_notification E n bi =
     (let source = build_source_string (bi_source_ip bi) (bi_source_port bi);
          destination = alert_destination_string bi;
          title = nt_hostname n @ '' - '' @ to_upper E (bi_component bi) @ '' Connection Blocked'';
          message = ''Blocked '' @ bi_component bi @ '' connection from '' @ source @ '' to '' @ destination
            @ ''. Reason: '' @ bi_reason bi
      in create_notification_request n title message)"

definition alert_component :: "blocked_info \<Rightarrow> blocked_info" where
  "alert_component bi = (if bi_component bi = ''filter'' then bi\<lparr>bi_component := ''tcp''\<rparr> else bi)"

definition notify_block ::
  "env \<Rightarrow> nanos \<Rightarrow> blocked_info \<Rightarrow> notifier \<Rightarrow> (notification list \<times> notifier) option" where
  "notify_block E now bi0 n =
     (if \<not> nt_enabled n then Some ([], n)
      else
        (let bi = alert_component bi0
         in if is_ignored E (bi_destination bi) n then Some ([], n)
            else (case should_send_alert now bi n of
                    None \<Rightarrow> None
                  | Some (False, n1) \<Rightarrow> Some ([], n1)
                  | Some (True, n1) \<Rightarrow> Some ([send_notification E n1 bi], n1))))"

definition notifier_close :: "notifier \<Rightarrow> notifier" where
  "notifier_close n = n\<lparr>nt_enabled := False, nt_recent := None\<rparr>"

subsection \<open>One notification for each pause\<close>

fun notify_all ::
  "env \<Rightarrow> (nanos \<times> blocked_info) list \<Rightarrow> notifier \<Rightarrow> (notification list list \<times> notifier) option" where
  \<comment> \<open>what is sent for each of the blocked connections\<close>
  "notify_all E [] n = Some ([], n)"
| "notify_all E ((t, bi) # evs) n =
     (case notify_block E t bi n of
        None \<Rightarrow> None
      | Some (out, n1) \<Rightarrow> map_option (\<lambda>(outs, n2). (out # outs, n2)) (notify_all E evs n1))"

definition event_key :: "nanos \<times> blocked_info \<Rightarrow> string" where
  "event_key ev = alert_key (alert_component (snd ev))"

definition quiet :: "env \<Rightarrow> notifier \<Rightarrow> nanos \<times> blocked_info \<Rightarrow> bool" where
  "quiet E n ev \<longleftrightarrow> is_ignored E (bi_destination (snd ev)) n"

definition recently :: "nanos \<Rightarrow> (nanos \<times> string) list \<Rightarrow> nanos \<times> blocked_info \<Rightarrow> bool" where
  "recently b hist ev \<longleftrightarrow> (\<exists>s. (s, event_key ev) \<in> set hist \<and> fst ev - s < b)"

definition recent_ok :: "nanos \<Rightarrow> nanos \<Rightarrow> (nanos \<times> string) list \<Rightarrow> (string, nanos) gomap \<Rightarrow> bool" where
  \<comment> \<open>the table knows the last notification for each key, or it is so long ago that it does not matter\<close>
  "recent_ok b now hist m \<longleftrightarrow>
     wf_map m \<and> (\<forall>(s, k) \<in> set hist. 0 \<le> s \<and> s \<le> now) \<and>
     (\<forall>k l. map_of m k = Some l \<longrightarrow> (l, k) \<in> set hist \<and> (\<forall>s. (s, k) \<in> set hist \<longrightarrow> s \<le> l)) \<and>
     (\<forall>k s. map_of m k = None \<longrightarrow> (s, k) \<in> set hist \<longrightarrow> s < now - 2 * b)"

lemma recent_ok_cleanup:
  assumes "recent_ok b now hist m" "now \<le> t"
  shows "recent_ok b t hist (filter (\<lambda>(k, lastSent). \<not> lastSent < t - 2 * b) m)"
  using assms unfolding recent_ok_def
  by (auto simp: map_of_filter_fst split: option.splits if_splits) force+

lemma recent_ok_send:
  assumes "recent_ok b t hist m" "0 \<le> t"
  shows "recent_ok b t ((t, k) # hist) (AList.update k t m)"
  using assms unfolding recent_ok_def by (auto simp: update_conv')

lemma recent_ok_recently:
  assumes "recent_ok b t hist m" "0 < b" "t \<le> max_duration"
  shows "(\<exists>l. map_of m k = Some l \<and> time_sub t l < b) \<longleftrightarrow> (\<exists>s. (s, k) \<in> set hist \<and> t - s < b)"
proof (cases "map_of m k")
  case None
  then show ?thesis using assms unfolding recent_ok_def by fastforce
next
  case (Some l)
  then have "(l, k) \<in> set hist" "\<forall>s. (s, k) \<in> set hist \<longrightarrow> s \<le> l"
    using assms(1) unfolding recent_ok_def by auto
  moreover from this(1) have "time_sub t l = t - l"
    using assms by (intro time_sub_exact) (auto simp: recent_ok_def)
  ultimately show ?thesis using Some by fastforce
qed

lemma notify_block_step:
  assumes "recent_ok b now hist m" "now \<le> t" "0 \<le> t" "t \<le> max_duration" "0 < b" "2 * b < 2 ^ 63"
    and "nt_enabled n" "nt_backoff n = b"
  obtains m' where "notify_block E t bi (n\<lparr>nt_recent := Some m\<rparr>) =
      Some (if quiet E n (t, bi) \<or> recently b hist (t, bi) then [] else [send_notification E n (alert_component bi)],
            n\<lparr>nt_recent := Some m'\<rparr>)"
    "recent_ok b t (if quiet E n (t, bi) \<or> recently b hist (t, bi) then hist else (t, event_key (t, bi)) # hist) m'"
proof -
  let ?m = "filter (\<lambda>(k, lastSent). \<not> lastSent < t - 2 * b) m" and ?k = "event_key (t, bi)"
  have w: "wrap64 (- 2 * b) = - 2 * b" using assms(5,6) by (intro wrap64_id) simp_all
  have ok: "recent_ok b t hist ?m" using assms(1,2) by (rule recent_ok_cleanup)
  have dest: "bi_destination (alert_component bi) = bi_destination bi" by (simp add: alert_component_def)
  have ign: "is_ignored E d (n\<lparr>nt_recent := r\<rparr>) = is_ignored E d n"
    "send_notification E (n\<lparr>nt_recent := r\<rparr>) x = send_notification E n x" for d r x
    by (simp_all add: is_ignored_def send_notification_def create_notification_request_def)
  have sent: "should_send_alert t (alert_component bi) (n\<lparr>nt_recent := Some m\<rparr>) =
      (if recently b hist (t, bi) then Some (False, n\<lparr>nt_recent := Some ?m\<rparr>)
       else Some (True, n\<lparr>nt_recent := Some (AList.update ?k t ?m)\<rparr>))"
    using recent_ok_recently [OF ok assms(5,4), of ?k] w assms(8)
    by (cases "map_of ?m ?k")
      (auto simp: should_send_alert_def cleanup_old_alerts_def event_key_def recently_def Let_def)
  consider (q) "quiet E n (t, bi)" | (r) "\<not> quiet E n (t, bi)" "recently b hist (t, bi)"
    | (s) "\<not> quiet E n (t, bi)" "\<not> recently b hist (t, bi)"
    by blast
  then show thesis
  proof cases
    case q
    have "recent_ok b t hist m" using assms(1,2) unfolding recent_ok_def by force
    then show thesis
      using q that [of m] assms(7) by (simp add: notify_block_def Let_def dest ign quiet_def)
  next
    case r
    then show thesis
      using that [of ?m] assms(7) ok sent by (simp add: notify_block_def Let_def dest ign quiet_def)
  next
    case s
    then show thesis
      using that [of "AList.update ?k t ?m"] assms(7) recent_ok_send [OF ok assms(3)] sent
      by (simp add: notify_block_def Let_def dest ign quiet_def)
  qed
qed

lemma ex_less_Suc_shift: "(\<exists>i < Suc j. P i) \<longleftrightarrow> P 0 \<or> (\<exists>i < j. P (Suc i))"
  by (metis Ex_less_Suc2)

lemma notify_all_from:
  assumes n: "0 < b" "2 * b < 2 ^ 63" "nt_enabled n" "nt_backoff n = b"
  shows "recent_ok b now hist m \<Longrightarrow> sorted (map fst evs) \<Longrightarrow>
    (\<And>ev. ev \<in> set evs \<Longrightarrow> now \<le> fst ev \<and> 0 \<le> fst ev \<and> fst ev \<le> max_duration) \<Longrightarrow>
    \<exists>outs n'. notify_all E evs (n\<lparr>nt_recent := Some m\<rparr>) = Some (outs, n') \<and> length outs = length evs \<and>
      (\<forall>j < length evs. outs ! j =
        (if quiet E n (evs ! j) \<or> recently b hist (evs ! j) \<or>
            (\<exists>i < j. outs ! i \<noteq> [] \<and> event_key (evs ! i) = event_key (evs ! j) \<and> fst (evs ! j) - fst (evs ! i) < b)
         then [] else [send_notification E n (alert_component (snd (evs ! j)))]))"
proof (induction evs arbitrary: now hist m)
  case Nil
  then show ?case by simp
next
  case (Cons ev evs)
  obtain t bi where ev: "ev = (t, bi)" by (cases ev)
  let ?skip = "quiet E n (t, bi) \<or> recently b hist (t, bi)"
  let ?out = "if ?skip then [] else [send_notification E n (alert_component bi)]"
  let ?hist = "if ?skip then hist else (t, event_key (t, bi)) # hist"
  have t: "now \<le> t" "0 \<le> t" "t \<le> max_duration"
    using Cons.prems(3) [of ev] ev by simp_all
  obtain m' where step: "notify_block E t bi (n\<lparr>nt_recent := Some m\<rparr>) = Some (?out, n\<lparr>nt_recent := Some m'\<rparr>)"
    "recent_ok b t ?hist m'"
    by (rule notify_block_step [where E = E and bi = bi, OF Cons.prems(1) t n])
  have later: "sorted (map fst evs)" "\<And>e. e \<in> set evs \<Longrightarrow> t \<le> fst e \<and> 0 \<le> fst e \<and> fst e \<le> max_duration"
    using Cons.prems(2,3) ev by auto
  obtain outs n' where rec: "notify_all E evs (n\<lparr>nt_recent := Some m'\<rparr>) = Some (outs, n')" "length outs = length evs"
    "\<forall>j < length evs. outs ! j =
      (if quiet E n (evs ! j) \<or> recently b ?hist (evs ! j) \<or>
          (\<exists>i < j. outs ! i \<noteq> [] \<and> event_key (evs ! i) = event_key (evs ! j) \<and> fst (evs ! j) - fst (evs ! i) < b)
       then [] else [send_notification E n (alert_component (snd (evs ! j)))])"
    using Cons.IH [OF step(2) later] by blast
  have hist: "recently b ?hist x \<longleftrightarrow> recently b hist x \<or>
      ?out \<noteq> [] \<and> event_key ev = event_key x \<and> fst x - fst ev < b" for x
    by (auto simp: recently_def ev)
  show ?case
  proof (intro exI conjI allI impI)
    show "notify_all E (ev # evs) (n\<lparr>nt_recent := Some m\<rparr>) = Some (?out # outs, n')"
      by (simp add: ev step(1) rec(1) del: if_split)
    show "length (?out # outs) = length (ev # evs)" by (simp add: rec(2))
    fix j assume j: "j < length (ev # evs)"
    show "(?out # outs) ! j =
      (if quiet E n ((ev # evs) ! j) \<or> recently b hist ((ev # evs) ! j) \<or>
          (\<exists>i < j. (?out # outs) ! i \<noteq> [] \<and> event_key ((ev # evs) ! i) = event_key ((ev # evs) ! j) \<and>
            fst ((ev # evs) ! j) - fst ((ev # evs) ! i) < b)
       then [] else [send_notification E n (alert_component (snd ((ev # evs) ! j)))])"
    proof (cases j)
      case 0
      then show ?thesis by (simp add: ev)
    next
      case (Suc k)
      then show ?thesis
        using j rec(3) unfolding Suc ex_less_Suc_shift nth_Cons_0 nth_Cons_Suc by (auto simp: hist)
    qed
  qed
qed

subsection \<open>What the same connection is\<close>

text \<open>The pause is kept for the text of \<^verbatim>\<open>buildAlertKey\<close>. What it stands for is said here without that
  text: the source address, the component as it is shown, and what the connection was to (a name, or
  an address with a port). Two texts are equal exactly when these are, as long as their parts do not
  hold the separators.\<close>

datatype alert_target = Named string | Endpoint string string | Address string

definition target_of :: "blocked_info \<Rightarrow> alert_target" where
  "target_of bi =
     (if bi_component bi = ''dns'' \<and> bi_destination bi \<noteq> [] then Named (bi_destination bi)
      else if bi_dest_ip bi = [] then Named (bi_destination bi)
      else if bi_dest_port bi = [] then Address (bi_dest_ip bi)
      else Endpoint (bi_dest_ip bi) (bi_dest_port bi))"

definition shown_component :: "blocked_info \<Rightarrow> string" where
  "shown_component bi = (if bi_component bi = ''filter'' then ''tcp'' else bi_component bi)"

definition same_alert :: "blocked_info \<Rightarrow> blocked_info \<Rightarrow> bool" where
  "same_alert x y \<longleftrightarrow>
     bi_source_ip x = bi_source_ip y \<and> target_of x = target_of y \<and> shown_component x = shown_component y"

definition well_formed_event :: "blocked_info \<Rightarrow> bool" where
  \<comment> \<open>the source is an address, names, ports and components hold no colon, an address comes with a port\<close>
  "well_formed_event bi \<longleftrightarrow>
     CHR ''-'' \<notin> set (bi_source_ip bi) \<and> CHR '':'' \<notin> set (bi_component bi) \<and>
     (case target_of bi of
        Named d \<Rightarrow> CHR '':'' \<notin> set d
      | Endpoint ip port \<Rightarrow> CHR '':'' \<notin> set port
      | Address ip \<Rightarrow> False)"

fun target_text :: "alert_target \<Rightarrow> string" where
  "target_text (Named d) = d"
| "target_text (Endpoint ip port) = ip @ '':'' @ port"
| "target_text (Address ip) = ip"

lemma dest_key_target: "dest_key_for (alert_component bi) = target_text (target_of bi)"
  by (simp add: dest_key_for_def target_of_def alert_component_def)

lemma split_at_last:
  assumes "c \<notin> set b" "c \<notin> set b'"
  shows "a @ c # b = a' @ c # b' \<longleftrightarrow> a = a' \<and> b = b'"
proof
  assume eq: "a @ c # b = a' @ c # b'"
  have "takeWhile (\<lambda>x. x \<noteq> c) (rev (u @ c # v)) = rev v" if "c \<notin> set v" for u v
    using that takeWhile_append2 [of "rev v" "\<lambda>x. x \<noteq> c" "c # rev u"] by auto
  from this [OF assms(1), of a] this [OF assms(2), of a'] eq have "b = b'" by (metis rev_rev_ident)
  with eq show "a = a' \<and> b = b'" by simp
qed simp

lemma split_at_first:
  assumes "c \<notin> set a" "c \<notin> set a'"
  shows "a @ c # b = a' @ c # b' \<longleftrightarrow> a = a' \<and> b = b'"
  using split_at_last [of c "rev a" "rev a'" "rev b" "rev b'"] assms
  by (metis append_assoc append_Cons append_Nil rev.simps(2) rev_append rev_rev_ident set_rev)

lemma target_text_inj:
  assumes "well_formed_event x" "well_formed_event y"
  shows "target_text (target_of x) = target_text (target_of y) \<longleftrightarrow> target_of x = target_of y"
proof -
  have colon: "CHR '':'' \<in> set (ip @ '':'' @ port)" for ip port by simp
  show ?thesis
    using assms unfolding well_formed_event_def
    by (cases "target_of x"; cases "target_of y") (auto simp: split_at_last)
qed

lemma event_key_same:
  assumes "well_formed_event x" "well_formed_event y"
  shows "event_key (s, x) = event_key (t, y) \<longleftrightarrow> same_alert x y"
proof -
  have key: "event_key (u, z) =
      bi_source_ip z @ CHR ''-'' # (CHR ''>'' # target_text (target_of z)) @ CHR '':'' # shown_component z" for u z
    by (simp add: event_key_def alert_key_def dest_key_target)
      (simp add: alert_component_def shown_component_def)
  have c: "CHR '':'' \<notin> set (shown_component z)" if "well_formed_event z" for z
    using that by (simp add: well_formed_event_def shown_component_def)
  have "CHR ''-'' \<notin> set (bi_source_ip x)" "CHR ''-'' \<notin> set (bi_source_ip y)"
    using assms by (simp_all add: well_formed_event_def)
  then show ?thesis
    unfolding key same_alert_def
    using split_at_first split_at_last [OF c [OF assms(1)] c [OF assms(2)]] target_text_inj [OF assms]
    by (metis list.inject)
qed

definition on_ignore_list :: "env \<Rightarrow> notifier \<Rightarrow> string \<Rightarrow> bool" where
  \<comment> \<open>the name is an entry of the list, or below the domain of an entry \<^verbatim>\<open>*.domain\<close>\<close>
  "on_ignore_list E n d \<longleftrightarrow>
     d \<noteq> [] \<and> (\<exists>p \<in> set (nt_ignore n). to_lower E d = p \<or>
                (\<exists>domain below. p = ''*.'' @ domain \<and> to_lower E d = below @ ''.'' @ domain))"

lemma matches_pattern_iff:
  "matches_pattern x p \<longleftrightarrow> x = p \<or> (\<exists>domain below. p = ''*.'' @ domain \<and> x = below @ ''.'' @ domain)"
proof (cases "has_prefix p ''*.''")
  case True
  then obtain domain where p: "p = ''*.'' @ domain" by (auto simp: has_prefix_iff)
  have "trim_prefix p ''*'' = ''.'' @ domain" by (simp add: p trim_prefix_def has_prefix_def)
  then show ?thesis using True by (auto simp: matches_pattern_def has_suffix_iff p)
next
  case False
  then show ?thesis by (auto simp: matches_pattern_def has_prefix_iff)
qed

lemma is_ignored_iff: "is_ignored E d n \<longleftrightarrow> on_ignore_list E n d"
  by (auto simp: is_ignored_def on_ignore_list_def list_ex_iff matches_pattern_iff)


definition sample_notifier :: notifier where
  "sample_notifier =
     \<lparr>nt_host = ''http://n'', nt_token = ''t'', nt_hostname = ''gw'', nt_enabled = True, nt_recent = Some [],
      nt_backoff = 60 * second, nt_ignore = [''*.ads.com'']\<rparr>"

definition sample_blocked :: "string \<Rightarrow> blocked_info" where
  "sample_blocked dest =
     \<lparr>bi_source_ip = ''10.0.0.9'', bi_source_port = ''4000'', bi_dest_ip = ''1.2.3.4'', bi_dest_port = ''443'',
      bi_destination = dest, bi_reason = ''r'', bi_component = ''https''\<rparr>"


text \<open>The only panic the code could run into, an assignment to the nil map of a closed notifier, is
  out of reach as long as the closing does not overtake a notification.\<close>

lemma notify_after_close: "notify_block E now bi (notifier_close n) = Some ([], notifier_close n)"
  by (simp add: notify_block_def notifier_close_def)

end
