(* ===== verification/Logging.thy ===== *)
theory Logging
  imports FilterCommon Notifier "HOL-Library.Multiset"
begin

text \<open>
  \<^verbatim>\<open>internal/logging/logging.go\<close>: what becomes of a log line. The handler adjusts its level,
  prints it, ships decisions to the dashboard through a bounded queue and reports blocked connections
  to the notifier; workers post what is in the queue and try again for a while when that fails. The
  attributes of a line are the values the filters log (None is \<^verbatim>\<open>nil\<close>). The time format, the
  JSON encoder, the network and the random jitter are arguments; the terminal writer (zerolog) and the
  poster's own diagnostics are left out.
\<close>

type_synonym attrs = "(string, val option) gomap"

subsection \<open>Levels and configuration\<close>

definition level_trace :: int where "level_trace = - 8"
definition level_debug :: int where "level_debug = - 4"
definition level_info :: int where "level_info = 0"
definition level_warn :: int where "level_warn = 4"
definition level_error :: int where "level_error = 8"

lemmas level_defs = level_trace_def level_debug_def level_info_def level_warn_def level_error_def

definition parse_level :: "env \<Rightarrow> string \<Rightarrow> int" where
  "parse_level E s =
     (let u = to_upper E (trim_space s)
      in if u = ''TRACE'' then level_trace
         else if u = ''DEBUG'' then level_debug
         else if u = ''WARN'' \<or> u = ''WARNING'' then level_warn
         else if u = ''ERROR'' then level_error
         else level_info)"

datatype zerolog_level = TraceLevel | DebugLevel | InfoLevel | WarnLevel | ErrorLevel

definition to_zerolog_level :: "int \<Rightarrow> zerolog_level" where
  "to_zerolog_level l =
     (if l = level_trace then TraceLevel
      else if l = level_debug then DebugLevel
      else if l = level_info then InfoLevel
      else if l = level_warn then WarnLevel
      else if l = level_error then ErrorLevel
      else InfoLevel)"

definition global_level :: "env \<Rightarrow> (string \<Rightarrow> string) \<Rightarrow> string \<Rightarrow> zerolog_level" where
  \<comment> \<open>below which zerolog drops every line, computed by \<^verbatim>\<open>NewWithContext\<close> on its own\<close>
  "global_level E getenv lvl =
     (let lvlStr = (if trim_space lvl = [] then getenv ''LOG_LEVEL'' else trim_space lvl);
          u = to_upper E lvlStr
      in if u = ''TRACE'' then TraceLevel
         else if u = ''DEBUG'' then DebugLevel
         else if u = ''INFO'' then InfoLevel
         else if u = ''WARN'' \<or> u = ''WARNING'' then WarnLevel
         else if u = ''ERROR'' then ErrorLevel
         else InfoLevel)"

text \<open>The two thresholds agree when the setting is given without spaces around it; with spaces
  \<^verbatim>\<open>parseLevel\<close> trims and the other switch does not.\<close>

lemma levels_agree:
  assumes "trim_space (getenv ''LOG_LEVEL'') = getenv ''LOG_LEVEL''"
  shows "global_level E getenv lvl =
    to_zerolog_level (parse_level E (if trim_space lvl = [] then getenv ''LOG_LEVEL'' else trim_space lvl))"
  using assms by (simp add: global_level_def parse_level_def to_zerolog_level_def level_defs trim_space_idem Let_def)

definition default_queue_size :: int where "default_queue_size = 1024"
definition default_workers :: nat where "default_workers = 3"
definition default_retry_timeout :: nanos where "default_retry_timeout = 5 * second"
definition default_retry_wait :: nanos where "default_retry_wait = 500 * 1000000"
definition default_retry_wait_max :: nanos where "default_retry_wait_max = 5 * second"
definition default_start_delay :: nanos where "default_start_delay = 5 * second"

record poster =
  po_url :: string
  po_api_key :: string
  po_q :: "string list"
  po_queue_size :: int
  po_workers :: nat
  po_retry_timeout :: nanos
  po_start_delay :: nanos
  po_retry_wait_min :: nanos
  po_retry_wait_max :: nanos

definition new_poster ::
  "(string \<Rightarrow> string) \<Rightarrow> (string \<Rightarrow> nanos option) \<Rightarrow> string \<Rightarrow> string \<Rightarrow> int \<Rightarrow> poster" where
  "new_poster getenv parse_duration url apiKey queueSize =
     (let v = trim_space (getenv ''DASHBOARD_START_DELAY'');
          startDelay = (if v = [] then default_start_delay
                        else (case parse_duration v of
                                Some d \<Rightarrow> if d \<ge> 0 then d else default_start_delay
                              | None \<Rightarrow> default_start_delay))
      in \<lparr>po_url = url, po_api_key = apiKey, po_q = [],
          po_queue_size = (if queueSize \<le> 0 then default_queue_size else queueSize),
          po_workers = default_workers, po_retry_timeout = default_retry_timeout, po_start_delay = startDelay,
          po_retry_wait_min = default_retry_wait, po_retry_wait_max = default_retry_wait_max\<rparr>)"

definition sscanf_int :: "string \<Rightarrow> int option" where
  \<comment> \<open>\<^verbatim>\<open>fmt.Sscanf\<close> with \<^verbatim>\<open>%d\<close> on a trimmed string: a sign and digits; what follows is ignored\<close>
  "sscanf_int s =
     (let sign = (if has_prefix s ''-'' \<or> has_prefix s ''+'' then 1 else 0);
          ds = takeWhile is_digit_char (drop sign s)
      in atoi (take sign s @ ds))"

definition parse_queue_size :: "(string \<Rightarrow> string) \<Rightarrow> int" where
  "parse_queue_size getenv =
     (let qsizeStr = trim_space (getenv ''DASHBOARD_QUEUE_SIZE'')
      in if qsizeStr = [] then default_queue_size
         else (case sscanf_int qsizeStr of
                 None \<Rightarrow> default_queue_size
               | Some parsed \<Rightarrow> if parsed \<le> 0 then default_queue_size else parsed))"

definition initialize_dashboard_poster ::
  "(string \<Rightarrow> string) \<Rightarrow> (string \<Rightarrow> nanos option) \<Rightarrow> string \<Rightarrow> poster" where
  "initialize_dashboard_poster getenv parse_duration dhost0 =
     (let dhost = (if \<not> has_prefix dhost0 ''http://'' \<and> \<not> has_prefix dhost0 ''https://''
                   then ''http://'' @ dhost0 else dhost0);
          durl = trim_right_char (CHR ''/'') dhost @ ''/api/v1/logs'';
          dapi = trim_space (getenv ''DASHBOARD_API_KEY'')
      in new_poster getenv parse_duration durl dapi (parse_queue_size getenv))"

subsection \<open>Attributes\<close>

definition sprint :: "val option \<Rightarrow> string" where
  \<comment> \<open>\<^verbatim>\<open>fmt.Sprint\<close>\<close>
  "sprint v =
     (case v of
        None \<Rightarrow> ''<nil>''
      | Some (VS s) \<Rightarrow> s
      | Some (VI i) \<Rightarrow> itoa i
      | Some (VB b) \<Rightarrow> if b then ''true'' else ''false''
      | Some (VL ws) \<Rightarrow> ''['' @ join_with '' '' ws @ '']'')"

definition copy_attrs :: "(string \<times> val option) list \<Rightarrow> attrs \<Rightarrow> attrs" where
  "copy_attrs kvs m = fold (\<lambda>(k, v). AList.update k v) kvs m"

definition extract_action :: "env \<Rightarrow> attrs \<Rightarrow> string" where
  "extract_action E attrs =
     (case map_of attrs ''action'' of Some v \<Rightarrow> to_upper E (sprint v) | None \<Rightarrow> [])"

definition component_of :: "env \<Rightarrow> attrs \<Rightarrow> string" where
  "component_of E attrs = (case map_of attrs ''component'' of Some v \<Rightarrow> to_lower E (sprint v) | None \<Rightarrow> [])"

definition is_allowlisted_ip :: "env \<Rightarrow> string \<Rightarrow> attrs \<Rightarrow> bool" where
  "is_allowlisted_ip E act attrs = (if act \<noteq> action_allowed then False else component_of E attrs = ''nflog'')"

definition should_ship_to_dashboard :: "env \<Rightarrow> string \<Rightarrow> attrs \<Rightarrow> bool" where
  "should_ship_to_dashboard E act attrs =
     (if act \<noteq> action_blocked \<and> act \<noteq> action_allowed \<and> act \<noteq> action_audit then False
      else if act = action_allowed \<and> component_of E attrs = ''nflog'' then False
      else True)"

definition extract_string_attr :: "attrs \<Rightarrow> string \<Rightarrow> string" where
  "extract_string_attr attrs k =
     (case map_of attrs k of Some (Some v) \<Rightarrow> sprint (Some v) | _ \<Rightarrow> [])"

definition build_destination_string :: "attrs \<Rightarrow> string" where
  "build_destination_string attrs =
     (let get = extract_string_attr attrs
      in if get ''https'' \<noteq> [] then get ''https''
         else if get ''http_host'' \<noteq> [] then get ''http_host''
         else if get ''host'' \<noteq> [] then get ''host''
         else if get ''qname'' \<noteq> [] then get ''qname''
         else if get ''dst'' \<noteq> [] then get ''dst''
         else if get ''destination_ip'' \<noteq> [] then
           (if get ''destination_port'' \<noteq> [] then join_host_port (get ''destination_ip'') (get ''destination_port'')
            else get ''destination_ip'')
         else ''unknown destination'')"

definition alias_key :: "string \<Rightarrow> string \<Rightarrow> attrs \<Rightarrow> attrs" where
  "alias_key old new attrs = (case map_of attrs old of Some v \<Rightarrow> AList.update new v attrs | None \<Rightarrow> attrs)"

definition normalize_attribute_keys :: "attrs \<Rightarrow> attrs" where
  "normalize_attribute_keys attrs =
     (let a1 = alias_key ''client_ip'' ''source_ip'' attrs;
          a2 = alias_key ''dst_ip'' ''destination_ip'' a1;
          a3 = alias_key ''dst_port'' ''destination_port'' a2
      in case map_of a3 ''http_host'' of
           Some _ \<Rightarrow> a3
         | None \<Rightarrow> (case map_of a3 ''host'' of
                      Some v \<Rightarrow> if sprint v \<noteq> [] then AList.update ''http_host'' v a3 else a3
                    | None \<Rightarrow> a3))"

subsection \<open>Shipping\<close>

record log_lib =
  ll_format_time :: "nanos \<Rightarrow> string" \<comment> \<open>RFC3339Nano\<close>
  ll_marshal :: "attrs \<Rightarrow> string option"

definition dashboard_keys :: "string list" where
  "dashboard_keys =
     [''component'', ''source_ip'', ''source_port'', ''destination_ip'', ''destination_port'',
      ''protocol'', ''policy_hit'', ''payload_len'', ''https'', ''http_host'', ''host'',
      ''qname'', ''qtype'', ''rcode'', ''reason'', ''note'', ''src'', ''dst'', ''hostname'', ''flow_id'', ''version'']"

definition get_canonical_time :: "log_lib \<Rightarrow> attrs \<Rightarrow> nanos \<Rightarrow> string" where
  "get_canonical_time L attrs fallback =
     (case map_of attrs ''time'' of
        Some t \<Rightarrow> if sprint t \<noteq> [] then sprint t else ll_format_time L fallback
      | None \<Rightarrow> ll_format_time L fallback)"

definition add_default :: "string \<Rightarrow> string \<Rightarrow> attrs \<Rightarrow> attrs \<Rightarrow> attrs" where
  \<comment> \<open>the host name and the version of the process, unless the line has its own\<close>
  "add_default k v canon payload =
     (if v \<noteq> [] \<and> (map_of canon k = None \<or> sprint (the (map_of canon k)) = [])
      then AList.update k (Some (VS v)) payload else payload)"

definition add_key :: "attrs \<Rightarrow> string \<Rightarrow> attrs \<Rightarrow> attrs" where
  "add_key canon k payload =
     (case map_of canon k of
        Some (Some v) \<Rightarrow> if sprint (Some v) \<noteq> [] then AList.update k (Some v) payload else payload
      | _ \<Rightarrow> payload)"

definition build_dashboard_payload ::
  "log_lib \<Rightarrow> string \<Rightarrow> string \<Rightarrow> nanos \<Rightarrow> string \<Rightarrow> string \<Rightarrow> attrs \<Rightarrow> attrs" where
  "build_dashboard_payload L hostname version rTime rMsg act attrs =
     (let payload0 = [(''producer_time'', Some (VS (ll_format_time L rTime))), (''msg'', Some (VS rMsg)),
                      (''action'', Some (VS act)), (''time'', Some (VS (get_canonical_time L attrs rTime)))];
          canon = normalize_attribute_keys (copy_attrs attrs []);
          payload1 = add_default ''hostname'' hostname canon payload0;
          payload2 = add_default ''version'' version canon payload1
      in fold (add_key canon) dashboard_keys payload2)"

definition enqueue :: "string \<Rightarrow> poster \<Rightarrow> poster" where
  \<comment> \<open>a send that does not block\<close>
  "enqueue payload p = (if int (length (po_q p)) < po_queue_size p then p\<lparr>po_q := po_q p @ [payload]\<rparr> else p)"

definition ship_to_dashboard ::
  "env \<Rightarrow> log_lib \<Rightarrow> string \<Rightarrow> string \<Rightarrow> nanos \<Rightarrow> string \<Rightarrow> string \<Rightarrow> attrs \<Rightarrow> poster \<Rightarrow> poster" where
  "ship_to_dashboard E L hostname version rTime rMsg act attrs p =
     (if \<not> should_ship_to_dashboard E act attrs then p
      else (case ll_marshal L (build_dashboard_payload L hostname version rTime rMsg act attrs) of
              None \<Rightarrow> p
            | Some bytes \<Rightarrow> enqueue bytes p))"

subsection \<open>The handler\<close>

definition blocked_alert_info :: "attrs \<Rightarrow> blocked_info" where
  "blocked_alert_info attrs =
     (let get = extract_string_attr attrs;
          reason = (if get ''reason'' \<noteq> [] then get ''reason''
                    else if get ''note'' \<noteq> [] then get ''note'' else ''blocked by policy'')
      in \<lparr>bi_source_ip = get ''source_ip'', bi_source_port = get ''source_port'',
          bi_dest_ip = get ''destination_ip'', bi_dest_port = get ''destination_port'',
          bi_destination = build_destination_string attrs, bi_reason = reason,
          bi_component = (if get ''component'' = [] then ''filter'' else get ''component'')\<rparr>)"

definition handle_blocked_alert ::
  "env \<Rightarrow> nanos \<Rightarrow> attrs \<Rightarrow> notifier \<Rightarrow> (notification list \<times> notifier) option" where
  "handle_blocked_alert E now attrs n = notify_block E now (blocked_alert_info attrs) n"

record log_handler =
  lh_term_level :: int
  lh_poster :: "poster option"
  lh_hostname :: string
  lh_version :: string
  lh_notifier :: "notifier option"
  lh_base_attrs :: attrs

record log_record =
  lr_level :: int
  lr_time :: nanos
  lr_msg :: string
  lr_attrs :: "(string \<times> val option) list"

definition enabled :: "log_handler \<Rightarrow> int \<Rightarrow> bool" where
  "enabled z l \<longleftrightarrow> l \<ge> lh_term_level z \<or> lh_poster z \<noteq> None \<or> lh_notifier z \<noteq> None"

definition log_to_terminal :: "int \<Rightarrow> string \<Rightarrow> attrs \<Rightarrow> zerolog_level \<times> string \<times> attrs" where
  "log_to_terminal l msg attrs = (to_zerolog_level l, msg, attrs)"

definition handle_record ::
  "env \<Rightarrow> log_lib \<Rightarrow> nanos \<Rightarrow> log_record \<Rightarrow> log_handler \<Rightarrow>
   ((zerolog_level \<times> string \<times> attrs) list \<times> notification list \<times> log_handler) option" where
  \<comment> \<open>terminal output, notifications and the new state; None: the notifier panics\<close>
  "handle_record E L now r z =
     (let attrs = copy_attrs (lr_attrs r) (copy_attrs (lh_base_attrs z) []);
          act = extract_action E attrs;
          logLevel = (if is_allowlisted_ip E act attrs then level_debug else lr_level r);
          term = (if logLevel \<ge> lh_term_level z then [log_to_terminal logLevel (lr_msg r) attrs] else []);
          z1 = (case lh_poster z of
                  None \<Rightarrow> z
                | Some p \<Rightarrow>
                    if act \<noteq> []
                    then z\<lparr>lh_poster := Some (ship_to_dashboard E L (lh_hostname z) (lh_version z) (lr_time r)
                                                (lr_msg r) act attrs p)\<rparr>
                    else z)
      in case lh_notifier z1 of
           None \<Rightarrow> Some (term, [], z1)
         | Some n \<Rightarrow>
             if act = action_blocked
             then (case handle_blocked_alert E now attrs n of
                     None \<Rightarrow> None
                   | Some (ns, n1) \<Rightarrow> Some (term, ns, z1\<lparr>lh_notifier := Some n1\<rparr>))
             else Some (term, [], z1))"

definition with_attrs :: "(string \<times> val option) list \<Rightarrow> log_handler \<Rightarrow> log_handler" where
  "with_attrs a z = z\<lparr>lh_base_attrs := copy_attrs a (copy_attrs (lh_base_attrs z) [])\<rparr>"

definition with_group :: "string \<Rightarrow> log_handler \<Rightarrow> log_handler" where
  "with_group gname z = z"

definition new_with_context ::
  "env \<Rightarrow> (string \<Rightarrow> string) \<Rightarrow> (string \<Rightarrow> nanos option) \<Rightarrow> string option \<Rightarrow> string \<Rightarrow> string \<Rightarrow> log_handler" where
  "new_with_context E getenv parse_duration os_hostname lvl version =
     (let h = trim_space (getenv ''HOSTNAME'');
          hostname = (if h \<noteq> [] then h else (case os_hostname of Some n \<Rightarrow> trim_space n | None \<Rightarrow> []));
          lvlStr = (if trim_space lvl = [] then getenv ''LOG_LEVEL'' else trim_space lvl);
          dhost = trim_space (getenv ''DASHBOARD_HOST'')
      in \<lparr>lh_term_level = parse_level E lvlStr,
          lh_poster = (if dhost \<noteq> [] then Some (initialize_dashboard_poster getenv parse_duration dhost) else None),
          lh_hostname = hostname, lh_version = version,
          lh_notifier = new_notifier E getenv os_hostname, lh_base_attrs = []\<rparr>)"

subsection \<open>Posting\<close>

datatype post_result =
    Build_failed \<comment> \<open>the request cannot be built\<close>
  | No_response
  | Response nat

definition should_retry :: "post_result \<Rightarrow> bool" where
  "should_retry r = (case r of Response status \<Rightarrow> status \<ge> 500 \<or> status = 429 | _ \<Rightarrow> True)"

definition attempt_post :: "post_result \<Rightarrow> bool" where
  \<comment> \<open>whether the payload is done with; a final answer is only logged, whatever its status\<close>
  "attempt_post r = (if r = Build_failed then True else \<not> should_retry r)"

definition add_jitter :: "nanos \<Rightarrow> nat option \<Rightarrow> nanos" where
  \<comment> \<open>None: no random number\<close>
  "add_jitter d jitter =
     (case jitter of None \<Rightarrow> d | Some j \<Rightarrow> \<lfloor>of_int d * (1 / 2 + of_nat j / 1000 :: rat)\<rfloor>)"

definition next_backoff :: "poster \<Rightarrow> nanos \<Rightarrow> nanos" where
  "next_backoff p backoff =
     (if backoff < po_retry_wait_max p
      then (let b = backoff * 2 in if b > po_retry_wait_max p then po_retry_wait_max p else b)
      else backoff)"

lemma not_attempt_post: "\<not> attempt_post r \<longleftrightarrow> r \<noteq> Build_failed \<and> should_retry r"
  by (simp add: attempt_post_def)

record network =
  nw_result :: "nat \<Rightarrow> post_result" \<comment> \<open>of the k-th attempt\<close>
  nw_time :: "nat \<Rightarrow> nanos" \<comment> \<open>what the attempt and the wake-up after the pause take\<close>
  nw_jitter :: "nat \<Rightarrow> nat option"

partial_function (option) post_loop ::
  "poster \<Rightarrow> network \<Rightarrow> nanos \<Rightarrow> nanos \<Rightarrow> nat \<Rightarrow> nanos \<Rightarrow> (nat \<times> bool) option" where
  \<comment> \<open>the number of attempts, and whether the last one settled the payload\<close>
  "post_loop p net deadline now k backoff =
     (if deadline \<le> now then Some (k, False)
      else if attempt_post (nw_result net k) then Some (Suc k, True)
      else post_loop p net deadline (now + nw_time net k + add_jitter backoff (nw_jitter net k)) (Suc k)
             (next_backoff p backoff))"

definition handle_post_payload :: "poster \<Rightarrow> network \<Rightarrow> nanos \<Rightarrow> (nat \<times> bool) option" where
  "handle_post_payload p net now =
     post_loop p net (now + po_retry_timeout p) now 0 (po_retry_wait_min p)"

fun pauses :: "poster \<Rightarrow> nat \<Rightarrow> nanos \<Rightarrow> nanos" where
  \<comment> \<open>the least the next pauses can take\<close>
  "pauses p 0 backoff = 0"
| "pauses p (Suc r) backoff = backoff div 2 + pauses p r (next_backoff p backoff)"

fun spent :: "poster \<Rightarrow> network \<Rightarrow> nat \<Rightarrow> nat \<Rightarrow> nanos \<Rightarrow> nanos" where
  \<comment> \<open>what the next attempts took, with the pauses after them\<close>
  "spent p net k 0 backoff = 0"
| "spent p net k (Suc r) backoff =
     nw_time net k + add_jitter backoff (nw_jitter net k) + spent p net (Suc k) r (next_backoff p backoff)"

lemma add_jitter_half: "0 \<le> d \<Longrightarrow> d div 2 \<le> add_jitter d j"
proof (cases j)
  case None
  assume "0 \<le> d"
  then show ?thesis using None by (simp add: add_jitter_def)
next
  case (Some n)
  assume d: "0 \<le> d"
  have "(of_int d :: rat) * (1 / 2) \<le> of_int d * (1 / 2 + of_nat n / 1000)"
    by (rule mult_left_mono) (use d in simp_all)
  moreover have "(of_int (d div 2) :: rat) \<le> of_int d * (1 / 2)"
  proof -
    have "2 * (d div 2) \<le> d" by simp
    then have "(of_int (2 * (d div 2)) :: rat) \<le> of_int d" by (simp only: of_int_le_iff)
    then show ?thesis by simp
  qed
  ultimately have "(of_int (d div 2) :: rat) \<le> of_int d * (1 / 2 + of_nat n / 1000)" by linarith
  then show ?thesis using Some by (simp add: add_jitter_def le_floor_iff)
qed

lemma next_backoff_nonneg: "0 \<le> b \<Longrightarrow> 0 \<le> po_retry_wait_max p \<Longrightarrow> 0 \<le> next_backoff p b"
  by (simp add: next_backoff_def Let_def)

lemma post_loop_cases:
  "deadline \<le> now \<Longrightarrow> post_loop p net deadline now k backoff = Some (k, False)"
  "now < deadline \<Longrightarrow> attempt_post (nw_result net k) \<Longrightarrow> post_loop p net deadline now k backoff = Some (Suc k, True)"
  "now < deadline \<Longrightarrow> \<not> attempt_post (nw_result net k) \<Longrightarrow> post_loop p net deadline now k backoff =
     post_loop p net deadline (now + nw_time net k + add_jitter backoff (nw_jitter net k)) (Suc k) (next_backoff p backoff)"
  by (subst post_loop.simps, simp)+

lemma post_loop_returns:
  assumes "\<And>k. 0 \<le> nw_time net k" "0 \<le> po_retry_wait_max p"
  shows "0 \<le> backoff \<Longrightarrow> deadline - now \<le> pauses p r backoff \<Longrightarrow>
    \<exists>n ok. post_loop p net deadline now k backoff = Some (n, ok) \<and> k \<le> n \<and> n \<le> k + r \<and>
      (\<forall>i. k \<le> i \<and> i < (if ok then n - 1 else n) \<longrightarrow> \<not> attempt_post (nw_result net i)) \<and>
      (ok \<longrightarrow> k < n \<and> attempt_post (nw_result net (n - 1))) \<and> (now < deadline \<longrightarrow> k < n) \<and>
      (\<not> ok \<longrightarrow> deadline - now \<le> spent p net k (n - k) backoff)"
proof (induction r arbitrary: now k backoff)
  case 0
  then have "deadline \<le> now" by simp
  then show ?case by (intro exI [of _ k] exI [of _ False]) (auto simp: post_loop_cases(1))
next
  case (Suc r)
  let ?now = "now + nw_time net k + add_jitter backoff (nw_jitter net k)"
  show ?case
  proof (cases "deadline \<le> now \<or> attempt_post (nw_result net k)")
    case True
    then show ?thesis
    proof (cases "deadline \<le> now")
      case True
      then show ?thesis by (intro exI [of _ k] exI [of _ False]) (auto simp: post_loop_cases(1))
    next
      case late: False
      then show ?thesis
        using True by (intro exI [of _ "Suc k"] exI [of _ True]) (auto simp: post_loop_cases(2))
    qed
  next
    case False
    have "deadline - ?now \<le> pauses p r (next_backoff p backoff)"
      using Suc.prems(2) assms(1) [of k] add_jitter_half [OF Suc.prems(1), of "nw_jitter net k"] by simp
    from Suc.IH [OF next_backoff_nonneg [OF Suc.prems(1) assms(2)] this, of "Suc k"]
    obtain n ok where n: "post_loop p net deadline ?now (Suc k) (next_backoff p backoff) = Some (n, ok)"
      "Suc k \<le> n" "n \<le> Suc k + r"
      "\<forall>i. Suc k \<le> i \<and> i < (if ok then n - 1 else n) \<longrightarrow> \<not> attempt_post (nw_result net i)"
      "ok \<longrightarrow> Suc k < n \<and> attempt_post (nw_result net (n - 1))"
      "\<not> ok \<longrightarrow> deadline - ?now \<le> spent p net (Suc k) (n - Suc k) (next_backoff p backoff)"
      by blast
    have "post_loop p net deadline now k backoff = Some (n, ok)"
      using False n(1) by (simp add: post_loop_cases(3))
    moreover have "\<not> attempt_post (nw_result net i)" if "k \<le> i" "i < (if ok then n - 1 else n)" for i
      using that n(4) False by (cases "i = k") auto
    moreover have "\<not> ok \<longrightarrow> deadline - now \<le> spent p net k (n - k) backoff"
    proof -
      have "n - k = Suc (n - Suc k)" using n(2) by simp
      then show ?thesis using n(6) by (cases ok) simp_all
    qed
    ultimately show ?thesis using n(2,3,5) by auto
  qed
qed

lemma post_outcome:
  assumes "p = new_poster getenv parse_duration url key qs" and "\<And>k. 0 \<le> nw_time net k"
  shows "\<exists>n ok. handle_post_payload p net now = Some (n, ok) \<and> 1 \<le> n \<and> n \<le> 5 \<and>
    (\<forall>i < n - 1. \<not> attempt_post (nw_result net i)) \<and> ok = attempt_post (nw_result net (n - 1)) \<and>
    (\<not> ok \<longrightarrow> 5 * second \<le> spent p net 0 n (po_retry_wait_min p))"
proof -
  have p: "po_retry_wait_max p = 5000000000" "po_retry_wait_min p = 500000000" "po_retry_timeout p = 5000000000"
    by (simp_all add: assms(1) new_poster_def Let_def default_retry_wait_max_def default_retry_wait_def
        default_retry_timeout_def)
  have b: "next_backoff p 500000000 = 1000000000" "next_backoff p 1000000000 = 2000000000"
    "next_backoff p 2000000000 = 4000000000" "next_backoff p 4000000000 = 5000000000"
    by (simp_all add: next_backoff_def p)
  have "now + po_retry_timeout p - now \<le> pauses p 5 (po_retry_wait_min p)"
    by (simp add: p b eval_nat_numeral)
  moreover have "0 \<le> po_retry_wait_min p" "0 \<le> po_retry_wait_max p" by (simp_all add: p)
  ultimately obtain n ok where n: "handle_post_payload p net now = Some (n, ok)" "n \<le> 5"
    "\<forall>i. i < (if ok then n - 1 else n) \<longrightarrow> \<not> attempt_post (nw_result net i)"
    "ok \<longrightarrow> attempt_post (nw_result net (n - 1))" "0 < n"
    "\<not> ok \<longrightarrow> po_retry_timeout p \<le> spent p net 0 n (po_retry_wait_min p)"
    using post_loop_returns [OF assms(2), of p "po_retry_wait_min p" "now + po_retry_timeout p" now 5 0]
    by (auto simp: handle_post_payload_def p)
  then show ?thesis by (cases ok) (auto simp: p)
qed

text \<open>C26: A worker never hangs on a payload. Whatever the network answers, however long it takes and
  whatever the jitter is, posting a payload ends after one to five attempts: at the first attempt whose
  answer is final, or without success when the timeout is over; only answers that ask for it (no
  response, a status of 500 and above, 429) are followed by another attempt.\<close>

theorem post_terminates:
  assumes "p = new_poster getenv parse_duration url key qs" and "\<And>k. 0 \<le> nw_time net k"
  shows "\<exists>n ok. handle_post_payload p net now = Some (n, ok) \<and> 1 \<le> n \<and> n \<le> 5 \<and>
    (\<forall>i < n - 1. should_retry (nw_result net i)) \<and>
    ok = attempt_post (nw_result net (n - 1))"
  using post_outcome [OF assms(1), of net now] assms(2) by (auto simp: not_attempt_post)

definition sample_network :: network where
  "sample_network = \<lparr>nw_result = (\<lambda>k. if k = 0 then No_response else if k = 1 then Response 503 else Response 201),
     nw_time = (\<lambda>_. second), nw_jitter = (\<lambda>_. Some 0)\<rparr>"

theorem post_terminates_witness:
  "\<exists>n ok. handle_post_payload (new_poster (\<lambda>_. []) (\<lambda>_. None) ''http://d'' ''k'' 0) sample_network 7 = Some (n, ok) \<and> n \<le> 5"
  using post_terminates [OF refl, of sample_network "\<lambda>_. []" "\<lambda>_. None" "''http://d''" "''k''" 0 7]
  by (auto simp: sample_network_def)

subsection \<open>The queue and its workers\<close>

datatype ship_phase = Delayed | Shipping | Done

record shipment = \<comment> \<open>a payload a worker is done with\<close>
  sm_payload :: string
  sm_net :: network \<comment> \<open>how the network answered its attempts\<close>
  sm_start :: nanos
  sm_attempts :: nat
  sm_settled :: bool \<comment> \<open>False: given up\<close>

record ship_state =
  sh_poster :: poster
  sh_phase :: ship_phase
  sh_stop :: bool \<comment> \<open>the stop channel is closed\<close>
  sh_idle :: nat \<comment> \<open>the workers that wait at the select\<close>
  sh_busy :: "string list" \<comment> \<open>the payloads the other workers are posting\<close>
  sh_done :: "shipment list" \<comment> \<open>posted, refused or given up\<close>
  sh_dropped :: "string list" \<comment> \<open>offered when the queue was full\<close>

definition ship_start :: "poster \<Rightarrow> ship_state" where
  "ship_start p =
     \<lparr>sh_poster = p, sh_phase = Delayed, sh_stop = False, sh_idle = 0, sh_busy = [], sh_done = [], sh_dropped = []\<rparr>"

definition offer :: "string \<Rightarrow> ship_state \<Rightarrow> ship_state" where
  "offer x s =
     s\<lparr>sh_poster := enqueue x (sh_poster s),
       sh_dropped := (if int (length (po_q (sh_poster s))) < po_queue_size (sh_poster s) then sh_dropped s
                      else x # sh_dropped s)\<rparr>"

inductive ship_reach :: "poster \<Rightarrow> ship_state \<Rightarrow> string list \<Rightarrow> bool" for p where
  \<comment> \<open>the last argument lists what was offered, the latest first\<close>
  ship_init: "ship_reach p (ship_start p) []"
| ship_offer: "ship_reach p s xs \<Longrightarrow> ship_reach p (offer x s) (x # xs)"
| ship_begin: "ship_reach p s xs \<Longrightarrow> sh_phase s = Delayed \<Longrightarrow>
    ship_reach p (s\<lparr>sh_phase := Shipping, sh_idle := po_workers (sh_poster s)\<rparr>) xs"
| ship_cancel: "ship_reach p s xs \<Longrightarrow> sh_phase s = Delayed \<Longrightarrow> sh_stop s \<Longrightarrow> ship_reach p (s\<lparr>sh_phase := Done\<rparr>) xs"
| ship_take: "ship_reach p s xs \<Longrightarrow> sh_idle s = Suc i \<Longrightarrow> po_q (sh_poster s) = x # q \<Longrightarrow>
    ship_reach p (s\<lparr>sh_poster := (sh_poster s)\<lparr>po_q := q\<rparr>, sh_idle := i, sh_busy := x # sh_busy s\<rparr>) xs"
| ship_finish: "ship_reach p s xs \<Longrightarrow> sh_busy s = ys @ x # zs \<Longrightarrow> \<forall>k. 0 \<le> nw_time net k \<Longrightarrow>
    handle_post_payload p net t = Some (n, ok) \<Longrightarrow>
    ship_reach p (s\<lparr>sh_busy := ys @ zs, sh_idle := Suc (sh_idle s),
      sh_done := \<lparr>sm_payload = x, sm_net = net, sm_start = t, sm_attempts = n, sm_settled = ok\<rparr> # sh_done s\<rparr>) xs"
| ship_exit: "ship_reach p s xs \<Longrightarrow> sh_stop s \<Longrightarrow> sh_idle s = Suc i \<Longrightarrow> ship_reach p (s\<lparr>sh_idle := i\<rparr>) xs"
| ship_done: "ship_reach p s xs \<Longrightarrow> sh_phase s = Shipping \<Longrightarrow> sh_stop s \<Longrightarrow> sh_idle s = 0 \<Longrightarrow> sh_busy s = [] \<Longrightarrow>
    ship_reach p (s\<lparr>sh_phase := Done\<rparr>) xs"
| ship_stop: "ship_reach p s xs \<Longrightarrow> ship_reach p (s\<lparr>sh_stop := True\<rparr>) xs"

definition posted_as_handled :: "poster \<Rightarrow> shipment \<Rightarrow> bool" where
  "posted_as_handled p d \<longleftrightarrow>
     (\<forall>k. 0 \<le> nw_time (sm_net d) k) \<and>
     handle_post_payload p (sm_net d) (sm_start d) = Some (sm_attempts d, sm_settled d)"

definition ship_inv :: "poster \<Rightarrow> ship_state \<Rightarrow> string list \<Rightarrow> bool" where
  "ship_inv p s xs \<longleftrightarrow>
     mset xs = mset (po_q (sh_poster s)) + mset (sh_busy s) + mset (map sm_payload (sh_done s)) + mset (sh_dropped s) \<and>
     list_all (posted_as_handled p) (sh_done s) \<and>
     int (length (po_q (sh_poster s))) \<le> po_queue_size p \<and> po_queue_size (sh_poster s) = po_queue_size p \<and>
     po_workers (sh_poster s) = po_workers p \<and> sh_idle s + length (sh_busy s) \<le> po_workers p \<and>
     (sh_phase s = Delayed \<longrightarrow> sh_idle s = 0 \<and> sh_busy s = []) \<and>
     (sh_phase s = Done \<longrightarrow> sh_idle s = 0 \<and> sh_busy s = []) \<and>
     (sh_phase s = Shipping \<and> \<not> sh_stop s \<longrightarrow> sh_idle s + length (sh_busy s) = po_workers p)"

lemma ship_reach_inv:
  assumes "po_q p = []" "0 < po_queue_size p"
  shows "ship_reach p s xs \<Longrightarrow> ship_inv p s xs"
proof (induction rule: ship_reach.induct)
  case ship_init
  then show ?case using assms by (simp add: ship_inv_def ship_start_def)
next
  case (ship_offer s xs x)
  then show ?case by (simp add: ship_inv_def offer_def enqueue_def)
qed (auto simp: ship_inv_def posted_as_handled_def)

definition asks_again :: "post_result \<Rightarrow> bool" where
  \<comment> \<open>no answer at all, an error of the server, or too many requests\<close>
  "asks_again r \<longleftrightarrow> r = No_response \<or> (\<exists>status. r = Response status \<and> (500 \<le> status \<or> status = 429))"

lemma asks_again_iff: "asks_again r \<longleftrightarrow> \<not> attempt_post r"
  by (cases r) (simp_all add: asks_again_def attempt_post_def should_retry_def)

text \<open>C30: What becomes of a log entry that is shipped. In every state of the poster each payload that was
  offered waits in the queue, is being posted, is done with, or was dropped because the queue was full,
  and it is in one of these places only. One that is done with was tried one to five times: every answer
  but the last asked to try again, and so did the last one exactly when the payload was given up, which
  happens only after the five seconds of the retry timeout are over. The queue never exceeds its size and
  at most three posts are under way. As long as the poster is running and not stopped, all of its workers
  are there to take what waits.\<close>

theorem poster_conserves:
  assumes "p = new_poster getenv parse_duration url key qs" and "ship_reach p s xs"
  shows "mset xs = mset (po_q (sh_poster s)) + mset (sh_busy s) + mset (map sm_payload (sh_done s)) + mset (sh_dropped s) \<and>
    (\<forall>d \<in> set (sh_done s). 1 \<le> sm_attempts d \<and> sm_attempts d \<le> 5 \<and>
       (\<forall>i < sm_attempts d - 1. asks_again (nw_result (sm_net d) i)) \<and>
       (sm_settled d \<longleftrightarrow> \<not> asks_again (nw_result (sm_net d) (sm_attempts d - 1))) \<and>
       (\<not> sm_settled d \<longrightarrow> 5 * second \<le> spent p (sm_net d) 0 (sm_attempts d) (po_retry_wait_min p))) \<and>
    int (length (po_q (sh_poster s))) \<le> (if qs \<le> 0 then 1024 else qs) \<and> length (sh_busy s) \<le> 3 \<and>
    (sh_phase s = Shipping \<and> \<not> sh_stop s \<longrightarrow> sh_idle s = 3 - length (sh_busy s))"
proof -
  have p: "po_q p = []" "0 < po_queue_size p" "po_queue_size p = (if qs \<le> 0 then 1024 else qs)" "po_workers p = 3"
    by (simp_all add: assms(1) new_poster_def Let_def default_queue_size_def default_workers_def)
  have inv: "ship_inv p s xs" by (rule ship_reach_inv [OF p(1,2) assms(2)])
  have "1 \<le> sm_attempts d \<and> sm_attempts d \<le> 5 \<and>
      (\<forall>i < sm_attempts d - 1. asks_again (nw_result (sm_net d) i)) \<and>
      (sm_settled d \<longleftrightarrow> \<not> asks_again (nw_result (sm_net d) (sm_attempts d - 1))) \<and>
      (\<not> sm_settled d \<longrightarrow> 5 * second \<le> spent p (sm_net d) 0 (sm_attempts d) (po_retry_wait_min p))"
    if "d \<in> set (sh_done s)" for d
    using inv that post_outcome [OF assms(1), of "sm_net d" "sm_start d"]
    by (auto simp: ship_inv_def list_all_iff posted_as_handled_def asks_again_iff)
  then show ?thesis
    using inv unfolding ship_inv_def p(3,4) by auto
qed

lemma sample_post:
  "handle_post_payload (new_poster (\<lambda>_. []) (\<lambda>_. None) ''http://d'' ''k'' 1) \<lparr>nw_result = (\<lambda>k. Response 201),
     nw_time = (\<lambda>_. second), nw_jitter = (\<lambda>_. None)\<rparr> 0 = Some (1, True)"
  by (simp add: handle_post_payload_def post_loop_cases(2) new_poster_def Let_def default_retry_timeout_def
      attempt_post_def should_retry_def)

theorem poster_conserves_witness:
  "\<exists>s d. ship_reach (new_poster (\<lambda>_. []) (\<lambda>_. None) ''http://d'' ''k'' 1) s [''b'', ''a''] \<and>
    sh_done s = [d] \<and> sm_payload d = ''a'' \<and> sh_dropped s = [''b''] \<and> \<not> asks_again (nw_result (sm_net d) 0)"
proof -
  let ?p = "new_poster (\<lambda>_. []) (\<lambda>_. None) ''http://d'' ''k'' 1"
  let ?net = "\<lparr>nw_result = (\<lambda>k. Response 201), nw_time = (\<lambda>_. second), nw_jitter = (\<lambda>_. None)\<rparr>"
  let ?d = "\<lparr>sm_payload = ''a'', sm_net = ?net, sm_start = 0, sm_attempts = 1, sm_settled = True\<rparr>"
  have p: "po_q ?p = []" "po_queue_size ?p = 1" "po_workers ?p = 3"
    by (simp_all add: new_poster_def Let_def default_workers_def)
  have "\<exists>s. ship_reach ?p s [''b'', ''a''] \<and> sh_done s = [?d] \<and> sh_dropped s = [''b'']"
  proof -
    have "ship_reach ?p (offer ''a'' (ship_start ?p)) [''a'']" by (intro ship_offer ship_init)
    moreover define s1 where "s1 = offer ''a'' (ship_start ?p)"
    moreover have s1: "po_q (sh_poster s1) = [''a'']" "sh_phase s1 = Delayed" "sh_done s1 = []" "sh_dropped s1 = []"
      "po_workers (sh_poster s1) = 3" "po_queue_size (sh_poster s1) = 1" "sh_busy s1 = []"
      by (simp_all add: s1_def offer_def ship_start_def enqueue_def p)
    moreover define s2 where "s2 = offer ''b'' s1"
    moreover have s2: "po_q (sh_poster s2) = [''a'']" "sh_phase s2 = Delayed" "sh_done s2 = []" "sh_dropped s2 = [''b'']"
      "po_workers (sh_poster s2) = 3" "sh_busy s2 = []"
      by (simp_all add: s2_def offer_def s1 enqueue_def)
    ultimately have "ship_reach ?p s2 [''b'', ''a'']" by (metis ship_offer)
    from ship_begin [OF this s2(2)] obtain s3 where s3: "ship_reach ?p s3 [''b'', ''a'']" "sh_idle s3 = Suc 2"
      "po_q (sh_poster s3) = [''a'']" "sh_done s3 = []" "sh_dropped s3 = [''b'']" "sh_busy s3 = []"
      using s2 by force
    from ship_take [OF s3(1,2,3)] obtain s4 where s4: "ship_reach ?p s4 [''b'', ''a'']"
      "sh_done s4 = []" "sh_dropped s4 = [''b'']" "sh_busy s4 = [] @ ''a'' # []"
      using s3 by force
    show ?thesis using ship_finish [OF s4(1,4) _ sample_post] s4 by force
  qed
  then obtain s where s: "ship_reach ?p s [''b'', ''a'']" "sh_done s = [?d]" "sh_dropped s = [''b'']" by blast
  from poster_conserves [OF refl s(1)] have "\<not> asks_again (nw_result (sm_net ?d) (sm_attempts ?d - 1))"
    by (simp add: s(2))
  then show ?thesis using s by (intro exI [of _ s] exI [of _ ?d]) simp
qed

end
