(* ===== verification/Reporting.thy ===== *)
theory Reporting
  imports Logging DashServer
begin

text \<open>
  The way of a decision from a filter to the dashboard: a log line of theory FilterCommon goes through
  the handler of theory Logging, its payload through the queue and the network, and theory Payload makes
  a log entry of it. The JSON encoder of the filter and the decoder of the dashboard are related by
  \<open>json_wire\<close>.
\<close>

definition slog_level :: "FilterCommon.level \<Rightarrow> int" where
  "slog_level l =
     (case l of Debug \<Rightarrow> level_debug | Info \<Rightarrow> level_info | Warn \<Rightarrow> level_warn | Error \<Rightarrow> level_error)"

definition line_attrs :: "log_line \<Rightarrow> (string \<times> val option) list" where
  "line_attrs line = map (\<lambda>(k, v). (k, Some v)) (lg_fields line)"

definition record_of :: "nanos \<Rightarrow> log_line \<Rightarrow> log_record" where
  "record_of t line =
     \<lparr>lr_level = slog_level (lg_level line), lr_time = t, lr_msg = lg_msg line, lr_attrs = line_attrs line\<rparr>"

fun json_of :: "val option \<Rightarrow> json" where
  "json_of None = JNull"
| "json_of (Some (VS s)) = JStr s"
| "json_of (Some (VI i)) = JNum (of_int i)"
| "json_of (Some (VB b)) = JBool b"
| "json_of (Some (VL ws)) = JArr (map JStr ws)"

definition json_wire :: "log_lib \<Rightarrow> http_lib \<Rightarrow> attrs \<Rightarrow> bool" where
  \<comment> \<open>the dashboard decodes what the filter encoded\<close>
  "json_wire L H a \<longleftrightarrow>
     (\<exists>bytes m. ll_marshal L a = Some bytes \<and> decode_payloads H bytes = Some [m] \<and>
        (\<forall>k. map_of m k = map_option json_of (map_of a k)))"

subsection \<open>Lookups\<close>

lemma copy_attrs_lookup:
  "map_of (copy_attrs kvs m) k = (case map_of (rev kvs) k of Some v \<Rightarrow> Some v | None \<Rightarrow> map_of m k)"
proof (induction kvs arbitrary: m)
  case Nil
  then show ?case by (simp add: copy_attrs_def)
next
  case (Cons kv kvs)
  obtain k' v where kv: "kv = (k', v)" by (cases kv)
  have "copy_attrs (kv # kvs) m = copy_attrs kvs (AList.update k' v m)" by (simp add: copy_attrs_def kv)
  then show ?case using Cons.IH [of "AList.update k' v m"]
    by (auto simp: kv update_conv' map_add_def split: option.splits)
qed

lemma map_of_rev: "distinct (map fst kvs) \<Longrightarrow> map_of (rev kvs) = map_of kvs"
  by (rule map_of_inject_set [THEN iffD2]) (simp_all add: rev_map [symmetric])

lemma copy_distinct: "distinct (map fst kvs) \<Longrightarrow> map_of (copy_attrs kvs []) k = map_of kvs k"
  by (simp add: copy_attrs_lookup map_of_rev split: option.split)

lemma line_attrs_lookup: "map_of (line_attrs line) k = map_option Some (map_of (lg_fields line) k)"
proof -
  have "map_of (map (\<lambda>(k, v). (k, Some v)) kvs) k = map_option Some (map_of kvs k)" for kvs :: fields
    by (induction kvs) auto
  then show ?thesis by (simp add: line_attrs_def)
qed

lemma line_attrs_keys: "map fst (line_attrs line) = map fst (lg_fields line)"
  by (simp add: line_attrs_def case_prod_unfold comp_def)

definition given :: "val option option \<Rightarrow> val option option" where
  \<comment> \<open>absent, nil and empty values are not shipped\<close>
  "given v = (case v of Some (Some w) \<Rightarrow> if sprint (Some w) \<noteq> [] then v else None | _ \<Rightarrow> None)"

lemma add_keys_lookup:
  "map_of (fold (add_key canon) ks payload) k =
     (if k \<in> set ks \<and> given (map_of canon k) \<noteq> None then map_of canon k else map_of payload k)"
proof (induction ks arbitrary: payload)
  case Nil
  then show ?case by simp
next
  case (Cons x ks)
  have "map_of (add_key canon x payload) k =
    (if k = x \<and> given (map_of canon x) \<noteq> None then map_of canon x else map_of payload k)"
    by (auto simp: add_key_def given_def update_conv' split: option.split)
  then show ?case using Cons.IH [of "add_key canon x payload"] by auto
qed

lemma given_Some: "given v \<noteq> None \<Longrightarrow> given v = v"
  by (auto simp: given_def split: option.splits if_splits)

lemma alias_lookup:
  "map_of (alias_key old new a) k = (if k = new then (case map_of a old of Some v \<Rightarrow> Some v | None \<Rightarrow> map_of a new) else map_of a k)"
  by (auto simp: alias_key_def update_conv' split: option.split)

text \<open>Lines without the synonyms the handler knows; the host name stays under its key and is also
  found under \<^verbatim>\<open>http_host\<close>.\<close>

definition plain :: "attrs \<Rightarrow> bool" where
  "plain a \<longleftrightarrow> wf_map a \<and> map_of a ''client_ip'' = None \<and> map_of a ''dst_ip'' = None \<and> map_of a ''dst_port'' = None \<and>
     map_of a ''http_host'' = None \<and> map_of a ''hostname'' = None \<and> map_of a ''version'' = None"

lemma copy_attrs_wf: "wf_map m \<Longrightarrow> wf_map (copy_attrs kvs m)"
  unfolding copy_attrs_def by (induction kvs arbitrary: m) auto

lemma normalize_lookup:
  assumes "plain a"
  shows "map_of (normalize_attribute_keys (copy_attrs a [])) k =
    (if k = ''http_host'' then (case map_of a ''host'' of Some v \<Rightarrow> if sprint v \<noteq> [] then Some v else None | None \<Rightarrow> None)
     else map_of a k)"
proof -
  have c: "map_of (copy_attrs a []) k = map_of a k" for k
    using assms by (intro copy_distinct) (simp add: plain_def wf_map_def)
  let ?a3 = "alias_key ''dst_port'' ''destination_port'' (alias_key ''dst_ip'' ''destination_ip''
    (alias_key ''client_ip'' ''source_ip'' (copy_attrs a [])))"
  have 3: "map_of ?a3 k = map_of a k" for k
    using assms by (simp add: alias_lookup c plain_def)
  show ?thesis
    using assms unfolding normalize_attribute_keys_def Let_def 3
    by (auto simp: plain_def update_conv' 3 split: option.split)
qed

lemma add_default_lookup:
  "map_of (add_default k' v canon payload) k =
     (if k = k' \<and> v \<noteq> [] then Some (Some (VS v)) else map_of payload k)"
  if "map_of canon k' = None"
  using that by (simp add: add_default_def update_conv')

lemma payload_lookup:
  assumes "plain a"
  shows "map_of (build_dashboard_payload L hn ver t msg act a) k =
    (if k = ''msg'' then Some (Some (VS msg)) else if k = ''action'' then Some (Some (VS act))
     else if k = ''producer_time'' then Some (Some (VS (ll_format_time L t)))
     else if k = ''time'' then Some (Some (VS (get_canonical_time L a t)))
     else if k = ''hostname'' then (if hn \<noteq> [] then Some (Some (VS hn)) else None)
     else if k = ''version'' then (if ver \<noteq> [] then Some (Some (VS ver)) else None)
     else if k = ''http_host'' then given (map_of a ''host'')
     else if k \<in> set dashboard_keys then given (map_of a k) else None)"
proof -
  let ?c = "normalize_attribute_keys (copy_attrs a [])"
  note look = normalize_lookup [OF assms]
  have none: "map_of ?c ''hostname'' = None" "map_of ?c ''version'' = None"
    using assms by (simp_all add: look plain_def)
  have keys: "''msg'' \<notin> set dashboard_keys" "''action'' \<notin> set dashboard_keys" "''producer_time'' \<notin> set dashboard_keys"
    "''time'' \<notin> set dashboard_keys" "''http_host'' \<in> set dashboard_keys"
    by (simp_all add: dashboard_keys_def)
  have hh: "given (map_of ?c ''http_host'') = given (map_of a ''host'')"
    by (auto simp: look given_def split: option.split)
  define p0 :: attrs where "p0 = [(''producer_time'', Some (VS (ll_format_time L t))), (''msg'', Some (VS msg)),
    (''action'', Some (VS act)), (''time'', Some (VS (get_canonical_time L a t)))]"
  have all: "map_of (build_dashboard_payload L hn ver t msg act a) k =
    (if k \<in> set dashboard_keys \<and> given (map_of ?c k) \<noteq> None then map_of ?c k
     else if k = ''version'' \<and> ver \<noteq> [] then Some (Some (VS ver))
     else if k = ''hostname'' \<and> hn \<noteq> [] then Some (Some (VS hn)) else map_of p0 k)"
    unfolding build_dashboard_payload_def Let_def p0_def [symmetric] add_keys_lookup
      add_default_lookup [OF none(2)] add_default_lookup [OF none(1)] by (rule refl)
  have p0: "k \<notin> {''msg'', ''action'', ''producer_time'', ''time''} \<Longrightarrow> map_of p0 k = None"
    by (simp add: p0_def)
  have given_c: "given (map_of ?c ''hostname'') = None" "given (map_of ?c ''version'') = None"
    by (simp_all add: none given_def)
  show ?thesis
  proof (cases "k \<in> {''msg'', ''action'', ''producer_time'', ''time''}")
    case True
    then show ?thesis unfolding all using keys(1-4) by (elim insertE emptyE) (simp_all add: p0_def)
  next
    case i: False
    show ?thesis
    proof (cases "k \<in> {''hostname'', ''version''}")
      case True
      then show ?thesis unfolding all using given_c p0 [OF i] by (elim insertE emptyE) simp_all
    next
      case d: False
      show ?thesis
      proof (cases "k = ''http_host''")
        case True
        then show ?thesis
          unfolding all using hh given_Some [of "map_of ?c ''http_host''"] keys(5) p0 [OF i] by simp
      next
        case False
        then have "map_of ?c k = map_of a k" by (simp add: look)
        then show ?thesis
          unfolding all using i d False p0 [OF i] given_Some [of "map_of a k"] by (cases "given (map_of a k)") simp_all
      qed
    qed
  qed
qed

text \<open>The dashboard's \<^verbatim>\<open>extractFieldsMap\<close> looks for the process behind a flow, but no payload has it.\<close>

lemma process_info_not_shipped:
  assumes "plain a"
  shows "map_of (build_dashboard_payload L hn ver t msg act a) ''pid'' = None"
    "map_of (build_dashboard_payload L hn ver t msg act a) ''process_name'' = None"
    "map_of (build_dashboard_payload L hn ver t msg act a) ''cmdline'' = None"
    "map_of (build_dashboard_payload L hn ver t msg act a) ''executable'' = None"
  by (simp_all add: payload_lookup [OF assms] dashboard_keys_def)

lemma violation_fields:
  assumes "log_policy_violation E opts component action reason identifier c destIP destPort = [line]"
  shows "HasLogger opts" "lg_msg line = component @ ''.'' @ to_lower E action" "lg_level line = Warn"
    "lg_fields line = base_log_fields component action identifier (fst (source_addr c)) (snd (source_addr c))
        @ [(''reason'', VS reason)]
        @ (if destIP \<noteq> [] then dest_fields E (fst (source_addr c)) (snd (source_addr c)) destIP destPort else [])
        @ proc_fields opts (fst (source_addr c)) (snd (source_addr c)) ''tcp''"
  using assms by (auto simp: log_policy_violation_def log_line_def case_prod_unfold Let_def split: if_splits)

lemma proc_fields_keys:
  "map fst (proc_fields opts ip port proto) \<in> {[], [''process_name''], [''pid'', ''process_name'', ''cmdline'', ''executable'']}"
  by (auto simp: proc_fields_def split: option.splits)

subsection \<open>What the dashboard makes of a payload\<close>

lemma sanitize_fields_other: "k \<notin> set fs \<Longrightarrow> map_of (fold sanitize_field fs m) k = map_of m k"
  by (induction fs arbitrary: m) (auto simp: sanitize_field_other)

lemma sanitize_field_same:
  "map_of (sanitize_field f m) f =
     (case map_of m f of Some (JStr v) \<Rightarrow> Some (JStr (sanitize_domain_field v)) | x \<Rightarrow> x)"
  by (cases "map_of m f" rule: as_string.cases) (simp_all add: sanitize_field_def update_conv')

lemma sanitize_payload_lookup:
  "map_of (sanitize_payload_fields m) k =
     (if k \<in> set domain_fields
      then (case map_of m k of Some (JStr v) \<Rightarrow> Some (JStr (sanitize_domain_field v)) | x \<Rightarrow> x)
      else map_of m k)"
proof -
  have "map_of (fold sanitize_field fs m) k =
      (case map_of m k of Some (JStr v) \<Rightarrow> Some (JStr (sanitize_domain_field v)) | x \<Rightarrow> x)"
    if "distinct fs" "k \<in> set fs" for fs
    using that
  proof (induction fs arbitrary: m)
    case (Cons f fs)
    show ?case
    proof (cases "k = f")
      case True
      then show ?thesis using Cons.prems sanitize_fields_other [of k fs] by (simp add: sanitize_field_same)
    next
      case False
      then show ?thesis using Cons.IH [of "sanitize_field f m"] Cons.prems by (simp add: sanitize_field_other)
    qed
  qed simp
  moreover have "distinct domain_fields" by (simp add: domain_fields_def)
  ultimately show ?thesis
    using sanitize_fields_other [of k domain_fields m] by (auto simp: sanitize_payload_fields_def)
qed

lemma given_string: "(case as_string (map_option json_of (given (map_option Some (Some (VS s))))) of None \<Rightarrow> [] | Some v \<Rightarrow> v) = s"
  by (simp add: given_def sprint_def)

text \<open>The keys of a violation line are distinct, and none of them is a synonym.\<close>

definition violation_attrs :: "log_line \<Rightarrow> attrs" where
  "violation_attrs line = copy_attrs (line_attrs line) (copy_attrs [] [])"

lemma violation_keys:
  assumes "log_policy_violation E opts component action reason identifier c destIP destPort = [line]"
    and "component = component_http \<or> component = component_https"
  shows "distinct (map fst (lg_fields line))"
proof -
  note f = violation_fields [OF assms(1)]
  show ?thesis
    using assms(2) proc_fields_keys [of opts "fst (source_addr c)" "snd (source_addr c)" "''tcp''"]
    by (auto simp: f(4) base_log_fields_def dest_fields_def component_http_def component_https_def simp del: map_append distinct_append)
qed

lemma proc_fields_lookup:
  "k \<notin> {''pid'', ''process_name'', ''cmdline'', ''executable''} \<Longrightarrow> map_of (proc_fields opts ip port proto) k = None"
  by (auto simp: proc_fields_def split: option.split)

lemma violation_lookup:
  assumes "log_policy_violation E opts component action reason identifier c destIP destPort = [line]"
    and "component = component_http \<or> component = component_https"
  defines "look \<equiv> map_of (violation_attrs line)"
  shows "look ''component'' = Some (Some (VS component))" "look ''action'' = Some (Some (VS action))"
    "look ''source_ip'' = Some (Some (VS (fst (source_addr c))))"
    "look ''source_port'' = Some (Some (VI (snd (source_addr c))))"
    "look ''reason'' = Some (Some (VS reason))"
    "look ''https'' = (if component = component_https then Some (Some (VS identifier)) else None)"
    "look ''host'' = (if component = component_https then None else Some (Some (VS identifier)))"
    "look ''destination_ip'' = (if destIP \<noteq> [] then Some (Some (VS destIP)) else None)"
    "look ''destination_port'' = (if destIP \<noteq> [] then Some (Some (VI destPort)) else None)"
    "look ''flow_id'' = (if destIP \<noteq> []
       then Some (Some (VS (flow_id E (fst (source_addr c)) (snd (source_addr c)) destIP destPort ''tcp''))) else None)"
    "look ''qname'' = None" "look ''protocol'' = None" "look ''dst_port'' = None"
    "plain (violation_attrs line)"
proof -
  note f = violation_fields(4) [OF assms(1)]
  have look: "look k = map_option Some (map_of (lg_fields line) k)" for k
    using violation_keys [OF assms(1,2)]
    by (simp add: look_def violation_attrs_def copy_attrs_def [of "[]"] copy_distinct line_attrs_lookup line_attrs_keys)
  note d = f base_log_fields_def dest_fields_def proc_fields_lookup component_http_def component_https_def
  have c: "component = ''http'' \<or> component = ''https''" using assms(2) by (simp add: component_http_def component_https_def)
  show "look ''component'' = Some (Some (VS component))" "look ''action'' = Some (Some (VS action))"
    "look ''source_ip'' = Some (Some (VS (fst (source_addr c))))"
    "look ''source_port'' = Some (Some (VI (snd (source_addr c))))"
    "look ''reason'' = Some (Some (VS reason))"
    "look ''https'' = (if component = component_https then Some (Some (VS identifier)) else None)"
    "look ''host'' = (if component = component_https then None else Some (Some (VS identifier)))"
    "look ''destination_ip'' = (if destIP \<noteq> [] then Some (Some (VS destIP)) else None)"
    "look ''destination_port'' = (if destIP \<noteq> [] then Some (Some (VI destPort)) else None)"
    "look ''flow_id'' = (if destIP \<noteq> []
       then Some (Some (VS (flow_id E (fst (source_addr c)) (snd (source_addr c)) destIP destPort ''tcp''))) else None)"
    "look ''qname'' = None" "look ''protocol'' = None" "look ''dst_port'' = None"
    using c by (auto simp: look d)
  have "wf_map (violation_attrs line)" by (simp add: violation_attrs_def copy_attrs_wf copy_attrs_def [of "[]"])
  moreover have "look ''client_ip'' = None" "look ''dst_ip'' = None" "look ''dst_port'' = None"
    "look ''http_host'' = None" "look ''hostname'' = None" "look ''version'' = None"
    using c by (auto simp: look d)
  ultimately show "plain (violation_attrs line)" by (simp add: plain_def look_def)
qed

lemma action_upper: "to_upper E action_blocked = action_blocked" "to_upper E action_audit = action_audit"
  "trim_space action_blocked = action_blocked" "trim_space action_audit = action_audit"
  by (simp_all add: to_upper_def action_blocked_def action_audit_def) code_simp+

lemma handle_record_poster:
  assumes "handle_record E L now r z = Some (out, notes, z')"
  shows "lh_poster z' =
    (let attrs = copy_attrs (lr_attrs r) (copy_attrs (lh_base_attrs z) []); act = extract_action E attrs
     in case lh_poster z of
          None \<Rightarrow> None
        | Some p \<Rightarrow> Some (if act \<noteq> [] then ship_to_dashboard E L (lh_hostname z) (lh_version z) (lr_time r) (lr_msg r) act attrs p
                          else p))"
  using assms by (auto simp: handle_record_def Let_def split: option.splits if_splits)

lemma handle_record_quiet:
  assumes "lh_notifier z = None"
  shows "\<exists>out z'. handle_record E L now r z = Some (out, [], z')"
proof (cases "lh_poster z")
  case None
  then show ?thesis using assms by (simp add: handle_record_def Let_def)
next
  case (Some p)
  let ?attrs = "copy_attrs (lr_attrs r) (copy_attrs (lh_base_attrs z) [])"
  show ?thesis
    by (cases "extract_action E ?attrs = []") (simp_all add: handle_record_def assms Some Let_def)
qed

lemma violation_handled:
  assumes line: "log_policy_violation E opts component action reason identifier c destIP destPort = [line]"
    and comp: "component = component_http \<or> component = component_https"
    and act: "action = action_blocked \<or> action = action_audit"
    and z: "lh_base_attrs z = []" "lh_poster z = Some p"
    and handled: "handle_record E L now (record_of t line) z = Some (out, notes, z')"
    and bytes: "ll_marshal L (build_dashboard_payload L (lh_hostname z) (lh_version z) t (lg_msg line) action
      (violation_attrs line)) = Some bytes"
  shows "lh_poster z' = Some (if int (length (po_q p)) < po_queue_size p then p\<lparr>po_q := po_q p @ [bytes]\<rparr> else p)"
proof -
  note look = violation_lookup [OF line comp]
  have attrs: "copy_attrs (lr_attrs (record_of t line)) (copy_attrs (lh_base_attrs z) []) = violation_attrs line"
    by (simp add: violation_attrs_def record_of_def z(1))
  have e: "extract_action E (violation_attrs line) = action"
    using act by (auto simp: extract_action_def look(2) sprint_def action_upper)
  have s: "should_ship_to_dashboard E action a" and ne: "action \<noteq> []" for a
    using act by (auto simp: should_ship_to_dashboard_def action_blocked_def action_audit_def action_allowed_def)
  have ship: "ship_to_dashboard E L (lh_hostname z) (lh_version z) (lr_time (record_of t line)) (lr_msg (record_of t line))
      action (violation_attrs line) p = (if int (length (po_q p)) < po_queue_size p then p\<lparr>po_q := po_q p @ [bytes]\<rparr> else p)"
    using bytes by (simp add: ship_to_dashboard_def s record_of_def enqueue_def)
  show ?thesis
    using handle_record_poster [OF handled, unfolded attrs Let_def e] by (simp add: z(2) ne ship)
qed

lemma violation_entry:
  assumes line: "log_policy_violation E opts component action reason identifier c destIP destPort = [line]"
    and comp: "component = component_http \<or> component = component_https"
    and act: "action = action_blocked \<or> action = action_audit"
    and m: "\<And>k. map_of m k = map_option json_of (map_of (build_dashboard_payload L hn ver t (lg_msg line) action
      (violation_attrs line)) k)"
    and enc: "\<And>x. dl_marshal DL x \<noteq> None"
  shows "\<exists>entry. process_payload E DL now remote (sanitize_payload_fields m) = Some entry \<and>
    Action entry = action \<and> Message entry = component @ ''.'' @ to_lower E action \<and>
    SourceIP entry = fst (source_addr c) \<and> SourcePort entry = snd (source_addr c) \<and> Protocol entry = ''TCP'' \<and>
    HTTPS entry = sanitize_domain_field identifier \<and>
    (destIP \<noteq> [] \<longrightarrow> DestinationIP entry = destIP \<and> DestinationPort entry = destPort \<and>
       FlowID entry = flow_id E (fst (source_addr c)) (snd (source_addr c)) destIP destPort ''tcp'') \<and>
    Hostname entry = sanitize_domain_field hn"
proof -
  let ?m = "sanitize_payload_fields m"
  note look = violation_lookup [OF line comp]
  note pl = payload_lookup [OF look(14)]
  have keys: "''component'' \<in> set dashboard_keys" "''source_ip'' \<in> set dashboard_keys" "''source_port'' \<in> set dashboard_keys"
    "''destination_ip'' \<in> set dashboard_keys" "''destination_port'' \<in> set dashboard_keys" "''https'' \<in> set dashboard_keys"
    "''host'' \<in> set dashboard_keys" "''qname'' \<in> set dashboard_keys" "''flow_id'' \<in> set dashboard_keys"
    "''protocol'' \<in> set dashboard_keys"
    by (simp_all add: dashboard_keys_def)
  have df: "k \<in> set domain_fields \<longleftrightarrow> k \<in> {''host'', ''http_host'', ''https'', ''qname'', ''hostname'', ''domain''}" for k
    by (simp add: domain_fields_def)
  have g: "given (Some (Some (VS s))) = (if s = [] then None else Some (Some (VS s)))"
    "given (Some (Some (VI i))) = Some (Some (VI i))" "given None = None" for s i
    by (auto simp: given_def sprint_def itoa_def nat_digits_nonempty)
  have v: "map_of ?m ''msg'' = Some (JStr (lg_msg line))" "map_of ?m ''action'' = Some (JStr action)"
    "map_of ?m ''component'' = (if component = [] then None else Some (JStr component))"
    "map_of ?m ''source_ip'' = (if fst (source_addr c) = [] then None else Some (JStr (fst (source_addr c))))"
    "map_of ?m ''source_port'' = Some (JNum (of_int (snd (source_addr c))))"
    "map_of ?m ''protocol'' = None" "map_of ?m ''qname'' = None"
    "map_of ?m ''https'' = (if component = component_https \<and> identifier \<noteq> [] then Some (JStr (sanitize_domain_field identifier)) else None)"
    "map_of ?m ''host'' = (if component \<noteq> component_https \<and> identifier \<noteq> [] then Some (JStr (sanitize_domain_field identifier)) else None)"
    "map_of ?m ''http_host'' = (if component \<noteq> component_https \<and> identifier \<noteq> [] then Some (JStr (sanitize_domain_field identifier)) else None)"
    "map_of ?m ''destination_ip'' = (if destIP \<noteq> [] then Some (JStr destIP) else None)"
    "map_of ?m ''destination_port'' = (if destIP \<noteq> [] then Some (JNum (of_int destPort)) else None)"
    "map_of ?m ''hostname'' = (if hn \<noteq> [] then Some (JStr (sanitize_domain_field hn)) else None)"
    by (simp_all add: sanitize_payload_lookup df m pl look keys g)
  have fid: "destIP \<noteq> [] \<Longrightarrow> map_of ?m ''flow_id'' =
      (let f = flow_id E (fst (source_addr c)) (snd (source_addr c)) destIP destPort ''tcp'' in if f = [] then None else Some (JStr f))"
    by (simp add: sanitize_payload_lookup df m pl look keys g Let_def)
  have msg: "lg_msg line = component @ ''.'' @ to_lower E action" by (rule violation_fields(2) [OF line])
  have c: "component = ''http'' \<or> component = ''https''" using comp by (simp add: component_http_def component_https_def)
  have probe: "\<not> is_probe_msg (lg_msg line)" "lg_msg line \<noteq> []"
    using c by (auto simp: msg is_probe_msg_def)
  have k: "to_upper E (trim_space action) = action" "kept_action action"
    using act by (auto simp: action_upper kept_action_def)
  have low: "to_lower E ''http'' = ''http''" "to_lower E ''https'' = ''https''"
    by (simp_all add: to_lower_def) code_simp+
  have san: "sanitize_domain_field x = [] \<longleftrightarrow> x = []" for x
    by (simp add: sanitize_domain_field_def invalid_domain_placeholder_def)
  obtain raw where raw: "dl_marshal DL (extract_fields_map ?m) = Some raw" using enc by blast
  have str: "string_or_empty ?m ''msg'' = lg_msg line" "string_or_empty ?m ''action'' = action"
    "string_or_empty ?m ''protocol'' = []"
    by (simp_all add: string_or_empty_def v)
  have proto: "derive_protocol E ?m = ''TCP''"
    using c by (auto simp: derive_protocol_def str v low)
  have https: "get_string_from_payload ?m [''http_host'', ''host'', ''https'', ''qname''] = sanitize_domain_field identifier"
    using comp by (auto simp: v san sanitize_domain_field_def [of "[]"])
  have hn: "get_string_from_payload ?m [''hostname''] = sanitize_domain_field hn"
    by (simp add: v sanitize_domain_field_def [of "[]"])
  have src: "get_string_from_payload ?m [''source_ip''] = fst (source_addr c)" "get_int_from_payload ?m ''source_port'' = snd (source_addr c)"
    by (simp_all add: v get_int_from_payload_def)
  have dst: "destIP \<noteq> [] \<Longrightarrow> get_string_from_payload ?m [''destination_ip''] = destIP"
    "destIP \<noteq> [] \<Longrightarrow> get_int_from_payload ?m ''destination_port'' = destPort"
    "destIP \<noteq> [] \<Longrightarrow> get_string_from_payload ?m [''flow_id''] = flow_id E (fst (source_addr c)) (snd (source_addr c)) destIP destPort ''tcp''"
    by (simp_all add: v fid get_int_from_payload_def Let_def)
  show ?thesis
    unfolding process_payload_def Let_def str if_not_P [OF probe(1)] if_not_P [OF probe(2)] k(1) raw
    using k(2) by (simp add: https hn src dst proto msg del: get_string_from_payload.simps)
qed

text \<open>C23: A connection that the HTTP or HTTPS filter blocks, or would block in audit mode, shows up on the
  dashboard as it was decided, if there is room in the queue. Through a handler without attributes of its
  own, the line about it is put at the end of the queue of the poster, or dropped when the queue is full;
  what the dashboard decodes from it becomes a log entry with the same action, message, source,
  destination and flow, with the host name the client asked for (made harmless by the dashboard's own
  check) and the name of the host that sent it.\<close>

theorem decision_reported:
  assumes line: "log_policy_violation E opts component action reason identifier c destIP destPort = [line]"
    and comp: "component = component_http \<or> component = component_https"
    and act: "action = action_blocked \<or> action = action_audit"
    and z: "lh_base_attrs z = []" "lh_poster z = Some p"
    and handled: "handle_record E L now (record_of t line) z = Some (out, notes, z')"
    and wire: "json_wire L H (build_dashboard_payload L (lh_hostname z) (lh_version z) t (lg_msg line) action
      (violation_attrs line))"
    and enc: "\<And>x. dl_marshal DL x \<noteq> None"
  shows "\<exists>bytes m entry. lh_poster z' = Some (if int (length (po_q p)) < po_queue_size p then p\<lparr>po_q := po_q p @ [bytes]\<rparr> else p) \<and>
    decode_payloads H bytes = Some [m] \<and>
    process_payload E DL now' remote (sanitize_payload_fields m) = Some entry \<and>
    Action entry = action \<and> Message entry = component @ ''.'' @ to_lower E action \<and>
    SourceIP entry = fst (source_addr c) \<and> SourcePort entry = snd (source_addr c) \<and> Protocol entry = ''TCP'' \<and>
    HTTPS entry = sanitize_domain_field identifier \<and>
    (destIP \<noteq> [] \<longrightarrow> DestinationIP entry = destIP \<and> DestinationPort entry = destPort \<and>
       FlowID entry = flow_id E (fst (source_addr c)) (snd (source_addr c)) destIP destPort ''tcp'') \<and>
    Hostname entry = sanitize_domain_field (lh_hostname z)"
proof -
  from wire obtain bytes m where bytes: "ll_marshal L (build_dashboard_payload L (lh_hostname z) (lh_version z) t
      (lg_msg line) action (violation_attrs line)) = Some bytes" "decode_payloads H bytes = Some [m]"
    and m: "\<And>k. map_of m k = map_option json_of (map_of (build_dashboard_payload L (lh_hostname z) (lh_version z) t
      (lg_msg line) action (violation_attrs line)) k)"
    unfolding json_wire_def by blast
  from violation_handled [OF line comp act z handled bytes(1)] violation_entry [OF line comp act m enc] bytes(2)
  show ?thesis by blast
qed

definition report_options :: options where
  "report_options =
     \<lparr>ListenAddr = [], DialTimeout = 0, IdleTimeout = 0, DropWithRST = False, HasLogger = True,
      DefaultAllow = False, Denylist = [], LearningMode = False, OnLearn = False, OnResolved = False,
      AuditMode = False, ProcInfo = None, DNSHardening = False, DNSRateQPS = 0, DNSRateBurst = 0, denyMatcher = None\<rparr>"

definition report_line :: log_line where
  "report_line = hd (log_policy_violation ascii_env report_options component_https action_blocked ''not allowed''
     ''a.com'' (Some ''10.0.0.9:4000'') ''1.2.3.4'' 443)"

definition report_handler :: log_handler where
  "report_handler = \<lparr>lh_term_level = level_info, lh_poster = Some (new_poster (\<lambda>_. []) (\<lambda>_. None) ''http://d'' ''k'' 0),
     lh_hostname = ''gw'', lh_version = [], lh_notifier = None, lh_base_attrs = []\<rparr>"

definition report_log_lib :: log_lib where
  "report_log_lib = \<lparr>ll_format_time = (\<lambda>_. ''t''), ll_marshal = (\<lambda>_. Some ''p'')\<rparr>"

definition report_http_lib :: http_lib where
  "report_http_lib =
     \<lparr>hl_payloads = (\<lambda>_. None),
      hl_object = (\<lambda>_. Some (map (\<lambda>(k, v). (k, json_of v)) (build_dashboard_payload report_log_lib ''gw'' [] 0
        (lg_msg report_line) action_blocked (violation_attrs report_line)))),
      hl_unblock = (\<lambda>_ _. None), hl_ack = (\<lambda>_ _. None)\<rparr>"

theorem decision_reported_witness:
  "\<exists>bytes m entry. decode_payloads report_http_lib bytes = Some [m] \<and>
    process_payload ascii_env \<lparr>dl_parse_time = (\<lambda>_. None), dl_marshal = (\<lambda>_. Some []), dl_marshal_entry = (\<lambda>_. None)\<rparr>
      5 ''10.0.0.1'' (sanitize_payload_fields m) = Some entry \<and>
    Action entry = ''BLOCKED'' \<and> SourceIP entry = ''10.0.0.9'' \<and> HTTPS entry = ''a.com''"
proof -
  have line: "log_policy_violation ascii_env report_options component_https action_blocked ''not allowed''
     ''a.com'' (Some ''10.0.0.9:4000'') ''1.2.3.4'' 443 = [report_line]"
    by (simp add: report_line_def log_policy_violation_def report_options_def Let_def case_prod_unfold)
  have room: "lh_poster report_handler = Some (new_poster (\<lambda>_. []) (\<lambda>_. None) ''http://d'' ''k'' 0)"
    by (simp add: report_handler_def)
  have base: "lh_base_attrs report_handler = []" "lh_notifier report_handler = None" "lh_hostname report_handler = ''gw''"
    "lh_version report_handler = []"
    by (simp_all add: report_handler_def)
  obtain out z' where h: "handle_record ascii_env report_log_lib 0 (record_of 0 report_line) report_handler = Some (out, [], z')"
    using handle_record_quiet [OF base(2)] by blast
  have wire: "json_wire report_log_lib report_http_lib (build_dashboard_payload report_log_lib (lh_hostname report_handler)
      (lh_version report_handler) 0 (lg_msg report_line) action_blocked (violation_attrs report_line))"
    unfolding json_wire_def base(3,4)
    by (rule exI [of _ "''p''"]) (simp add: decode_payloads_def report_http_lib_def map_of_map
        report_log_lib_def [THEN arg_cong [where f = ll_marshal]])
  have v: "fst (source_addr (Some ''10.0.0.9:4000'')) = ''10.0.0.9''" "sanitize_domain_field ''a.com'' = ''a.com''"
    by code_simp+
  from decision_reported [OF line _ _ base(1) room h wire, of "\<lparr>dl_parse_time = (\<lambda>_. None), dl_marshal = (\<lambda>_. Some []), dl_marshal_entry = (\<lambda>_. None)\<rparr>" 5 "''10.0.0.1''"]
  show ?thesis by (auto simp: v action_blocked_def)
qed

end
