(* ===== verification/Probe.thy ===== *)
theory Probe
  imports Reporting NetUtil
begin

text \<open>
  \<^verbatim>\<open>internal/logging/logging.go\<close>: the requests of the poster, its probe of the dashboard, the
  lines it writes about answers and how a program waits for it to stop. A request is what
  \<^verbatim>\<open>http.Client.Do\<close> is given; what it returns is an argument. A line keeps its level, its message
  and, for the traces, the text.
\<close>

subsection \<open>Requests\<close>

record http_request =
  hr_method :: string
  hr_url :: string
  hr_headers :: "(string, string) gomap"
  hr_body :: string

record http_answer =
  an_status :: nat
  an_body :: string \<comment> \<open>what can be read of it\<close>
  an_read_error :: bool \<comment> \<open>of the sample for the trace\<close>
  an_drain :: "string option \<times> string option" \<comment> \<open>what draining and closing return\<close>

datatype http_outcome = Cannot_build | No_answer | Answer http_answer

datatype diag =
    Line zerolog_level string
  | Trace_line string bool bool string \<comment> \<open>message, whether cut, whether JSON, text\<close>

definition set_api_auth_headers :: "(string, string) gomap \<Rightarrow> string \<Rightarrow> (string, string) gomap" where
  "set_api_auth_headers headers apiKey =
     (if apiKey = [] then headers
      else AList.update ''Authorization'' (''Bearer '' @ apiKey) (AList.update ''X-Api-Key'' apiKey headers))"

definition poster_request :: "poster \<Rightarrow> string \<Rightarrow> http_request" where
  \<comment> \<open>the same for the probe and for a log entry\<close>
  "poster_request p payload =
     \<lparr>hr_method = ''POST'', hr_url = po_url p,
      hr_headers = set_api_auth_headers (AList.update ''Content-Type'' ''application/json'' []) (po_api_key p),
      hr_body = payload\<rparr>"

definition drain_lines :: "http_answer \<Rightarrow> diag list" where
  "drain_lines a =
     (case drain_and_close (Some (an_drain a)) of None \<Rightarrow> [] | Some _ \<Rightarrow> [Line WarnLevel ''http.body_close_error''])"

definition success_status :: "nat \<Rightarrow> bool" where
  "success_status st \<longleftrightarrow> \<not> (st < 200 \<or> st \<ge> 300)"

subsection \<open>The probe\<close>

datatype probe_error = Probe_marshal | Probe_request | Probe_do | Probe_status nat

definition probe_attrs :: "log_lib \<Rightarrow> nanos \<Rightarrow> attrs" where
  "probe_attrs L now =
     [(''time'', Some (VS (ll_format_time L now))), (''msg'', Some (VS ''_dashboard_probe''))]"

definition probe ::
  "log_lib \<Rightarrow> nanos \<Rightarrow> (http_request \<Rightarrow> http_outcome) \<Rightarrow> poster \<Rightarrow> probe_error option \<times> diag list" where
  "probe L now send p =
     (case ll_marshal L (probe_attrs L now) of
        None \<Rightarrow> (Some Probe_marshal, [])
      | Some payload \<Rightarrow>
          (case send (poster_request p payload) of
             Cannot_build \<Rightarrow> (Some Probe_request, [])
           | No_answer \<Rightarrow> (Some Probe_do, [])
           | Answer a \<Rightarrow>
               (if success_status (an_status a) then None else Some (Probe_status (an_status a)),
                drain_lines a)))"

definition probe_once ::
  "log_lib \<Rightarrow> nanos \<Rightarrow> (http_request \<Rightarrow> http_outcome) \<Rightarrow> poster \<Rightarrow> diag list" where
  \<comment> \<open>the goroutine of \<^verbatim>\<open>initializeDashboardPoster\<close>, once shipping begins\<close>
  "probe_once L now send p =
     (case probe L now send p of (err, lines) \<Rightarrow>
        lines @ [case err of Some _ \<Rightarrow> Line WarnLevel ''dashboard: probe error''
                           | None \<Rightarrow> Line InfoLevel ''dashboard: probe ok''])"

subsection \<open>Answers to a posted entry\<close>

definition max_trace :: nat where "max_trace = 8192"

definition log_trace_body :: "(string \<Rightarrow> bool) \<Rightarrow> string \<Rightarrow> diag list" where
  "log_trace_body json_valid body =
     (let truncated = length body > max_trace;
          shown = (if truncated then take max_trace body else body)
      in [Trace_line ''dashboard.post body'' truncated (json_valid shown) shown])"

definition log_poster_response :: "(string \<Rightarrow> bool) \<Rightarrow> http_answer \<Rightarrow> bool \<Rightarrow> diag list" where
  "log_poster_response json_valid a trace =
     (if \<not> trace then drain_lines a
      else
        (let rb = take max_trace (an_body a)
         in (if an_read_error a then [Line WarnLevel ''http.body_read_error''] else []) @ drain_lines a @
            [Trace_line ''dashboard.post resp'' False (json_valid rb) rb]))"

definition handle_final_response ::
  "(string \<Rightarrow> bool) \<Rightarrow> bool \<Rightarrow> http_answer option \<Rightarrow> bool \<times> diag list" where
  \<comment> \<open>None: an error\<close>
  "handle_final_response json_valid trace resp =
     (case resp of
        None \<Rightarrow> (True, [Line ErrorLevel ''dashboard: post error''])
      | Some a \<Rightarrow>
          (True, log_poster_response json_valid a trace @
             (if \<not> success_status (an_status a)
              then [Line WarnLevel ''dashboard: unexpected status when posting logs''] else [])))"

definition result_of :: "http_outcome \<Rightarrow> post_result" where
  "result_of r = (case r of Cannot_build \<Rightarrow> Build_failed | No_answer \<Rightarrow> No_response | Answer a \<Rightarrow> Response (an_status a))"

definition attempt_post_lines ::
  "(string \<Rightarrow> bool) \<Rightarrow> bool \<Rightarrow> (http_request \<Rightarrow> http_outcome) \<Rightarrow> poster \<Rightarrow> string \<Rightarrow> bool \<times> diag list" where
  "attempt_post_lines json_valid trace send p payload =
     (let r = send (poster_request p payload)
      in case r of
           Cannot_build \<Rightarrow> (True, [Line ErrorLevel ''dashboard: build request error''])
         | No_answer \<Rightarrow>
             if \<not> should_retry No_response then handle_final_response json_valid trace None
             else (False, [Line DebugLevel ''dashboard: post attempt failed''])
         | Answer a \<Rightarrow>
             if \<not> should_retry (Response (an_status a)) then handle_final_response json_valid trace (Some a)
             else (False, [Line DebugLevel ''dashboard: post attempt failed with status'']))"

text \<open>The attempts of the posting loop in Logging are these, without the lines.\<close>

lemma attempt_post_result:
  "fst (attempt_post_lines json_valid trace send p payload) = attempt_post (result_of (send (poster_request p payload)))"
  by (cases "send (poster_request p payload)")
    (simp_all add: attempt_post_lines_def attempt_post_def result_of_def handle_final_response_def should_retry_def)

text \<open>A payload that the dashboard refuses for good is lost, but not in silence: the last line is a
  warning or an error.\<close>

lemma refusal_reported:
  assumes "send (poster_request p payload) = Answer a" "\<not> success_status (an_status a)"
    and "\<not> should_retry (Response (an_status a))"
  shows "attempt_post_lines json_valid trace send p payload =
    (True, log_poster_response json_valid a trace @ [Line WarnLevel ''dashboard: unexpected status when posting logs''])"
  using assms by (simp add: attempt_post_lines_def handle_final_response_def Let_def)

lemma trace_bounded:
  "d \<in> set (log_trace_body json_valid body @ log_poster_response json_valid a trace) \<Longrightarrow>
   d = Trace_line m short js t \<Longrightarrow> length t \<le> 8192"
  by (auto simp: log_trace_body_def log_poster_response_def drain_lines_def max_trace_def Let_def
      split: option.splits if_splits)

subsection \<open>Stopping\<close>

datatype stop_wait = Waited nanos | Stop_timeout | Forever

definition stop_poster :: "nanos \<Rightarrow> nanos option \<Rightarrow> stop_wait" where
  \<comment> \<open>the second argument: how long after the close of the stop channel \<^verbatim>\<open>done\<close> is closed, if ever\<close>
  "stop_poster timeout finished =
     (if timeout \<le> 0 then (case finished of Some d \<Rightarrow> Waited d | None \<Rightarrow> Forever)
      else (case finished of
              Some d \<Rightarrow> if d \<le> timeout then Waited d else Stop_timeout
            | None \<Rightarrow> Stop_timeout))"

definition shutdown :: "nanos \<Rightarrow> nanos option option \<Rightarrow> stop_wait" where
  \<comment> \<open>None: there is no default poster\<close>
  "shutdown timeout poster = (case poster of None \<Rightarrow> Waited 0 | Some finished \<Rightarrow> stop_poster timeout finished)"

lemma shutdown_ends: "0 < timeout \<Longrightarrow> shutdown timeout po \<noteq> Forever"
  by (auto simp: shutdown_def stop_poster_def split: option.split)

subsection \<open>The probe at the dashboard\<close>

definition at_dashboard :: "string \<Rightarrow> string \<Rightarrow> string \<Rightarrow> http_request \<Rightarrow> dash_request" where
  \<comment> \<open>how a request for a path arrives from a remote address\<close>
  "at_dashboard path remote xff hr =
     \<lparr>rq_method = hr_method hr, rq_path = path,
      rq_api_key = (case map_of (hr_headers hr) ''X-Api-Key'' of Some k \<Rightarrow> k | None \<Rightarrow> []),
      rq_query = (\<lambda>_. []), rq_remote = remote, rq_xff_ip = xff, rq_body = hr_body hr, rq_body_ok = True,
      rq_json = (map_of (hr_headers hr) ''Content-Type'' = Some ''application/json''), rq_flusher = True\<rparr>"

lemma poster_request_at [simp]:
  "rq_api_key (at_dashboard path remote xff (poster_request p b)) = po_api_key p"
  "rq_json (at_dashboard path remote xff (poster_request p b))"
  "rq_method (at_dashboard path remote xff (poster_request p b)) = ''POST''"
  "rq_path (at_dashboard path remote xff (poster_request p b)) = path"
  "rq_body (at_dashboard path remote xff (poster_request p b)) = b"
  "rq_body_ok (at_dashboard path remote xff (poster_request p b))"
  by (simp_all add: at_dashboard_def poster_request_def set_api_auth_headers_def update_conv')

definition same_data :: "dash_server \<Rightarrow> dash_server \<Rightarrow> bool" where
  "same_data s s' \<longleftrightarrow> sv_store s' = sv_store s \<and> sv_bc s' = sv_bc s \<and> sv_unblocks s' = sv_unblocks s"

lemma sanitize_keeps_msg: "map_of (sanitize_payload_fields m) ''msg'' = map_of m ''msg''"
  by (simp add: sanitize_payload_fields_def domain_fields_def sanitize_field_other)

lemma probe_payload_skipped:
  assumes "map_of m ''msg'' = Some (JStr ''_dashboard_probe'')"
  shows "process_payload E D t remote (sanitize_payload_fields m) = None"
  using assms by (simp add: process_payload_def string_or_empty_def sanitize_keeps_msg is_probe_msg_def)

definition dashboard_send ::
  "env \<Rightarrow> dash_lib \<Rightarrow> http_lib \<Rightarrow> dash_io \<Rightarrow> dash_server \<Rightarrow> string \<Rightarrow> string \<Rightarrow> http_request \<Rightarrow> http_outcome" where
  \<comment> \<open>a network that hands every request to the ingestion of a dashboard in the state \<open>s\<close>\<close>
  "dashboard_send E D H io s remote xff hr =
     Answer \<lparr>an_status = fst (snd (serve E D H io s (at_dashboard ''/api/v1/logs'' remote xff hr))),
             an_body = [], an_read_error = False, an_drain = (None, None)\<rparr>"

lemma probe_served:
  assumes "decode_payloads H bytes = Some [m]" "map_of m ''msg'' = Some (JStr ''_dashboard_probe'')"
    and "length bytes \<le> 2 ^ 20" "rq_body r = bytes" "rq_body_ok r" "rq_json r"
    and "rq_method r = ''POST''" "rq_path r = ''/api/v1/logs''"
  shows "same_data s (fst (serve E D H io s r)) \<and> fst (snd (serve E D H io s r)) =
    (if rq_api_key r \<noteq> sv_api_key s then 401
     else if fst (limiter_allow (io_now io) (client_ip r) (sv_limiter s)) then 201 else 429)"
proof -
  have "ingest_handler E D H (io_clock io) s1 r = (s1, 201, BCreated [])" for s1
    using assms(1-5) by (simp add: ingest_handler_def read_body_def probe_payload_skipped Let_def)
  then show ?thesis
    using assms(6-8)
    by (simp add: serve_def require_api_key_def rate_limit_middleware_def allow_content_type_def same_data_def
        case_prod_unfold Let_def)
qed

text \<open>C29: The probe of a filter tells whether its key is the one of the dashboard, and leaves no trace
  there. Sent to a dashboard in any state it can reach, the probe reports an error exactly when the keys
  differ (401) or the rate limit of the sender is used up (429); in every case the log, the subscribers
  and the unblock requests are what they were, so that no entry of a probe is ever shown. The JSON
  encoder's output is what the dashboard decodes, and it is shorter than a megabyte.\<close>

theorem probe_tells_key:
  assumes "run_dashboard getenv parse_float version = Inr cfg" "dash_reach E D H cfg s rs"
    and "json_wire L H (probe_attrs L now)"
    and "\<And>bytes. ll_marshal L (probe_attrs L now) = Some bytes \<Longrightarrow> length bytes \<le> 2 ^ 20"
  shows "\<exists>bytes. ll_marshal L (probe_attrs L now) = Some bytes \<and>
    (let r = at_dashboard ''/api/v1/logs'' remote xff (poster_request p bytes)
     in same_data s (fst (serve E D H io s r)) \<and>
        fst (probe L now (dashboard_send E D H io s remote xff) p) =
          (if po_api_key p \<noteq> cf_api_key cfg then Some (Probe_status 401)
           else if fst (limiter_allow (io_now io) (client_ip r) (sv_limiter s)) then None
           else Some (Probe_status 429)))"
proof -
  have key: "sv_api_key s = cf_api_key cfg" using reach_inv [OF assms(2)] by (simp add: dash_inv_def)
  obtain bytes m where b: "ll_marshal L (probe_attrs L now) = Some bytes" "decode_payloads H bytes = Some [m]"
    "\<forall>k. map_of m k = map_option json_of (map_of (probe_attrs L now) k)"
    using assms(3) by (auto simp: json_wire_def)
  let ?r = "at_dashboard ''/api/v1/logs'' remote xff (poster_request p bytes)"
  have "map_of m ''msg'' = Some (JStr ''_dashboard_probe'')" using b(3) by (simp add: probe_attrs_def)
  from probe_served [OF b(2) this assms(4) [OF b(1)], of ?r s E D io]
  have "same_data s (fst (serve E D H io s ?r))" "fst (snd (serve E D H io s ?r)) =
    (if po_api_key p \<noteq> cf_api_key cfg then 401
     else if fst (limiter_allow (io_now io) (client_ip ?r) (sv_limiter s)) then 201 else 429)"
    by (simp_all add: key)
  then show ?thesis
    using b(1) by (simp add: probe_def dashboard_send_def success_status_def Let_def)
qed

definition probe_log_lib :: log_lib where
  "probe_log_lib = \<lparr>ll_format_time = (\<lambda>_. ''t''), ll_marshal = (\<lambda>_. Some ''p'')\<rparr>"

definition probe_http_lib :: http_lib where
  "probe_http_lib =
     \<lparr>hl_payloads = (\<lambda>_. None),
      hl_object = (\<lambda>_. Some [(''time'', JStr ''t''), (''msg'', JStr ''_dashboard_probe'')]),
      hl_unblock = (\<lambda>_ _. None), hl_ack = (\<lambda>_ _. None)\<rparr>"

theorem probe_tells_key_witness:
  "fst (probe probe_log_lib 0 (dashboard_send ascii_env sample_dash_lib probe_http_lib sample_io
      (new_server 0 sample_config) ''10.0.0.1:5'' []) (new_poster (\<lambda>_. []) (\<lambda>_. None) ''http://d'' ''guess'' 0)) =
   Some (Probe_status 401)"
proof -
  have run: "run_dashboard sample_getenv (\<lambda>_. None) ''1'' = Inr sample_config" by code_simp
  have wire: "json_wire probe_log_lib probe_http_lib (probe_attrs probe_log_lib 0)"
    unfolding json_wire_def
    by (rule exI [of _ "''p''"]) (simp add: decode_payloads_def probe_http_lib_def probe_attrs_def probe_log_lib_def)
  have "length bytes \<le> 2 ^ 20" if "ll_marshal probe_log_lib (probe_attrs probe_log_lib 0) = Some bytes" for bytes
    using that by (auto simp: probe_log_lib_def)
  moreover have reach: "dash_reach ascii_env sample_dash_lib probe_http_lib sample_config (new_server 0 sample_config) []"
    by (rule reach_start)
  have key: "po_api_key (new_poster (\<lambda>_. []) (\<lambda>_. None) ''http://d'' ''guess'' 0) \<noteq> cf_api_key sample_config"
    by (simp add: new_poster_def sample_config_def Let_def)
  ultimately show ?thesis
    using key probe_tells_key [OF run reach wire, where remote = "''10.0.0.1:5''" and xff = "[]"
      and p = "new_poster (\<lambda>_. []) (\<lambda>_. None) ''http://d'' ''guess'' 0" and io = sample_io]
    unfolding Let_def by auto
qed

end
