(* ===== verification/Pollers.thy ===== *)
theory Pollers
  imports RemoteUnblock Learner
begin

text \<open>
  The loops of the background goroutines of \<^verbatim>\<open>internal/g0efilter/app.go\<close> and
  \<^verbatim>\<open>learner.go\<close>. Each waits for its ticker or the end of the context; a list says what happened
  before each tick that was taken, and the end of the list is the end of the context.
\<close>

subsection \<open>The learner\<close>

definition record_all :: "env \<Rightarrow> yaml \<Rightarrow> learn_entry list \<Rightarrow> learn_state \<Rightarrow> learn_state" where
  "record_all E Y es s = foldl (\<lambda>s e. learn_step E Y s (Record e)) s es"

fun learner_run :: "env \<Rightarrow> yaml \<Rightarrow> learn_entry list list \<Rightarrow> learn_entry list \<Rightarrow> learn_state \<Rightarrow> learn_state" where
  \<comment> \<open>the values recorded before each tick, and those before the context ended\<close>
  "learner_run E Y [] late s = learn_step E Y (record_all E Y late s) Flush"
| "learner_run E Y (es # ticks) late s = learner_run E Y ticks late (learn_step E Y (record_all E Y es s) Flush)"

lemma record_all_events: "record_all E Y es s = foldl (learn_step E Y) s (map Record es)"
  by (induction es arbitrary: s) (simp_all add: record_all_def)

lemma learner_run_events:
  "learner_run E Y ticks late s =
     foldl (learn_step E Y) s (concat (map (\<lambda>es. map Record es @ [Flush]) ticks) @ map Record late @ [Flush])"
  by (induction ticks arbitrary: s) (simp_all add: record_all_events)

lemma observed_simps [simp]:
  "observed (xs @ ys) = observed xs @ observed ys"
  "observed [] = []" "observed (Flush # evs) = observed evs"
  "observed (map Record es) = filter (\<lambda>e. le_value e \<noteq> []) es"
  by (simp_all add: observed_def) (induction es; simp)

text \<open>When the context ends nothing that was recorded waits: the learner leaves with an empty queue,
  and every different value, up to the limit, was handed to the policy file.\<close>

theorem learner_leaves_nothing:
  assumes "\<forall>e \<in> set (concat ticks @ late). CHR '':'' \<notin> set (le_kind e)"
    and "s = learner_run E Y ticks late (learn_start path fs)"
  shows "ln_pending (ls_learner s) = [] \<and>
    ls_handed s = take 10000 (firsts (filter (\<lambda>e. le_value e \<noteq> []) (concat ticks @ late)))"
proof -
  let ?evs = "concat (map (\<lambda>es. map Record es @ [Flush]) ticks) @ map Record late @ [Flush]"
  have "observed (concat (map (\<lambda>es. map Record es @ [Flush]) ticks)) = filter (\<lambda>e. le_value e \<noteq> []) (concat ticks)"
    by (induction ticks) simp_all
  then have o: "observed ?evs = filter (\<lambda>e. le_value e \<noteq> []) (concat ticks @ late)" by simp
  have "\<forall>e \<in> set (observed ?evs). CHR '':'' \<notin> set (le_kind e)"
    unfolding o using assms(1) by auto
  from learn_run_inv [OF this, of E Y path fs]
  have "learn_inv E Y path fs (observed ?evs) s" by (simp only: assms(2) learner_run_events)
  moreover have "ln_pending (ls_learner s) = []"
    by (simp add: assms(2) learner_run_events learn_step_def learner_flush_def Let_def)
  ultimately show ?thesis by (simp only: learn_inv_def learner_max_seen_def o append_Nil2 simp_thms)
qed

text \<open>An entry whose append fails is not tried again: it leaves the queue but stays among the values
  already seen, so that a later observation of it is ignored.\<close>

lemma failed_entry_forgotten:
  assumes "le_value e \<noteq> []" "learn_key e \<notin> set (ln_seen l)" "length (ln_seen l) < learner_max_seen"
    and "\<And>fs. append_entry E Y (ln_path l) e fs = (Inl err, fs)"
  shows "let l1 = learner_record e l; (l2, fs2) = learner_flush E Y l1 fs
    in fs2 = flush_batch E Y (ln_path l) (ln_pending l) fs \<and> ln_pending l2 = [] \<and> learner_record e l2 = l2"
  using assms
  by (simp add: learner_record_def learner_flush_def Let_def flush_batch_append)

subsection \<open>The policy watcher and the unblock poller\<close>

fun poll_policy_changes ::
  "env \<Rightarrow> yaml \<Rightarrow> (string \<Rightarrow> string) \<Rightarrow> (string \<Rightarrow> string) \<Rightarrow> nft_prog \<Rightarrow> app_config \<Rightarrow>
   (fs \<times> fs \<times> bool \<times> (string \<times> policy) option) list \<Rightarrow> string \<Rightarrow> nft_run list \<times> string" where
  \<comment> \<open>for each tick: the file system at both reads, whether the context ended meanwhile, and what the
    supervisor left in the channel\<close>
  "poll_policy_changes E Y getenv sha256 nft cfg [] lastHash = ([], lastHash)"
| "poll_policy_changes E Y getenv sha256 nft cfg ((fs1, fs2, ctxDone, ch) # ticks) lastHash =
     (let (runs, h, ch1) = check_policy_tick E Y getenv sha256 nft fs1 fs2 cfg ctxDone lastHash ch;
          (more, h1) = poll_policy_changes E Y getenv sha256 nft cfg ticks h
      in (runs @ more, h1))"

text \<open>A file that keeps its content starts nothing.\<close>

lemma unchanged_file_idle:
  assumes "\<forall>t \<in> set ticks. file_sha256_hex sha256 (fst t) (ac_policy_path cfg) = Inr h" "h \<noteq> []"
  shows "poll_policy_changes E Y getenv sha256 nft cfg ticks h = ([], h)"
  using assms(1)
proof (induction ticks)
  case (Cons t ticks)
  then show ?case by (cases t) (simp add: check_policy_tick_def assms(2))
qed simp

definition unblock_base_url :: "app_config \<Rightarrow> string" where
  "unblock_base_url cfg =
     (let baseURL = ac_dashboard_host cfg
      in if \<not> has_prefix baseURL ''http://'' \<and> \<not> has_prefix baseURL ''https://'' then ''http://'' @ baseURL else baseURL)"

fun poll_remote_unblocks ::
  "env \<Rightarrow> yaml \<Rightarrow> 'w api \<Rightarrow> api_codec \<Rightarrow> app_config \<Rightarrow> (fs \<times> 'w \<Rightarrow> fs \<times> 'w) list \<Rightarrow> fs \<times> 'w \<Rightarrow> fs \<times> 'w" where
  \<comment> \<open>for each tick: what the others did to the files and the world since the tick before\<close>
  "poll_remote_unblocks E Y client C cfg [] fw = fw"
| "poll_remote_unblocks E Y client C cfg (others # ticks) fw =
     poll_remote_unblocks E Y client C cfg ticks
       (process_remote_unblocks E Y client C (unblock_base_url cfg) cfg (others fw))"

end
