(* ===== verification/PolicyFile.thy ===== *)
theory PolicyFile
  imports Policy
begin

text \<open>
  The policy file under concurrent writers. The goroutine of the learner and the one that polls for
  unblocks both append to the file through \<^verbatim>\<open>appendToAllowlist\<close> in
  \<^verbatim>\<open>internal/policy/policy.go\<close>, which takes no lock, while the watcher reads it. An append is
  three steps for the others: it reads the file; \<^verbatim>\<open>os.WriteFile\<close> opens and truncates it; then it
  writes its bytes from the start of the file over what is there. The step relation interleaves any
  number of appends.
\<close>

datatype append_pc =
    At_load allow_field string
  | At_open string \<comment> \<open>with the bytes to write\<close>
  | At_write string
  | Finished "policy_error + unit"

definition load_phase :: "env \<Rightarrow> yaml \<Rightarrow> fs \<Rightarrow> string \<Rightarrow> allow_field \<Rightarrow> string \<Rightarrow> append_pc" where
  "load_phase E Y fs file field value =
     (case load_config Y fs file of
        Inl e \<Rightarrow> Finished (Inl e)
      | Inr cfg \<Rightarrow>
          (case add_to_allow E field value cfg of
             Inl e \<Rightarrow> Finished (Inl e)
           | Inr None \<Rightarrow> Finished (Inr ())
           | Inr (Some cfg') \<Rightarrow>
               (case marshal Y cfg' of
                  None \<Rightarrow> Finished (Inl (ErrFile ''marshal''))
                | Some bytes \<Rightarrow> At_open bytes)))"

definition open_phase :: "fs \<Rightarrow> string \<Rightarrow> string \<Rightarrow> fs \<times> append_pc" where
  "open_phase fs path bytes =
     (case fs path of
        None \<Rightarrow> (fs(path \<mapsto> \<lparr>regular = True, readable = True, writable = True, data = []\<rparr>), At_write bytes)
      | Some n \<Rightarrow> if writable n then (fs(path \<mapsto> n\<lparr>data := []\<rparr>), At_write bytes)
                  else (fs, Finished (Inl (ErrFile ''write''))))"

definition write_phase :: "fs \<Rightarrow> string \<Rightarrow> string \<Rightarrow> fs \<times> append_pc" where
  \<comment> \<open>the file that was opened is still there; the bytes go to its start\<close>
  "write_phase fs path bytes =
     (case fs path of
        None \<Rightarrow> (fs, Finished (Inr ()))
      | Some n \<Rightarrow> (fs(path \<mapsto> n\<lparr>data := bytes @ drop (length bytes) (data n)\<rparr>), Finished (Inr ())))"

definition append_step :: "env \<Rightarrow> yaml \<Rightarrow> string \<Rightarrow> fs \<Rightarrow> append_pc \<Rightarrow> fs \<times> append_pc" where
  "append_step E Y file fs pc =
     (case pc of
        At_load field value \<Rightarrow> (fs, load_phase E Y fs file field value)
      | At_open bytes \<Rightarrow> open_phase fs (path_clean file) bytes
      | At_write bytes \<Rightarrow> write_phase fs (path_clean file) bytes
      | Finished r \<Rightarrow> (fs, pc))"

text \<open>A schedule says which append moves next.\<close>

definition sched_step :: "env \<Rightarrow> yaml \<Rightarrow> string \<Rightarrow> fs \<times> append_pc list \<Rightarrow> nat \<Rightarrow> fs \<times> append_pc list" where
  "sched_step E Y file s i =
     (case s of (fs, pcs) \<Rightarrow>
        if i < length pcs then (let (fs', pc) = append_step E Y file fs (pcs ! i) in (fs', pcs[i := pc])) else s)"

definition run_schedule :: "env \<Rightarrow> yaml \<Rightarrow> string \<Rightarrow> fs \<times> append_pc list \<Rightarrow> nat list \<Rightarrow> fs \<times> append_pc list" where
  "run_schedule E Y file s is = foldl (sched_step E Y file) s is"

subsection \<open>One append by itself\<close>

lemma run_schedule_simps [simp]:
  "run_schedule E Y file s [] = s"
  "run_schedule E Y file s (i # is) = run_schedule E Y file (sched_step E Y file s i) is"
  "run_schedule E Y file s (is @ js) = run_schedule E Y file (run_schedule E Y file s is) js"
  by (simp_all add: run_schedule_def)

text \<open>Its three steps without others in between are \<open>append_to_allowlist\<close>.\<close>

lemma append_alone:
  assumes "i < length pcs" "pcs ! i = At_load f v"
  shows "run_schedule E Y file (fs, pcs) [i, i, i] =
    (let (r, fs') = append_to_allowlist E Y fs file f v in (fs', pcs[i := Finished r]))"
  using assms
  by (auto simp: sched_step_def append_step_def load_phase_def open_phase_def write_phase_def
      append_to_allowlist_def write_file_def Let_def split: sum.split option.split)

subsection \<open>Appends one after the other\<close>

text \<open>What the same appends do when each returns before the next begins.\<close>

fun append_all :: "env \<Rightarrow> yaml \<Rightarrow> string \<Rightarrow> fs \<Rightarrow> (allow_field \<times> string) list \<Rightarrow>
    (policy_error + unit) list \<times> fs" where
  "append_all E Y file fs [] = ([], fs)"
| "append_all E Y file fs ((field, value) # rest) =
     (let (r, fs1) = append_to_allowlist E Y fs file field value;
          (rs, fs2) = append_all E Y file fs1 rest
      in (r # rs, fs2))"

definition one_by_one :: "nat \<Rightarrow> nat \<Rightarrow> nat list" where
  "one_by_one a n = concat (map (\<lambda>i. [i, i, i]) [a..<a + n])"

lemma one_by_one_Suc: "one_by_one a (Suc n) = [a, a, a] @ one_by_one (Suc a) n"
  by (simp add: one_by_one_def upt_rec [of a "Suc (a + n)"] del: upt_Suc)

lemma serial_from:
  "run_schedule E Y file (fs, dn @ map (\<lambda>(f, v). At_load f v) xs) (one_by_one (length dn) (length xs)) =
    (let (rs, fs') = append_all E Y file fs xs in (fs', dn @ map Finished rs))"
proof (induction xs arbitrary: fs dn)
  case Nil
  then show ?case by (simp add: one_by_one_def)
next
  case (Cons x xs)
  obtain f v where x: "x = (f, v)" by (cases x)
  obtain r fs1 where a: "append_to_allowlist E Y fs file f v = (r, fs1)" by fastforce
  have "run_schedule E Y file (fs, dn @ At_load f v # map (\<lambda>(f, v). At_load f v) xs)
      [length dn, length dn, length dn] =
    (fs1, (dn @ [Finished r]) @ map (\<lambda>(f, v). At_load f v) xs)"
    by (subst append_alone [where f = f and v = v]) (simp_all add: a)
  then show ?case
    using Cons.IH [where fs = fs1 and dn = "dn @ [Finished r]"]
    by (simp only: x one_by_one_Suc run_schedule_simps list.map case_prod_conv list.size
        length_append One_nat_def add_Suc_right add_0_right append_all.simps a Let_def)
      (simp split: prod.split)
qed

text \<open>Appends that do not overlap have the result of the calls in that order.\<close>

theorem serial_appends:
  "run_schedule E Y file (fs, map (\<lambda>(f, v). At_load f v) xs) (one_by_one 0 (length xs)) =
    (let (rs, fs') = append_all E Y file fs xs in (fs', map Finished rs))"
  using serial_from [where dn = "[]"] by simp

subsection \<open>Appends that overlap\<close>

text \<open>Two appends that both read the file before either writes it report success, but only the
  value of the second is in the file.\<close>

lemma lost_append:
  assumes "fs (path_clean file) = Some n" "writable n" "load_config Y fs file = Inr cfg"
    and "add_to_allow E f1 v1 cfg = Inr (Some c1)" "marshal Y c1 = Some b1"
    and "add_to_allow E f2 v2 cfg = Inr (Some c2)" "marshal Y c2 = Some b2"
  shows "run_schedule E Y file (fs, [At_load f1 v1, At_load f2 v2]) [0, 1, 0, 0, 1, 1] =
    (fs(path_clean file \<mapsto> n\<lparr>data := b2\<rparr>), [Finished (Inr ()), Finished (Inr ())])"
  using assms by (simp add: sched_step_def append_step_def load_phase_def open_phase_def write_phase_def)

text \<open>When both have truncated the file before either writes, the end of the longer text stays
  behind the shorter one.\<close>

lemma mixed_append:
  assumes "fs (path_clean file) = Some n" "writable n" "load_config Y fs file = Inr cfg"
    and "add_to_allow E f1 v1 cfg = Inr (Some c1)" "marshal Y c1 = Some b1"
    and "add_to_allow E f2 v2 cfg = Inr (Some c2)" "marshal Y c2 = Some b2"
  shows "run_schedule E Y file (fs, [At_load f1 v1, At_load f2 v2]) [0, 1, 0, 1, 0, 1] =
    (fs(path_clean file \<mapsto> n\<lparr>data := b2 @ drop (length b2) b1\<rparr>), [Finished (Inr ()), Finished (Inr ())])"
  using assms by (simp add: sched_step_def append_step_def load_phase_def open_phase_def write_phase_def)

text \<open>Between its second and third step an append leaves the file empty. The YAML library reads an
  empty text as the configuration without entries, so a reader that comes then is given a policy that
  neither allows nor denies anything and names no default action.\<close>

lemma truncated_read:
  assumes "fs (path_clean file) = Some n" "regular n" "readable n" "writable n"
    and "\<not> str_contains (path_clean file) ''..''"
    and "load_config Y fs file = Inr cfg" "add_to_allow E f v cfg = Inr (Some c)" "marshal Y c = Some b"
    and "unmarshal Y [] = Some \<lparr>cfg_default_action = [], cfg_allow = \<lparr>IPs = [], Domains = []\<rparr>,
      cfg_deny = \<lparr>IPs = [], Domains = []\<rparr>\<rparr>"
    and "\<forall>x. getenv x = []" "to_lower E [] = []"
  shows "read E Y getenv (fst (run_schedule E Y file (fs, [At_load f v]) [0, 0])) file =
    Inr \<lparr>DefaultAction = [], AllowIPs = [], AllowDomains = [], DenyIPs = [], DenyDomains = []\<rparr>"
proof -
  let ?fs = "fst (run_schedule E Y file (fs, [At_load f v]) [0, 0])"
  have "?fs = fs(path_clean file \<mapsto> n\<lparr>data := []\<rparr>)"
    using assms by (simp add: sched_step_def append_step_def load_phase_def open_phase_def)
  then have "load_config Y ?fs file = Inr \<lparr>cfg_default_action = [], cfg_allow = \<lparr>IPs = [], Domains = []\<rparr>,
      cfg_deny = \<lparr>IPs = [], Domains = []\<rparr>\<rparr>"
    using assms by (simp add: load_config_def Let_def)
  moreover have "trim_space [] = []" by code_simp
  ultimately show ?thesis
    using assms(10, 11) by (simp add: read_def validate_default_action_def validate_lists_def Let_def)
qed

end
